(* ===== verification/Prelude.thy ===== *)
theory Prelude
  imports Main "HOL-Library.Word"
begin

text \<open>
  Shared vocabulary of the development: the Go \<open>int\<close> at its 64-bit width, big-endian
  byte groups, option-valued list access, and the word, list and map lemmas that the component
  theories use.  Machine words are read with \<open>unat\<close>; the collection \<open>wbounds\<close>
  holds the transfer lemmas.
\<close>

unbundle bit_operations_syntax

named_theorems wbounds
named_theorems go_std

type_synonym byte = "8 word"
type_synonym u16 = "16 word"
type_synonym u32 = "32 word"
type_synonym u64 = "64 word"

section \<open>The 64-bit signed integer\<close>

definition i64 :: "int \<Rightarrow> int" where
  "i64 x = (x + 9223372036854775808) mod 18446744073709551616 - 9223372036854775808"

definition in_i64 :: "int \<Rightarrow> bool" where
  "in_i64 x \<longleftrightarrow> - 9223372036854775808 \<le> x \<and> x < 9223372036854775808"

lemma i64_id [simp]: "in_i64 x \<Longrightarrow> i64 x = x"
  by (simp add: i64_def in_i64_def)

lemma in_i64_i64 [simp]: "in_i64 (i64 x)"
  by (simp add: i64_def in_i64_def)

text \<open>Go's integer division truncates toward zero; division by zero is a run-time panic and
  is handled where it can happen.\<close>

definition go_div :: "int \<Rightarrow> int \<Rightarrow> int" where
  "go_div a b = i64 (sgn a * sgn b * (\<bar>a\<bar> div \<bar>b\<bar>))"

lemma go_div_nonneg:
  assumes "0 \<le> a" "0 < b" "in_i64 a"
  shows "go_div a b = a div b"
proof -
  have "a div b \<le> a div 1" using assms by (intro zdiv_mono2) auto
  then have "a div b \<le> a" by simp
  moreover have "0 \<le> a div b" using assms by (simp add: pos_imp_zdiv_nonneg_iff)
  ultimately have "in_i64 (a div b)" using assms(3) by (auto simp: in_i64_def)
  then show ?thesis using assms by (auto simp: go_div_def sgn_if)
qed

section \<open>Words\<close>

lemma unat_plus_nowrap [wbounds]:
  fixes x y :: "'a::len word"
  assumes "unat x + unat y < 2 ^ LENGTH('a)"
  shows "unat (x + y) = unat x + unat y"
  using assms by (simp add: unat_word_ariths)

lemma unat_succ [wbounds]:
  fixes x y :: "'a::len word"
  assumes "x < y"
  shows "unat (x + 1) = unat x + 1"
proof -
  have "unat x < unat y" using assms by (simp add: word_less_nat_alt)
  moreover have "unat y < 2 ^ LENGTH('a)" by (rule unsigned_less)
  ultimately have "unat x + 1 < 2 ^ LENGTH('a)" by linarith
  then show ?thesis by (simp add: unat_word_ariths)
qed

lemma unat_minus_le [wbounds]:
  fixes x y :: "'a::len word"
  assumes "y \<le> x"
  shows "unat (x - y) = unat x - unat y"
  using assms by (simp add: unat_sub)

lemma unat_pred [wbounds]:
  fixes x y :: "'a::len word"
  assumes "y < x"
  shows "unat (x - 1) = unat x - 1"
proof -
  have "1 \<le> x" using assms by (metis word_le_less_eq word_less_1 word_not_simps(1) linorder_not_le)
  then show ?thesis by (simp add: unat_minus_le)
qed

section \<open>Results as sums\<close>

lemma map_sum_Inr_iff [simp]: "map_sum f g x = Inr y \<longleftrightarrow> (\<exists>z. x = Inr z \<and> y = g z)"
  by (cases x) auto

lemma map_sum_Inl_iff [simp]: "map_sum f g x = Inl e \<longleftrightarrow> (\<exists>z. x = Inl z \<and> e = f z)"
  by (cases x) auto

text \<open>Filtering a map, kept as an association list, by its values.\<close>

lemma map_of_filter_value:
  "distinct (map fst t) \<Longrightarrow> map_of (filter (\<lambda>(k, v). P v) t) k = (case map_of t k of Some v \<Rightarrow> if P v then Some v else None | None \<Rightarrow> None)"
proof (induction t)
  case (Cons e t)
  then have "fst e \<notin> fst ` set t" by simp
  then have "map_of t (fst e) = None" by (simp add: map_of_eq_None_iff)
  then show ?case using Cons by (cases e) auto
qed simp

end
