(* ===== verification/GoNet.thy ===== *)
theory GoNet
  imports Prelude
begin

text \<open>
  The part of Go's standard library the program's address code rests on: \<open>strings.Cut\<close>,
  \<open>strings.TrimSpace\<close>, decimal printing, \<open>binary.BigEndian\<close>, \<open>net.ParseIP\<close>
  (that is \<open>netip.ParseAddr\<close>, IPv6, zones and embedded IPv4 included), \<open>net.ParseCIDR\<close>,
  \<open>IP.To4\<close>, \<open>IP.Mask\<close>, \<open>CIDRMask\<close> and \<open>IP.String\<close> for IPv4.
  A Go string is its list of bytes (\<open>string\<close>); a \<open>net.IP\<close> is its byte slice, nil
  being the empty list.
\<close>

section \<open>Strings\<close>

definition strip_prefix :: "string \<Rightarrow> string \<Rightarrow> string option" where
  "strip_prefix p s = (if take (length p) s = p then Some (drop (length p) s) else None)"

definition has_prefix :: "string \<Rightarrow> string \<Rightarrow> bool" where
  "has_prefix s p \<longleftrightarrow> take (length p) s = p"

fun str_cut :: "string \<Rightarrow> string \<Rightarrow> (string \<times> string) option" where
  "str_cut sep [] = (if sep = [] then Some ([], []) else None)"
| "str_cut sep (c # cs) =
     (case strip_prefix sep (c # cs) of
        Some r \<Rightarrow> Some ([], r)
      | None \<Rightarrow> map_option (\<lambda>(a, b). (c # a, b)) (str_cut sep cs))"

text \<open>The UTF-8 encodings of the runes \<open>unicode.IsSpace\<close> accepts.\<close>

definition space_encodings :: "string list" where
  "space_encodings =
     [[CHR 0x09], [CHR 0x0A], [CHR 0x0B], [CHR 0x0C], [CHR 0x0D], [CHR 0x20],
      [CHR 0xC2, CHR 0x85], [CHR 0xC2, CHR 0xA0], [CHR 0xE1, CHR 0x9A, CHR 0x80]]
     @ map (\<lambda>c. [CHR 0xE2, CHR 0x80, c])
         [CHR 0x80, CHR 0x81, CHR 0x82, CHR 0x83, CHR 0x84, CHR 0x85, CHR 0x86, CHR 0x87,
          CHR 0x88, CHR 0x89, CHR 0x8A, CHR 0xA8, CHR 0xA9, CHR 0xAF]
     @ [[CHR 0xE2, CHR 0x81, CHR 0x9F], [CHR 0xE3, CHR 0x80, CHR 0x80]]"

fun trim_with :: "nat \<Rightarrow> string list \<Rightarrow> string \<Rightarrow> string" where
  "trim_with 0 encs s = s"
| "trim_with (Suc k) encs s =
     (case List.find (has_prefix s) encs of
        None \<Rightarrow> s
      | Some e \<Rightarrow> trim_with k encs (drop (length e) s))"

definition TrimSpace :: "string \<Rightarrow> string" where
  "TrimSpace s = (let l = trim_with (length s) space_encodings s
     in rev (trim_with (length l) (map rev space_encodings) (rev l)))"

definition is_digit :: "char \<Rightarrow> bool" where
  "is_digit c \<longleftrightarrow> 48 \<le> (of_char c :: int) \<and> (of_char c :: int) \<le> 57"

definition digit_val :: "char \<Rightarrow> int" where
  "digit_val c = of_char c - 48"

definition digit_char :: "int \<Rightarrow> char" where
  "digit_char d = char_of (48 + d)"

function dec_str :: "int \<Rightarrow> string" where
  "dec_str n = (if n < 10 then [digit_char n] else dec_str (n div 10) @ [digit_char (n mod 10)])"
  by pat_completeness auto
termination by (relation "measure nat") auto

declare dec_str.simps [simp del]

definition Itoa :: "int \<Rightarrow> string" where
  "Itoa n = (if n < 0 then ''-'' @ dec_str (- n) else dec_str n)"

definition dec_value :: "string \<Rightarrow> int" where
  "dec_value s = foldl (\<lambda>a c. a * 10 + digit_val c) 0 s"

text \<open>\<open>strconv.Atoi\<close>: an optional sign and decimal digits, in the range of \<open>int\<close>.\<close>

definition Atoi :: "string \<Rightarrow> int option" where
  "Atoi s =
    (let neg = (s \<noteq> [] \<and> hd s = CHR ''-'');
         ds = (if s \<noteq> [] \<and> (hd s = CHR ''-'' \<or> hd s = CHR ''+'') then tl s else s);
         v = (if neg then - dec_value ds else dec_value ds)
     in if ds = [] \<or> \<not> list_all is_digit ds then None else if in_i64 v then Some v else None)"

text \<open>\<open>strings.Split\<close> at a one-byte separator.\<close>

fun split_on :: "char \<Rightarrow> string \<Rightarrow> string list" where
  "split_on sep [] = [[]]"
| "split_on sep (c # cs) =
     (if c = sep then [] # split_on sep cs
      else (case split_on sep cs of [] \<Rightarrow> [[c]] | p # ps \<Rightarrow> (c # p) # ps))"

definition is_hex :: "char \<Rightarrow> bool" where
  "is_hex c \<longleftrightarrow> (let n = (of_char c :: int) in
     is_digit c \<or> (97 \<le> n \<and> n \<le> 102) \<or> (65 \<le> n \<and> n \<le> 70))"

definition hex_val :: "char \<Rightarrow> int" where
  "hex_val c = (let n = (of_char c :: int) in
     if n \<le> 57 then n - 48 else if n \<le> 70 then n - 55 else n - 87)"

definition hex_num :: "string \<Rightarrow> int" where
  "hex_num s = foldl (\<lambda>acc c. acc * 16 + hex_val c) 0 s"

section \<open>Big-endian words\<close>

definition be_u32 :: "byte list \<Rightarrow> u32" where
  "be_u32 bs = (case bs of
      a # b # c # d # _ \<Rightarrow> ucast a * 16777216 + ucast b * 65536 + ucast c * 256 + ucast d
    | _ \<Rightarrow> 0)"

definition put_u32 :: "u32 \<Rightarrow> byte list" where
  "put_u32 n = [ucast (drop_bit 24 n), ucast (drop_bit 16 n), ucast (drop_bit 8 n), ucast n]"

section \<open>Addresses\<close>

type_synonym go_ip = "byte list"

definition v4InV6Prefix :: "byte list" where
  "v4InV6Prefix = replicate 10 0 @ [0xff, 0xff]"

definition To4 :: "go_ip \<Rightarrow> go_ip" where
  "To4 ip = (if length ip = 4 then ip
     else if length ip = 16 \<and> take 12 ip = v4InV6Prefix then drop 12 ip else [])"

definition CIDRMask :: "nat \<Rightarrow> nat \<Rightarrow> byte list" where
  "CIDRMask ones bits = map (\<lambda>i. let k = min 8 (ones - 8 * i) in word_of_int (256 - 2 ^ (8 - k)))
     [0 ..< bits div 8]"

definition ip_mask :: "go_ip \<Rightarrow> byte list \<Rightarrow> go_ip" where
  "ip_mask ip mk =
    (let mk2 = (if length mk = 16 \<and> length ip = 4 \<and> take 12 mk = replicate 12 0xff
                  then drop 12 mk else mk);
         ip' = (if length mk2 = 4 \<and> length ip = 16 \<and> take 12 ip = v4InV6Prefix
                then drop 12 ip else ip)
     in if length ip' \<noteq> length mk2 then [] else map2 (AND) ip' mk2)"

definition v4_string :: "byte list \<Rightarrow> string" where
  "v4_string ip = (case ip of
     [a, b, c, d] \<Rightarrow> dec_str (uint a) @ ''.'' @ dec_str (uint b) @ ''.'' @ dec_str (uint c)
       @ ''.'' @ dec_str (uint d)
   | _ \<Rightarrow> ''<nil>'')"

text \<open>\<open>netip.parseIPv4Fields\<close>: \<open>val\<close> and \<open>dl\<close> are the value and the number
  of digits of the current octet; \<open>dl = 0\<close> at a dot says that the dot is the first byte or
  follows another dot.\<close>

fun parse_v4_fields :: "string \<Rightarrow> int \<Rightarrow> nat \<Rightarrow> byte list \<Rightarrow> byte list option" where
  "parse_v4_fields [] val dl fs =
     (if length fs < 3 then None else Some (fs @ [word_of_int val]))"
| "parse_v4_fields (c # cs) val dl fs =
     (if is_digit c then
        (if dl = 1 \<and> val = 0 then None
         else let v = val * 10 + digit_val c in
           if v > 255 then None else parse_v4_fields cs v (dl + 1) fs)
      else if c = CHR ''.'' then
        (if dl = 0 \<or> cs = [] then None
         else if length fs = 3 then None
         else parse_v4_fields cs 0 0 (fs @ [word_of_int val]))
      else None)"

text \<open>The loop of \<open>netip.parseIPv6\<close>: the first argument counts the 16-bit groups that
  still fit, \<open>acc\<close> holds the bytes parsed so far, \<open>ell\<close> the position of the
  ellipsis.\<close>

fun v6_loop :: "nat \<Rightarrow> string \<Rightarrow> byte list \<Rightarrow> nat option
    \<Rightarrow> (byte list \<times> nat option \<times> string) option" where
  "v6_loop 0 s acc ell = Some (acc, ell, s)"
| "v6_loop (Suc k) s acc ell =
     (let hx = takeWhile is_hex s; rest = dropWhile is_hex s in
      if length hx > 4 \<or> hx = [] then None
      else if rest \<noteq> [] \<and> hd rest = CHR ''.'' then
        (if ell = None \<and> length acc \<noteq> 12 then None
         else if length acc + 4 > 16 then None
         else map_option (\<lambda>q. (acc @ q, ell, [])) (parse_v4_fields s 0 0 []))
      else
        (let v = hex_num hx; acc' = acc @ [word_of_int (v div 256), word_of_int (v mod 256)] in
         case rest of
           [] \<Rightarrow> Some (acc', ell, [])
         | c # r \<Rightarrow>
             if c \<noteq> CHR '':'' then None
             else (case r of
                 [] \<Rightarrow> None
               | d # r' \<Rightarrow>
                   if d = CHR '':'' then
                     (if ell \<noteq> None then None
                      else if r' = [] then Some (acc', Some (length acc'), [])
                      else v6_loop k r' acc' (Some (length acc')))
                   else v6_loop k r acc' ell)))"

definition v6_finish :: "byte list \<times> nat option \<times> string \<Rightarrow> byte list option" where
  "v6_finish r = (case r of (acc, ell, s) \<Rightarrow>
     if s \<noteq> [] then None
     else if length acc < 16 then
       (case ell of None \<Rightarrow> None
        | Some e \<Rightarrow> Some (take e acc @ replicate (16 - length acc) 0 @ drop e acc))
     else if ell \<noteq> None then None else Some acc)"

text \<open>\<open>netip.ParseAddr\<close>: the bytes of the address (4 or 16) and the zone.\<close>

definition parse_v6 :: "string \<Rightarrow> (byte list \<times> string) option" where
  "parse_v6 inp =
    (let s = takeWhile (\<lambda>c. c \<noteq> CHR ''%'') inp;
         zone = (if s = inp then None else Some (drop (Suc (length s)) inp))
     in if zone = Some [] then None
        else let z = (case zone of None \<Rightarrow> [] | Some z \<Rightarrow> z) in
        if take 2 s = ''::'' then
          (if length s = 2 then Some (replicate 16 0, z)
           else map_option (\<lambda>b. (b, z))
             (Option.bind (v6_loop 8 (drop 2 s) [] (Some 0)) v6_finish))
        else map_option (\<lambda>b. (b, z)) (Option.bind (v6_loop 8 s [] None) v6_finish))"

definition parse_addr :: "string \<Rightarrow> (byte list \<times> string) option" where
  "parse_addr s =
    (case List.find (\<lambda>c. c = CHR ''.'' \<or> c = CHR '':'' \<or> c = CHR ''%'') s of
       None \<Rightarrow> None
     | Some c \<Rightarrow>
         if c = CHR ''.'' then map_option (\<lambda>b. (b, [])) (parse_v4_fields s 0 0 [])
         else if c = CHR '':'' then parse_v6 s else None)"

definition as16 :: "byte list \<Rightarrow> byte list" where
  "as16 b = (if length b = 4 then v4InV6Prefix @ b else b)"

definition ParseIP :: "string \<Rightarrow> go_ip" where
  "ParseIP s = (case parse_addr s of
     Some (b, z) \<Rightarrow> if z \<noteq> [] then [] else as16 b
   | None \<Rightarrow> [])"

text \<open>\<open>net.dtoi\<close> on a string that must be consumed whole.\<close>

fun dtoi_all :: "string \<Rightarrow> int \<Rightarrow> int option" where
  "dtoi_all [] n = Some n"
| "dtoi_all (c # cs) n =
     (if is_digit c then
        (let m = n * 10 + digit_val c in if m \<ge> 16777215 then None else dtoi_all cs m)
      else None)"

record ipnet =
  net_ip :: go_ip
  net_mask :: "byte list"

definition ParseCIDR :: "string \<Rightarrow> (go_ip \<times> ipnet) option" where
  "ParseCIDR s = (case str_cut ''/'' s of
     None \<Rightarrow> None
   | Some (addr, bits) \<Rightarrow>
       (case parse_addr addr of
          None \<Rightarrow> None
        | Some (b, z) \<Rightarrow>
            if z \<noteq> [] \<or> bits = [] then None
            else (case dtoi_all bits 0 of
                None \<Rightarrow> None
              | Some n \<Rightarrow>
                  if n > int (8 * length b) then None
                  else let m = CIDRMask (nat n) (8 * length b) in
                    Some (as16 b, \<lparr>net_ip = ip_mask (as16 b) m, net_mask = m\<rparr>))))"

definition hex_digit :: "int \<Rightarrow> char" where
  "hex_digit d = (if d < 10 then char_of (48 + d) else char_of (87 + d))"

function hex_str :: "int \<Rightarrow> string" where
  "hex_str n = (if n < 16 then [hex_digit n] else hex_str (n div 16) @ [hex_digit (n mod 16)])"
  by pat_completeness auto
termination by (relation "measure nat") auto

declare hex_str.simps [simp del]

text \<open>\<open>IP.String\<close> on sixteen bytes: the longest run of at least two zero groups, the first
  of several, is elided.\<close>

fun v6_groups :: "byte list \<Rightarrow> int list" where
  "v6_groups (a # b # bs) = (uint a * 256 + uint b) # v6_groups bs"
| "v6_groups _ = []"

fun join_colon :: "string list \<Rightarrow> string" where
  "join_colon [] = []"
| "join_colon [x] = x"
| "join_colon (x # xs) = x @ '':'' @ join_colon xs"

definition v6_string :: "byte list \<Rightarrow> string" where
  "v6_string ip =
    (let gs = v6_groups ip;
         run = (\<lambda>i. length (takeWhile (\<lambda>g. g = 0) (drop i gs)));
         (start, len) = foldl (\<lambda>(s, l) i. if run i \<ge> 2 \<and> run i > l then (i, run i) else (s, l))
           (0, 0) [0 ..< length gs];
         hexes = map hex_str gs
     in if len = 0 then join_colon hexes
        else join_colon (take start hexes) @ ''::'' @ join_colon (drop (start + len) hexes))"

definition ip_String :: "go_ip \<Rightarrow> string" where
  "ip_String ip = (if To4 ip \<noteq> [] then v4_string (To4 ip)
     else if length ip = 16 then v6_string ip else ''<nil>'')"

text \<open>\<open>IPNet.Contains\<close> with \<open>networkNumberAndMask\<close>.\<close>

definition network_and_mask :: "ipnet \<Rightarrow> go_ip \<times> byte list" where
  "network_and_mask n =
    (let ip = (if To4 (net_ip n) = [] then net_ip n else To4 (net_ip n)); m = net_mask n in
     if length ip \<noteq> 4 \<and> length ip \<noteq> 16 then ([], [])
     else if length m = 4 then (if length ip \<noteq> 4 then ([], []) else (ip, m))
     else if length m = 16 then (ip, if length ip = 4 then drop 12 m else m)
     else ([], []))"

definition IPNet_Contains :: "ipnet \<Rightarrow> go_ip \<Rightarrow> bool" where
  "IPNet_Contains n ip0 =
    (let (nn, m) = network_and_mask n; ip = (if To4 ip0 = [] then ip0 else To4 ip0) in
     length ip = length nn \<and> map2 (AND) nn m = map2 (AND) ip m)"

section \<open>Round trips of the standard library model\<close>

lemma length_put_u32 [simp]: "length (put_u32 n) = 4"
  by (simp add: put_u32_def)

lemma byte_less [simp]: "unat (b :: byte) < 256" "uint (b :: byte) < 256"
  using uint_lt2p [of b] by (auto intro: order.strict_trans2 [OF unsigned_less])

lemma u32_less [simp]: "unat (b :: u32) < 4294967296" "uint (b :: u32) < 4294967296"
  using uint_lt2p [of b] by (auto intro: order.strict_trans2 [OF unsigned_less])

lemma uint_be_u32:
  "uint (be_u32 [a, b, c, d]) = uint a * 16777216 + uint b * 65536 + uint c * 256 + uint d"
proof -
  have h: "0 \<le> uint a" "0 \<le> uint b" "0 \<le> uint c" "0 \<le> uint d"
    "uint a < 256" "uint b < 256" "uint c < 256" "uint d < 256" by simp_all
  have "be_u32 [a, b, c, d]
    = word_of_int (uint a * 16777216 + uint b * 65536 + uint c * 256 + uint d)"
    by (simp add: be_u32_def)
  moreover have "uint a * 16777216 + uint b * 65536 + uint c * 256 + uint d < 4294967296"
    using h by linarith
  moreover have "0 \<le> uint a * 16777216 + uint b * 65536 + uint c * 256 + uint d"
    using h by simp
  ultimately show ?thesis by (simp only: uint_word_of_int) simp
qed

lemma uint_put_u32:
  "map uint (put_u32 n) =
     [uint n div 16777216, uint n div 65536 mod 256, uint n div 256 mod 256, uint n mod 256]"
proof -
  have "uint n div 16777216 \<le> 4294967295 div 16777216"
    using u32_less(2) [of n] by (intro zdiv_mono1) linarith+
  then have "uint n div 16777216 < 256" by simp
  then show ?thesis
    by (simp add: put_u32_def unsigned_ucast_eq take_bit_eq_mod drop_bit_eq_div uint_div_distrib
        mod_pos_pos_trivial pos_imp_zdiv_nonneg_iff)
qed

lemma div_mod_256:
  assumes "0 \<le> (b :: int)" "b < 256"
  shows "(a * 256 + b) div 256 = a" "(a * 256 + b) mod 256 = b"
  using assms by simp_all

lemma be_u32_put_u32 [simp]: "be_u32 (put_u32 n) = n"
proof -
  obtain x y z w where e: "put_u32 n = [x, y, z, w]" by (simp add: put_u32_def)
  have q: "uint n div 65536 = uint n div 256 div 256"
    "uint n div 16777216 = uint n div 256 div 256 div 256"
    by (simp_all add: zdiv_zmult2_eq [symmetric])
  have "uint x = uint n div 16777216" "uint y = uint n div 65536 mod 256"
    "uint z = uint n div 256 mod 256" "uint w = uint n mod 256"
    using uint_put_u32 [of n] by (simp_all add: e)
  then have "uint (be_u32 (put_u32 n)) = uint n"
    unfolding e uint_be_u32 q
    using div_mult_mod_eq [of "uint n" 256] div_mult_mod_eq [of "uint n div 256" 256]
      div_mult_mod_eq [of "uint n div 256 div 256" 256]
    by linarith
  then show ?thesis by (rule unsigned_word_eqI)
qed

lemma put_u32_be_u32: "put_u32 (be_u32 [a, b, c, d]) = [a, b, c, d]"
proof -
  have b: "0 \<le> uint a" "0 \<le> uint b" "0 \<le> uint c" "0 \<le> uint d"
    "uint a < 256" "uint b < 256" "uint c < 256" "uint d < 256" by simp_all
  define v where "v = uint (be_u32 [a, b, c, d])"
  have v: "v = ((uint a * 256 + uint b) * 256 + uint c) * 256 + uint d"
    by (simp add: v_def uint_be_u32)
  have q1: "v div 256 = (uint a * 256 + uint b) * 256 + uint c" "v mod 256 = uint d"
    unfolding v using b by (simp_all only: div_mod_256)
  have q2: "v div 256 div 256 = uint a * 256 + uint b" "v div 256 mod 256 = uint c"
    unfolding q1 using b by (simp_all only: div_mod_256)
  have q3: "v div 256 div 256 div 256 = uint a" "v div 256 div 256 mod 256 = uint b"
    unfolding q2 using b by (simp_all only: div_mod_256)
  have "v div 16777216 = uint a" "v div 65536 mod 256 = uint b"
    using q3 by (simp_all add: zdiv_zmult2_eq [symmetric])
  then have "map uint (put_u32 (be_u32 [a, b, c, d])) = map uint [a, b, c, d]"
    unfolding uint_put_u32 v_def [symmetric] by (simp add: q1(2) q2(2))
  then show ?thesis
    by (rule map_injective) (rule injI, rule unsigned_word_eqI)
qed

lemma digit_char_simps [simp]:
  assumes "0 \<le> d" "d < 10"
  shows "is_digit (digit_char d)" "digit_val (digit_char d) = d"
    "digit_char d \<noteq> CHR ''.''"
proof -
  have o: "(of_char (digit_char d) :: int) = 48 + d" using assms by (simp add: digit_char_def)
  then show "is_digit (digit_char d)" "digit_val (digit_char d) = d"
    using assms by (simp_all add: is_digit_def digit_val_def)
  have "(of_char (CHR ''.'') :: int) = 46" by simp
  with o show "digit_char d \<noteq> CHR ''.''" using assms(1) by fastforce
qed

lemma dec_str_small:
  "n < 256 \<Longrightarrow> dec_str n = (if n < 10 then [digit_char n]
     else if n < 100 then [digit_char (n div 10), digit_char (n mod 10)]
     else [digit_char (n div 100), digit_char (n div 10 mod 10), digit_char (n mod 10)])"
  using dec_str.simps [of n] dec_str.simps [of "n div 10"] dec_str.simps [of "n div 100"]
  by (cases "n < 10"; cases "n < 100") (auto simp: zdiv_zmult2_eq [symmetric])

lemma parse_v4_digit:
  assumes "0 \<le> d" "d < 10" "dl = 1 \<longrightarrow> val \<noteq> 0" "val * 10 + d \<le> 255"
  shows "parse_v4_fields (digit_char d # cs) val dl fs = parse_v4_fields cs (val * 10 + d) (dl + 1) fs"
  using assms by (auto simp: Let_def)

lemma parse_v4_octet:
  assumes "0 \<le> n" "n < 256"
  shows "parse_v4_fields (dec_str n @ rest) 0 0 fs
    = parse_v4_fields rest n (length (dec_str n)) fs"
proof -
  define x y z q where "x = n div 100" and "y = n div 10 mod 10" and "z = n mod 10"
    and "q = n div 10"
  have "x = q div 10" by (simp add: x_def q_def zdiv_zmult2_eq [symmetric])
  then have e: "x * 10 + y = q" "q * 10 + z = n"
    using div_mult_mod_eq [of n 10] div_mult_mod_eq [of "n div 10" 10]
    by (simp_all add: y_def z_def q_def)
  have h: "0 \<le> x" "0 \<le> y" "y < 10" "0 \<le> z" "z < 10" "0 \<le> q"
    using assms by (simp_all add: x_def y_def z_def q_def pos_imp_zdiv_nonneg_iff)
  have s: "dec_str n = (if n < 10 then [digit_char n] else if n < 100 then [digit_char q, digit_char z]
     else [digit_char x, digit_char y, digit_char z])"
    using dec_str_small [OF assms(2)] by (simp add: x_def y_def z_def q_def)
  consider "n < 10" | "10 \<le> n" "n < 100" | "100 \<le> n" by linarith
  then show ?thesis
  proof cases
    case 1
    then show ?thesis
      using assms parse_v4_digit [of n 0 0 rest fs] by (simp add: s del: parse_v4_fields.simps)
  next
    case 2
    then have "0 < q" "q < 10" using e h by linarith+
    then show ?thesis
      using 2 h e assms parse_v4_digit [of q 0 0 "digit_char z # rest" fs]
        parse_v4_digit [of z 1 q rest fs]
      by (simp add: s del: parse_v4_fields.simps)
  next
    case 3
    then have "0 < x" "x < 10" "q \<le> 255" using e h assms by linarith+
    then show ?thesis
      using 3 h e assms parse_v4_digit [of x 0 0 "digit_char y # digit_char z # rest" fs]
        parse_v4_digit [of y 1 x "digit_char z # rest" fs] parse_v4_digit [of z "Suc (Suc 0)" q rest fs]
      by (simp add: s del: parse_v4_fields.simps)
  qed
qed

lemma dec_str_nonempty [simp]: "dec_str n \<noteq> []" "length (dec_str n) \<noteq> 0"
  by (simp_all add: dec_str.simps [of n])

lemma parse_v4_string:
  "parse_v4_fields (v4_string [a, b, c, d]) 0 0 [] = Some [a, b, c, d]"
proof -
  have nd: "\<not> is_digit (CHR ''.'')" by (simp add: is_digit_def)
  show ?thesis
    using parse_v4_octet [of "uint d" "[]"]
    by (simp add: v4_string_def parse_v4_octet nd)
qed

definition v4_char :: "char \<Rightarrow> bool" where
  "v4_char c \<longleftrightarrow> is_digit c \<or> c = CHR ''.''"

lemma dec_str_digits: "0 \<le> n \<Longrightarrow> c \<in> set (dec_str n) \<Longrightarrow> is_digit c"
proof (induction n rule: dec_str.induct)
  case (1 n)
  then show ?case
    by (subst (asm) (2) dec_str.simps) (auto split: if_splits)
qed

lemma v4_string_chars: "\<forall>x \<in> set (v4_string [a, b, c, d]). v4_char x"
  by (auto simp: v4_string_def v4_char_def dest: dec_str_digits [OF uint_ge_0])

lemma v4_char_no:
  "v4_char c \<Longrightarrow> c \<noteq> CHR '':'' \<and> c \<noteq> CHR ''%'' \<and> c \<noteq> CHR '' '' \<and> c \<noteq> CHR ''/'' \<and> c \<noteq> CHR ''-''"
  by (auto simp: v4_char_def is_digit_def)

lemma find_dot:
  assumes "\<forall>x \<in> set s. v4_char x" "CHR ''.'' \<in> set s"
  shows "List.find (\<lambda>c. c = CHR ''.'' \<or> c = CHR '':'' \<or> c = CHR ''%'') s = Some (CHR ''.'')"
  using assms by (induction s) (auto dest: v4_char_no)

lemma parse_addr_v4_string:
  "parse_addr (v4_string [a, b, c, d]) = Some ([a, b, c, d], [])"
proof -
  have "CHR ''.'' \<in> set (v4_string [a, b, c, d])" by (simp add: v4_string_def)
  then show ?thesis
    using find_dot [OF v4_string_chars] parse_v4_string by (simp add: parse_addr_def)
qed

lemma To4_ParseIP_v4_string [go_std]:
  "To4 (ParseIP (v4_string [a, b, c, d])) = [a, b, c, d]"
  by (simp add: ParseIP_def parse_addr_v4_string as16_def To4_def v4InV6Prefix_def)

lemma v4_string_nonempty [simp]: "v4_string [a, b, c, d] \<noteq> []"
  by (simp add: v4_string_def)

lemma space_encodings_heads:
  "\<forall>e \<in> set space_encodings \<union> set (map rev space_encodings).
     e \<noteq> [] \<and> \<not> v4_char (hd e) "
  by code_simp

lemma trim_with_v4:
  assumes "s \<noteq> []" "v4_char (hd s)"
    and "\<forall>e \<in> set encs. e \<noteq> [] \<and> \<not> v4_char (hd e)"
  shows "trim_with k encs s = s"
proof (cases k)
  case (Suc k')
  have "\<not> has_prefix s e" if "e \<in> set encs" for e
    using assms that by (cases e; cases s) (auto simp: has_prefix_def)
  then have "List.find (has_prefix s) encs = None" by (simp add: find_None_iff)
  then show ?thesis by (simp add: Suc)
qed simp

lemma TrimSpace_v4_chars [go_std]:
  assumes "\<forall>x \<in> set s. v4_char x"
  shows "TrimSpace s = s"
proof (cases s)
  case Nil
  then show ?thesis by (simp add: TrimSpace_def)
next
  case (Cons c cs)
  then have h: "v4_char (hd s)" "v4_char (hd (rev s))" "s \<noteq> []"
    using assms hd_in_set [of "rev s"] by auto
  then have "trim_with k space_encodings s = s"
    "trim_with k (map rev space_encodings) (rev s) = rev s" for k
    using space_encodings_heads by (auto intro!: trim_with_v4)
  then show ?thesis by (simp only: TrimSpace_def Let_def rev_rev_ident)
qed

lemma str_cut_first:
  assumes "sep \<noteq> []" "hd sep \<notin> set s"
  shows "str_cut sep (s @ sep @ t) = Some (s, t)"
  using assms
proof (induction s)
  case Nil
  then show ?case by (cases sep) (auto simp: strip_prefix_def)
next
  case (Cons c cs)
  have "strip_prefix sep (c # cs @ sep @ t) = None"
    using Cons.prems by (cases sep) (auto simp: strip_prefix_def)
  then show ?case using Cons by simp
qed

lemma dec_value_dec_str: "0 \<le> n \<Longrightarrow> dec_value (dec_str n) = n"
proof (induction n rule: dec_str.induct)
  case (1 n)
  show ?case
  proof (cases "n < 10")
    case True
    then show ?thesis using 1 by (subst dec_str.simps) (simp add: dec_value_def)
  next
    case False
    then have "dec_value (dec_str (n div 10)) = n div 10" using 1 by (simp add: pos_imp_zdiv_nonneg_iff)
    then show ?thesis
      using False by (subst dec_str.simps) (simp add: dec_value_def)
  qed
qed

lemma Itoa_inj: "Itoa m = Itoa n \<Longrightarrow> m = n"
proof -
  have d: "dec_str k = ''-'' @ s \<Longrightarrow> 0 \<le> k \<Longrightarrow> False" for k s
    using dec_str_digits [of k "CHR ''-''"] by (simp add: is_digit_def)
  have i: "dec_str k = dec_str l \<Longrightarrow> 0 \<le> k \<Longrightarrow> 0 \<le> l \<Longrightarrow> k = l" for k l
    by (metis dec_value_dec_str)
  assume e: "Itoa m = Itoa n"
  consider "m < 0" "n < 0" | "m < 0" "0 \<le> n" | "0 \<le> m" "n < 0" | "0 \<le> m" "0 \<le> n" by linarith
  then show "m = n"
    using e d [of n] d [of m] i [of m n] i [of "- m" "- n"]
    by cases (auto simp: Itoa_def dest: sym)
qed

lemma Atoi_Itoa: "in_i64 n \<Longrightarrow> Atoi (Itoa n) = Some n"
proof -
  assume n: "in_i64 n"
  have d: "list_all is_digit (dec_str k)" if "0 \<le> k" for k
    using dec_str_digits [OF that] by (simp add: list_all_iff)
  have h: "hd (dec_str k) \<noteq> CHR ''-'' \<and> hd (dec_str k) \<noteq> CHR ''+''" if "0 \<le> k" for k
    using d [OF that] dec_str_nonempty [of k] by (cases "dec_str k") (auto simp: is_digit_def)
  show ?thesis
    using n d [of n] d [of "- n"] h [of n] dec_value_dec_str [of n] dec_value_dec_str [of "- n"]
    by (cases "n < 0") (auto simp: Atoi_def Itoa_def Let_def)
qed

end
