(* ===== verification/KeaAddr.thy ===== *)
theory KeaAddr
  imports GoNet
begin

text \<open>
  \<open>src/internal/kea/addr.go\<close>: the IPv4 address geometry of the pool allocator.  An
  interval keeps the code's inclusive \<open>uint32\<close> bounds; \<open>ivl_set\<close> is the set of
  addresses it stands for, the abstraction the packing lemmas are stated over.
\<close>

definition IPToUint32 :: "go_ip \<Rightarrow> u32" where
  "IPToUint32 ip = (if To4 ip = [] then 0 else be_u32 (To4 ip))"

definition Uint32ToIP :: "u32 \<Rightarrow> go_ip" where
  "Uint32ToIP n = put_u32 n"

definition subnetUsableBounds :: "ipnet \<Rightarrow> (u32 \<times> u32) option" where
  "subnetUsableBounds n =
    (let ip = To4 (net_ip n); mk = To4 (net_mask n) in
     if ip = [] then None
     else if mk = [] then None
     else let network = be_u32 ip AND be_u32 mk;
              broadcast = network OR NOT (be_u32 mk)
          in if broadcast < network + 2 then None
             else Some (network + 1, broadcast - 1))"

definition ParsePoolRange :: "string \<Rightarrow> (u32 \<times> u32) option" where
  "ParsePoolRange r =
    (case (case str_cut '' - '' r of Some p \<Rightarrow> Some p | None \<Rightarrow> str_cut ''-'' r) of
       None \<Rightarrow> None
     | Some (s, e) \<Rightarrow>
         let start = To4 (ParseIP (TrimSpace s)); end = To4 (ParseIP (TrimSpace e)) in
         if start = [] \<or> end = [] then None else Some (be_u32 start, be_u32 end))"

text \<open>The text \<open>fmt.Sprintf("%s - %s", Uint32ToIP(a), Uint32ToIP(b))\<close> the allocator
  stores for a range.\<close>

definition range_text :: "u32 \<Rightarrow> u32 \<Rightarrow> string" where
  "range_text a b = v4_string (Uint32ToIP a) @ '' - '' @ v4_string (Uint32ToIP b)"

record poolIvl =
  lo :: u32
  hi :: u32

definition mk_ivl :: "u32 \<Rightarrow> u32 \<Rightarrow> poolIvl" where
  "mk_ivl a b = \<lparr>lo = a, hi = b\<rparr>"

lemma mk_ivl_sel [simp]: "lo (mk_ivl a b) = a" "hi (mk_ivl a b) = b"
  by (simp_all add: mk_ivl_def)

lemma ivl_eqI: "lo g = lo h \<Longrightarrow> hi g = hi h \<Longrightarrow> g = (h :: poolIvl)"
  by simp

fun freeGaps_from :: "u32 \<Rightarrow> u32 \<Rightarrow> poolIvl list \<Rightarrow> poolIvl list" where
  "freeGaps_from cur to [] = (if cur \<le> to then [mk_ivl cur to] else [])"
| "freeGaps_from cur to (iv # ivs) =
     (if lo iv > cur then [mk_ivl cur (lo iv - 1)] else [])
     @ freeGaps_from (if hi iv + 1 > cur then hi iv + 1 else cur) to ivs"

definition freeGaps :: "u32 \<Rightarrow> u32 \<Rightarrow> poolIvl list \<Rightarrow> poolIvl list" where
  "freeGaps from to reserved = freeGaps_from from to reserved"

definition ivl_size :: "poolIvl \<Rightarrow> int" where
  "ivl_size g = uint (hi g - lo g) + 1"

text \<open>The index results are \<open>None\<close> where the code returns \<open>-1\<close>.\<close>

fun firstFitGap :: "poolIvl list \<Rightarrow> int \<Rightarrow> nat option" where
  "firstFitGap [] need = None"
| "firstFitGap (g # gs) need =
     (if ivl_size g \<ge> need then Some 0 else map_option Suc (firstFitGap gs need))"

fun largestGap_from :: "nat \<Rightarrow> nat option \<Rightarrow> int \<Rightarrow> poolIvl list \<Rightarrow> nat option" where
  "largestGap_from i best bestSize [] = best"
| "largestGap_from i best bestSize (g # gs) =
     (if ivl_size g > bestSize then largestGap_from (Suc i) (Some i) (ivl_size g) gs
      else largestGap_from (Suc i) best bestSize gs)"

definition largestGapIdx :: "poolIvl list \<Rightarrow> nat option" where
  "largestGapIdx gaps = largestGap_from 0 None (-1) gaps"

definition shrinkGap :: "poolIvl list \<Rightarrow> nat \<Rightarrow> u32 \<Rightarrow> poolIvl list" where
  "shrinkGap gaps i usedHi =
    (if usedHi < hi (gaps ! i) then gaps[i := mk_ivl (usedHi + 1) (hi (gaps ! i))]
     else take i gaps @ drop (Suc i) gaps)"

section \<open>The sets of addresses\<close>

definition ivl_set :: "poolIvl \<Rightarrow> u32 set" where
  "ivl_set g = {lo g .. hi g}"

definition ivls_set :: "poolIvl list \<Rightarrow> u32 set" where
  "ivls_set gs = (\<Union>g \<in> set gs. ivl_set g)"

text \<open>What the allocator keeps of its list of gaps: intervals in ascending order, none
  empty, none touching the next.\<close>

fun gaps_ok :: "poolIvl list \<Rightarrow> bool" where
  "gaps_ok [] = True"
| "gaps_ok (g # gs) =
     (lo g \<le> hi g \<and> (\<forall>h \<in> set gs. hi g < lo h) \<and> gaps_ok gs)"

section \<open>Range texts\<close>

lemma put_u32_four: "\<exists>x y z w. put_u32 a = [x, y, z, w]"
  by (simp add: put_u32_def Let_def)

lemma Uint32ToIP_chars: "\<forall>c \<in> set (v4_string (Uint32ToIP a)). v4_char c"
  using put_u32_four [of a] v4_string_chars by (auto simp: Uint32ToIP_def)

lemma ParseIP_Uint32ToIP [go_std]:
  "To4 (ParseIP (TrimSpace (v4_string (Uint32ToIP a)))) = put_u32 a"
proof -
  obtain x y z w where e: "put_u32 a = [x, y, z, w]" using put_u32_four by blast
  show ?thesis
    unfolding TrimSpace_v4_chars [OF Uint32ToIP_chars] unfolding Uint32ToIP_def e
    by (rule To4_ParseIP_v4_string)
qed

lemma IPToUint32_Uint32ToIP: "IPToUint32 (Uint32ToIP a) = a"
  using put_u32_four [of a] by (auto simp: IPToUint32_def Uint32ToIP_def To4_def)

lemma ParsePoolRange_text: "ParsePoolRange (range_text a b) = Some (a, b)"
proof -
  have "str_cut '' - '' (v4_string (Uint32ToIP a) @ '' - '' @ v4_string (Uint32ToIP b))
    = Some (v4_string (Uint32ToIP a), v4_string (Uint32ToIP b))"
    using Uint32ToIP_chars [of a] v4_char_no by (intro str_cut_first) auto
  moreover have "put_u32 a \<noteq> []" "put_u32 b \<noteq> []"
    using put_u32_four [of a] put_u32_four [of b] by auto
  ultimately show ?thesis
    by (simp add: ParsePoolRange_def range_text_def ParseIP_Uint32ToIP Let_def)
qed

lemma range_text_nonempty [simp]: "range_text a b \<noteq> []"
  by (simp add: range_text_def)

section \<open>Subnet bounds\<close>

lemma usable_bounds_hi:
  "subnetUsableBounds n = Some (l, h) \<Longrightarrow> h < - 1"
proof -
  assume "subnetUsableBounds n = Some (l, h)"
  moreover define mk where "mk = be_u32 (To4 (net_mask n))"
  moreover define nw where "nw = be_u32 (To4 (net_ip n)) AND mk"
  moreover define bc where "bc = nw OR NOT mk"
  ultimately have e: "\<not> bc < nw + 2" "h = bc - 1"
    unfolding subnetUsableBounds_def Let_def by (auto split: if_splits)
  have "bc \<noteq> 0"
  proof
    assume z: "bc = 0"
    then have "nw = 0" unfolding bc_def or_eq_0_iff by (rule conjunct1)
    then show False using z e(1) by simp
  qed
  then have "h \<noteq> - 1" using e(2) by simp
  then show ?thesis unfolding word_order.not_eq_extremum .
qed

section \<open>The free gaps are the complement of the reserved intervals\<close>

fun res_ok :: "u32 \<Rightarrow> poolIvl list \<Rightarrow> bool" where
  "res_ok to [] = True"
| "res_ok to (g # gs) =
     (lo g \<le> hi g \<and> hi g \<le> to \<and> (\<forall>h \<in> set gs. lo g \<le> lo h) \<and> res_ok to gs)"

lemma gap_le_pred:
  fixes x y :: u32
  assumes "y < x" shows "z \<le> x - 1 \<longleftrightarrow> z < x"
proof -
  have "0 < unat x" using assms by (simp add: word_less_nat_alt)
  then show ?thesis
    unfolding word_le_nat_alt word_less_nat_alt unat_pred [OF assms] by linarith
qed

lemma gap_succ_le:
  fixes x y :: u32
  assumes "x < y" shows "x + 1 \<le> z \<longleftrightarrow> x < z" and "z < x + 1 \<longleftrightarrow> z \<le> x"
  using unat_succ [OF assms] by (auto simp: word_le_nat_alt word_less_nat_alt)

lemma ivls_set_Cons [simp]: "ivls_set (g # gs) = ivl_set g \<union> ivls_set gs"
  and ivls_set_Nil [simp]: "ivls_set [] = {}"
  and ivls_set_append [simp]: "ivls_set (gs @ hs) = ivls_set gs \<union> ivls_set hs"
  by (auto simp: ivls_set_def)

lemma freeGaps_set:
  assumes "res_ok to rs" "to < - 1"
  shows "ivls_set (freeGaps_from cur to rs) = {cur .. to} - ivls_set rs"
  using assms
proof (induction rs arbitrary: cur)
  case Nil
  then show ?case by (auto simp: ivl_set_def)
next
  case (Cons g gs)
  then have g: "lo g \<le> hi g" "hi g \<le> to" "res_ok to gs" and later: "\<forall>h \<in> set gs. lo g \<le> lo h"
    by auto
  have h1: "hi g < - 1" using g Cons.prems(2) by (rule_tac order.strict_trans1)
  note s = gap_succ_le [OF h1]
  show ?case
  proof (cases "lo g > cur")
    case True
    have "ivls_set gs \<inter> {cur .. lo g - 1} = {}"
      using later True by (fastforce simp: ivls_set_def ivl_set_def gap_le_pred)
    moreover have "{cur..lo g - 1} = {cur..<lo g}" using True by (auto simp: gap_le_pred)
    ultimately show ?thesis
      using g True s Cons.IH [OF g(3) Cons.prems(2)]
      by (auto simp: ivl_set_def not_less not_le)
  next
    case False
    then show ?thesis
      using g s Cons.IH [OF g(3) Cons.prems(2)]
      by (auto simp: ivl_set_def not_less not_le)
  qed
qed

lemma freeGaps_lower:
  "x \<in> set (freeGaps_from cur to rs) \<Longrightarrow> cur \<le> lo x"
  by (induction rs arbitrary: cur) (fastforce split: if_splits)+

lemma freeGaps_ok:
  assumes "res_ok to rs" "to < - 1"
  shows "gaps_ok (freeGaps_from cur to rs)"
  using assms
proof (induction rs arbitrary: cur)
  case (Cons g gs)
  then have g: "lo g \<le> hi g" "hi g \<le> to" "res_ok to gs" by auto
  have h1: "hi g < - 1" using g Cons.prems(2) by (rule_tac order.strict_trans1)
  note s = gap_succ_le [OF h1]
  have "lo g - 1 < lo x" if "lo g > cur" "x \<in> set (freeGaps_from (hi g + 1) to gs)" for x
  proof -
    have "hi g + 1 \<le> lo x" using freeGaps_lower [OF that(2)] .
    then have "lo g \<le> lo x" using s g(1) by (meson order.strict_implies_order order_le_less_trans)
    moreover have "lo g - 1 < lo g"
      using unat_pred [OF that(1)] that(1) by (auto simp: word_less_nat_alt)
    ultimately show ?thesis by (rule_tac order.strict_trans2)
  qed
  moreover have "hi g + 1 > cur" if "lo g > cur"
    using that g(1) s by (meson order.strict_trans order_less_le_trans)
  ultimately show ?case
    using Cons g by (auto simp: gap_le_pred)
qed auto

section \<open>Choosing and shrinking gaps\<close>

lemma ivl_size_unat: "lo g \<le> hi g \<Longrightarrow> ivl_size g = int (unat (hi g)) - int (unat (lo g)) + 1"
proof -
  assume le: "lo g \<le> hi g"
  have "uint (hi g - lo g) = int (unat (hi g - lo g))" by simp
  also have "\<dots> = int (unat (hi g)) - int (unat (lo g))"
    unfolding unat_minus_le [OF le] using le by (simp add: word_le_nat_alt of_nat_diff)
  finally show ?thesis by (simp add: ivl_size_def)
qed

lemma gaps_ok_nth: "gaps_ok gs \<Longrightarrow> i < length gs \<Longrightarrow> lo (gs ! i) \<le> hi (gs ! i)"
  by (induction gs arbitrary: i) (auto simp: nth_Cons split: nat.splits)

lemma gaps_ok_append:
  "gaps_ok (xs @ ys) \<longleftrightarrow> gaps_ok xs \<and> gaps_ok ys
     \<and> (\<forall>x \<in> set xs. \<forall>y \<in> set ys. hi x < lo y)"
  by (induction xs) auto

lemma firstFitGap_Some:
  "firstFitGap gs need = Some i \<Longrightarrow>
     i < length gs \<and> ivl_size (gs ! i) \<ge> need \<and> (\<forall>j < i. ivl_size (gs ! j) < need)"
proof (induction gs arbitrary: i)
  case (Cons g gs)
  then show ?case
    by (auto simp: nth_Cons split: if_splits nat.splits)
qed simp

lemma firstFitGap_None: "firstFitGap gs need = None \<longleftrightarrow> (\<forall>g \<in> set gs. ivl_size g < need)"
  by (induction gs) auto

lemma largestGap_from_spec:
  assumes "largestGap_from i best bs gs = r" "bs \<ge> - 1"
    and "best = None \<longleftrightarrow> bs = - 1"
  shows "(r = best \<and> (\<forall>g \<in> set gs. ivl_size g \<le> bs)) \<or>
     (\<exists>k < length gs. r = Some (i + k) \<and> ivl_size (gs ! k) > bs \<and>
        (\<forall>g \<in> set gs. ivl_size g \<le> ivl_size (gs ! k)))"
  using assms
proof (induction gs arbitrary: i best bs)
  case (Cons g gs)
  show ?case
  proof (cases "ivl_size g > bs")
    case True
    have "- 1 \<le> ivl_size g" "ivl_size g \<noteq> -1" using True Cons.prems(2) by linarith+
    then consider "r = Some i" "\<forall>h \<in> set gs. ivl_size h \<le> ivl_size g"
      | k where "k < length gs" "r = Some (Suc i + k)" "ivl_size (gs ! k) > ivl_size g"
        "\<forall>h \<in> set gs. ivl_size h \<le> ivl_size (gs ! k)"
      using Cons.IH [of "Suc i" "Some i" "ivl_size g"] Cons.prems True by auto
    then show ?thesis
    proof cases
      case 1
      then show ?thesis using True by (intro disjI2 exI [of _ 0]) auto
    next
      case (2 k)
      then show ?thesis using True by (intro disjI2 exI [of _ "Suc k"]) auto
    qed
  next
    case False
    then have "largestGap_from (Suc i) best bs gs = r" using Cons.prems by simp
    then consider "r = best" "\<forall>h \<in> set gs. ivl_size h \<le> bs"
      | k where "k < length gs" "r = Some (Suc i + k)" "ivl_size (gs ! k) > bs"
        "\<forall>h \<in> set gs. ivl_size h \<le> ivl_size (gs ! k)"
      using Cons.IH [of "Suc i" best bs] Cons.prems by auto
    then show ?thesis
    proof cases
      case 1
      then show ?thesis using False by auto
    next
      case (2 k)
      then show ?thesis using False by (intro disjI2 exI [of _ "Suc k"]) auto
    qed
  qed
qed auto

lemma ivl_size_pos: "0 < ivl_size g"
  unfolding ivl_size_def using uint_ge_0 [of "hi g - lo g"] by linarith

lemma largestGapIdx_Some:
  assumes "largestGapIdx gs = Some i"
  shows "i < length gs \<and> (\<forall>g \<in> set gs. ivl_size g \<le> ivl_size (gs ! i))"
  using largestGap_from_spec [OF assms [unfolded largestGapIdx_def]] by auto

lemma largestGapIdx_None: "largestGapIdx gs = None \<longleftrightarrow> gs = []"
proof
  assume "largestGapIdx gs = None"
  then have "\<forall>g \<in> set gs. ivl_size g \<le> - 1"
    using largestGap_from_spec [of 0 None "-1" gs None] by (auto simp: largestGapIdx_def)
  moreover have "\<not> ivl_size g \<le> - 1" for g using ivl_size_pos [of g] by linarith
  ultimately show "gs = []" by (cases gs) auto
qed (simp add: largestGapIdx_def)

text \<open>Claiming \<open>[lo, e]\<close> of a gap removes exactly these addresses and keeps the list of
  gaps well-formed.\<close>

lemma shrinkGap_ok:
  assumes "gaps_ok gs" "i < length gs" "lo (gs ! i) \<le> e" "e \<le> hi (gs ! i)"
  shows "gaps_ok (shrinkGap gs i e)"
    and "ivls_set (shrinkGap gs i e) = ivls_set gs - {lo (gs ! i) .. e}"
proof -
  let ?g = "gs ! i" let ?a = "take i gs" let ?b = "drop (Suc i) gs"
  have split: "gs = ?a @ ?g # ?b" using assms(2) by (rule id_take_nth_drop)
  have ok: "gaps_ok ?a" "gaps_ok ?b" "lo ?g \<le> hi ?g"
    and before: "\<forall>x \<in> set ?a. hi x < lo ?g" and after: "\<forall>y \<in> set ?b. hi ?g < lo y"
    and across: "\<forall>x \<in> set ?a. \<forall>y \<in> set ?b. hi x < lo y"
    using assms(1) split gaps_ok_append [of ?a "?g # ?b"] by auto
  have out: "ivls_set ?a \<inter> {lo ?g .. e} = {}" "ivls_set ?b \<inter> {lo ?g .. e} = {}"
    using before after assms(4) by (fastforce simp: ivls_set_def ivl_set_def)+
  have all: "ivls_set gs = ivls_set ?a \<union> (ivl_set ?g \<union> ivls_set ?b)"
    by (subst split) simp
  show "gaps_ok (shrinkGap gs i e)"
  proof (cases "e < hi ?g")
    case True
    then have "gs[i := mk_ivl (e + 1) (hi ?g)] = ?a @ mk_ivl (e + 1) (hi ?g) # ?b"
      using assms(2) by (simp add: upd_conv_take_nth_drop)
    moreover have "\<forall>x \<in> set ?a. hi x < e + 1"
      using before assms(3) gap_succ_le [OF True] by fastforce
    ultimately show ?thesis
      using True ok after across gap_succ_le [OF True]
      by (simp add: shrinkGap_def gaps_ok_append)
  next
    case False
    then show ?thesis using ok across by (simp add: shrinkGap_def gaps_ok_append)
  qed
  show "ivls_set (shrinkGap gs i e) = ivls_set gs - {lo ?g .. e}"
  proof (cases "e < hi ?g")
    case True
    then have "gs[i := mk_ivl (e + 1) (hi ?g)] = ?a @ mk_ivl (e + 1) (hi ?g) # ?b"
      using assms(2) by (simp add: upd_conv_take_nth_drop)
    moreover have "ivl_set (mk_ivl (e + 1) (hi ?g)) = ivl_set ?g - {lo ?g .. e}"
      using gap_succ_le [OF True] assms(3) by (auto simp: ivl_set_def)
    ultimately show ?thesis using True out all by (simp add: shrinkGap_def) blast
  next
    case False
    then have "e = hi ?g" using assms(4) by simp
    then show ?thesis using False out all by (simp add: shrinkGap_def ivl_set_def) blast
  qed
qed

end
