(* ===== verification/KeaClasses.thy ===== *)
theory KeaClasses
  imports GoNet
begin

text \<open>
  \<open>src/internal/kea/classes.go\<close> and \<open>vendors.go\<close>: the table of Green-GO device
  classes, the Kea client-class expressions built from it and the classification of a MAC by the
  same table.  The expressions are the strings the code writes; \<open>kexpr\<close> is the abstract
  syntax of the fragment of Kea's expression language they use, with \<open>kexpr_text\<close> its
  concrete text and \<open>keval\<close> its meaning on the hex string of a MAC, so that the texts can be
  compared with \<open>ClassifyMAC\<close>.  \<open>ToLower\<close> is the ASCII case mapping.
\<close>

definition lower_char :: "char \<Rightarrow> char" where
  "lower_char c = (let n = (of_char c :: int) in if 65 \<le> n \<and> n \<le> 90 then char_of (n + 32) else c)"

definition ToLower :: "string \<Rightarrow> string" where
  "ToLower s = map lower_char s"

fun Join :: "string list \<Rightarrow> string \<Rightarrow> string" where
  "Join [] sep = []"
| "Join [x] sep = x"
| "Join (x # y # ys) sep = x @ sep @ Join (y # ys) sep"

record DeviceClass =
  dc_Name :: string
  dc_CountKey :: string
  dc_Prefixes :: "string list"
  dc_Label :: string
  dc_Icon :: string
  dc_Codes :: string

definition mk_dc :: "string \<Rightarrow> string \<Rightarrow> string list \<Rightarrow> string \<Rightarrow> string \<Rightarrow> string \<Rightarrow> DeviceClass" where
  "mk_dc n k p l i c = \<lparr>dc_Name = n, dc_CountKey = k, dc_Prefixes = p, dc_Label = l,
     dc_Icon = i, dc_Codes = c\<rparr>"

definition DeviceClasses :: "DeviceClass list" where
  "DeviceClasses =
   [mk_dc ''GGO-BPX'' ''count_bpx'' [''20''] ''Beltpacks'' ''bpx'' ''BPX / BP2'',
    mk_dc ''GGO-MCX-D'' ''count_mcx'' [''220'', ''225''] ''Multi-Channel'' ''mcx'' ''MCX / MCXD'',
    mk_dc ''GGO-MCD-MCR'' ''count_mcd'' [''210''] ''Desktop / Rack'' ''mcd'' ''MCD / MCR'',
    mk_dc ''GGO-WP-X'' ''count_wpx'' [''213''] ''Wall Panels'' ''wpx'' ''WPX / WP'',
    mk_dc ''GGO-STRIDE'' ''count_stride'' [''230''] ''STRIDE Antennas'' ''radio-tower'' ''STRIDE'',
    mk_dc ''GGO-WAA'' ''count_waa'' [''216'', ''223''] ''Active Antennas'' ''radio-tower'' ''WAA'',
    mk_dc ''GGO-RDX-SI-BEACON'' ''count_beacon'' [''217'', ''224'', ''226''] ''Radio, SI & Beacon''
      ''beacon'' ''RDX / SI2WR / SI4WR / Beacon'',
    mk_dc ''GGO-INTERFACE-Q4WR'' ''count_interface'' [''211''] ''Interfaces'' ''interface''
      ''INTERFACEX / Q4WR'',
    mk_dc ''GGO-BRIDGE-DANTEX'' ''count_bridge'' [''214''] ''Bridges / Dante'' ''bridge''
      ''BRIDGEX / DANTEX'',
    mk_dc ''GGO-SWITCH'' ''count_switch'' [''212'', ''221'', ''240''] ''Switches'' ''network''
      ''SW5 / SW6 / SW18GBX'']"

definition greenGOOUI :: string where "greenGOOUI = ''001f80''"
definition ClassNameGGOOthers :: string where "ClassNameGGOOthers = ''GGO-OTHERS''"
definition ClassNameOthers :: string where "ClassNameOthers = ''OTHERS''"
definition CountKeyOthers :: string where "CountKeyOthers = ''count_others''"

definition IsCatchAll :: "string \<Rightarrow> bool" where
  "IsCatchAll c \<longleftrightarrow> c = ClassNameGGOOthers \<or> c = ClassNameOthers"

definition deviceClassByName :: "string \<Rightarrow> DeviceClass option" where
  "deviceClassByName name = List.find (\<lambda>dc. dc_Name dc = name) DeviceClasses"

definition ClassMetadata :: "string \<Rightarrow> string \<times> string \<times> string" where
  "ClassMetadata c =
    (case List.find (\<lambda>dc. dc_Name dc = c) DeviceClasses of
       Some dc \<Rightarrow> (dc_Label dc, dc_Icon dc, dc_Codes dc)
     | None \<Rightarrow>
        if c = ClassNameGGOOthers then (''Green-GO Other'', ''circle-help'', [])
        else if c = ClassNameOthers then (''Non Green-GO'', ''cpu'', [])
        else if c = ''DANTE'' then (''Dante / AES67 Audio'', ''bridge'', [])
        else if c = ''SACN'' then (''sACN / Art-Net Lighting'', ''cpu'', [])
        else (c, ''cpu'', []))"

definition quote :: string where "quote = [CHR 0x27]"

definition ouiMatch :: string where
  "ouiMatch = ''substring(hexstring(pkt4.mac, '' @ quote @ quote @ ''), 0, 6) == '' @ quote
     @ greenGOOUI @ quote"

definition prefix_term :: "int \<Rightarrow> string \<Rightarrow> string" where
  "prefix_term off p = ''substring(hexstring(pkt4.mac, '' @ quote @ quote @ ''), '' @ dec_str off
     @ '', '' @ dec_str (int (length p)) @ '') == '' @ quote @ p @ quote"

definition classPrefixExpr :: "DeviceClass \<Rightarrow> string" where
  "classPrefixExpr dc =
    (let terms = map (prefix_term 6) (dc_Prefixes dc) in
     if length terms = 1 then terms ! 0 else ''('' @ Join terms '' or '' @ '')'')"

definition classTest :: "DeviceClass \<Rightarrow> string" where
  "classTest dc = ouiMatch @ '' and '' @ classPrefixExpr dc"

definition GGOOthersTest :: "DeviceClass list \<Rightarrow> string" where
  "GGOOthersTest pooled =
    (if length pooled = 0 then ouiMatch
     else ouiMatch @ '' and not ('' @ Join (map classPrefixExpr pooled) '' or '' @ '')'')"

record ClientClassConfig =
  cc_Name :: string
  cc_Test :: string

definition ClientClasses :: "ClientClassConfig list" where
  "ClientClasses =
     map (\<lambda>dc. \<lparr>cc_Name = dc_Name dc, cc_Test = classTest dc\<rparr>) DeviceClasses
     @ [\<lparr>cc_Name = ClassNameOthers, cc_Test = ''not ('' @ ouiMatch @ '')''\<rparr>]"

fun classify_low :: "string \<Rightarrow> DeviceClass list \<Rightarrow> string" where
  "classify_low low [] = ClassNameGGOOthers"
| "classify_low low (dc # dcs) =
     (if list_ex (has_prefix low) (dc_Prefixes dc) then dc_Name dc else classify_low low dcs)"

definition ClassifyMAC :: "string \<Rightarrow> string" where
  "ClassifyMAC mac0 =
    (let mac = filter (\<lambda>c. c \<noteq> CHR '':'') (ToLower mac0) in
     if \<not> has_prefix mac greenGOOUI \<or> length mac < 8 then ClassNameOthers
     else classify_low (drop 6 mac) DeviceClasses)"

section \<open>Vendor prefixes\<close>

definition lower_hex :: "char \<Rightarrow> bool" where
  "lower_hex c \<longleftrightarrow> is_digit c \<or> (97 \<le> (of_char c :: int) \<and> (of_char c :: int) \<le> 102)"

definition NormalizeOUI :: "string \<Rightarrow> string" where
  "NormalizeOUI s =
    (let p = filter lower_hex (ToLower s) in if length p < 6 \<or> length p > 12 then [] else p)"

definition NormalizeOUI6 :: "string \<Rightarrow> string" where
  "NormalizeOUI6 s =
    (let b = take 6 (filter lower_hex (ToLower s)) in if length b < 6 then [] else b)"

definition maxOUILen :: "string list \<Rightarrow> nat" where
  "maxOUILen ouis = foldl (\<lambda>m x. if length (NormalizeOUI x) > m then length (NormalizeOUI x) else m) 0 ouis"

definition VendorClassTest :: "string list \<Rightarrow> string" where
  "VendorClassTest ouis =
    (let terms = map (prefix_term 0) (filter (\<lambda>n. n \<noteq> []) (map NormalizeOUI ouis)) in
     case terms of [] \<Rightarrow> [] | [t] \<Rightarrow> t | _ \<Rightarrow> ''('' @ Join terms '' or '' @ '')'')"

section \<open>The expression language\<close>

datatype kexpr = KSub int string | KAnd kexpr kexpr | KOr "kexpr list" | KNot kexpr

fun kexpr_text :: "kexpr \<Rightarrow> string" where
  "kexpr_text (KSub off p) = prefix_term off p"
| "kexpr_text (KAnd a b) = kexpr_text a @ '' and '' @ kexpr_text b"
| "kexpr_text (KOr es) = ''('' @ Join (map kexpr_text es) '' or '' @ '')''"
| "kexpr_text (KNot e) = ''not '' @ kexpr_text e"

fun keval :: "string \<Rightarrow> kexpr \<Rightarrow> bool" where
  "keval m (KSub off p) \<longleftrightarrow> take (length p) (drop (nat off) m) = p"
| "keval m (KAnd a b) \<longleftrightarrow> keval m a \<and> keval m b"
| "keval m (KOr es) \<longleftrightarrow> list_ex (keval m) es"
| "keval m (KNot e) \<longleftrightarrow> \<not> keval m e"

definition oui_expr :: kexpr where "oui_expr = KSub 0 greenGOOUI"

definition prefix_expr :: "DeviceClass \<Rightarrow> kexpr" where
  "prefix_expr dc = (case dc_Prefixes dc of [p] \<Rightarrow> KSub 6 p | ps \<Rightarrow> KOr (map (KSub 6) ps))"

definition class_expr :: "DeviceClass \<Rightarrow> kexpr" where
  "class_expr dc = KAnd oui_expr (prefix_expr dc)"

definition ggo_others_expr :: "DeviceClass list \<Rightarrow> kexpr" where
  "ggo_others_expr pooled = (if pooled = [] then oui_expr
     else KAnd oui_expr (KNot (KOr (map prefix_expr pooled))))"

definition others_expr :: kexpr where "others_expr = KNot (KOr [oui_expr])"

lemma ouiMatch_text: "kexpr_text oui_expr = ouiMatch"
proof -
  have "dec_str 0 = ''0''" "dec_str 6 = ''6''" by code_simp+
  moreover have "length greenGOOUI = 6" by (simp add: greenGOOUI_def)
  ultimately show ?thesis
    by (simp add: oui_expr_def ouiMatch_def prefix_term_def)
qed

lemma kexpr_text_KSub: "kexpr_text \<circ> KSub off = prefix_term off"
  by auto

lemma prefix_expr_text: "kexpr_text (prefix_expr dc) = classPrefixExpr dc"
  by (auto simp: prefix_expr_def classPrefixExpr_def Let_def kexpr_text_KSub split: list.splits)

lemma class_expr_text: "kexpr_text (class_expr dc) = classTest dc"
  by (simp add: class_expr_def classTest_def ouiMatch_text prefix_expr_text)

lemma ggo_others_expr_text: "kexpr_text (ggo_others_expr ps) = GGOOthersTest ps"
proof -
  have "kexpr_text \<circ> prefix_expr = classPrefixExpr"
    by (rule ext) (simp add: prefix_expr_text)
  then show ?thesis
    by (simp add: ggo_others_expr_def GGOOthersTest_def ouiMatch_text)
qed

lemma keval_prefix_expr:
  "keval m (prefix_expr dc) \<longleftrightarrow> list_ex (has_prefix (drop 6 m)) (dc_Prefixes dc)"
  by (auto simp: prefix_expr_def has_prefix_def list_ex_iff split: list.splits)

lemma keval_oui: "keval m oui_expr \<longleftrightarrow> has_prefix m greenGOOUI"
  by (simp add: oui_expr_def has_prefix_def)

section \<open>The table of classes is unambiguous\<close>

fun clash :: "string \<Rightarrow> string \<Rightarrow> bool" where
  "clash (a # p) (b # q) \<longleftrightarrow> a = b \<and> clash p q"
| "clash _ _ \<longleftrightarrow> True"

lemma has_prefix_clash: "has_prefix s p \<Longrightarrow> has_prefix s q \<Longrightarrow> clash p q"
proof (induction p q arbitrary: s rule: clash.induct)
  case (1 a p b q)
  then show ?case by (cases s) (auto simp: has_prefix_def)
qed auto

definition disjoint_classes :: "DeviceClass \<Rightarrow> DeviceClass \<Rightarrow> bool" where
  "disjoint_classes d e \<longleftrightarrow> dc_Name d \<noteq> dc_Name e \<and>
     \<not> list_ex (\<lambda>p. list_ex (clash p) (dc_Prefixes e)) (dc_Prefixes d)"

lemma DeviceClasses_table_ok: "sorted_wrt disjoint_classes DeviceClasses"
  by code_simp

lemma disjoint_classes_low:
  assumes "disjoint_classes d e"
    "list_ex (has_prefix low) (dc_Prefixes d)"
  shows "\<not> list_ex (has_prefix low) (dc_Prefixes e)"
  using assms has_prefix_clash by (fastforce simp: disjoint_classes_def list_ex_iff)

lemma DeviceClasses_not_catch_all: "list_all (\<lambda>d. \<not> IsCatchAll (dc_Name d)) DeviceClasses"
  by code_simp

lemma classify_low_result:
  "classify_low low dcs = ClassNameGGOOthers \<or> classify_low low dcs \<in> dc_Name ` set dcs"
  by (induction dcs) auto

lemma classify_low_iff:
  assumes "\<forall>d \<in> set dcs. dc_Name d \<noteq> ClassNameGGOOthers" "d \<in> set dcs"
    and "sorted_wrt disjoint_classes dcs"
  shows "classify_low low dcs = dc_Name d \<longleftrightarrow> list_ex (has_prefix low) (dc_Prefixes d)"
  using assms
proof (induction dcs)
  case (Cons e es)
  have dis: "disjoint_classes e d" if "d \<in> set es" using that Cons.prems(3) by simp
  have "classify_low low es \<noteq> dc_Name e"
    using classify_low_result [of low es] Cons.prems(1,3) by (force simp: disjoint_classes_def)
  moreover have "d = e \<or> d \<in> set es" using Cons.prems(2) by auto
  moreover have "dc_Name e \<noteq> dc_Name d" if "d \<in> set es"
    using dis [OF that] by (simp add: disjoint_classes_def)
  ultimately show ?case
    using Cons dis disjoint_classes_low [of e d low] by auto
qed simp

definition mac_hex :: "string \<Rightarrow> string" where
  "mac_hex mac = filter (\<lambda>c. c \<noteq> CHR '':'') (ToLower mac)"

lemma ClassifyMAC_class:
  assumes "d \<in> set DeviceClasses" "length (mac_hex mac) \<ge> 8"
  shows "ClassifyMAC mac = dc_Name d \<longleftrightarrow> keval (mac_hex mac) (class_expr d)"
proof -
  have names: "\<forall>d \<in> set DeviceClasses. dc_Name d \<noteq> ClassNameGGOOthers \<and> dc_Name d \<noteq> ClassNameOthers"
    using DeviceClasses_not_catch_all by (simp add: list_all_iff IsCatchAll_def)
  have c: "classify_low low DeviceClasses = dc_Name d \<longleftrightarrow> list_ex (has_prefix low) (dc_Prefixes d)" for low
    using names DeviceClasses_table_ok assms(1) by (intro classify_low_iff) auto
  show ?thesis
    using assms names unfolding ClassifyMAC_def Let_def mac_hex_def [symmetric]
    by (auto simp: c class_expr_def keval_oui keval_prefix_expr)
qed

lemma ClassifyMAC_others:
  assumes "length (mac_hex mac) \<ge> 8"
  shows "ClassifyMAC mac = ClassNameOthers \<longleftrightarrow> keval (mac_hex mac) others_expr"
proof -
  have "classify_low low dcs \<noteq> ClassNameOthers"
    if "\<forall>d \<in> set dcs. dc_Name d \<noteq> ClassNameOthers" for low dcs
    using that by (induction dcs) (auto simp: ClassNameGGOOthers_def ClassNameOthers_def)
  then have "classify_low low DeviceClasses \<noteq> ClassNameOthers" for low
    using DeviceClasses_not_catch_all by (simp add: list_all_iff IsCatchAll_def)
  then show ?thesis
    using assms unfolding ClassifyMAC_def Let_def mac_hex_def [symmetric]
    by (auto simp: others_expr_def keval_oui)
qed

lemma ClassifyMAC_ggo_others:
  assumes "set pooled \<subseteq> set DeviceClasses" "length (mac_hex mac) \<ge> 8"
  shows "keval (mac_hex mac) (ggo_others_expr pooled) \<longleftrightarrow>
    ClassifyMAC mac \<noteq> ClassNameOthers \<and> ClassifyMAC mac \<notin> dc_Name ` set pooled"
proof -
  have "ClassifyMAC mac \<notin> dc_Name ` set pooled \<longleftrightarrow>
    (\<forall>d \<in> set pooled. \<not> keval (mac_hex mac) (class_expr d))"
    using assms ClassifyMAC_class [OF _ assms(2)] by (force simp: image_iff)
  then show ?thesis
    using ClassifyMAC_others [OF assms(2)]
    by (auto simp: ggo_others_expr_def others_expr_def class_expr_def keval_oui list_ex_iff)
qed

section \<open>Vendor classes\<close>

definition vendor_expr :: "string list \<Rightarrow> kexpr option" where
  "vendor_expr ouis =
    (case filter (\<lambda>n. n \<noteq> []) (map NormalizeOUI ouis) of
       [] \<Rightarrow> None | [p] \<Rightarrow> Some (KSub 0 p) | ps \<Rightarrow> Some (KOr (map (KSub 0) ps)))"

lemma vendor_expr_text:
  "VendorClassTest ouis = (case vendor_expr ouis of None \<Rightarrow> [] | Some e \<Rightarrow> kexpr_text e)"
  by (auto simp: VendorClassTest_def vendor_expr_def Let_def kexpr_text_KSub split: list.splits)

lemma or_expr_keval:
  "(case ps of [] \<Rightarrow> None | [p] \<Rightarrow> Some (KSub 0 p) | qs \<Rightarrow> Some (KOr (map (KSub 0) qs))) = Some e
    \<Longrightarrow> keval m e \<longleftrightarrow> (\<exists>p \<in> set ps. has_prefix m p)"
  by (auto simp: has_prefix_def list_ex_iff split: list.splits)

lemma vendor_expr_keval:
  assumes "vendor_expr ouis = Some e"
  shows "keval m e \<longleftrightarrow> (\<exists>x \<in> set ouis. NormalizeOUI x \<noteq> [] \<and> has_prefix m (NormalizeOUI x))"
  unfolding or_expr_keval [OF assms [unfolded vendor_expr_def]] by auto

lemma lower_hex_lower: "lower_hex c \<Longrightarrow> lower_char c = c"
  by (auto simp: lower_hex_def lower_char_def is_digit_def Let_def)

lemma ToLower_hex: "\<forall>c \<in> set s. lower_hex c \<Longrightarrow> ToLower s = s"
  unfolding ToLower_def by (simp add: map_idI lower_hex_lower)

lemma NormalizeOUI_hex: "\<forall>c \<in> set (NormalizeOUI s). lower_hex c"
  by (auto simp: NormalizeOUI_def Let_def)

lemma NormalizeOUI_idem: "NormalizeOUI (NormalizeOUI s) = NormalizeOUI s"
proof -
  define p where "p = NormalizeOUI s"
  have h: "\<forall>c \<in> set p. lower_hex c" unfolding p_def by (rule NormalizeOUI_hex)
  have "filter lower_hex (ToLower p) = p" using h by (simp add: ToLower_hex filter_id_conv)
  moreover have "p = [] \<or> (6 \<le> length p \<and> length p \<le> 12)"
    unfolding p_def NormalizeOUI_def Let_def by auto
  ultimately have "NormalizeOUI p = p" by (auto simp: NormalizeOUI_def Let_def)
  then show ?thesis by (simp add: p_def)
qed

section \<open>Properties\<close>

text \<open>C7: For a MAC with at least eight hex digits (colons and case aside) the dashboard's
  \<open>ClassifyMAC\<close> and the client-class tests generated for Kea agree: the text of each device
  class's test is the rendering of an expression that is true of exactly the MACs classified as
  that class, \<open>OTHERS\<close> is true of exactly those classified as \<open>OTHERS\<close>, and the
  scope-relative \<open>GGO-OTHERS\<close> test holds exactly for the Green-GO MACs whose class has no
  pool in the scope.  (This is about the device classes; a vendor pool's class may hold of the same
  device, and the guard of a pool also admits reserved clients.)\<close>

theorem ClassifyMAC_agrees_with_Kea:
  assumes "length (mac_hex mac) \<ge> 8" "set pooled \<subseteq> set DeviceClasses" "d \<in> set DeviceClasses"
  shows "classTest d = kexpr_text (class_expr d)
    \<and> (keval (mac_hex mac) (class_expr d) \<longleftrightarrow> ClassifyMAC mac = dc_Name d)
    \<and> last ClientClasses = \<lparr>cc_Name = ClassNameOthers, cc_Test = kexpr_text others_expr\<rparr>
    \<and> (keval (mac_hex mac) others_expr \<longleftrightarrow> ClassifyMAC mac = ClassNameOthers)
    \<and> GGOOthersTest pooled = kexpr_text (ggo_others_expr pooled)
    \<and> (keval (mac_hex mac) (ggo_others_expr pooled) \<longleftrightarrow>
        ClassifyMAC mac \<noteq> ClassNameOthers \<and> ClassifyMAC mac \<notin> dc_Name ` set pooled)"
proof (intro conjI)
  show "last ClientClasses = \<lparr>cc_Name = ClassNameOthers, cc_Test = kexpr_text others_expr\<rparr>"
    by (simp add: ClientClasses_def others_expr_def ouiMatch_text)
qed (use assms in \<open>simp_all add: class_expr_text ClassifyMAC_class ClassifyMAC_others
  ggo_others_expr_text ClassifyMAC_ggo_others\<close>)

lemma ClassifyMAC_agrees_with_Kea_witness:
  "keval (mac_hex ''00:1F:80:22:50:01'') (ggo_others_expr (take 1 DeviceClasses))
    \<and> ClassifyMAC ''00:1F:80:22:50:01'' = ''GGO-MCX-D''"
proof -
  have l: "length (mac_hex ''00:1F:80:22:50:01'') \<ge> 8" by code_simp
  have c: "ClassifyMAC ''00:1F:80:22:50:01'' = ''GGO-MCX-D''" by code_simp
  have n: "''GGO-MCX-D'' \<noteq> ClassNameOthers \<and> ''GGO-MCX-D'' \<notin> dc_Name ` set (take 1 DeviceClasses)"
    by code_simp
  have s: "set (take 1 DeviceClasses) \<subseteq> set DeviceClasses" by (rule set_take_subset)
  have d: "hd DeviceClasses \<in> set DeviceClasses" by (simp add: DeviceClasses_def)
  from ClassifyMAC_agrees_with_Kea [OF l s d] n show ?thesis by (simp add: c)
qed

text \<open>The Kea test of a custom vendor pool holds exactly for the MACs that start with one
  of the pool's valid prefixes at the prefix's own length; with no valid prefix there is no test;
  and normalising a prefix twice changes nothing.\<close>

theorem VendorClassTest_meaning:
  "(case vendor_expr ouis of
      None \<Rightarrow> VendorClassTest ouis = [] \<and> (\<forall>x \<in> set ouis. NormalizeOUI x = [])
    | Some e \<Rightarrow> VendorClassTest ouis = kexpr_text e \<and>
        (keval m e = list_ex (\<lambda>x. NormalizeOUI x \<noteq> [] \<and> has_prefix m (NormalizeOUI x)) ouis))
   \<and> NormalizeOUI (NormalizeOUI s) = NormalizeOUI s"
proof (cases "vendor_expr ouis")
  case None
  then have "filter (\<lambda>n. n \<noteq> []) (map NormalizeOUI ouis) = []"
    by (auto simp: vendor_expr_def split: list.splits)
  then have "\<forall>x \<in> set ouis. NormalizeOUI x = []" by (auto simp: filter_empty_conv)
  then show ?thesis using None by (simp add: vendor_expr_text NormalizeOUI_idem)
next
  case (Some e)
  then show ?thesis
    using vendor_expr_keval [OF Some] by (auto simp: vendor_expr_text NormalizeOUI_idem list_ex_iff)
qed

lemma VendorClassTest_meaning_witness:
  "NormalizeOUI ''3C:18:A0'' = ''3c18a0'' \<and> VendorClassTest [''zz''] = []"
  using VendorClassTest_meaning [of "[''zz'']"] by code_simp

end
