(* ===== verification/KeaLayout.thy ===== *)
theory KeaLayout
  imports KeaAddr KeaClasses
begin

text \<open>
  \<open>src/internal/kea/layout.go\<close>: the pool allocator.  \<open>LayoutPools\<close> is composed of
  the code's three passes: \<open>pin_pass\<close> honours the explicit ranges, \<open>sum_pass\<close> and
  \<open>elastic_sizes\<close> size the unpinned pools, \<open>place_pass\<close> packs them first-fit into the
  free gaps.  Sums and products of the operator's sizes and weights are 64-bit (\<open>i64\<close>), and
  a sum of weights that wraps to zero is the run-time panic \<open>DivideByZero\<close>.
\<close>

datatype PoolKind = PoolFixed | PoolElastic | PoolReserve

record PoolSpec =
  ps_Class :: string
  ps_Kind :: PoolKind
  ps_Size :: int
  ps_Weight :: int
  ps_Range :: string
  ps_Vendors :: "string list"

record PoolPlacement =
  pp_Class :: string
  pp_Kind :: PoolKind
  pp_Range :: string

datatype layout_error =
    InvalidCIDR
  | TooSmallForAny
  | InvalidRange string string
  | OutsideUsable string string u32 u32
  | PinnedOverlap u32
  | NegativeSize string
  | TooSmallForFixed int int
  | ElasticBelowFloor string int int
  | NoGapFits string int
  | NoFreeSpace string
  | TooFragmented string int int
  | SizeExceedsGap string int
  | DivideByZero

definition layoutMinPool :: int where "layoutMinPool = 5"
definition layoutCatchAll :: int where "layoutCatchAll = 10"
definition fitCIDRFloor :: nat where "fitCIDRFloor = 8"

definition FloorForClass :: "string \<Rightarrow> int" where
  "FloorForClass c = (if IsCatchAll c then layoutCatchAll else layoutMinPool)"

definition SizeForClass :: "string \<Rightarrow> int \<Rightarrow> int" where
  "SizeForClass c count = max count (FloorForClass c)"

definition weightOf :: "PoolSpec \<Rightarrow> int" where
  "weightOf s = (if ps_Weight s < 1 then 1 else ps_Weight s)"

text \<open>Pass 1: the range texts of the pinned specs (empty for the others) and the pinned
  intervals in spec order.\<close>

fun pin_pass :: "u32 \<Rightarrow> u32 \<Rightarrow> poolIvl list \<Rightarrow> PoolSpec list
    \<Rightarrow> layout_error + (string list \<times> poolIvl list)" where
  "pin_pass poolLo h pinned [] = Inr ([], pinned)"
| "pin_pass poolLo h pinned (s # ss) =
     (let r = TrimSpace (ps_Range s) in
      if r = [] then map_sum id (\<lambda>(rs, p). ([] # rs, p)) (pin_pass poolLo h pinned ss)
      else (case ParsePoolRange r of
          None \<Rightarrow> Inl (InvalidRange (ps_Class s) r)
        | Some (a, b) \<Rightarrow>
            if a > b then Inl (InvalidRange (ps_Class s) r)
            else if a < poolLo \<or> b > h then Inl (OutsideUsable (ps_Class s) r poolLo h)
            else if list_ex (\<lambda>iv. a \<le> hi iv \<and> b \<ge> lo iv) pinned then Inl (PinnedOverlap a)
            else map_sum id (\<lambda>(rs, p). (range_text a b # rs, p))
              (pin_pass poolLo h (pinned @ [mk_ivl a b]) ss)))"

text \<open>\<open>sortIvls\<close>: the inner loop swaps the new element down past every larger one.\<close>

fun sink_ivl :: "poolIvl \<Rightarrow> poolIvl list \<Rightarrow> poolIvl list" where
  "sink_ivl x [] = [x]"
| "sink_ivl x (y # ys) = (if lo x < lo y then y # sink_ivl x ys else x # y # ys)"

definition sortIvls :: "poolIvl list \<Rightarrow> poolIvl list" where
  "sortIvls ivs = rev (foldl (\<lambda>rsorted x. sink_ivl x rsorted) [] ivs)"

definition total_free :: "poolIvl list \<Rightarrow> int" where
  "total_free gaps = foldl (\<lambda>t g. i64 (t + ivl_size g)) 0 gaps"

text \<open>Pass 2: the sums over the unpinned specs, in order; \<open>ranges\<close> is the result of
  pass 1.\<close>

fun sum_pass :: "(PoolSpec \<times> string) list \<Rightarrow> int \<Rightarrow> int \<Rightarrow> layout_error + (int \<times> int)" where
  "sum_pass [] sumFixed sumWeight = Inr (sumFixed, sumWeight)"
| "sum_pass ((s, r) # rest) sumFixed sumWeight =
     (if r \<noteq> [] then sum_pass rest sumFixed sumWeight
      else if ps_Kind s = PoolElastic then sum_pass rest sumFixed (i64 (sumWeight + weightOf s))
      else if ps_Size s < 0 then Inl (NegativeSize (ps_Class s))
      else sum_pass rest (i64 (sumFixed + ps_Size s)) sumWeight)"

definition elastic_idx :: "PoolSpec list \<Rightarrow> string list \<Rightarrow> nat list" where
  "elastic_idx specs ranges =
     filter (\<lambda>i. ranges ! i = [] \<and> ps_Kind (specs ! i) = PoolElastic) [0 ..< length specs]"

definition fixed_sizes :: "PoolSpec list \<Rightarrow> string list \<Rightarrow> int list" where
  "fixed_sizes specs ranges =
     map2 (\<lambda>s r. if r = [] \<and> ps_Kind s \<noteq> PoolElastic then ps_Size s else 0) specs ranges"

fun share_pass :: "PoolSpec list \<Rightarrow> int \<Rightarrow> int \<Rightarrow> nat list \<Rightarrow> int list \<times> int \<Rightarrow> int list \<times> int" where
  "share_pass specs remainder sumWeight [] (sizes, assigned) = (sizes, assigned)"
| "share_pass specs remainder sumWeight (i # is) (sizes, assigned) =
     (let sz = go_div (i64 (remainder * weightOf (specs ! i))) sumWeight in
      share_pass specs remainder sumWeight is (sizes[i := sz], i64 (assigned + sz)))"

fun heaviest :: "PoolSpec list \<Rightarrow> nat \<Rightarrow> nat list \<Rightarrow> nat" where
  "heaviest specs best [] = best"
| "heaviest specs best (i # is) =
     heaviest specs (if weightOf (specs ! i) > weightOf (specs ! best) then i else best) is"

definition elastic_sizes :: "PoolSpec list \<Rightarrow> nat list \<Rightarrow> int \<Rightarrow> int \<Rightarrow> int list
    \<Rightarrow> layout_error + int list" where
  "elastic_sizes specs idx remainder sumWeight sizes0 =
    (case idx of
       [] \<Rightarrow> Inr sizes0
     | best0 # others \<Rightarrow>
        if sumWeight = 0 then Inl DivideByZero
        else
         (let (sizes1, assigned) = share_pass specs remainder sumWeight idx (sizes0, 0);
              leftover = i64 (remainder - assigned);
              best = heaviest specs best0 others;
              sizes = (if leftover > 0 then sizes1[best := i64 (sizes1 ! best + leftover)]
                       else sizes1)
          in case List.find (\<lambda>i. sizes ! i < FloorForClass (ps_Class (specs ! i))) idx of
               Some i \<Rightarrow> Inl (ElasticBelowFloor (ps_Class (specs ! i)) (sizes ! i)
                          (FloorForClass (ps_Class (specs ! i))))
             | None \<Rightarrow> Inr sizes))"

text \<open>Pass 3: the gap an unpinned pool of \<open>sz\<close> addresses goes to, with the size it
  gets there; an elastic pool that fits no gap is capped to the largest one.\<close>

definition choose_gap :: "PoolSpec \<Rightarrow> int \<Rightarrow> poolIvl list \<Rightarrow> layout_error + (nat \<times> int)" where
  "choose_gap s sz gaps =
    (case firstFitGap gaps sz of
       Some gi \<Rightarrow> Inr (gi, sz)
     | None \<Rightarrow>
        if ps_Kind s \<noteq> PoolElastic then Inl (NoGapFits (ps_Class s) sz)
        else (case largestGapIdx gaps of
            None \<Rightarrow> Inl (NoFreeSpace (ps_Class s))
          | Some gi \<Rightarrow>
              let sz' = min sz (ivl_size (gaps ! gi)) in
              if sz' < FloorForClass (ps_Class s)
              then Inl (TooFragmented (ps_Class s) sz' (FloorForClass (ps_Class s)))
              else Inr (gi, sz')))"

fun place_pass :: "(PoolSpec \<times> string \<times> int) list \<Rightarrow> poolIvl list \<Rightarrow> layout_error + string list" where
  "place_pass [] gaps = Inr []"
| "place_pass ((s, r, sz0) # rest) gaps =
     (if r \<noteq> [] then map_sum id ((#) r) (place_pass rest gaps)
      else if sz0 \<le> 0 then map_sum id ((#) []) (place_pass rest gaps)
      else (case choose_gap s sz0 gaps of
          Inl e \<Rightarrow> Inl e
        | Inr (gi, sz) \<Rightarrow>
            let g = gaps ! gi in
            if sz \<le> 0 \<or> sz > 4294967295 \<or> sz > ivl_size g
            then Inl (SizeExceedsGap (ps_Class s) sz)
            else let e = lo g + word_of_int sz - 1 in
              map_sum id ((#) (range_text (lo g) e)) (place_pass rest (shrinkGap gaps gi e))))"

definition mk_placement :: "PoolSpec \<Rightarrow> string \<Rightarrow> PoolPlacement" where
  "mk_placement s r = \<lparr>pp_Class = ps_Class s, pp_Kind = ps_Kind s, pp_Range = r\<rparr>"

definition layout_free :: "PoolSpec list \<Rightarrow> string list \<Rightarrow> poolIvl list
    \<Rightarrow> layout_error + PoolPlacement list" where
  "layout_free specs ranges gaps =
    (let totalFree = total_free gaps in
     case sum_pass (zip specs ranges) 0 0 of
       Inl e \<Rightarrow> Inl e
     | Inr (sumFixed, sumWeight) \<Rightarrow>
        if sumFixed > totalFree then Inl (TooSmallForFixed sumFixed totalFree)
        else (case elastic_sizes specs (elastic_idx specs ranges)
               (i64 (totalFree - sumFixed)) sumWeight (fixed_sizes specs ranges) of
            Inl e \<Rightarrow> Inl e
          | Inr sizes \<Rightarrow>
              map_sum id (map2 mk_placement specs)
                (place_pass (zip specs (zip ranges sizes)) gaps)))"

definition LayoutPools :: "string \<Rightarrow> PoolSpec list \<Rightarrow> layout_error + PoolPlacement list" where
  "LayoutPools cidr specs =
    (case ParseCIDR cidr of
       None \<Rightarrow> Inl InvalidCIDR
     | Some (ip, ipn) \<Rightarrow>
        (case subnetUsableBounds ipn of
           None \<Rightarrow> Inl TooSmallForAny
         | Some (l, h) \<Rightarrow>
            let poolLo = l + 1 in
            if poolLo > h then Inl TooSmallForAny
            else (case pin_pass poolLo h [] specs of
                Inl e \<Rightarrow> Inl e
              | Inr (ranges, pinned) \<Rightarrow>
                  layout_free specs ranges (freeGaps poolLo h (sortIvls pinned)))))"

text \<open>\<open>FitCIDR\<close>: the masks below the typed one are tried in turn; \<open>Mask.Size\<close>
  of a canonical mask is its number of leading ones (for a 16-byte mask the loop of the code
  starts at that number, where \<open>CIDRMask(m, 32)\<close> is nil and no candidate parses).\<close>

definition mask_ones :: "byte list \<Rightarrow> nat" where
  "mask_ones m = (case List.find (\<lambda>n. m = CIDRMask n (8 * length m)) [0 ..< 8 * length m + 1] of
     Some n \<Rightarrow> n | None \<Rightarrow> 0)"

definition go_CIDRMask32 :: "nat \<Rightarrow> byte list" where
  "go_CIDRMask32 m = (if m > 32 then [] else CIDRMask m 32)"

definition fit_candidate :: "go_ip \<Rightarrow> nat \<Rightarrow> string" where
  "fit_candidate ip4 m = v4_string (ip_mask ip4 (go_CIDRMask32 m)) @ ''/'' @ dec_str (int m)"

fun fit_loop :: "nat \<Rightarrow> string \<Rightarrow> PoolSpec list \<Rightarrow> go_ip \<Rightarrow> layout_error + string" where
  "fit_loop 0 cidr specs ip4 = Inr cidr"
| "fit_loop (Suc m) cidr specs ip4 =
     (if m < fitCIDRFloor then Inr cidr
      else
       (let cand = fit_candidate ip4 m in
        case LayoutPools cand specs of
          Inr _ \<Rightarrow> Inr cand
        | Inl DivideByZero \<Rightarrow> Inl DivideByZero
        | Inl _ \<Rightarrow> fit_loop m cidr specs ip4))"

definition FitCIDR :: "string \<Rightarrow> PoolSpec list \<Rightarrow> layout_error + string" where
  "FitCIDR cidr specs =
    (case LayoutPools cidr specs of
       Inr _ \<Rightarrow> Inr cidr
     | Inl DivideByZero \<Rightarrow> Inl DivideByZero
     | Inl _ \<Rightarrow>
        (case ParseCIDR cidr of
           None \<Rightarrow> Inr cidr
         | Some (ip, ipn) \<Rightarrow>
            if To4 ip = [] then Inr cidr
            else fit_loop (mask_ones (net_mask ipn)) cidr specs (To4 ip)))"

section \<open>Sorting the pinned intervals\<close>

lemma sink_ivl_set [simp]: "set (sink_ivl x ys) = insert x (set ys)"
  by (induction ys) auto

lemma sink_ivl_sorted:
  "sorted_wrt (\<lambda>a b. lo b \<le> lo a) ys \<Longrightarrow> sorted_wrt (\<lambda>a b. lo b \<le> lo a) (sink_ivl x ys)"
  by (induction ys) (auto simp: not_less)

lemma sortIvls_fold:
  "set (foldl (\<lambda>r x. sink_ivl x r) acc ivs) = set ivs \<union> set acc \<and>
   (sorted_wrt (\<lambda>a b. lo b \<le> lo a) acc \<longrightarrow>
     sorted_wrt (\<lambda>a b. lo b \<le> lo a) (foldl (\<lambda>r x. sink_ivl x r) acc ivs))"
  by (induction ivs arbitrary: acc) (auto simp: sink_ivl_sorted)

lemma set_sortIvls [simp]: "set (sortIvls ivs) = set ivs"
  using sortIvls_fold [of "[]" ivs] by (simp add: sortIvls_def)

lemma sorted_sortIvls: "sorted_wrt (\<lambda>a b. lo a \<le> lo b) (sortIvls ivs)"
  using sortIvls_fold [of "[]" ivs] by (simp add: sortIvls_def sorted_wrt_rev)

lemma ivls_set_sortIvls [simp]: "ivls_set (sortIvls ivs) = ivls_set ivs"
  by (simp add: ivls_set_def)

lemma res_okI:
  "sorted_wrt (\<lambda>a b. lo a \<le> lo b) gs \<Longrightarrow> \<forall>g \<in> set gs. lo g \<le> hi g \<and> hi g \<le> to \<Longrightarrow> res_ok to gs"
  by (induction gs) auto

section \<open>Placed ranges\<close>

text \<open>\<open>placed rs ivs\<close>: the range texts \<open>rs\<close> denote the intervals \<open>ivs\<close>
  (\<open>None\<close> for an empty text).\<close>

definition placed :: "string \<Rightarrow> u32 set" where
  "placed r = (if r = [] then {} else
     case ParsePoolRange r of Some (a, b) \<Rightarrow> {a .. b} | None \<Rightarrow> UNIV)"

lemma placed_Nil [simp]: "placed [] = {}"
  by (simp add: placed_def)

lemma placed_text [simp]: "placed (range_text a b) = {a .. b}"
  by (simp add: placed_def ParsePoolRange_text)

definition canonical :: "string \<Rightarrow> bool" where
  "canonical r \<longleftrightarrow> r = [] \<or> (\<exists>a b. a \<le> b \<and> r = range_text a b)"

lemma canonical_text: "a \<le> b \<Longrightarrow> canonical (range_text a b)"
  and canonical_Nil [simp]: "canonical []"
  by (auto simp: canonical_def)

definition pairwise_disjoint :: "string list \<Rightarrow> bool" where
  "pairwise_disjoint rs \<longleftrightarrow> sorted_wrt (\<lambda>r s. placed r \<inter> placed s = {}) rs"

definition covered :: "string list \<Rightarrow> u32 set" where
  "covered rs = (\<Union>r \<in> set rs. placed r)"

lemma covered_simps [simp]: "covered [] = {}" "covered (r # rs) = placed r \<union> covered rs"
  by (auto simp: covered_def)

lemma pairwise_disjoint_Cons:
  "pairwise_disjoint (r # rs) \<longleftrightarrow> placed r \<inter> covered rs = {} \<and> pairwise_disjoint rs"
  by (auto simp: pairwise_disjoint_def covered_def)

section \<open>Pass 1\<close>

definition within :: "u32 \<Rightarrow> u32 \<Rightarrow> poolIvl list \<Rightarrow> bool" where
  "within l h gs \<longleftrightarrow> (\<forall>g \<in> set gs. lo g \<le> hi g \<and> l \<le> lo g \<and> hi g \<le> h)"

definition pin_honoured :: "PoolSpec \<Rightarrow> string \<Rightarrow> bool" where
  "pin_honoured s r \<longleftrightarrow> (r = [] \<longleftrightarrow> TrimSpace (ps_Range s) = []) \<and>
     (r \<noteq> [] \<longrightarrow> (\<exists>a b. ParsePoolRange (TrimSpace (ps_Range s)) = Some (a, b)
        \<and> a \<le> b \<and> r = range_text a b))"

definition pin_post :: "u32 \<Rightarrow> u32 \<Rightarrow> poolIvl list \<Rightarrow> PoolSpec list \<Rightarrow> string list
    \<Rightarrow> poolIvl list \<Rightarrow> bool" where
  "pin_post l h acc specs rs ps \<longleftrightarrow>
     list_all2 pin_honoured specs rs \<and> pairwise_disjoint rs
     \<and> covered rs \<inter> ivls_set acc = {} \<and> ivls_set ps = ivls_set acc \<union> covered rs \<and> within l h ps"

lemma overlap_free:
  assumes "\<not> list_ex (\<lambda>iv. a \<le> hi iv \<and> b \<ge> lo iv) gs"
  shows "{a .. b} \<inter> ivls_set gs = {}"
  using assms by (fastforce simp: list_ex_iff ivls_set_def ivl_set_def)

lemma pin_pass_post:
  assumes "pin_pass l h acc specs = Inr (rs, ps)" "within l h acc"
  shows "pin_post l h acc specs rs ps"
  using assms
proof (induction specs arbitrary: acc rs ps)
  case Nil
  then show ?case by (simp add: pin_post_def pairwise_disjoint_def)
next
  case (Cons s ss)
  let ?r = "TrimSpace (ps_Range s)"
  show ?case
  proof (cases "?r = []")
    case True
    then obtain rs' where "pin_pass l h acc ss = Inr (rs', ps)" "rs = [] # rs'"
      using Cons.prems(1) by (cases "pin_pass l h acc ss") auto
    then show ?thesis
      using Cons.IH [of acc rs' ps] Cons.prems(2) True
      by (auto simp: pin_post_def pairwise_disjoint_Cons pin_honoured_def)
  next
    case False
    then obtain a b where ab: "ParsePoolRange ?r = Some (a, b)" "a \<le> b" "l \<le> a" "b \<le> h"
      and free: "\<not> list_ex (\<lambda>iv. a \<le> hi iv \<and> b \<ge> lo iv) acc"
      using Cons.prems(1) by (auto simp: Let_def not_less split: option.splits prod.splits if_splits)
    then obtain rs' where r': "pin_pass l h (acc @ [mk_ivl a b]) ss = Inr (rs', ps)"
      "rs = range_text a b # rs'"
      using Cons.prems(1) False
      by (cases "pin_pass l h (acc @ [mk_ivl a b]) ss") (auto simp: Let_def not_less split: if_splits)
    have "within l h (acc @ [mk_ivl a b])" using Cons.prems(2) ab by (auto simp: within_def)
    from Cons.IH [OF r'(1) this] show ?thesis
      using overlap_free [OF free] ab False
      by (auto simp: pin_post_def r'(2) pairwise_disjoint_Cons pin_honoured_def ivl_set_def)
  qed
qed

section \<open>Pass 3\<close>

text \<open>What pass 3 does to one spec whose size is known: a pinned range stays, an empty size
  gives no range, a fixed or reserved pool gets exactly its size and an elastic one at least its
  floor.\<close>

definition range_count :: "string \<Rightarrow> int" where
  "range_count r = (case ParsePoolRange r of Some (a, b) \<Rightarrow> uint b - uint a + 1 | None \<Rightarrow> 0)"

definition sized :: "PoolSpec \<times> string \<times> int \<Rightarrow> string \<Rightarrow> bool" where
  "sized x r \<longleftrightarrow> (case x of (s, r0, sz) \<Rightarrow>
     if r0 \<noteq> [] then r = r0
     else if sz \<le> 0 then r = []
     else r \<noteq> [] \<and> canonical r \<and> range_count r \<le> sz \<and>
       (if ps_Kind s = PoolElastic then range_count r = sz \<or> FloorForClass (ps_Class s) \<le> range_count r
        else range_count r = sz))"

lemma choose_gap_ok:
  assumes "choose_gap s sz0 gaps = Inr (gi, sz)"
  shows "gi < length gaps" "sz \<le> ivl_size (gaps ! gi)" "sz \<le> sz0"
    "sz = sz0 \<or> (ps_Kind s = PoolElastic \<and> FloorForClass (ps_Class s) \<le> sz)"
  using assms firstFitGap_Some [of gaps sz0] largestGapIdx_Some [of gaps]
  by (auto simp: choose_gap_def Let_def not_less split: option.splits if_splits)

lemma uint_u32_of_int: "0 \<le> k \<Longrightarrow> k < 4294967296 \<Longrightarrow> uint (word_of_int k :: u32) = k"
  by (simp add: uint_word_of_int)

lemma uint_end:
  fixes x y :: u32
  assumes "x \<le> y" "0 < sz" "sz \<le> uint (y - x) + 1" "sz \<le> 4294967295"
  shows "uint (x + word_of_int sz - 1) = uint x + sz - 1" "x \<le> x + word_of_int sz - 1"
    "x + word_of_int sz - 1 \<le> y"
proof -
  have d: "uint (y - x) = uint y - uint x" using assms(1)
    by (simp add: uint_minus_simple_alt [symmetric] word_le_def uint_sub_lem [symmetric])
  have e: "x + word_of_int sz - 1 = word_of_int (uint x + sz - 1)" by simp
  have y: "uint y < 4294967296" by simp
  have z: "0 \<le> uint x" by simp
  have "0 \<le> uint x + sz - 1" "uint x + sz - 1 < 4294967296" using assms(2,3) d y z by linarith+
  then show u: "uint (x + word_of_int sz - 1) = uint x + sz - 1"
    unfolding e by (rule uint_u32_of_int)
  show "x \<le> x + word_of_int sz - 1" "x + word_of_int sz - 1 \<le> y"
    using assms(2,3) d unfolding word_le_def u by linarith+
qed


lemma place_pass_ok:
  assumes "place_pass xs gaps = Inr rs" "gaps_ok gaps"
    "pairwise_disjoint (map (\<lambda>x. fst (snd x)) xs)" "covered (map (\<lambda>x. fst (snd x)) xs) \<inter> ivls_set gaps = {}"
  shows "list_all2 sized xs rs \<and> pairwise_disjoint rs
    \<and> covered rs \<subseteq> covered (map (\<lambda>x. fst (snd x)) xs) \<union> ivls_set gaps"
  using assms
proof (induction xs arbitrary: gaps rs)
  case Nil
  then show ?case by simp
next
  case (Cons x xs)
  obtain s r sz0 where x: "x = (s, r, sz0)" by (cases x)
  show ?case
  proof (cases "r \<noteq> [] \<or> sz0 \<le> 0")
    case True
    then obtain rs' where "place_pass xs gaps = Inr rs'" "rs = r # rs'"
      using Cons.prems(1) by (cases "place_pass xs gaps") (auto simp: x split: if_splits)
    moreover have "sized x r" using True by (auto simp: x sized_def)
    ultimately show ?thesis
      using Cons.IH [of gaps rs'] Cons.prems(2-4) by (auto simp: x pairwise_disjoint_Cons)
  next
    case False
    then obtain gi sz where ch: "choose_gap s sz0 gaps = Inr (gi, sz)"
      and sz: "0 < sz" "sz \<le> 4294967295" "sz \<le> ivl_size (gaps ! gi)"
      using Cons.prems(1) by (auto simp: x Let_def not_le split: sum.splits prod.splits if_splits)
    let ?g = "gaps ! gi" let ?e = "lo ?g + word_of_int sz - 1"
    obtain rs' where rs': "place_pass xs (shrinkGap gaps gi ?e) = Inr rs'" "rs = range_text (lo ?g) ?e # rs'"
      using Cons.prems(1) False ch
      by (cases "place_pass xs (shrinkGap gaps gi ?e)") (auto simp: x Let_def split: if_splits)
    note c = choose_gap_ok [OF ch]
    have le: "lo ?g \<le> hi ?g" using gaps_ok_nth [OF Cons.prems(2) c(1)] .
    have e: "uint ?e = uint (lo ?g) + sz - 1" "lo ?g \<le> ?e" "?e \<le> hi ?g"
      using uint_end [OF le sz(1)] sz by (simp_all add: ivl_size_def)
    note sh = shrinkGap_ok [OF Cons.prems(2) c(1) e(2,3)]
    have gi: "{lo ?g .. ?e} \<subseteq> ivls_set gaps"
      using c(1) e(3) by (force simp: ivls_set_def ivl_set_def)
    have "sized x (range_text (lo ?g) ?e)"
      using False c e(1,2) canonical_text [OF e(2)]
      by (auto simp: x sized_def range_count_def ParsePoolRange_text)
    moreover have "list_all2 sized xs rs' \<and> pairwise_disjoint rs'
      \<and> covered rs' \<subseteq> covered (map (\<lambda>x. fst (snd x)) xs) \<union> ivls_set (shrinkGap gaps gi ?e)"
      using Cons.prems(3,4) by (intro Cons.IH [OF rs'(1) sh(1)]) (auto simp: x pairwise_disjoint_Cons sh(2))
    ultimately show ?thesis
      using Cons.prems(3,4) gi by (auto simp: rs'(2) pairwise_disjoint_Cons sh(2))
  qed
qed

section \<open>Pass 2\<close>

lemma sum_pass_ok:
  assumes "sum_pass xs f w = Inr r" "(s, []) \<in> set xs" "ps_Kind s \<noteq> PoolElastic"
  shows "0 \<le> ps_Size s"
  using assms by (induction xs f w arbitrary: r rule: sum_pass.induct) (auto split: if_splits)

lemma share_pass_other:
  assumes "share_pass specs rm w is (sizes, asg) = (sizes', asg')"
  shows "length sizes' = length sizes" "j \<notin> set is \<Longrightarrow> sizes' ! j = sizes ! j"
  using assms by (induction "is" arbitrary: sizes asg) (auto simp: Let_def)

lemma heaviest_in: "heaviest specs best is \<in> insert best (set is)"
  by (induction "is" arbitrary: best) (fastforce split: if_splits)+

lemma elastic_sizes_ok:
  assumes "elastic_sizes specs idx rm w sizes0 = Inr sizes"
  shows "length sizes = length sizes0" "j \<notin> set idx \<Longrightarrow> sizes ! j = sizes0 ! j"
    "j \<in> set idx \<Longrightarrow> FloorForClass (ps_Class (specs ! j)) \<le> sizes ! j"
proof -
  show "length sizes = length sizes0" "j \<notin> set idx \<Longrightarrow> sizes ! j = sizes0 ! j"
    "j \<in> set idx \<Longrightarrow> FloorForClass (ps_Class (specs ! j)) \<le> sizes ! j"
  proof (atomize (full), cases idx)
    case Nil
    then show "length sizes = length sizes0 \<and> (j \<notin> set idx \<longrightarrow> sizes ! j = sizes0 ! j) \<and>
      (j \<in> set idx \<longrightarrow> FloorForClass (ps_Class (specs ! j)) \<le> sizes ! j)"
      using assms by (simp add: elastic_sizes_def)
  next
    case (Cons b os)
    obtain s1 asg where sp: "share_pass specs rm w idx (sizes0, 0) = (s1, asg)" by fastforce
    note sh = share_pass_other [OF sp]
    have "heaviest specs b os \<in> set idx" using heaviest_in [of specs b os] Cons by auto
    then have h: "s1[heaviest specs b os := v] ! j = s1 ! j" if "j \<notin> set idx" for v
      using that by (metis nth_list_update_neq)
    show "length sizes = length sizes0 \<and> (j \<notin> set idx \<longrightarrow> sizes ! j = sizes0 ! j) \<and>
      (j \<in> set idx \<longrightarrow> FloorForClass (ps_Class (specs ! j)) \<le> sizes ! j)"
      using assms h sh sp unfolding elastic_sizes_def Cons
      by (auto simp: Let_def find_None_iff not_less split: if_splits option.splits)
  qed
qed

lemma FloorForClass_pos: "5 \<le> FloorForClass c"
  by (simp add: FloorForClass_def layoutCatchAll_def layoutMinPool_def)

section \<open>The whole allocation\<close>

definition layout_size_ok :: "PoolSpec \<Rightarrow> string \<Rightarrow> bool" where
  "layout_size_ok s r \<longleftrightarrow>
    (if TrimSpace (ps_Range s) \<noteq> [] then r \<noteq> [] \<and> pin_honoured s r
     else if ps_Kind s = PoolElastic then r \<noteq> [] \<and> FloorForClass (ps_Class s) \<le> range_count r
     else 0 \<le> ps_Size s \<and> (if ps_Size s = 0 then r = [] else range_count r = ps_Size s))"

lemma layout_free_ok:
  assumes "layout_free specs rs0 gaps = Inr pls"
    and "list_all2 pin_honoured specs rs0" "gaps_ok gaps"
    and "pairwise_disjoint rs0" "covered rs0 \<inter> ivls_set gaps = {}"
  shows "\<exists>rs. pls = map2 mk_placement specs rs \<and> list_all2 layout_size_ok specs rs
    \<and> pairwise_disjoint rs \<and> covered rs \<subseteq> covered rs0 \<union> ivls_set gaps"
proof -
  have len: "length rs0 = length specs" using assms(2) by (simp add: list_all2_lengthD)
  obtain sf sw sizes rs where
    sum: "sum_pass (zip specs rs0) 0 0 = Inr (sf, sw)" and
    el: "elastic_sizes specs (elastic_idx specs rs0) (i64 (total_free gaps - sf)) sw
          (fixed_sizes specs rs0) = Inr sizes" and
    pp: "place_pass (zip specs (zip rs0 sizes)) gaps = Inr rs" and
    pls: "pls = map2 mk_placement specs rs"
    using assms(1) unfolding layout_free_def Let_def
    by (auto split: sum.splits prod.splits if_splits)
  note e = elastic_sizes_ok [OF el]
  have lens: "length sizes = length specs" using e(1) len by (simp add: fixed_sizes_def)
  have rs0: "map (\<lambda>x. fst (snd x)) (zip specs (zip rs0 sizes)) = rs0"
    using len lens by (auto intro: nth_equalityI)
  note p = place_pass_ok [OF pp assms(3), unfolded rs0, OF assms(4,5)]
  have "list_all2 layout_size_ok specs rs"
  proof (rule list_all2_all_nthI)
    show lr: "length specs = length rs"
      using p lens len by (auto dest: list_all2_lengthD)
    fix i assume i: "i < length specs"
    have sz: "sized (specs ! i, rs0 ! i, sizes ! i) (rs ! i)"
      using p i len lens by (auto dest: list_all2_nthD)
    have pin: "pin_honoured (specs ! i) (rs0 ! i)" using assms(2) i by (auto dest: list_all2_nthD)
    show "layout_size_ok (specs ! i) (rs ! i)"
    proof (cases "rs0 ! i = []")
      case False
      then show ?thesis using sz pin by (auto simp: layout_size_ok_def sized_def pin_honoured_def)
    next
      case unpinned: True
      then have np: "TrimSpace (ps_Range (specs ! i)) = []" using pin by (simp add: pin_honoured_def)
      show ?thesis
      proof (cases "ps_Kind (specs ! i) = PoolElastic")
        case True
        then have "FloorForClass (ps_Class (specs ! i)) \<le> sizes ! i"
          using e(3) [of i] i unpinned by (simp add: elastic_idx_def)
        then show ?thesis
          using True np sz unpinned FloorForClass_pos [of "ps_Class (specs ! i)"]
          by (auto simp: layout_size_ok_def sized_def)
      next
        case False
        then have "sizes ! i = ps_Size (specs ! i)"
          using e(2) [of i] i unpinned len by (simp add: elastic_idx_def fixed_sizes_def)
        moreover have "(specs ! i, []) \<in> set (zip specs rs0)"
          using i len unpinned by (auto simp: in_set_zip intro: exI [of _ i])
        then have "0 \<le> ps_Size (specs ! i)" using sum_pass_ok [OF sum] False by simp
        ultimately show ?thesis
          using False np sz unpinned by (auto simp: layout_size_ok_def sized_def)
      qed
    qed
  qed
  then show ?thesis using pls p by blast
qed

lemma LayoutPools_ok:
  assumes "LayoutPools cidr specs = Inr pls"
  obtains ip n l h rs where "ParseCIDR cidr = Some (ip, n)" "subnetUsableBounds n = Some (l, h)"
    "pls = map2 mk_placement specs rs" "list_all2 layout_size_ok specs rs"
    "pairwise_disjoint rs" "covered rs \<subseteq> {l + 1 .. h}"
proof -
  obtain ip n l h rs0 pinned where pc: "ParseCIDR cidr = Some (ip, n)"
    and sb: "subnetUsableBounds n = Some (l, h)"
    and pp: "pin_pass (l + 1) h [] specs = Inr (rs0, pinned)"
    and lf: "layout_free specs rs0 (freeGaps (l + 1) h (sortIvls pinned)) = Inr pls"
    using assms unfolding LayoutPools_def Let_def
    by (auto split: option.splits prod.splits sum.splits if_splits)
  have post: "pin_post (l + 1) h [] specs rs0 pinned"
    by (rule pin_pass_post [OF pp]) (simp add: within_def)
  have ro: "res_ok h (sortIvls pinned)"
    using post sorted_sortIvls by (intro res_okI) (auto simp: pin_post_def within_def)
  have hi: "h < - 1" using usable_bounds_hi [OF sb] .
  have gs: "ivls_set (freeGaps (l + 1) h (sortIvls pinned)) = {l + 1 .. h} - covered rs0"
    unfolding freeGaps_def freeGaps_set [OF ro hi] using post by (simp add: pin_post_def)
  have go: "gaps_ok (freeGaps (l + 1) h (sortIvls pinned))"
    unfolding freeGaps_def using freeGaps_ok [OF ro hi] .
  have sub: "covered rs0 \<subseteq> {l + 1 .. h}"
  proof -
    have "ivls_set pinned \<subseteq> {l + 1 .. h}"
      using post by (force simp: pin_post_def within_def ivls_set_def ivl_set_def)
    then show ?thesis using post by (simp add: pin_post_def)
  qed
  have "\<exists>rs. pls = map2 mk_placement specs rs \<and> list_all2 layout_size_ok specs rs
    \<and> pairwise_disjoint rs \<and> covered rs \<subseteq> covered rs0 \<union> ({l + 1 .. h} - covered rs0)"
    using post gs by (intro layout_free_ok [OF lf _ go, unfolded gs]) (auto simp: pin_post_def)
  then show ?thesis using that [OF pc sb] sub by blast
qed

section \<open>Widening the subnet\<close>

definition fits :: "string \<Rightarrow> PoolSpec list \<Rightarrow> bool" where
  "fits cidr specs \<longleftrightarrow> (case LayoutPools cidr specs of Inr _ \<Rightarrow> True | Inl _ \<Rightarrow> False)"

lemma fit_loop_spec:
  assumes "fit_loop k cidr specs ip4 = Inr c"
  shows "(c = cidr \<and> (\<forall>m. fitCIDRFloor \<le> m \<and> m < k \<longrightarrow> \<not> fits (fit_candidate ip4 m) specs)) \<or>
    (\<exists>m. fitCIDRFloor \<le> m \<and> m < k \<and> c = fit_candidate ip4 m \<and> fits c specs \<and>
      (\<forall>m'. m < m' \<and> m' < k \<longrightarrow> \<not> fits (fit_candidate ip4 m') specs))"
  using assms
proof (induction k)
  case (Suc k)
  show ?case
  proof (cases "k < fitCIDRFloor")
    case True
    then show ?thesis using Suc.prems by auto
  next
    case False
    then have floor: "fitCIDRFloor \<le> k" by simp
    show ?thesis
    proof (cases "LayoutPools (fit_candidate ip4 k) specs")
      case (Inr pls)
      then have "c = fit_candidate ip4 k" using Suc.prems False by (simp add: Let_def)
      then show ?thesis using Inr floor by (intro disjI2 exI [of _ k]) (auto simp: fits_def)
    next
      case (Inl e)
      then have nf: "\<not> fits (fit_candidate ip4 k) specs" by (simp add: fits_def)
      have "fit_loop k cidr specs ip4 = Inr c"
        using Suc.prems False Inl by (simp add: Let_def split: layout_error.splits)
      from Suc.IH [OF this] nf show ?thesis
        by (metis less_Suc_eq)
    qed
  qed
qed simp

text \<open>The answer of the loop is the last, that is the longest, fitting prefix below its start.\<close>

lemma last_filter_upt:
  assumes "a \<le> m" "m < k" "P m" "\<forall>m'. m < m' \<and> m' < k \<longrightarrow> \<not> P m'"
  shows "filter P [a ..< k] \<noteq> [] \<and> last (filter P [a ..< k]) = m"
proof -
  have "[a ..< k] = [a ..< m] @ m # [Suc m ..< k]"
    using assms(1,2) upt_add_eq_append [of a m "k - m"] upt_conv_Cons [of m k] by simp
  moreover have "filter P [Suc m ..< k] = []" using assms(4) by (simp add: filter_empty_conv)
  ultimately show ?thesis using assms(3) by simp
qed

lemma fit_loop_last:
  assumes "fit_loop k cidr specs ip4 = Inr c"
  defines "w \<equiv> filter (\<lambda>m. fits (fit_candidate ip4 m) specs) [fitCIDRFloor ..< k]"
  shows "c = (if w = [] then cidr else fit_candidate ip4 (last w))"
  using fit_loop_spec [OF assms(1)]
proof (elim disjE exE conjE)
  assume "c = cidr" "\<forall>m. fitCIDRFloor \<le> m \<and> m < k \<longrightarrow> \<not> fits (fit_candidate ip4 m) specs"
  then show ?thesis by (simp add: w_def filter_empty_conv)
next
  fix m assume "fitCIDRFloor \<le> m" "m < k" "c = fit_candidate ip4 m" "fits c specs"
    "\<forall>m'. m < m' \<and> m' < k \<longrightarrow> \<not> fits (fit_candidate ip4 m') specs"
  then show ?thesis
    using last_filter_upt [of fitCIDRFloor m k "\<lambda>m. fits (fit_candidate ip4 m) specs"] by (simp add: w_def)
qed

lemma FitCIDR_cases:
  assumes "FitCIDR cidr specs = Inr c"
  shows "c = cidr \<or> fits c specs"
  using assms fit_loop_spec
  unfolding FitCIDR_def by (fastforce split: sum.splits layout_error.splits option.splits prod.splits if_splits)

lemma FitCIDR_idem:
  assumes "FitCIDR cidr specs = Inr c"
  shows "FitCIDR c specs = Inr c"
proof -
  have "FitCIDR c specs = Inr c" if "fits c specs"
    using that by (auto simp: fits_def FitCIDR_def split: sum.splits)
  then show ?thesis using FitCIDR_cases [OF assms] assms by auto
qed

section \<open>Addresses of a subnet\<close>

text \<open>\<open>IPNet.Contains\<close> on an IPv4 network.\<close>

definition in_subnet :: "ipnet \<Rightarrow> u32 \<Rightarrow> bool" where
  "in_subnet n x \<longleftrightarrow>
     x AND be_u32 (To4 (net_mask n)) = be_u32 (To4 (net_ip n)) AND be_u32 (To4 (net_mask n))"

lemma be_u32_CIDRMask: "m \<le> 32 \<Longrightarrow> be_u32 (CIDRMask m 32) = NOT (mask (32 - m))"
proof -
  have "list_all (\<lambda>m. be_u32 (CIDRMask m 32) = NOT (mask (32 - m))) [0 ..< 33]"
    by code_simp
  then show "m \<le> 32 \<Longrightarrow> be_u32 (CIDRMask m 32) = NOT (mask (32 - m))"
    by (simp add: list_all_iff)
qed

lemma drop_bit_mono_u32: "x \<le> y \<Longrightarrow> drop_bit k x \<le> drop_bit k (y :: u32)"
proof -
  have t: "take_bit 32 (uint z) = uint z" for z :: u32
    using u32_less(2) [of z] by (simp add: take_bit_eq_mod)
  show "x \<le> y \<Longrightarrow> drop_bit k x \<le> drop_bit k y"
    unfolding word_le_def unsigned_drop_bit_eq
    by (simp add: drop_bit_eq_div [where ?'a = int] zdiv_mono1 t)
qed

lemma and_not_mask_drop: "x AND NOT (mask k) = push_bit k (drop_bit k (x :: u32))"
  by (rule bit_word_eqI) (auto simp: bit_simps)

lemma between_same_net:
  fixes a x :: u32
  assumes "nw = a AND NOT (mask k)" "nw \<le> x" "x \<le> nw OR mask k"
  shows "x AND NOT (mask k) = nw"
proof -
  have "drop_bit k (nw OR mask k) = drop_bit k nw"
    by (rule bit_word_eqI) (auto simp: bit_simps)
  then have "drop_bit k x = drop_bit k nw"
    using drop_bit_mono_u32 [OF assms(2), of k] drop_bit_mono_u32 [OF assms(3), of k] by simp
  then have "x AND NOT (mask k) = nw AND NOT (mask k)" by (simp add: and_not_mask_drop)
  also have "\<dots> = nw" unfolding assms(1) by (simp add: and.assoc)
  finally show ?thesis .
qed


definition subnet_first :: "ipnet \<Rightarrow> u32" where
  "subnet_first n = be_u32 (To4 (net_ip n)) AND be_u32 (To4 (net_mask n))"

definition subnet_last :: "ipnet \<Rightarrow> u32" where
  "subnet_last n = subnet_first n OR NOT (be_u32 (To4 (net_mask n)))"

lemma in_subnet_between:
  assumes "To4 (net_mask n) = CIDRMask m 32" "m \<le> 32" "subnet_first n \<le> x" "x \<le> subnet_last n"
  shows "in_subnet n x"
proof -
  have mk: "be_u32 (To4 (net_mask n)) = NOT (mask (32 - m))"
    using assms(1,2) by (simp add: be_u32_CIDRMask)
  show ?thesis
    using between_same_net [of "subnet_first n" _ "32 - m" x] assms(3,4)
    unfolding in_subnet_def subnet_last_def mk by (simp add: subnet_first_def mk)
qed

lemma usable_bounds_eq:
  assumes "subnetUsableBounds n = Some (l, h)"
  shows "l = subnet_first n + 1" "h = subnet_last n - 1" "\<not> subnet_last n < subnet_first n + 2"
  using assms by (auto simp: subnetUsableBounds_def subnet_first_def subnet_last_def Let_def split: if_splits)

lemma length_CIDRMask [simp]: "length (CIDRMask m b) = b div 8"
  by (simp add: CIDRMask_def)

text \<open>With at least two host bits nothing wraps, and the range the allocator works in is
  the subnet without its network address, its gateway and its broadcast address.\<close>

lemma subnet_first_last:
  assumes "To4 (net_mask n) = CIDRMask m 32" "m \<le> 30"
  shows "uint (subnet_first n) + 3 \<le> uint (subnet_last n)"
proof -
  define k where "k = 32 - m"
  have k: "2 \<le> k" using assms(2) by (simp add: k_def)
  have mk: "be_u32 (To4 (net_mask n)) = NOT (mask k)"
    using assms by (simp add: be_u32_CIDRMask k_def)
  have fl: "subnet_first n = be_u32 (To4 (net_ip n)) AND NOT (mask k)"
    "subnet_last n = subnet_first n OR mask k"
    by (simp_all add: subnet_first_def subnet_last_def mk)
  have z: "subnet_first n AND mask k = 0" unfolding fl(1) by (simp add: and.assoc)
  then have sum: "subnet_last n = subnet_first n + mask k"
    unfolding fl(2) using word_plus_and_or [of "subnet_first n" "mask k"] by simp
  have le: "subnet_first n \<le> subnet_last n"
    unfolding fl(2) by (rule le_word_or2)
  have "uint (subnet_last n) = uint (subnet_first n) + uint (mask k :: u32)"
    using le sum uint_plus_simple_iff [of "subnet_first n" "mask k"] by simp
  moreover have "(3 :: int) \<le> uint (mask k :: u32)"
  proof -
    have "uint (mask k :: u32) = mask (min 32 k)" by (simp add: uint_mask_eq)
    moreover have "(2 :: int) ^ 2 \<le> 2 ^ min 32 k" using k by (intro power_increasing) auto
    ultimately show ?thesis by (simp add: mask_eq_exp_minus_1)
  qed
  ultimately show ?thesis by simp
qed

section \<open>The mask of a parsed IPv4 block\<close>

lemma To4_CIDRMask128: "To4 (CIDRMask m 128) = []"
proof (rule ccontr)
  assume "To4 (CIDRMask m 128) \<noteq> []"
  then have t: "take 12 (CIDRMask m 128) = v4InV6Prefix" by (simp add: To4_def split: if_splits)
  have n: "take 12 (CIDRMask m 128) ! i = CIDRMask m 128 ! i" if "i < 12" for i using that by simp
  have "CIDRMask m 128 ! 0 = 0" "CIDRMask m 128 ! 10 = 0xff"
    using n [of 0] n [of 10] unfolding t by (simp_all add: v4InV6Prefix_def nth_append)
  then have "word_of_int (256 - 2 ^ (8 - min 8 m)) = (0 :: byte)"
    "word_of_int (256 - 2 ^ (8 - min 8 (m - 80))) = (0xff :: byte)"
    by (simp_all add: CIDRMask_def Let_def)
  moreover have "min 8 m = 0 \<or> min 8 m \<in> {1, 2, 3, 4, 5, 6, 7, 8}" by auto
  ultimately show False by auto
qed

lemma mask_ones_CIDRMask: "m \<le> 32 \<Longrightarrow> mask_ones (CIDRMask m 32) = m"
proof -
  have "list_all (\<lambda>m. mask_ones (CIDRMask m 32) = m) [0 ..< 33]" by code_simp
  then show "m \<le> 32 \<Longrightarrow> mask_ones (CIDRMask m 32) = m" by (simp add: list_all_iff)
qed

lemma ParseCIDR_mask:
  assumes "ParseCIDR s = Some (ip, n)" "To4 (net_mask n) \<noteq> []"
  obtains "To4 (net_mask n) = CIDRMask (mask_ones (net_mask n)) 32" "mask_ones (net_mask n) \<le> 32"
proof -
  have "\<exists>(b :: byte list) k. k \<le> int (8 * length b) \<and> net_mask n = CIDRMask (nat k) (8 * length b)"
    using assms(1) unfolding ParseCIDR_def
    by (force simp: Let_def not_less split: option.splits prod.splits if_splits)
  then obtain b :: "byte list" and k where k: "k \<le> int (8 * length b)" and
    mk: "net_mask n = CIDRMask (nat k) (8 * length b)" by blast
  have "length (net_mask n) = 4 \<or> length (net_mask n) = 16"
    using assms(2) by (auto simp: To4_def split: if_splits)
  then have "length b = 4 \<or> length b = 16" by (simp add: mk)
  then show ?thesis
  proof
    assume "length b = 4"
    then show ?thesis using that k mk by (auto simp: To4_def mask_ones_CIDRMask)
  next
    assume "length b = 16"
    then show ?thesis using assms(2) mk To4_CIDRMask128 by simp
  qed
qed

section \<open>Properties\<close>

lemma map2_placement:
  assumes "length rs = length specs"
  shows "map pp_Class (map2 mk_placement specs rs) = map ps_Class specs"
    "map pp_Kind (map2 mk_placement specs rs) = map ps_Kind specs"
    "map pp_Range (map2 mk_placement specs rs) = rs"
  using assms by (auto intro: nth_equalityI simp: mk_placement_def)

text \<open>A successful \<open>LayoutPools\<close> gives every pool the size it promises: a pinned
  spec keeps exactly its typed bounds, an unpinned fixed or reserved pool has exactly \<open>Size\<close>
  addresses (no range for size zero, never a negative size), and an unpinned elastic pool has a
  range of at least the floor of its class.\<close>

theorem LayoutPools_sizes:
  assumes "LayoutPools cidr specs = Inr pls"
  shows "list_all2 layout_size_ok specs (map pp_Range pls)"
  using LayoutPools_ok [OF assms] by (metis (no_types, lifting) list_all2_lengthD map2_placement(3))

text \<open>On a block with at least two host bits (prefix length at most 30) every address
  \<open>LayoutPools\<close> hands to a pool belongs to the block and is neither its network address, nor
  the gateway (network + 1), nor its broadcast address.\<close>

theorem LayoutPools_in_subnet:
  assumes "LayoutPools cidr specs = Inr pls" "ParseCIDR cidr = Some (ip, n)"
    "mask_ones (net_mask n) \<le> 30" "x \<in> covered (map pp_Range pls)"
  shows "in_subnet n x \<and> x \<noteq> subnet_first n \<and> x \<noteq> subnet_first n + 1 \<and> x \<noteq> subnet_last n"
proof -
  obtain ip' n' l h rs where "ParseCIDR cidr = Some (ip', n')" "subnetUsableBounds n' = Some (l, h)"
    and rs: "pls = map2 mk_placement specs rs" "list_all2 layout_size_ok specs rs" "covered rs \<subseteq> {l + 1 .. h}"
    by (rule LayoutPools_ok [OF assms(1)])
  then have sb: "subnetUsableBounds n = Some (l, h)" using assms(2) by simp
  have "map pp_Range pls = rs" using rs by (metis list_all2_lengthD map2_placement(3))
  with rs have x: "l + 1 \<le> x" "x \<le> h"
    using assms(4) by auto
  have "To4 (net_mask n) \<noteq> []" using sb by (auto simp: subnetUsableBounds_def Let_def split: if_splits)
  then have mk: "To4 (net_mask n) = CIDRMask (mask_ones (net_mask n)) 32" "mask_ones (net_mask n) \<le> 32"
    using ParseCIDR_mask [OF assms(2)] by auto
  note fl = subnet_first_last [OF mk(1) assms(3)]
  note b = usable_bounds_eq [OF sb]
  have last: "uint (subnet_last n) < 4294967296" "0 \<le> uint (subnet_first n)" by simp_all
  have md: "(uint (subnet_first n) + 2) mod 4294967296 = uint (subnet_first n) + 2"
    "(uint (subnet_last n) - 1) mod 4294967296 = uint (subnet_last n) - 1"
    "(uint (subnet_first n) + 1) mod 4294967296 = uint (subnet_first n) + 1"
    by (rule mod_pos_pos_trivial; use fl last in linarith)+
  have u: "uint (l + 1) = uint (subnet_first n) + 2" "uint h = uint (subnet_last n) - 1"
    "uint (subnet_first n + 1) = uint (subnet_first n) + 1"
    unfolding b(1,2) by (simp_all add: uint_word_ariths add.assoc md)
  have "uint (subnet_first n) + 2 \<le> uint x" "uint x \<le> uint (subnet_last n) - 1"
    using x unfolding word_le_def u by simp_all
  then have "subnet_first n \<le> x" "x \<le> subnet_last n"
    "uint x \<noteq> uint (subnet_first n)" "uint x \<noteq> uint (subnet_first n + 1)" "uint x \<noteq> uint (subnet_last n)"
    unfolding word_le_def u by linarith+
  then show ?thesis using in_subnet_between [OF mk] by auto
qed

text \<open>C1: On an IPv4 block with at least two host bits (prefix length at most 30; a narrower
  block at the top of the address space slips through the wrapping bounds test), a successful
  \<open>LayoutPools\<close> returns one placement per spec, in order, with the spec's class and
  kind, whatever the operator's sizes and weights; the placed ranges (pinned, fixed, reserved and
  elastic alike) are pairwise disjoint, and every address in them belongs to the block and is
  neither its network address, nor the gateway (network + 1), nor its broadcast address.\<close>

theorem LayoutPools_sound:
  assumes "LayoutPools cidr specs = Inr pls" "ParseCIDR cidr = Some (ip, n)"
    "mask_ones (net_mask n) \<le> 30"
  shows "map pp_Class pls = map ps_Class specs \<and> map pp_Kind pls = map ps_Kind specs
    \<and> pairwise_disjoint (map pp_Range pls)
    \<and> covered (map pp_Range pls) \<subseteq> {x. in_subnet n x \<and> x \<noteq> subnet_first n
        \<and> x \<noteq> subnet_first n + 1 \<and> x \<noteq> subnet_last n}"
proof -
  have "map pp_Class pls = map ps_Class specs \<and> map pp_Kind pls = map ps_Kind specs
      \<and> pairwise_disjoint (map pp_Range pls)"
    using LayoutPools_ok [OF assms(1)] by (metis (no_types, lifting) list_all2_lengthD map2_placement)
  then show ?thesis using LayoutPools_in_subnet [OF assms] by blast
qed

text \<open>C14: \<open>FitCIDR\<close> widens a block no further than it must: a plan that fits the typed
  block keeps it; a block that does not parse, or is not IPv4, comes back as typed; otherwise the
  answer is the typed base re-masked to the longest prefix, shorter than the typed one and no
  shorter than /8, that the plan fits, and the typed block only when it fits none of them.  A
  second call returns the first call's answer.\<close>

theorem FitCIDR_smallest:
  assumes "FitCIDR cidr specs = Inr c"
  shows "(case ParseCIDR cidr of None \<Rightarrow> c = cidr
     | Some (ip, n) \<Rightarrow>
        (let wider = filter (\<lambda>m. fits (fit_candidate (To4 ip) m) specs) [fitCIDRFloor ..< mask_ones (net_mask n)]
         in c = (if fits cidr specs \<or> To4 ip = [] \<or> wider = [] then cidr
                 else fit_candidate (To4 ip) (last wider))))
    \<and> FitCIDR c specs = Inr c"
proof (cases "ParseCIDR cidr")
  case None
  then show ?thesis using assms FitCIDR_idem [OF assms]
    by (auto simp: FitCIDR_def split: sum.splits layout_error.splits)
next
  case (Some r)
  then obtain ip n where p: "ParseCIDR cidr = Some (ip, n)" by (cases r) simp
  let ?w = "filter (\<lambda>m. fits (fit_candidate (To4 ip) m) specs) [fitCIDRFloor ..< mask_ones (net_mask n)]"
  have "c = (if fits cidr specs \<or> To4 ip = [] \<or> ?w = [] then cidr else fit_candidate (To4 ip) (last ?w))"
  proof (cases "fits cidr specs \<or> To4 ip = []")
    case True
    then show ?thesis using assms p
      by (auto simp: FitCIDR_def fits_def split: sum.splits layout_error.splits)
  next
    case False
    then have "fit_loop (mask_ones (net_mask n)) cidr specs (To4 ip) = Inr c"
      using assms p by (auto simp: FitCIDR_def fits_def split: sum.splits layout_error.splits)
    from fit_loop_last [OF this] False show ?thesis by simp
  qed
  then show ?thesis using FitCIDR_idem [OF assms] by (simp add: p)
qed

definition ex_spec :: "string \<Rightarrow> PoolKind \<Rightarrow> int \<Rightarrow> string \<Rightarrow> PoolSpec" where
  "ex_spec c k n r = \<lparr>ps_Class = c, ps_Kind = k, ps_Size = n, ps_Weight = 1, ps_Range = r, ps_Vendors = []\<rparr>"

definition ex_placements :: "PoolPlacement list" where
  "ex_placements = [\<lparr>pp_Class = ''A'', pp_Kind = PoolFixed, pp_Range = ''10.0.0.2 - 10.0.0.5''\<rparr>,
    \<lparr>pp_Class = ''B'', pp_Kind = PoolElastic, pp_Range = ''10.0.0.6 - 10.0.0.14''\<rparr>]"

lemma layout_example:
  "LayoutPools ''10.0.0.0/28'' [ex_spec ''A'' PoolFixed 4 [], ex_spec ''B'' PoolElastic 0 []]
    = Inr ex_placements"
  by code_simp

lemma layout_example_range: "range_text 0x0a000002 0x0a000005 = ''10.0.0.2 - 10.0.0.5''"
  by code_simp

text \<open>The bound test of \<open>subnetUsableBounds\<close> wraps for the last address of the space, so the
  pools of this /32 are laid out from 0.0.0.1 on.\<close>

lemma LayoutPools_host_route:
  "map_sum id (map pp_Range) (LayoutPools ''255.255.255.255/32'' [ex_spec ''A'' PoolFixed 4 []])
    = Inr [''0.0.0.1 - 0.0.0.4'']"
  by code_simp

text \<open>So are those of the /31 at the top, where the usable bounds wrap.\<close>

lemma LayoutPools_top_block:
  "map_sum id (map pp_Range) (LayoutPools ''255.255.255.254/31'' [ex_spec ''A'' PoolFixed 4 []])
    = Inr [''0.0.0.0 - 0.0.0.3'']"
  by code_simp

lemma ex_block:
  "ParseCIDR ''10.0.0.0/28'' = Some ([0, 0, 0, 0, 0, 0, 0, 0, 0, 0, 0xff, 0xff, 10, 0, 0, 0],
    \<lparr>net_ip = [10, 0, 0, 0], net_mask = [255, 255, 255, 240]\<rparr>)"
  "mask_ones (net_mask \<lparr>net_ip = [10, 0, 0, 0], net_mask = [255, 255, 255, 240]\<rparr>) \<le> 30"
  by code_simp+

lemma LayoutPools_sound_witness:
  "pairwise_disjoint (map pp_Range ex_placements)
    \<and> map pp_Class ex_placements = [''A'', ''B'']
    \<and> subnet_last \<lparr>net_ip = [10, 0, 0, 0], net_mask = [255, 255, 255, 240]\<rparr> \<notin> covered (map pp_Range ex_placements)"
  using LayoutPools_sound [OF layout_example ex_block] by (auto simp: ex_spec_def ex_placements_def)

lemma LayoutPools_sizes_witness:
  "layout_size_ok (ex_spec ''A'' PoolFixed 4 []) ''10.0.0.2 - 10.0.0.5''"
  using LayoutPools_sizes [OF layout_example] by (simp add: ex_placements_def)

lemma LayoutPools_in_subnet_witness:
  "in_subnet \<lparr>net_ip = [10, 0, 0, 0], net_mask = [255, 255, 255, 240]\<rparr> 0x0a000003"
proof -
  have "(0x0a000003 :: u32) \<in> placed (range_text 0x0a000002 0x0a000005)" by simp
  then have "0x0a000003 \<in> covered (map pp_Range ex_placements)"
    by (simp add: ex_placements_def layout_example_range)
  from LayoutPools_in_subnet [OF layout_example ex_block this] show ?thesis by simp
qed

lemma fit_example: "FitCIDR ''10.0.0.0/28'' [ex_spec ''A'' PoolFixed 20 []] = Inr ''10.0.0.0/27''"
  by code_simp

lemma FitCIDR_smallest_witness:
  "last (filter (\<lambda>m. fits (fit_candidate [10, 0, 0, 0] m) [ex_spec ''A'' PoolFixed 20 []]) [fitCIDRFloor ..< 28]) = 27
    \<and> FitCIDR ''10.0.0.0/27'' [ex_spec ''A'' PoolFixed 20 []] = Inr ''10.0.0.0/27''"
proof -
  have e: "To4 [0, 0, 0, 0, 0, 0, 0, 0, 0, 0, 0xff, 0xff, 10, 0, 0, 0] = [10, 0, 0, 0]"
    "mask_ones [255, 255, 255, 240] = 28" "fit_candidate [10, 0, 0, 0] 27 = ''10.0.0.0/27''" by code_simp+
  have "\<not> fits ''10.0.0.0/28'' [ex_spec ''A'' PoolFixed 20 []]" "fits ''10.0.0.0/27'' [ex_spec ''A'' PoolFixed 20 []]"
    by code_simp+
  then show ?thesis
    using FitCIDR_smallest [OF fit_example]
      last_filter_upt [of fitCIDRFloor 27 28 "\<lambda>m. fits (fit_candidate [10, 0, 0, 0] m) [ex_spec ''A'' PoolFixed 20 []]"]
    by (simp add: ex_block(1) e fitCIDRFloor_def)
qed

end
