(* ===== verification/KeaRender.thy ===== *)
theory KeaRender
  imports KeaLayout
begin

text \<open>
  \<open>src/internal/kea/renderer.go\<close>: the Kea configuration object.  \<open>RenderConfig\<close>
  returns the value the code hands to the JSON encoder, one record per private struct; a field that
  \<open>omitempty\<close> drops keeps its zero value.  The hooks directory found by
  \<open>detectHooksDir\<close> (a file-system probe) is an argument.
\<close>

record OptionKV =
  ok_Name :: string
  ok_Data :: string

record PoolConfig =
  pc_Range :: string
  pc_ClientClass :: string

record SubnetConfig =
  sn_ID :: int
  sn_Subnet :: string
  sn_Pools :: "PoolConfig list"
  sn_Gateway :: string
  sn_DNS :: string
  sn_LeaseLifetime :: int
  sn_Options :: "OptionKV list"

record TemplateData =
  td_Interfaces :: "string list"
  td_MariaDBHost :: string
  td_MariaDBUser :: string
  td_MariaDBPass :: string
  td_MariaDBName :: string
  td_HooksDir :: string
  td_PortPinning :: bool
  td_KeaSecretPath :: string
  td_ClientClasses :: "ClientClassConfig list"
  td_Subnets :: "SubnetConfig list"
  td_ValidLifetime :: int
  td_RenewTimer :: int
  td_RebindTimer :: int
  td_Debug :: bool

section \<open>The configuration object\<close>

record poolEntry =
  pl_Pool :: string
  pl_ClientClasses :: "string list"

record subnet4 =
  s4_ID :: int
  s4_Subnet :: string
  s4_Pools :: "poolEntry list"
  s4_ValidLifetime :: int
  s4_RenewTimer :: int
  s4_RebindTimer :: int
  s4_OptionData :: "OptionKV list"

record hostsDatabase =
  hd_Type :: string
  hd_Name :: string
  hd_User :: string
  hd_Password :: string
  hd_Host :: string
  hd_RetryOnStartup :: bool
  hd_OnFail :: string

record hookLibrary =
  hl_Library :: string
  hl_IdentifierExpression :: "string option"
  hl_ReplaceClientID :: bool

record keaLogger =
  lg_Name :: string
  lg_Output :: string
  lg_Severity :: string
  lg_DebugLevel :: int

record controlSocket =
  cs_SocketType :: string
  cs_SocketName :: string
  cs_SocketAddress :: string
  cs_SocketPort :: int
  cs_AuthUser :: string
  cs_AuthPasswordFile :: string

record keaConfig =
  kc_Interfaces :: "string list"
  kc_ReDetect :: bool
  kc_Authoritative :: bool
  kc_ValidLifetime :: int
  kc_RenewTimer :: int
  kc_RebindTimer :: int
  kc_HostReservationIdentifiers :: "string list"
  kc_ControlSockets :: "controlSocket list"
  kc_LeaseDatabase :: "string \<times> int"
  kc_HostsDatabase :: "hostsDatabase option"
  kc_HooksLibraries :: "hookLibrary list"
  kc_ClientClasses :: "ClientClassConfig list"
  kc_Subnet4 :: "subnet4 list"
  kc_Loggers :: "keaLogger list"

definition defaultLeaseLifetime :: int where "defaultLeaseLifetime = 1800"
definition onboardingLeaseLifetime :: int where "onboardingLeaseLifetime = 90"

definition leaseTimers :: "int \<Rightarrow> int \<times> int \<times> int" where
  "leaseTimers lifetime0 =
    (let lifetime = (if lifetime0 \<le> 0 then defaultLeaseLifetime else lifetime0) in
     (lifetime, go_div lifetime 2, go_div (i64 (lifetime * 7)) 8))"

definition hostsDB :: "TemplateData \<Rightarrow> hostsDatabase option" where
  "hostsDB d =
    (if td_MariaDBHost d = [] then None
     else Some \<lparr>hd_Type = ''mysql'', hd_Name = td_MariaDBName d, hd_User = td_MariaDBUser d,
       hd_Password = td_MariaDBPass d, hd_Host = td_MariaDBHost d, hd_RetryOnStartup = True,
       hd_OnFail = ''serve-retry-continue''\<rparr>)"

definition plain_hook :: "string \<Rightarrow> hookLibrary" where
  "plain_hook l = \<lparr>hl_Library = l, hl_IdentifierExpression = None, hl_ReplaceClientID = False\<rparr>"

definition flex_id_expression :: string where
  "flex_id_expression = ''ifelse(relay4[1].exists or relay4[2].exists, relay4[2].hex + 0x1f + relay4[1].hex, ''
     @ quote @ quote @ '')''"

definition buildHooks :: "string \<Rightarrow> bool \<Rightarrow> bool \<Rightarrow> hookLibrary list" where
  "buildHooks hooksDir portPinning hasDB =
     (if portPinning then [\<lparr>hl_Library = hooksDir @ ''libdhcp_flex_id.so'',
         hl_IdentifierExpression = Some flex_id_expression, hl_ReplaceClientID = True\<rparr>] else [])
     @ map (\<lambda>l. plain_hook (hooksDir @ l)) [''libdhcp_lease_cmds.so'', ''libdhcp_stat_cmds.so'']
     @ (if hasDB then map (\<lambda>l. plain_hook (hooksDir @ l)) [''libdhcp_host_cmds.so'', ''libdhcp_mysql.so'']
        else [])"

definition buildClientClasses :: "ClientClassConfig list \<Rightarrow> ClientClassConfig list" where
  "buildClientClasses xs = (if length xs = 0 then [] else map (\<lambda>c. c) xs)"

definition build_pool :: "PoolConfig \<Rightarrow> poolEntry" where
  "build_pool p = \<lparr>pl_Pool = pc_Range p,
     pl_ClientClasses = (if pc_ClientClass p \<noteq> [] then [pc_ClientClass p, ''KNOWN''] else [])\<rparr>"

definition build_options :: "SubnetConfig \<Rightarrow> OptionKV list" where
  "build_options s =
     (if sn_Gateway s \<noteq> [] then [\<lparr>ok_Name = ''routers'', ok_Data = sn_Gateway s\<rparr>] else [])
     @ (if sn_DNS s \<noteq> [] then [\<lparr>ok_Name = ''domain-name-servers'', ok_Data = sn_DNS s\<rparr>] else [])
     @ filter (\<lambda>x. \<not> (ok_Name x = [] \<or> ok_Data x = [])) (sn_Options s)"

definition build_subnet :: "SubnetConfig \<Rightarrow> subnet4" where
  "build_subnet s =
    (let (v, t1, t2) = (if sn_LeaseLifetime s > 0 then leaseTimers (sn_LeaseLifetime s) else (0, 0, 0)) in
     \<lparr>s4_ID = sn_ID s, s4_Subnet = sn_Subnet s, s4_Pools = map build_pool (sn_Pools s),
      s4_ValidLifetime = v, s4_RenewTimer = t1, s4_RebindTimer = t2, s4_OptionData = build_options s\<rparr>)"

definition buildSubnets :: "SubnetConfig list \<Rightarrow> subnet4 list" where
  "buildSubnets xs = map build_subnet xs"

definition RenderConfig :: "string \<Rightarrow> TemplateData \<Rightarrow> keaConfig" where
  "RenderConfig detected d =
    (let dir = (if td_HooksDir d = [] then detected else td_HooksDir d) in
     \<lparr>kc_Interfaces = td_Interfaces d, kc_ReDetect = True, kc_Authoritative = True,
      kc_ValidLifetime = td_ValidLifetime d, kc_RenewTimer = td_RenewTimer d,
      kc_RebindTimer = td_RebindTimer d,
      kc_HostReservationIdentifiers = [''flex-id'', ''hw-address''],
      kc_ControlSockets =
        [\<lparr>cs_SocketType = ''unix'', cs_SocketName = ''/var/run/kea/kea-dhcp4-ctrl.sock'',
           cs_SocketAddress = [], cs_SocketPort = 0, cs_AuthUser = [], cs_AuthPasswordFile = []\<rparr>,
         \<lparr>cs_SocketType = ''http'', cs_SocketName = [], cs_SocketAddress = ''127.0.0.1'',
           cs_SocketPort = 8004, cs_AuthUser = ''gui'', cs_AuthPasswordFile = td_KeaSecretPath d\<rparr>],
      kc_LeaseDatabase = (''memfile'', 3600),
      kc_HostsDatabase = hostsDB d,
      kc_HooksLibraries = buildHooks dir (td_PortPinning d) (td_MariaDBHost d \<noteq> []),
      kc_ClientClasses = buildClientClasses (td_ClientClasses d),
      kc_Subnet4 = buildSubnets (td_Subnets d),
      kc_Loggers = [\<lparr>lg_Name = ''kea-dhcp4'', lg_Output = ''/var/log/kea/kea.log'',
        lg_Severity = (if td_Debug d then ''DEBUG'' else ''INFO''),
        lg_DebugLevel = (if td_Debug d then 99 else 0)\<rparr>]\<rparr>)"

section \<open>Address arithmetic\<close>

fun inc_bytes :: "byte list \<Rightarrow> int \<Rightarrow> byte list" where
  "inc_bytes [] num = []"
| "inc_bytes (b # bs) num =
     (let sum = uint b + num; carry = sum div 256 in
      word_of_int sum # (if carry = 0 then bs else inc_bytes bs carry))"

definition IncIP :: "go_ip \<Rightarrow> int \<Rightarrow> go_ip" where
  "IncIP ip num = rev (inc_bytes (rev ip) num)"

fun le_value :: "byte list \<Rightarrow> int" where
  "le_value [] = 0"
| "le_value (b # bs) = uint b + 256 * le_value bs"

lemma length_inc_bytes [simp]: "length (inc_bytes bs n) = length bs"
  by (induction bs n rule: inc_bytes.induct) (simp_all add: Let_def)

lemma uint_byte_of_int: "uint (word_of_int k :: byte) = k mod 256"
  by (simp add: uint_word_of_int)

lemma inc_bytes_value:
  "le_value (inc_bytes bs n) = (le_value bs + n) mod 256 ^ length bs"
proof (induction bs n rule: inc_bytes.induct)
  case (2 b bs num)
  let ?s = "uint b + num"
  have h: "uint (b + word_of_int num) = ?s mod 256"
    by (simp add: uint_word_ariths uint_word_of_int mod_simps)
  have r: "le_value (inc_bytes (b # bs) num) = ?s mod 256 + 256 * ((le_value bs + ?s div 256) mod 256 ^ length bs)"
  proof (cases "?s div 256 = 0")
    case True
    have "0 \<le> le_value xs \<and> le_value xs < 256 ^ length xs" for xs
    proof (induction xs)
      case (Cons x xs)
      have x: "uint x < 256" "0 \<le> uint x" by simp_all
      have "0 \<le> uint x + 256 * le_value xs" using x Cons by simp
      moreover have "uint x + 256 * le_value xs < 256 * 256 ^ length xs" using x Cons by linarith
      ultimately show ?case by simp
    qed simp
    then have "le_value bs mod 256 ^ length bs = le_value bs" by (metis mod_pos_pos_trivial)
    moreover have "?s mod 256 = ?s" using True div_mult_mod_eq [of ?s 256] by simp
    ultimately show ?thesis using True h by (simp add: Let_def)
  next
    case False
    then show ?thesis using 2 [OF refl refl False] h by (simp add: Let_def)
  qed
  have "(le_value (b # bs) + num) mod (256 * 256 ^ length bs)
      = 256 * ((le_value (b # bs) + num) div 256 mod 256 ^ length bs) + (le_value (b # bs) + num) mod 256"
    by (rule zmod_zmult2_eq) simp
  moreover have e: "le_value (b # bs) + num = ?s + le_value bs * 256" by simp
  moreover have "(le_value (b # bs) + num) div 256 = le_value bs + ?s div 256"
    "(le_value (b # bs) + num) mod 256 = ?s mod 256"
    unfolding e by (simp_all only: div_mult_self1 mod_mult_self1)
  ultimately show ?case using r by simp
qed simp

lemma le_value_be_u32: "length ip = 4 \<Longrightarrow> le_value (rev ip) = uint (be_u32 ip)"
proof -
  assume "length ip = 4"
  then obtain a b c d where "ip = [a, b, c, d]"
    by (auto simp: length_Suc_conv numeral_eq_Suc)
  then show ?thesis by (simp add: uint_be_u32)
qed

lemma IncIP_be: "length ip = 4 \<Longrightarrow> uint (be_u32 (IncIP ip n)) = (uint (be_u32 ip) + n) mod 4294967296"
  using inc_bytes_value [of "rev ip" n] le_value_be_u32 [of ip] le_value_be_u32 [of "IncIP ip n"]
  by (simp add: IncIP_def)

text \<open>\<open>IncIP\<close> adds its offset to the IPv4 address it is given, modulo the 32-bit
  address space, with every carry, and keeps the four bytes.\<close>

lemma IncIP_adds:
  "IncIP [a, b, c, d] n = put_u32 (be_u32 [a, b, c, d] + word_of_int n)"
proof -
  have l: "length (IncIP [a, b, c, d] n) = 4" by (simp add: IncIP_def del: inc_bytes.simps)
  then obtain w x y z where e: "IncIP [a, b, c, d] n = [w, x, y, z]"
    by (auto simp: length_Suc_conv numeral_eq_Suc)
  have "uint (be_u32 [w, x, y, z]) = uint (be_u32 [a, b, c, d] + word_of_int n)"
    using IncIP_be [of "[a, b, c, d]" n] by (simp add: e uint_word_ariths uint_word_of_int mod_simps)
  then have "be_u32 [w, x, y, z] = be_u32 [a, b, c, d] + word_of_int n" by (rule unsigned_word_eqI)
  then show ?thesis using put_u32_be_u32 [of w x y z] e by simp
qed

end
