(* ===== verification/DnsMessage.thy ===== *)
theory DnsMessage
  imports KeaClasses
begin

text \<open>
  \<open>src/internal/dns/message.go\<close>: the DNS wire format.  A packet is a \<open>byte list\<close>, a
  name a \<open>string\<close>.  The decoder follows compression pointers with a jump budget and a length
  budget; its termination measure is what is left of the two.
\<close>

section \<open>Bytes and characters\<close>

definition byte_char :: "byte \<Rightarrow> char" where
  "byte_char b = char_of (uint b)"

definition char_byte :: "char \<Rightarrow> byte" where
  "char_byte c = word_of_int (of_char c)"

lemma byte_char_byte [simp]: "byte_char (char_byte c) = c"
proof -
  have "(of_char c :: int) mod 256 = of_char c" by (simp add: of_char_def)
  then show ?thesis by (simp add: byte_char_def char_byte_def unsigned_of_int take_bit_eq_mod)
qed

lemma char_byte_char [simp]: "char_byte (byte_char b) = b"
proof -
  have "(of_char (char_of (uint b) :: char) :: int) = uint b"
    using byte_less(2) [of b] by (simp add: of_char_of)
  then show ?thesis by (simp add: byte_char_def char_byte_def)
qed

definition be_u16 :: "byte \<Rightarrow> byte \<Rightarrow> u16" where
  "be_u16 a b = ucast a * 256 + ucast b"

section \<open>Constants\<close>

definition headerLen :: nat where "headerLen = 12"
definition maxUDPResponse :: nat where "maxUDPResponse = 512"
definition typeA :: u16 where "typeA = 1"
definition typePTR :: u16 where "typePTR = 12"
definition typeANY :: u16 where "typeANY = 255"
definition classIN :: u16 where "classIN = 1"
definition rcodeNoError :: byte where "rcodeNoError = 0"
definition rcodeServFail :: byte where "rcodeServFail = 2"
definition rcodeNXDomain :: byte where "rcodeNXDomain = 3"
definition rcodeNotImp :: byte where "rcodeNotImp = 4"
definition rcodeRefused :: byte where "rcodeRefused = 5"

lemmas dns_consts = headerLen_def maxUDPResponse_def typeA_def typePTR_def typeANY_def classIN_def
  rcodeNoError_def rcodeServFail_def rcodeNXDomain_def rcodeNotImp_def rcodeRefused_def

section \<open>Decoding\<close>

definition lower_byte :: "byte \<Rightarrow> byte" where
  "lower_byte ch = (if 65 \<le> ch \<and> ch \<le> 90 then ch + 32 else ch)"

text \<open>The loop of \<open>decodeName\<close>.  \<open>en\<close> is the resume offset (\<open>None\<close> for
  -1), \<open>b\<close> the name written so far.\<close>

function decode_loop :: "byte list \<Rightarrow> nat \<Rightarrow> nat option \<Rightarrow> nat \<Rightarrow> nat \<Rightarrow> string
    \<Rightarrow> (string \<times> nat) option" where
  "decode_loop msg off en jumps tot b =
    (if length msg \<le> off then None
     else let cb = msg ! off; c = unat cb in
       if cb = 0 then Some (b, case en of None \<Rightarrow> off + 1 | Some e \<Rightarrow> e)
       else if cb AND 0xc0 = 0xc0 then
         if length msg \<le> off + 1 then None
         else if 16 < jumps + 1 then None
         else decode_loop msg (unat (cb AND 0x3f) * 256 + unat (msg ! (off + 1)))
           (case en of None \<Rightarrow> Some (off + 2) | Some e \<Rightarrow> Some e) (jumps + 1) tot b
       else if cb AND 0xc0 \<noteq> 0 then None
       else if length msg < off + 1 + c then None
       else if 255 < tot + (c + 1) then None
       else decode_loop msg (off + 1 + c) en jumps (tot + (c + 1))
         ((if b \<noteq> [] then b @ ''.'' else b)
            @ map (byte_char \<circ> lower_byte) (take c (drop (off + 1) msg))))"
  by pat_completeness auto
termination
  by (relation "measure (\<lambda>(msg, off, en, jumps, tot, b). (17 - jumps) + (256 - tot))") auto

declare decode_loop.simps [simp del]

definition decodeName :: "byte list \<Rightarrow> nat \<Rightarrow> (string \<times> nat) option" where
  "decodeName msg off = decode_loop msg off None 0 0 []"

record question =
  q_Name :: string
  q_Type :: u16
  q_Class :: u16
  q_end :: nat

definition parseQuestion :: "byte list \<Rightarrow> question option" where
  "parseQuestion msg =
    (if length msg < headerLen then None
     else if be_u16 (msg ! 4) (msg ! 5) < 1 then None
     else case decodeName msg headerLen of
       None \<Rightarrow> None
     | Some (name, off) \<Rightarrow>
        if length msg < off + 4 then None
        else Some \<lparr>q_Name = name, q_Type = be_u16 (msg ! off) (msg ! (off + 1)),
               q_Class = be_u16 (msg ! (off + 2)) (msg ! (off + 3)), q_end = off + 4\<rparr>)"

section \<open>Encoding\<close>

definition encode_label :: "string \<Rightarrow> byte list" where
  "encode_label label =
    (if label = [] then []
     else let l = (if 63 < length label then take 63 label else label)
          in of_nat (length l) # map char_byte l)"

definition encodeName :: "string \<Rightarrow> byte list" where
  "encodeName name = concat (map encode_label (split_on CHR ''.'' name)) @ [0]"

definition appendTTL :: "byte list \<Rightarrow> u32 \<Rightarrow> byte list" where
  "appendTTL b ttl = b @ [ucast (drop_bit 24 ttl), ucast (drop_bit 16 ttl), ucast (drop_bit 8 ttl), ucast ttl]"

definition respond :: "byte list \<Rightarrow> question \<Rightarrow> byte \<Rightarrow> bool \<Rightarrow> byte list list \<Rightarrow> byte list" where
  "respond req q rcode aa answers =
    (let flags0 = 0x80 OR (req ! 2 AND 0x78) OR (req ! 2 AND 0x01);
         flags1 = (if aa then flags0 OR 0x04 else flags0);
         hd4 = [req ! 0, req ! 1, flags1, 0x80 OR (rcode AND 0x0f)];
         resp = hd4 @ [0, 1] @ [0, of_nat (length answers)] @ [0, 0, 0, 0]
           @ take (q_end q - headerLen) (drop headerLen req) @ concat answers
     in if maxUDPResponse < length resp
        then (take (headerLen + (q_end q - headerLen)) resp)[2 := resp ! 2 OR 0x02, 6 := 0, 7 := 0]
        else resp)"

definition rrA :: "byte list \<Rightarrow> u32 \<Rightarrow> byte list" where
  "rrA ip ttl = appendTTL [0xc0, 0x0c, 0, 1, 0, 1] ttl @ [0, 4] @ ip"

definition rrPTR :: "string \<Rightarrow> u32 \<Rightarrow> byte list" where
  "rrPTR target ttl =
    (let rdata = encodeName target in
     appendTTL [0xc0, 0x0c, 0, 12, 0, 1] ttl
       @ [of_nat (length rdata div 256), of_nat (length rdata)] @ rdata)"

section \<open>Reverse names\<close>

definition atoiOctet :: "string \<Rightarrow> byte option" where
  "atoiOctet s =
    (if length s = 0 \<or> 3 < length s then None
     else if \<not> list_all is_digit s then None
     else let n = dec_value s in if 255 < n then None else Some (word_of_int n))"

definition cut_suffix :: "string \<Rightarrow> string \<Rightarrow> string option" where
  "cut_suffix s suf = (if length suf \<le> length s \<and> drop (length s - length suf) s = suf
     then Some (take (length s - length suf) s) else None)"

definition reverseName :: "string \<Rightarrow> byte list option" where
  "reverseName name =
    (case cut_suffix name ''.in-addr.arpa'' of None \<Rightarrow> None
     | Some rest \<Rightarrow> (case map atoiOctet (split_on CHR ''.'' rest) of
         [Some a, Some b, Some c, Some d] \<Rightarrow> Some [d, c, b, a]
       | _ \<Rightarrow> None))"

section \<open>Facts about the decoder\<close>

lemma small_label: "n \<le> 63 \<Longrightarrow> (of_nat n :: byte) AND 0xc0 = 0"
proof -
  assume n: "n \<le> 63"
  have "list_all (\<lambda>n. (of_nat n :: byte) AND 0xc0 = 0) [0 ..< 64]" by code_simp
  then show ?thesis using n by (auto simp: list_all_iff)
qed

text \<open>One turn of the loop, by the kind of byte at the offset.\<close>

lemma decode_step:
  "off < length msg \<Longrightarrow> msg ! off = 0 \<Longrightarrow>
     decode_loop msg off en jumps tot b = Some (b, case en of None \<Rightarrow> off + 1 | Some e \<Rightarrow> e)"
  "off + 1 + length l \<le> length msg \<Longrightarrow> take (length l) (drop (off + 1) msg) = l \<Longrightarrow> l \<noteq> [] \<Longrightarrow> length l \<le> 63
     \<Longrightarrow> msg ! off = of_nat (length l) \<Longrightarrow> tot + (length l + 1) \<le> 255 \<Longrightarrow>
     decode_loop msg off en jumps tot b = decode_loop msg (off + 1 + length l) en jumps (tot + (length l + 1))
       ((if b \<noteq> [] then b @ ''.'' else b) @ map (byte_char \<circ> lower_byte) l)"
proof -
  assume "off < length msg" "msg ! off = 0"
  then show "decode_loop msg off en jumps tot b = Some (b, case en of None \<Rightarrow> off + 1 | Some e \<Rightarrow> e)"
    by (subst decode_loop.simps) simp
next
  assume a: "off + 1 + length l \<le> length msg" "take (length l) (drop (off + 1) msg) = l" "l \<noteq> []"
    "length l \<le> 63" "msg ! off = of_nat (length l)" "tot + (length l + 1) \<le> 255"
  have u: "unat (of_nat (length l) :: byte) = length l" using a(4) by (simp add: unat_of_nat)
  then have z: "(of_nat (length l) :: byte) \<noteq> 0" using a(3) by (metis length_0_conv unat_0)
  have "(of_nat (length l) :: byte) AND 0xc0 = 0"
    using small_label [of "length l"] a(4) by simp
  then show "decode_loop msg off en jumps tot b = decode_loop msg (off + 1 + length l) en jumps (tot + (length l + 1))
       ((if b \<noteq> [] then b @ ''.'' else b) @ map (byte_char \<circ> lower_byte) l)"
    using a u z by (subst decode_loop.simps) (simp add: Let_def)
qed

lemma decode_loop_end:
  assumes "decode_loop msg off en jumps tot b = Some (n, e)"
  shows "(en = None \<longrightarrow> off < e \<and> e \<le> length msg) \<and> (\<forall>x. en = Some x \<longrightarrow> e = x)"
  using assms
proof (induction msg off en jumps tot b rule: decode_loop.induct)
  case (1 msg off en jumps tot b)
  note p = "1.prems" [unfolded decode_loop.simps [of msg off en jumps tot b] Let_def]
  show ?case using p "1.IH" [OF _ refl refl]
    by (auto split: if_splits option.splits)
qed

section \<open>Names on the wire\<close>

definition label_ok :: "string \<Rightarrow> bool" where
  "label_ok l \<longleftrightarrow> l \<noteq> [] \<and> length l \<le> 63 \<and> CHR ''.'' \<notin> set l"

definition wire_size :: "string list \<Rightarrow> nat" where
  "wire_size ls = sum_list (map (\<lambda>l. length l + 1) ls)"

lemma split_on_append_no_sep: "sep \<notin> set l \<Longrightarrow> split_on sep (l @ sep # r) = l # split_on sep r"
  by (induction l) auto

lemma split_on_no_sep: "sep \<notin> set l \<Longrightarrow> split_on sep l = [l]"
  by (induction l) auto

lemma split_on_Join: "ls \<noteq> [] \<Longrightarrow> list_all (\<lambda>l. sep \<notin> set l) ls \<Longrightarrow> split_on sep (Join ls [sep]) = ls"
proof (induction ls "[sep]" rule: Join.induct)
  case (2 x) then show ?case by (simp add: split_on_no_sep)
next
  case (3 x y ys) then show ?case by (simp add: split_on_append_no_sep)
qed simp

lemma encode_label_ok: "label_ok l \<Longrightarrow> encode_label l = of_nat (length l) # map char_byte l"
  by (simp add: label_ok_def encode_label_def)

lemma encodeName_Join:
  assumes "list_all label_ok ls"
  shows "encodeName (Join ls ''.'') = concat (map encode_label ls) @ [0]"
proof (cases "ls = []")
  case True then show ?thesis by (simp add: encodeName_def encode_label_def)
next
  case False
  have "list_all (\<lambda>l. CHR ''.'' \<notin> set l) ls" using assms by (auto simp: list_all_iff label_ok_def)
  then show ?thesis using split_on_Join False by (simp add: encodeName_def)
qed

lemma length_encode_labels: "list_all label_ok ls \<Longrightarrow> length (concat (map encode_label ls)) = wire_size ls"
  by (induction ls) (simp_all add: wire_size_def encode_label_ok)

lemma uint_char_byte: "uint (char_byte c) = of_char c"
  by (simp add: char_byte_def of_char_def unsigned_of_int take_bit_eq_mod)

lemma lower_char_byte: "byte_char (lower_byte (char_byte c)) = lower_char c"
proof (cases "65 \<le> (of_char c :: int) \<and> (of_char c :: int) \<le> 90")
  case True
  then have u: "uint (char_byte c + 32) = of_char c + 32"
    by (simp add: uint_word_ariths uint_char_byte)
  have "65 \<le> char_byte c" "char_byte c \<le> 90" using True by (simp_all add: word_le_def uint_char_byte)
  then show ?thesis using True u by (simp add: lower_byte_def byte_char_def lower_char_def Let_def)
next
  case False
  then have "\<not> (65 \<le> char_byte c \<and> char_byte c \<le> 90)" by (simp add: word_le_def uint_char_byte)
  then have "lower_byte (char_byte c) = char_byte c" unfolding lower_byte_def by (rule if_not_P)
  then show ?thesis using False by (auto simp: lower_char_def Let_def)
qed

definition join_onto :: "string \<Rightarrow> string list \<Rightarrow> string" where
  "join_onto b ls = foldl (\<lambda>b l. (if b \<noteq> [] then b @ ''.'' else b) @ ToLower l) b ls"

lemma join_onto_Join:
  assumes "list_all label_ok ls"
  shows "join_onto [] ls = ToLower (Join ls ''.'')"
proof -
  have a: "b \<noteq> [] \<Longrightarrow> ls \<noteq> [] \<Longrightarrow> join_onto b ls = b @ ''.'' @ ToLower (Join ls ''.'')" for b and ls :: "string list"
  proof (induction ls "''.''" arbitrary: b rule: Join.induct)
    case (3 x y ys)
    have "join_onto b (x # y # ys) = join_onto (b @ ''.'' @ ToLower x) (y # ys)"
      using "3.prems" by (simp add: join_onto_def)
    then show ?case using "3.hyps" [of "b @ ''.'' @ ToLower x"] by (simp add: ToLower_def lower_char_def)
  qed (simp_all add: join_onto_def)
  show ?thesis
  proof (cases ls)
    case (Cons x ys)
    then have x: "ToLower x \<noteq> []" using assms by (simp add: label_ok_def ToLower_def)
    have "join_onto [] (x # ys) = join_onto (ToLower x) ys" by (simp add: join_onto_def)
    then show ?thesis using a [OF x, of ys] Cons
      by (cases ys) (simp_all add: join_onto_def ToLower_def lower_char_def)
  qed (simp add: join_onto_def ToLower_def)
qed

lemma decode_labels:
  assumes "list_all label_ok ls" "tot + wire_size ls \<le> 255"
  shows "decode_loop (pre @ concat (map encode_label ls) @ 0 # post) (length pre) en jumps tot b
    = Some (join_onto b ls, case en of None \<Rightarrow> length pre + wire_size ls + 1 | Some e \<Rightarrow> e)"
  using assms
proof (induction ls arbitrary: pre tot b)
  case Nil
  then show ?case by (simp add: decode_step(1) wire_size_def join_onto_def nth_append split: option.split)
next
  case (Cons l ls)
  then have l: "label_ok l" "list_all label_ok ls" by simp_all
  let ?l = "map char_byte l"
  let ?msg = "pre @ concat (map encode_label (l # ls)) @ 0 # post"
  have msg: "?msg = (pre @ of_nat (length l) # ?l) @ concat (map encode_label ls) @ 0 # post"
    using l by (simp add: encode_label_ok)
  have "decode_loop ?msg (length pre) en jumps tot b
    = decode_loop ?msg (length pre + 1 + length ?l) en jumps (tot + (length ?l + 1))
       ((if b \<noteq> [] then b @ ''.'' else b) @ map (byte_char \<circ> lower_byte) ?l)"
    using l Cons.prems(2) unfolding msg
    by (intro decode_step(2)) (auto simp: label_ok_def wire_size_def nth_append)
  also have "map (byte_char \<circ> lower_byte) ?l = ToLower l"
    by (simp add: lower_char_byte ToLower_def)
  also have "decode_loop ?msg (length pre + 1 + length ?l) en jumps (tot + (length ?l + 1))
       ((if b \<noteq> [] then b @ ''.'' else b) @ ToLower l)
    = Some (join_onto ((if b \<noteq> [] then b @ ''.'' else b) @ ToLower l) ls,
        case en of None \<Rightarrow> length pre + 1 + length l + wire_size ls + 1 | Some e \<Rightarrow> e)"
    using Cons.IH [OF l(2), of "tot + (length l + 1)" "pre @ of_nat (length l) # ?l"] Cons.prems(2)
    unfolding msg by (cases en) (simp_all add: wire_size_def)
  finally show ?case by (cases en) (simp_all add: join_onto_def wire_size_def)
qed

lemma decodeName_labels:
  assumes "list_all label_ok ls" "wire_size ls \<le> 255"
  shows "decodeName (pre @ encodeName (Join ls ''.'') @ post) (length pre)
    = Some (ToLower (Join ls ''.''), length pre + length (encodeName (Join ls ''.'')))"
  using decode_labels [OF assms(1), of 0 pre post None 0 "[]"] assms
  by (simp add: decodeName_def encodeName_Join length_encode_labels join_onto_Join)

text \<open>The length budget does not count the root octet: a name of 256 octets on the wire, one past
  the limit of RFC 1035, is accepted.\<close>

lemma decodeName_accepts_256_octets:
  assumes "ls = replicate 3 (replicate 63 CHR ''a'') @ [replicate 62 CHR ''a'']"
  shows "length (encodeName (Join ls ''.'')) = 256 \<and> decodeName (encodeName (Join ls ''.'')) 0 \<noteq> None"
proof -
  have "list_all label_ok ls" "wire_size ls = 255"
    by (simp_all add: assms label_ok_def wire_size_def numeral_3_eq_3)
  then show ?thesis using decodeName_labels [of ls "[]" "[]"]
    by (simp add: encodeName_Join length_encode_labels)
qed

section \<open>Responses\<close>

lemma decode_loop_short:
  assumes "decode_loop msg off en jumps tot b = Some (n, e)" "en = None" "tot \<le> 255"
  shows "e + tot \<le> off + 257"
  using assms
proof (induction msg off en jumps tot b rule: decode_loop.induct)
  case (1 msg off en jumps tot b)
  note p = "1.prems"(1) [unfolded decode_loop.simps [of msg off en jumps tot b] Let_def]
  show ?case using p "1.prems"(2,3) "1.IH"(2) [OF _ refl refl] decode_loop_end
    by (auto split: if_splits option.splits) (use decode_loop_end in fastforce)+
qed

lemma parseQuestion_end:
  assumes "parseQuestion msg = Some q"
  shows "17 \<le> q_end q" "q_end q \<le> length msg" "q_end q \<le> 273"
proof -
  obtain n off where d: "decode_loop msg 12 None 0 0 [] = Some (n, off)" "off + 4 \<le> length msg" "q_end q = off + 4"
    using assms by (auto simp: parseQuestion_def decodeName_def headerLen_def split: if_splits option.splits)
  then show "17 \<le> q_end q" "q_end q \<le> length msg" "q_end q \<le> 273"
    using decode_loop_end [OF d(1)] decode_loop_short [OF d(1)] by auto
qed

lemma flags_qr: "(0x80 OR (b AND 0x78) OR (b AND 0x01)) AND 0x80 = (0x80 :: byte)"
  "((0x80 OR (b AND 0x78) OR (b AND 0x01)) OR 0x04) AND 0x80 = (0x80 :: byte)"
  by (simp_all add: bit.conj_disj_distrib2 and.assoc)

definition resp_flags :: "byte \<Rightarrow> bool \<Rightarrow> byte" where
  "resp_flags b aa = (if aa then (0x80 OR (b AND 0x78) OR (b AND 0x01)) OR 0x04
     else 0x80 OR (b AND 0x78) OR (b AND 0x01))"

text \<open>A response laid out by field: header, echoed question, answers; or, when that would pass
  512 bytes, header with TC and the question alone.\<close>

lemma header_update: "[a, b, c, d, e, f, g, h, i, j, k, l][2 := x, 6 := y, 7 := z] = [a, b, x, d, e, f, y, z, i, j, k, l]"
  by (simp add: numeral_eq_Suc)

definition resp_header :: "byte \<Rightarrow> byte \<Rightarrow> byte \<Rightarrow> byte \<Rightarrow> byte \<Rightarrow> byte list" where
  "resp_header i0 i1 flags rcode an = [i0, i1, flags, 0x80 OR (rcode AND 0x0f), 0, 1, 0, an, 0, 0, 0, 0]"

lemma respond_shape:
  assumes "12 \<le> q_end q" "q_end q \<le> length req"
  shows "respond req q rcode aa ans =
    (if q_end q + length (concat ans) \<le> 512
     then resp_header (req ! 0) (req ! 1) (resp_flags (req ! 2) aa) rcode (of_nat (length ans))
        @ drop 12 (take (q_end q) req) @ concat ans
     else resp_header (req ! 0) (req ! 1) (resp_flags (req ! 2) aa OR 2) rcode 0 @ drop 12 (take (q_end q) req))"
proof -
  let ?b = "drop 12 (take (q_end q) req)"
  let ?h = "resp_header (req ! 0) (req ! 1) (resp_flags (req ! 2) aa) rcode (of_nat (length ans))"
  have b: "take (q_end q - 12) (drop 12 req) = ?b" by (simp add: drop_take)
  have l: "length ?b = q_end q - 12" "length ?h = 12" using assms by (simp_all add: resp_header_def)
  have f: "(if aa then (0x80 OR (req ! 2 AND 0x78) OR (req ! 2 AND 0x01)) OR 0x04
     else 0x80 OR (req ! 2 AND 0x78) OR (req ! 2 AND 0x01)) = resp_flags (req ! 2) aa" by (simp add: resp_flags_def)
  have r: "respond req q rcode aa ans = (let resp = ?h @ ?b @ concat ans in
      if 512 < length resp then (take (12 + (q_end q - 12)) resp)[2 := resp ! 2 OR 0x02, 6 := 0, 7 := 0] else resp)"
    unfolding respond_def Let_def headerLen_def maxUDPResponse_def b f
    by (simp add: resp_header_def)
  have n2: "(?h @ ?b @ concat ans) ! 2 = resp_flags (req ! 2) aa" by (simp add: resp_header_def)
  have t: "take (12 + (q_end q - 12)) (?h @ ?b @ concat ans) = ?h @ ?b" using l by simp
  have u: "(?h @ ?b)[2 := x, 6 := 0, 7 := 0] = (resp_header (req ! 0) (req ! 1) x rcode 0) @ ?b" for x
    using l by (simp add: list_update_append1 resp_header_def header_update)
  show ?thesis using assms l unfolding r Let_def n2 t u by (simp add: if_split)
qed

lemma length_resp_header [simp]: "length (resp_header a b c d e) = 12"
  by (simp add: resp_header_def)

lemma resp_flags_qr: "resp_flags b aa AND 0x80 = 0x80" "(resp_flags b aa OR 2) AND 0x80 = 0x80"
  using flags_qr [of b] by (simp_all add: resp_flags_def bit.conj_disj_distrib2)

text \<open>What every response satisfies: it fits a classic datagram, answers the transaction, is
  marked as a response, echoes the question bytes, and either carries all the answers or none, with
  TC.\<close>

definition response_ok :: "byte list \<Rightarrow> question \<Rightarrow> byte list list \<Rightarrow> byte list \<Rightarrow> bool" where
  "response_ok req q ans r \<longleftrightarrow>
     length r \<le> 512 \<and> r ! 0 = req ! 0 \<and> r ! 1 = req ! 1 \<and> r ! 2 AND 0x80 = 0x80
     \<and> drop 12 (take (q_end q) r) = drop 12 (take (q_end q) req)
     \<and> (drop (q_end q) r = concat ans \<and> r ! 7 = of_nat (length ans) \<or>
        drop (q_end q) r = [] \<and> r ! 7 = 0 \<and> r ! 2 AND 2 = 2)"

lemma resp_fields:
  assumes "r = resp_header a b f c n @ body @ x" "e = 12 + length body"
  shows "length r = e + length x" "r ! 0 = a" "r ! 1 = b" "r ! 2 = f" "r ! 7 = n"
    "drop 12 (take e r) = body" "drop e r = x"
  using assms by (simp_all add: nth_append) (simp_all add: resp_header_def)

lemma respond_response_ok:
  assumes "parseQuestion req = Some q"
  shows "response_ok req q ans (respond req q rcode aa ans)"
proof -
  let ?body = "drop 12 (take (q_end q) req)"
  note b = parseQuestion_end [OF assms]
  then have e: "q_end q = 12 + length ?body" by simp
  show ?thesis
  proof (cases "q_end q + length (concat ans) \<le> 512")
    case True
    note f = resp_fields [OF refl e, where x = "concat ans"]
    from True b show ?thesis unfolding response_ok_def
      by (simp add: respond_shape f f [unfolded One_nat_def] resp_flags_qr del: length_concat)
  next
    case False
    note f = resp_fields [OF refl e, where x = "[]", unfolded append_Nil2]
    have "(resp_flags (req ! 2) aa OR 2) AND 2 = 2" by (simp add: bit.conj_disj_distrib2)
    with False b show ?thesis unfolding response_ok_def
      by (simp add: respond_shape f f [unfolded One_nat_def] resp_flags_qr del: length_concat)
  qed
qed

text \<open>The clients that check the echo (the forwarder is one) find their question again.\<close>

definition plain_query :: "byte list \<Rightarrow> string list \<Rightarrow> byte list \<Rightarrow> byte list \<Rightarrow> byte list" where
  "plain_query h ls tc rest = h @ encodeName (Join ls ''.'') @ tc @ rest"

lemma plain_query_parse:
  assumes "list_all label_ok ls" "wire_size ls \<le> 255" "length h = 12" "length tc = 4"
    "1 \<le> be_u16 (h ! 4) (h ! 5)"
  shows "parseQuestion (plain_query h ls tc rest)
    = Some \<lparr>q_Name = ToLower (Join ls ''.''), q_Type = be_u16 (tc ! 0) (tc ! 1),
        q_Class = be_u16 (tc ! 2) (tc ! 3), q_end = 12 + length (encodeName (Join ls ''.'')) + 4\<rparr>"
proof -
  let ?n = "encodeName (Join ls ''.'')"
  have d: "decodeName (plain_query h ls tc rest) 12 = Some (ToLower (Join ls ''.''), 12 + length ?n)"
    using decode_labels [OF assms(1), of 0 h "tc @ rest" None 0 "[]"] assms
    by (simp add: decodeName_def encodeName_Join length_encode_labels join_onto_Join plain_query_def)
  have i: "plain_query h ls tc rest ! (12 + length ?n + k) = tc ! k" if "k < 4" for k
    using assms(3,4) that by (simp add: plain_query_def nth_append)
  have h: "plain_query h ls tc rest ! k = h ! k" if "k < 12" for k
    using assms(3) that by (simp add: plain_query_def nth_append)
  have "\<not> be_u16 (h ! 4) (h ! 5) < 1" "be_u16 (h ! 4) (h ! 5) \<noteq> 0" using assms(5) by auto
  then show ?thesis
    using d i [of 0] i [of 1] i [of 2] i [of 3] h [of 4] h [of 5] assms(3,4)
    by (simp add: parseQuestion_def headerLen_def plain_query_def add.assoc)
qed

lemma respond_echo_parses:
  assumes "list_all label_ok ls" "wire_size ls \<le> 255" "length h = 12" "length tc = 4"
    "1 \<le> be_u16 (h ! 4) (h ! 5)" "parseQuestion (plain_query h ls tc rest) = Some q"
  shows "parseQuestion (respond (plain_query h ls tc rest) q rcode aa ans) = Some q"
proof -
  let ?req = "plain_query h ls tc rest"
  have q: "q = \<lparr>q_Name = ToLower (Join ls ''.''), q_Type = be_u16 (tc ! 0) (tc ! 1),
        q_Class = be_u16 (tc ! 2) (tc ! 3), q_end = 12 + length (encodeName (Join ls ''.'')) + 4\<rparr>"
    using assms(6) unfolding plain_query_parse [OF assms(1-5)] by simp
  have body: "drop 12 (take (q_end q) ?req) = encodeName (Join ls ''.'') @ tc"
    using assms(3,4) by (simp add: q plain_query_def)
  have one: "1 \<le> be_u16 0 1" by (simp add: be_u16_def)
  have "parseQuestion (resp_header i0 i1 f c n @ drop 12 (take (q_end q) ?req) @ x) = Some q" for i0 i1 f c n x
    using plain_query_parse [OF assms(1,2) _ assms(4), of "resp_header i0 i1 f c n" x] one
    unfolding body unfolding q by (simp add: plain_query_def resp_header_def)
  from this [of _ _ _ _ _ "[]"] this show ?thesis
    using parseQuestion_end [OF assms(6)] by (simp add: respond_shape del: length_concat)
qed


lemma decode_loop_name:
  assumes "decode_loop msg off en jumps tot b = Some (n, e)" "b = [] \<or> length b + 1 \<le> tot" "tot \<le> 255"
  shows "length n \<le> 254"
  using assms
proof (induction msg off en jumps tot b rule: decode_loop.induct)
  case (1 msg off en jumps tot b)
  note p = "1.prems"(1) [unfolded decode_loop.simps [of msg off en jumps tot b] Let_def]
  show ?case using p "1.prems"(2,3) "1.IH" [OF _ refl refl]
    by (auto split: if_splits option.splits)
qed

section \<open>Properties\<close>

text \<open>C18: Encoding a dotted name and decoding it from anywhere in a packet gives back its
  lower-case form and the offset just past it, for names whose labels have 1 to 63 octets and whose
  wire form fits the decoder's budget.\<close>

theorem encodeName_decodeName:
  assumes "list_all label_ok ls" "wire_size ls \<le> 255"
  shows "decodeName (pre @ encodeName (Join ls ''.'') @ post) (length pre)
    = Some (ToLower (Join ls ''.''), length pre + length (encodeName (Join ls ''.'')))"
  using assms by (rule decodeName_labels)

lemma encodeName_decodeName_witness:
  "decodeName (replicate 12 0 @ encodeName ''BPX-1.inv.greengo.digital'' @ []) 12
    = Some (''bpx-1.inv.greengo.digital'', 39)"
proof -
  have j: "Join [''BPX-1'', ''inv'', ''greengo'', ''digital''] ''.'' = ''BPX-1.inv.greengo.digital''" by simp
  have a: "list_all label_ok [''BPX-1'', ''inv'', ''greengo'', ''digital'']" "wire_size [''BPX-1'', ''inv'', ''greengo'', ''digital''] \<le> 255"
    by (simp_all add: label_ok_def wire_size_def)
  have l: "ToLower ''BPX-1.inv.greengo.digital'' = ''bpx-1.inv.greengo.digital''"
    "length (encodeName ''BPX-1.inv.greengo.digital'') = 27"
    by code_simp+
  show ?thesis using encodeName_decodeName [OF a, of "replicate 12 0" "[]"] unfolding j l by simp
qed

text \<open>The loop with a limit on its rounds: \<open>None\<close> when the limit is reached.\<close>

fun decode_rounds :: "nat \<Rightarrow> byte list \<Rightarrow> nat \<Rightarrow> nat option \<Rightarrow> nat \<Rightarrow> nat \<Rightarrow> string
    \<Rightarrow> (string \<times> nat) option option" where
  "decode_rounds 0 msg off en jumps tot b = None"
| "decode_rounds (Suc k) msg off en jumps tot b =
    (if length msg \<le> off then Some None
     else let cb = msg ! off; c = unat cb in
       if cb = 0 then Some (Some (b, case en of None \<Rightarrow> off + 1 | Some e \<Rightarrow> e))
       else if cb AND 0xc0 = 0xc0 then
         if length msg \<le> off + 1 then Some None
         else if 16 < jumps + 1 then Some None
         else decode_rounds k msg (unat (cb AND 0x3f) * 256 + unat (msg ! (off + 1)))
           (case en of None \<Rightarrow> Some (off + 2) | Some e \<Rightarrow> Some e) (jumps + 1) tot b
       else if cb AND 0xc0 \<noteq> 0 then Some None
       else if length msg < off + 1 + c then Some None
       else if 255 < tot + (c + 1) then Some None
       else decode_rounds k msg (off + 1 + c) en jumps (tot + (c + 1))
         ((if b \<noteq> [] then b @ ''.'' else b)
            @ map (byte_char \<circ> lower_byte) (take c (drop (off + 1) msg))))"

lemma decode_rounds_enough:
  assumes "jumps \<le> 16" "tot \<le> 255" "(16 - jumps) + (255 - tot) div 2 < k"
  shows "decode_rounds k msg off en jumps tot b = Some (decode_loop msg off en jumps tot b)"
  using assms
proof (induction k arbitrary: off en jumps tot b)
  case (Suc k)
  define cb where "cb = msg ! off"
  have pos: "0 < unat cb" if "cb \<noteq> 0" using that by (simp add: unat_gt_0)
  have label: "(16 - jumps) + (255 - (tot + (unat cb + 1))) div 2 < k"
    if "cb \<noteq> 0" "tot + (unat cb + 1) \<le> 255"
    using Suc.prems(3) pos [OF that(1)] that(2) by linarith
  have jump: "(16 - (jumps + 1)) + (255 - tot) div 2 < k" if "jumps + 1 \<le> 16"
    using Suc.prems(3) that by linarith
  show ?case
    using Suc.IH [OF _ Suc.prems(2) jump] Suc.IH [OF Suc.prems(1) _ label]
    by (subst decode_loop.simps) (simp add: Let_def cb_def not_less)
qed simp

text \<open>C19: The loop of the name decoder ends on every packet, pointer loops included, after at
  most 144 rounds (16 jumps, 127 labels and the last octet); and when the decoder succeeds it has
  stayed inside the packet: the resume offset lies past the start, within the packet and at most 257
  octets on, and the name has at most 254 characters.\<close>

theorem decodeName_bounded:
  "decode_rounds 144 msg off None 0 0 [] = Some (decodeName msg off)
    \<and> (case decodeName msg off of None \<Rightarrow> True
       | Some (n, e) \<Rightarrow> off < e \<and> e \<le> length msg \<and> e \<le> off + 257 \<and> length n \<le> 254)"
proof -
  have "off < e \<and> e \<le> length msg \<and> e \<le> off + 257 \<and> length n \<le> 254" if "decodeName msg off = Some (n, e)" for n e
    using decode_loop_end [OF that [unfolded decodeName_def]] decode_loop_name [OF that [unfolded decodeName_def]]
      decode_loop_short [OF that [unfolded decodeName_def]] by simp
  moreover have "decode_rounds 144 msg off None 0 0 [] = Some (decodeName msg off)"
    unfolding decodeName_def by (rule decode_rounds_enough) simp_all
  ultimately show ?thesis by (auto split: option.splits)
qed

lemma decodeName_bounded_witness:
  "decodeName [2, 65, 66, 0, 0xc0, 4] 4 = None \<and> decodeName [2, 65, 66, 0, 0xc0, 0] 4 = Some (''ab'', 6)
    \<and> (4 :: nat) < 6 \<and> (6 :: nat) \<le> length [2, 65, 66, 0, 0xc0, (0 :: byte)]"
proof -
  have d: "decodeName [2, 65, 66, 0, 0xc0, 4] 4 = None \<and> decodeName [2, 65, 66, 0, 0xc0, 0] 4 = Some (''ab'', 6)"
    by code_simp
  then show ?thesis using decodeName_bounded [of "[2, 65, 66, 0, 0xc0, 0]" 4] by simp
qed

text \<open>C20: Every response built for a parsed query fits 512 octets, carries the query's
  transaction id, is marked as a response, echoes the question octets unchanged, and holds either
  every answer or none with the TC bit set.\<close>

theorem respond_well_formed:
  assumes "parseQuestion req = Some q"
  shows "response_ok req q ans (respond req q rcode aa ans)"
  using assms by (rule respond_response_ok)

lemma respond_well_formed_witness:
  "length (respond ([0xab, 0xcd, 1, 0, 0, 1, 0, 0, 0, 0, 0, 0] @ [2, 97, 98, 0, 0, 1, 0, 1])
     \<lparr>q_Name = ''ab'', q_Type = 1, q_Class = 1, q_end = 20\<rparr> 0 True [rrA [10, 0, 0, 1] 30]) \<le> 512"
proof -
  have p: "parseQuestion ([0xab, 0xcd, 1, 0, 0, 1, 0, 0, 0, 0, 0, 0] @ [2, 97, 98, 0, 0, 1, 0, 1])
    = Some \<lparr>q_Name = ''ab'', q_Type = 1, q_Class = 1, q_end = 20\<rparr>" by code_simp
  show ?thesis using respond_well_formed [OF p] by (simp add: response_ok_def)
qed

text \<open>\<open>reverseName\<close> inverts the construction of an in-addr.arpa name for every
  IPv4 address.\<close>

theorem reverseName_arpa:
  "reverseName (v4_string [d, c, b, a] @ ''.in-addr.arpa'') = Some [a, b, c, d]"
proof -
  have oct: "atoiOctet (dec_str (uint (x :: byte))) = Some x" for x
  proof -
    have "length (dec_str (uint x)) \<le> 3"
    proof -
      have "uint x div 10 div 10 < 10" using byte_less(2) [of x] by presburger
      then show ?thesis by (simp add: dec_str.simps)
    qed
    moreover have "\<not> 255 < uint x" using byte_less(2) [of x] by linarith
    ultimately show ?thesis
      by (auto simp: atoiOctet_def list_all_iff dec_value_dec_str Let_def intro: dec_str_digits [OF uint_ge_0])
  qed
  have nodot: "CHR ''.'' \<notin> set (dec_str (uint (x :: byte)))" for x
    using dec_str_digits [of "uint x" "CHR ''.''"] by (auto simp: is_digit_def)
  have "split_on CHR ''.'' (v4_string [d, c, b, a])
     = [dec_str (uint d), dec_str (uint c), dec_str (uint b), dec_str (uint a)]"
    using nodot by (simp add: v4_string_def split_on_append_no_sep split_on_no_sep)
  then show ?thesis by (simp add: reverseName_def cut_suffix_def oct)
qed

end
