(* ===== verification/DnsZone.thy ===== *)
theory DnsZone
  imports DnsMessage "HOL-Library.List_Lexorder" "HOL-Library.Char_ord"
begin

text \<open>
  \<open>src/internal/dns/zone.go\<close>: the immutable zone built from the device labels, and the two
  authoritative suffixes, which the DHCP renderer advertises too.
\<close>

section \<open>The zone\<close>

definition SuffixInv :: string where "SuffixInv = ''inv.greengo.digital''"
definition SuffixDHCP :: string where "SuffixDHCP = ''dhcp.greengo.digital''"
definition answerTTL :: u32 where "answerTTL = 30"
definition maxZoneNames :: nat where "maxZoneNames = 1024"

record Zone =
  z_a :: "string \<Rightarrow> byte list option"
  z_ptr :: "byte list \<Rightarrow> string option"

definition fqdn :: "string \<Rightarrow> string \<Rightarrow> string" where
  "fqdn n suffix = n @ ''.'' @ suffix"

definition zone_add :: "(string \<times> string) list \<Rightarrow> Zone \<Rightarrow> string \<Rightarrow> Zone" where
  "zone_add hosts z n =
    (let ip = To4 (ParseIP (case map_of hosts n of Some a \<Rightarrow> a | None \<Rightarrow> [])) in
     if ip = [] then z
     else \<lparr>z_a = (z_a z)(fqdn n SuffixInv \<mapsto> ip, fqdn n SuffixDHCP \<mapsto> ip),
        z_ptr = (if z_ptr z ip = None then (z_ptr z)(ip \<mapsto> fqdn n SuffixDHCP) else z_ptr z)\<rparr>)"

definition empty_zone :: Zone where
  "empty_zone = \<lparr>z_a = (\<lambda>_. None), z_ptr = (\<lambda>_. None)\<rparr>"

definition zone_names :: "(string \<times> string) list \<Rightarrow> string list" where
  "zone_names hosts =
    (let names = sort (filter (\<lambda>n. n \<noteq> []) (map fst hosts)) in
     if maxZoneNames < length names then take maxZoneNames names else names)"

text \<open>\<open>NewZone\<close>; the argument lists the entries of the Go map in iteration order.\<close>

definition NewZone :: "(string \<times> string) list \<Rightarrow> Zone" where
  "NewZone hosts = foldl (zone_add hosts) empty_zone (zone_names hosts)"

definition has_suffix :: "string \<Rightarrow> string \<Rightarrow> bool" where
  "has_suffix s suf \<longleftrightarrow> length suf \<le> length s \<and> drop (length s - length suf) s = suf"

definition inZone :: "string \<Rightarrow> bool" where
  "inZone name \<longleftrightarrow> name = SuffixInv \<or> name = SuffixDHCP
     \<or> has_suffix name (''.'' @ SuffixInv) \<or> has_suffix name (''.'' @ SuffixDHCP)"

lemma fqdn_suffix_neq: "fqdn m SuffixInv \<noteq> fqdn n SuffixDHCP"
proof
  assume "fqdn m SuffixInv = fqdn n SuffixDHCP"
  then have "rev (fqdn m SuffixInv) ! 16 = rev (fqdn n SuffixDHCP) ! 16" by simp
  then show False by (simp add: fqdn_def SuffixInv_def SuffixDHCP_def)
qed

lemma fqdn_inj [simp]: "fqdn m s = fqdn n s \<longleftrightarrow> m = n" by (simp add: fqdn_def)

definition zone_ok :: "Zone \<Rightarrow> bool" where
  "zone_ok z \<longleftrightarrow> (\<forall>n. z_a z (fqdn n SuffixInv) = z_a z (fqdn n SuffixDHCP))
    \<and> (\<forall>ip t. z_ptr z ip = Some t \<longrightarrow> z_a z t = Some ip \<and> (\<exists>n. t = fqdn n SuffixDHCP))
    \<and> (\<forall>x ip. z_a z x = Some ip \<longrightarrow> z_ptr z ip \<noteq> None \<and> (\<exists>n. x = fqdn n SuffixInv \<or> x = fqdn n SuffixDHCP))"

lemma zone_add_ok:
  assumes "zone_ok z" "z_a z (fqdn n SuffixDHCP) = None"
  shows "zone_ok (zone_add hosts z n)"
proof -
  have "z_ptr z ip \<noteq> Some (fqdn n SuffixInv)" for ip
    using assms(1) fqdn_suffix_neq unfolding zone_ok_def by metis
  then show ?thesis
    using assms fqdn_suffix_neq fqdn_suffix_neq [symmetric]
    unfolding zone_ok_def zone_add_def Let_def
    by (auto split: if_splits)
qed

lemma zone_add_dom:
  "z_a (zone_add hosts z n) (fqdn m SuffixDHCP) \<noteq> None \<Longrightarrow> m = n \<or> z_a z (fqdn m SuffixDHCP) \<noteq> None"
  using fqdn_suffix_neq [symmetric] by (auto simp: zone_add_def Let_def split: if_splits)

lemma zone_fold_ok:
  assumes "zone_ok z" "distinct ns" "\<And>n. n \<in> set ns \<Longrightarrow> z_a z (fqdn n SuffixDHCP) = None"
  shows "zone_ok (foldl (zone_add hosts) z ns)"
  using assms
proof (induction ns arbitrary: z)
  case (Cons n ns)
  have "z_a (zone_add hosts z n) (fqdn m SuffixDHCP) = None" if "m \<in> set ns" for m
    using zone_add_dom [of hosts z n m] Cons.prems that by fastforce
  then show ?case using Cons.IH [of "zone_add hosts z n"] zone_add_ok Cons.prems by simp
qed simp

lemma distinct_zone_names: "distinct (map fst hosts) \<Longrightarrow> distinct (zone_names hosts)"
  by (simp add: zone_names_def Let_def)

text \<open>What a name maps to once its entry has been processed.\<close>

lemma zone_fold_keep:
  assumes "n \<notin> set ns"
  shows "z_a (foldl (zone_add hosts) z ns) (fqdn n SuffixDHCP) = z_a z (fqdn n SuffixDHCP)"
  using assms fqdn_suffix_neq [symmetric]
  by (induction ns arbitrary: z) (auto simp: zone_add_def Let_def)

lemma zone_fold_entry:
  assumes "distinct ns" "n \<in> set ns" "map_of hosts n = Some a" "To4 (ParseIP a) = ip" "ip \<noteq> []"
  shows "z_a (foldl (zone_add hosts) z ns) (fqdn n SuffixDHCP) = Some ip"
  using assms
proof (induction ns arbitrary: z)
  case (Cons m ns)
  show ?case
  proof (cases "m = n")
    case True
    then have "n \<notin> set ns" using Cons.prems by simp
    moreover have "z_a (zone_add hosts z n) (fqdn n SuffixDHCP) = Some ip"
      using Cons.prems by (simp add: zone_add_def)
    ultimately show ?thesis using True by (simp add: zone_fold_keep)
  qed (use Cons in simp)
qed simp

section \<open>Consistency\<close>

text \<open>A zone built from the device labels is consistent: both suffixes of a label hold the
  same address, every address of the zone has exactly one reverse name, which lies under the DHCP
  suffix and resolves back to that address, and every one of up to 1024 labels with a valid IPv4
  address resolves.\<close>

theorem NewZone_consistent:
  assumes "distinct (map fst hosts)"
  shows "zone_ok (NewZone hosts)
    \<and> (length hosts \<le> maxZoneNames \<longrightarrow> map_of hosts n = Some a \<longrightarrow> n \<noteq> [] \<longrightarrow> To4 (ParseIP a) \<noteq> []
        \<longrightarrow> z_a (NewZone hosts) (fqdn n SuffixDHCP) = Some (To4 (ParseIP a)))"
proof (intro conjI impI)
  show "zone_ok (NewZone hosts)"
    unfolding NewZone_def
    by (rule zone_fold_ok) (use distinct_zone_names [OF assms] in \<open>simp_all add: zone_ok_def empty_zone_def\<close>)
next
  assume h: "length hosts \<le> maxZoneNames" "map_of hosts n = Some a" "n \<noteq> []" "To4 (ParseIP a) \<noteq> []"
  have "length (filter (\<lambda>n. n \<noteq> []) (map fst hosts)) \<le> maxZoneNames"
    using h(1) length_filter_le [of "\<lambda>n. n \<noteq> []" "map fst hosts"] by (metis length_map order_trans)
  moreover have "n \<in> fst ` set hosts" using h(2) by (metis map_of_eq_None_iff option.distinct(1))
  ultimately have "n \<in> set (zone_names hosts)" using h(3) by (auto simp: zone_names_def Let_def)
  then show "z_a (NewZone hosts) (fqdn n SuffixDHCP) = Some (To4 (ParseIP a))"
    unfolding NewZone_def using zone_fold_entry [OF distinct_zone_names [OF assms] _ h(2) refl h(4)] by simp
qed

lemma NewZone_consistent_witness:
  "z_a (NewZone [(''bpx-1'', ''10.0.0.9''), (''a'', ''x'')]) ''bpx-1.dhcp.greengo.digital'' = Some [10, 0, 0, 9]"
proof -
  have p: "To4 (ParseIP ''10.0.0.9'') = [10, 0, 0, 9]" by code_simp
  have f: "fqdn ''bpx-1'' SuffixDHCP = ''bpx-1.dhcp.greengo.digital''" by (simp add: fqdn_def SuffixDHCP_def)
  show ?thesis
    using NewZone_consistent [of "[(''bpx-1'', ''10.0.0.9''), (''a'', ''x'')]" "''bpx-1''" "''10.0.0.9''"]
    by (simp add: p f maxZoneNames_def)
qed

end
