(* ===== verification/KeaProfile.thy ===== *)
theory KeaProfile
  imports KeaRender DnsZone "HOL-Library.Multiset"
begin

text \<open>
  \<open>src/internal/kea/profile.go\<close>: the render path of the active profile, the onboarding and
  the holdoff configurations.  Case folding of option names is the ASCII one.
\<close>


record ScopeInput =
  si_VlanID :: int
  si_CIDR :: string
  si_PoolPlan :: "PoolSpec list"
  si_Uplink :: bool
  si_Gateway :: string
  si_DNS :: string
  si_LocalDNS :: bool
  si_LeaseLifetime :: int
  si_Options :: "OptionKV list"

record ProfileRenderInput =
  pr_Scopes :: "ScopeInput list"
  pr_MariaDBHost :: string
  pr_MariaDBUser :: string
  pr_MariaDBPass :: string
  pr_MariaDBName :: string
  pr_KeaSecretPath :: string
  pr_GlobalDNS :: string
  pr_GlobalOptions :: "OptionKV list"
  pr_LeaseLifetime :: int
  pr_Debug :: bool
  pr_IfaceWildcard :: bool

definition EqualFold :: "string \<Rightarrow> string \<Rightarrow> bool" where
  "EqualFold s t \<longleftrightarrow> ToLower s = ToLower t"

text \<open>\<open>mergeOptions\<close>: \<open>pick\<close> is the inner loop over the scope's options.\<close>

definition pick_option :: "OptionKV list \<Rightarrow> OptionKV \<Rightarrow> OptionKV" where
  "pick_option sc g = (case List.find (\<lambda>s. EqualFold (ok_Name s) (ok_Name g)) sc of
     Some s \<Rightarrow> s | None \<Rightarrow> g)"

definition used_names :: "OptionKV list \<Rightarrow> OptionKV list \<Rightarrow> string set" where
  "used_names gl sc =
    (\<Union>g \<in> set gl. case List.find (\<lambda>s. EqualFold (ok_Name s) (ok_Name g)) sc of
       Some s \<Rightarrow> {ToLower (ok_Name s)} | None \<Rightarrow> {})"

definition mergeOptions :: "OptionKV list \<Rightarrow> OptionKV list \<Rightarrow> OptionKV list" where
  "mergeOptions gl sc =
    (if length gl = 0 then sc
     else map (pick_option sc) gl
       @ filter (\<lambda>s. ToLower (ok_Name s) \<notin> used_names gl sc) sc)"

definition hasOption :: "OptionKV list \<Rightarrow> string \<Rightarrow> bool" where
  "hasOption opts name \<longleftrightarrow> list_ex (\<lambda>x. EqualFold (ok_Name x) name) opts"

text \<open>\<open>rankScopePools\<close>: one placement's Kea pool with its precedence and the client class
  it generates, if any; the stable sort by descending precedence is \<open>sort_key\<close>.\<close>

definition rank_one :: "PoolSpec list \<Rightarrow> nat \<Rightarrow> DeviceClass list \<Rightarrow> nat \<Rightarrow> PoolPlacement
    \<Rightarrow> (PoolConfig \<times> int) \<times> ClientClassConfig list" where
  "rank_one plan idx pooled i p =
    (if i < length plan \<and> VendorClassTest (ps_Vendors (plan ! i)) \<noteq> [] then
       (let nm = ''VENDOR-'' @ Itoa (int idx) @ ''-'' @ Itoa (int i) in
        ((\<lparr>pc_Range = pp_Range p, pc_ClientClass = nm\<rparr>, 10 + int (maxOUILen (ps_Vendors (plan ! i)))),
         [\<lparr>cc_Name = nm, cc_Test = VendorClassTest (ps_Vendors (plan ! i))\<rparr>]))
     else if pp_Class p = ClassNameOthers then
       ((\<lparr>pc_Range = pp_Range p, pc_ClientClass = pp_Class p\<rparr>, 0), [])
     else if pp_Class p = ClassNameGGOOthers then
       (let nm = ClassNameGGOOthers @ ''-'' @ Itoa (int idx) in
        ((\<lparr>pc_Range = pp_Range p, pc_ClientClass = nm\<rparr>, 1),
         [\<lparr>cc_Name = nm, cc_Test = GGOOthersTest pooled\<rparr>]))
     else ((\<lparr>pc_Range = pp_Range p, pc_ClientClass = pp_Class p\<rparr>, 100), []))"

definition served :: "PoolPlacement \<Rightarrow> bool" where
  "served p \<longleftrightarrow> \<not> (pp_Kind p = PoolReserve \<or> pp_Range p = [])"

definition ranked_pools :: "PoolPlacement list \<Rightarrow> PoolSpec list \<Rightarrow> nat \<Rightarrow> DeviceClass list
    \<Rightarrow> ((PoolConfig \<times> int) \<times> ClientClassConfig list) list" where
  "ranked_pools placements plan idx pooled =
     map (\<lambda>(i, p). rank_one plan idx pooled i p)
       (filter (\<lambda>(i, p). served p) (zip [0 ..< length placements] placements))"

definition rankScopePools :: "PoolPlacement list \<Rightarrow> PoolSpec list \<Rightarrow> nat \<Rightarrow> DeviceClass list
    \<Rightarrow> PoolConfig list \<times> ClientClassConfig list" where
  "rankScopePools placements plan idx pooled =
    (let rps = ranked_pools placements plan idx pooled in
     (map fst (sort_key (\<lambda>r. - snd r) (map fst rps)), concat (map snd rps)))"

datatype render_error =
    ScopeInvalidCIDR nat string
  | ScopeNoPlan nat string
  | ScopeLayout nat string layout_error
  | GatewayInPool nat string string string
  | OnboardInvalidCIDR string
  | OnboardNotIPv4 string
  | OnboardTooSmall string
  | ShiftPanic string

definition pooled_ggo :: "PoolPlacement list \<Rightarrow> DeviceClass list" where
  "pooled_ggo placements = concat (map (\<lambda>p.
     if \<not> served p then [] else (case deviceClassByName (pp_Class p) of Some dc \<Rightarrow> [dc] | None \<Rightarrow> []))
     placements)"

definition gateway_clash :: "string \<Rightarrow> PoolPlacement list \<Rightarrow> PoolPlacement option" where
  "gateway_clash gateway placements =
    (let gw = To4 (ParseIP gateway) in
     if gateway = [] \<or> gw = [] then None
     else List.find (\<lambda>p. served p \<and> (case ParsePoolRange (pp_Range p) of
         Some (l, h) \<Rightarrow> l \<le> IPToUint32 gw \<and> IPToUint32 gw \<le> h | None \<Rightarrow> False)) placements)"

definition ipnet_String :: "ipnet \<Rightarrow> string" where
  "ipnet_String n = (let (nn, m) = network_and_mask n in
     if nn = [] \<or> m = [] then ''<nil>'' else ip_String nn @ ''/'' @ Itoa (int (mask_ones m)))"

definition scope_dns :: "ProfileRenderInput \<Rightarrow> ScopeInput \<Rightarrow> go_ip \<Rightarrow> string" where
  "scope_dns inp sc gatewayIP =
    (if si_DNS sc \<noteq> [] then si_DNS sc
     else if si_LocalDNS sc then ip_String gatewayIP
     else pr_GlobalDNS inp)"

definition scope_options :: "ProfileRenderInput \<Rightarrow> ScopeInput \<Rightarrow> OptionKV list" where
  "scope_options inp sc =
    (let opts = mergeOptions (pr_GlobalOptions inp) (si_Options sc) in
     if si_LocalDNS sc \<and> \<not> hasOption opts ''domain-search''
     then opts @ [\<lparr>ok_Name = ''domain-search'', ok_Data = SuffixInv @ '', '' @ SuffixDHCP\<rparr>]
     else opts)"

definition scope_gateway :: "ScopeInput \<Rightarrow> go_ip \<Rightarrow> string" where
  "scope_gateway sc gatewayIP =
    (if si_Gateway sc \<noteq> [] then si_Gateway sc
     else if si_Uplink sc then ip_String gatewayIP else [])"

definition scope_iface :: "ScopeInput \<Rightarrow> string" where
  "scope_iface sc = (if si_VlanID sc \<noteq> 0 then ''eth0.'' @ Itoa (si_VlanID sc) else ''eth0'')"

definition render_scope :: "ProfileRenderInput \<Rightarrow> nat \<Rightarrow> ScopeInput
    \<Rightarrow> render_error + (SubnetConfig \<times> ClientClassConfig list)" where
  "render_scope inp idx sc =
    (case ParseCIDR (si_CIDR sc) of
       None \<Rightarrow> Inl (ScopeInvalidCIDR idx (si_CIDR sc))
     | Some (ip, n) \<Rightarrow>
        let gatewayIP = IncIP (net_ip n) 1 in
        if length (si_PoolPlan sc) = 0 then Inl (ScopeNoPlan idx (si_CIDR sc))
        else (case LayoutPools (si_CIDR sc) (si_PoolPlan sc) of
            Inl e \<Rightarrow> Inl (ScopeLayout idx (si_CIDR sc) e)
          | Inr placements \<Rightarrow>
             (case gateway_clash (si_Gateway sc) placements of
                Some p \<Rightarrow> Inl (GatewayInPool idx (si_CIDR sc) (si_Gateway sc) (pp_Range p))
              | None \<Rightarrow>
                 let (pools, classes) = rankScopePools placements (si_PoolPlan sc) idx (pooled_ggo placements) in
                 Inr (\<lparr>sn_ID = int idx + 1, sn_Subnet = ipnet_String n, sn_Pools = pools,
                        sn_Gateway = scope_gateway sc gatewayIP, sn_DNS = scope_dns inp sc gatewayIP,
                        sn_LeaseLifetime = si_LeaseLifetime sc, sn_Options = scope_options inp sc\<rparr>,
                      classes))))"

fun render_scopes :: "ProfileRenderInput \<Rightarrow> nat \<Rightarrow> ScopeInput list
    \<Rightarrow> render_error + (SubnetConfig list \<times> ClientClassConfig list)" where
  "render_scopes inp idx [] = Inr ([], [])"
| "render_scopes inp idx (sc # scs) =
     (case render_scope inp idx sc of
        Inl e \<Rightarrow> Inl e
      | Inr (sub, cl) \<Rightarrow> map_sum id (\<lambda>(subs, cls). (sub # subs, cl @ cls)) (render_scopes inp (Suc idx) scs))"

definition RenderProfile :: "string \<Rightarrow> ProfileRenderInput \<Rightarrow> render_error + (keaConfig \<times> string list)" where
  "RenderProfile hooksDir inp =
    (let ifaces = map scope_iface (pr_Scopes inp) in
     case render_scopes inp 0 (pr_Scopes inp) of
       Inl e \<Rightarrow> Inl e
     | Inr (subnets, vendorClasses) \<Rightarrow>
        let (valid, renew, rebind) = leaseTimers (pr_LeaseLifetime inp) in
        Inr (RenderConfig hooksDir
          \<lparr>td_Interfaces = (if pr_IfaceWildcard inp then [''*''] else ifaces),
           td_MariaDBHost = pr_MariaDBHost inp, td_MariaDBUser = pr_MariaDBUser inp,
           td_MariaDBPass = pr_MariaDBPass inp, td_MariaDBName = pr_MariaDBName inp,
           td_HooksDir = [], td_PortPinning = True, td_KeaSecretPath = pr_KeaSecretPath inp,
           td_ClientClasses = ClientClasses @ vendorClasses, td_Subnets = subnets,
           td_ValidLifetime = valid, td_RenewTimer = renew, td_RebindTimer = rebind,
           td_Debug = pr_Debug inp\<rparr>, ifaces))"

section \<open>Onboarding and holdoff\<close>

text \<open>The shift \<open>1 << (32 - maskSize)\<close> panics for a negative count, which an
  IPv4-in-IPv6 block with a prefix above 32 reaches.\<close>

definition onboardingSubnet :: "int \<Rightarrow> string \<Rightarrow> render_error + SubnetConfig" where
  "onboardingSubnet i hostCIDR =
    (case ParseCIDR hostCIDR of
       None \<Rightarrow> Inl (OnboardInvalidCIDR hostCIDR)
     | Some (ip, n) \<Rightarrow>
        if To4 ip = [] then Inl (OnboardNotIPv4 hostCIDR)
        else
         (let maskSize = mask_ones (net_mask n) in
          if maskSize > 32 then Inl (ShiftPanic hostCIDR)
          else
           (let totalIPs = (2 :: int) ^ (32 - maskSize) in
            if totalIPs < 4 then Inl (OnboardTooSmall hostCIDR)
            else
             (let lastOff = (if 250 > totalIPs - 2 then totalIPs - 2 else 250);
                  firstOff = (if 100 \<ge> lastOff
                    then (if totalIPs div 2 < 2 then 2 else totalIPs div 2) else 100)
              in Inr \<lparr>sn_ID = i, sn_Subnet = ipnet_String n,
                   sn_Pools = [\<lparr>pc_Range = ip_String (IncIP (net_ip n) firstOff) @ '' - ''
                       @ ip_String (IncIP (net_ip n) lastOff), pc_ClientClass = []\<rparr>],
                   sn_Gateway = [], sn_DNS = [], sn_LeaseLifetime = 0, sn_Options = []\<rparr>))))"

lemma le_value_app: "le_value (xs @ ys) = le_value xs + 256 ^ length xs * le_value ys"
  by (induction xs) (simp_all add: algebra_simps)

lemma be_u32_bits:
  "be_u32 [a, b, c, d] = (push_bit 24 (ucast a) OR push_bit 16 (ucast b) OR push_bit 8 (ucast c) OR ucast d)"
proof -
  have 1: "push_bit 8 (ucast c) OR (ucast d :: u32) = push_bit 8 (ucast c) + ucast d"
    by (rule disjunctive_add [symmetric]) (auto simp: bit_simps dest: bit_imp_le_length)
  have 2: "push_bit 16 (ucast b) OR (push_bit 8 (ucast c) OR (ucast d :: u32)) = push_bit 16 (ucast b) + (push_bit 8 (ucast c) OR (ucast d :: u32))"
    by (rule disjunctive_add [symmetric]) (auto simp: bit_simps dest: bit_imp_le_length)
  have 3: "push_bit 24 (ucast a) OR (push_bit 16 (ucast b) OR (push_bit 8 (ucast c) OR (ucast d :: u32)))
     = push_bit 24 (ucast a) + (push_bit 16 (ucast b) OR (push_bit 8 (ucast c) OR (ucast d :: u32)))"
    by (rule disjunctive_add [symmetric]) (auto simp: bit_simps dest: bit_imp_le_length)
  show ?thesis
    unfolding 3 unfolding 2 unfolding 1 by (simp add: be_u32_def push_bit_eq_mult)
qed

lemma bit_be_u32:
  "bit (be_u32 [a, b, c, d]) n \<longleftrightarrow> (if n < 8 then bit d n else if n < 16 then bit c (n - 8)
     else if n < 24 then bit b (n - 16) else n < 32 \<and> bit a (n - 24))"
  unfolding be_u32_bits by (auto simp: bit_simps dest: bit_imp_le_length)

lemma be_u32_and:
  "be_u32 [a AND a', b AND b', c AND c', d AND d'] = be_u32 [a, b, c, d] AND be_u32 [a', b', c', d']"
  by (rule bit_word_eqI) (simp add: bit_be_u32 bit_and_iff)

section \<open>Lease timers and options\<close>

text \<open>For every lifetime up to a day's worth of headroom (any positive lifetime whose
  sevenfold does not overflow) the rendered timers are in order: the renew timer is half of the
  valid lifetime, the rebind timer lies between the renew timer and the valid lifetime, and a
  non-positive lifetime falls back to 1800 seconds.\<close>

theorem leaseTimers_ordered:
  assumes "l < 1000000000000000000" "leaseTimers l = (valid, renew, rebind)"
  shows "valid = (if l \<le> 0 then 1800 else l) \<and> 0 \<le> renew \<and> renew \<le> rebind \<and> rebind \<le> valid
    \<and> renew = valid div 2 \<and> (2 \<le> l \<longrightarrow> 0 < renew \<and> rebind < valid)"
proof -
  define v where "v = (if l \<le> 0 then 1800 else l)"
  have v: "0 < v" "v < 1000000000000000000" using assms(1) by (auto simp: v_def)
  have "leaseTimers l = (v, go_div v 2, go_div (i64 (v * 7)) 8)"
    by (simp add: leaseTimers_def v_def defaultLeaseLifetime_def Let_def)
  moreover have "go_div v 2 = v div 2" "i64 (v * 7) = v * 7" "go_div (v * 7) 8 = v * 7 div 8"
    using v by (simp_all add: go_div_nonneg in_i64_def)
  ultimately have e: "valid = v" "renew = v div 2" "rebind = v * 7 div 8" using assms(2) by simp_all
  have "v div 2 \<le> v * 7 div 8" "v * 7 div 8 \<le> v" "0 \<le> v div 2" using v by linarith+
  moreover have "0 < v div 2 \<and> v * 7 div 8 < v" if "2 \<le> l"
    using that v by (auto simp: v_def)
  ultimately show ?thesis by (auto simp: e v_def)
qed

lemma leaseTimers_ordered_witness: "leaseTimers 86400 = (86400, 43200, 75600) \<and> (43200 :: int) \<le> 75600"
proof -
  have e: "leaseTimers 86400 = (86400, 43200, 75600)" by code_simp
  from leaseTimers_ordered [OF _ e] e show ?thesis by simp
qed

lemma pick_option_fold: "EqualFold (ok_Name (pick_option sc g)) (ok_Name g)"
  by (auto simp: pick_option_def EqualFold_def find_Some_iff split: option.splits)

lemma used_names_iff:
  "ToLower k \<in> used_names gl sc \<longleftrightarrow> (\<exists>g \<in> set gl. EqualFold (ok_Name g) k \<and> (\<exists>s \<in> set sc. EqualFold (ok_Name s) k))"
proof -
  have "(case List.find (\<lambda>s. EqualFold (ok_Name s) (ok_Name g)) sc of
       Some s \<Rightarrow> {ToLower (ok_Name s)} | None \<Rightarrow> {}) =
     (if \<exists>s \<in> set sc. EqualFold (ok_Name s) (ok_Name g) then {ToLower (ok_Name g)} else {})" for g
    by (auto simp: find_None_iff find_Some_iff EqualFold_def split: option.splits)
  note c = this
  have "ToLower k \<in> used_names gl sc \<longleftrightarrow> (\<exists>g \<in> set gl. ToLower k \<in>
      (if \<exists>s \<in> set sc. EqualFold (ok_Name s) (ok_Name g) then {ToLower (ok_Name g)} else {}))"
    unfolding used_names_def c by blast
  also have "\<dots> \<longleftrightarrow> (\<exists>g \<in> set gl. EqualFold (ok_Name g) k \<and> (\<exists>s \<in> set sc. EqualFold (ok_Name s) k))"
    by (rule bex_cong [OF refl]) (auto simp: EqualFold_def)
  finally show ?thesis .
qed

text \<open>Merging a scope's DHCP options over the site-wide defaults: every option name of
  either list is present (case aside), an option the scope sets appears with the scope's data
  and never with the default's, and the defaults the scope does not set are kept unchanged.\<close>

theorem mergeOptions_scope_wins:
  "(hasOption (mergeOptions gl sc) k \<longleftrightarrow> hasOption gl k \<or> hasOption sc k)
   \<and> (hasOption sc k \<or> filter (\<lambda>x. EqualFold (ok_Name x) k) (mergeOptions gl sc)
        = filter (\<lambda>x. EqualFold (ok_Name x) k) gl)
   \<and> (\<forall>x \<in> set (mergeOptions gl sc). x \<in> set sc \<or> (x \<in> set gl \<and> \<not> hasOption sc (ok_Name x)))"
proof (cases "length gl = 0")
  case True
  then show ?thesis by (auto simp: mergeOptions_def hasOption_def filter_empty_conv list_ex_iff)
next
  case False
  have pick: "pick_option sc g = g" if "\<not> hasOption sc (ok_Name g)" for g
    using that by (auto simp: pick_option_def hasOption_def list_ex_iff find_Some_iff split: option.splits)
  have pick_in: "pick_option sc g \<in> set sc" if "hasOption sc (ok_Name g)" for g
    using that by (auto simp: pick_option_def hasOption_def list_ex_iff find_None_iff find_Some_iff split: option.splits)
  have fold: "EqualFold (ok_Name (pick_option sc g)) k = EqualFold (ok_Name g) k" for g
    using pick_option_fold [of sc g] by (auto simp: EqualFold_def)
  have m: "mergeOptions gl sc = map (pick_option sc) gl @ filter (\<lambda>s. ToLower (ok_Name s) \<notin> used_names gl sc) sc"
    using False by (simp add: mergeOptions_def)
  have "hasOption (mergeOptions gl sc) k \<longleftrightarrow> hasOption gl k \<or> hasOption sc k"
  proof -
    let ?rest = "filter (\<lambda>s. ToLower (ok_Name s) \<notin> used_names gl sc) sc"
    have 1: "hasOption (map (pick_option sc) gl) k \<longleftrightarrow> hasOption gl k"
      by (simp add: hasOption_def list_ex_iff fold)
    have 2: "hasOption ?rest k \<Longrightarrow> hasOption sc k" by (auto simp: hasOption_def list_ex_iff)
    have 3: "hasOption ?rest k" if h: "hasOption sc k" and n: "\<not> hasOption gl k"
    proof -
      obtain s where s: "s \<in> set sc" "EqualFold (ok_Name s) k" using h by (auto simp: hasOption_def list_ex_iff)
      have "ToLower (ok_Name s) \<notin> used_names gl sc"
        using n s(2) by (auto simp: used_names_iff hasOption_def list_ex_iff EqualFold_def)
      then show ?thesis using s by (auto simp: hasOption_def list_ex_iff)
    qed
    have "hasOption (mergeOptions gl sc) k \<longleftrightarrow> hasOption (map (pick_option sc) gl) k \<or> hasOption ?rest k"
      by (simp add: m hasOption_def)
    then show ?thesis using 1 2 3 by blast
  qed
  moreover have "filter (\<lambda>x. EqualFold (ok_Name x) k) (mergeOptions gl sc) = filter (\<lambda>x. EqualFold (ok_Name x) k) gl"
    if "\<not> hasOption sc k"
  proof -
    have "map (pick_option sc) (filter (\<lambda>g. EqualFold (ok_Name g) k) gl) = filter (\<lambda>g. EqualFold (ok_Name g) k) gl"
      using that by (intro map_idI pick) (auto simp: hasOption_def list_ex_iff EqualFold_def)
    moreover have "filter (\<lambda>x. EqualFold (ok_Name x) k) (map (pick_option sc) gl)
      = map (pick_option sc) (filter (\<lambda>g. EqualFold (ok_Name g) k) gl)"
      by (simp add: filter_map comp_def fold)
    moreover have "\<forall>s \<in> set sc. \<not> EqualFold (ok_Name s) k" using that by (auto simp: hasOption_def list_ex_iff)
    ultimately show ?thesis by (auto simp: m filter_empty_conv)
  qed
  moreover have "\<forall>x \<in> set (mergeOptions gl sc). x \<in> set sc \<or> (x \<in> set gl \<and> \<not> hasOption sc (ok_Name x))"
  proof
    fix x assume "x \<in> set (mergeOptions gl sc)"
    then consider g where "g \<in> set gl" "x = pick_option sc g" | "x \<in> set sc" by (auto simp: m)
    then show "x \<in> set sc \<or> (x \<in> set gl \<and> \<not> hasOption sc (ok_Name x))"
      by cases (use pick pick_in in \<open>metis\<close>)+
  qed
  ultimately show ?thesis by blast
qed


lemma mergeOptions_scope_wins_witness:
  "mergeOptions [\<lparr>ok_Name = ''ntp-servers'', ok_Data = ''1''\<rparr>, \<lparr>ok_Name = ''x'', ok_Data = ''2''\<rparr>]
     [\<lparr>ok_Name = ''NTP-Servers'', ok_Data = ''3''\<rparr>]
   = [\<lparr>ok_Name = ''NTP-Servers'', ok_Data = ''3''\<rparr>, \<lparr>ok_Name = ''x'', ok_Data = ''2''\<rparr>]
   \<and> hasOption (mergeOptions [\<lparr>ok_Name = ''ntp-servers'', ok_Data = ''1''\<rparr>] []) ''ntp-servers''"
proof -
  have "mergeOptions [\<lparr>ok_Name = ''ntp-servers'', ok_Data = ''1''\<rparr>, \<lparr>ok_Name = ''x'', ok_Data = ''2''\<rparr>]
     [\<lparr>ok_Name = ''NTP-Servers'', ok_Data = ''3''\<rparr>]
   = [\<lparr>ok_Name = ''NTP-Servers'', ok_Data = ''3''\<rparr>, \<lparr>ok_Name = ''x'', ok_Data = ''2''\<rparr>]" by code_simp
  moreover have "hasOption [\<lparr>ok_Name = ''ntp-servers'', ok_Data = ''1''\<rparr>] ''ntp-servers''" by code_simp
  ultimately show ?thesis
    using mergeOptions_scope_wins [of "[\<lparr>ok_Name = ''ntp-servers'', ok_Data = ''1''\<rparr>]" "[]" "''ntp-servers''"]
    by simp
qed

section \<open>The onboarding pool\<close>

lemma four_bytes: "length xs = 4 \<Longrightarrow> \<exists>a b c d. xs = [a, b, c, d]"
  by (auto simp: length_Suc_conv numeral_eq_Suc)

lemma ParseCIDR_net_ip:
  assumes "ParseCIDR s = Some (ip, n)" "To4 (net_mask n) \<noteq> []"
  obtains a b c d where "net_ip n = [a, b, c, d]" "subnet_first n = be_u32 (net_ip n)"
proof -
  obtain ad bits x z k where c: "str_cut ''/'' s = Some (ad, bits)" "parse_addr ad = Some (x, z)"
    "dtoi_all bits 0 = Some k"
    using assms(1) unfolding ParseCIDR_def by (auto split: option.splits prod.splits if_splits)
  then have "net_mask n = CIDRMask (nat k) (8 * length x) \<and> net_ip n = ip_mask (as16 x) (CIDRMask (nat k) (8 * length x))"
    using assms(1) by (auto simp: ParseCIDR_def Let_def split: if_splits)
  then obtain x :: "byte list" and k where mk: "net_mask n = CIDRMask k (8 * length x)"
    and ni: "net_ip n = ip_mask (as16 x) (CIDRMask k (8 * length x))" by blast
  have "length (net_mask n) = 4 \<or> length (net_mask n) = 16"
    using assms(2) by (auto simp: To4_def split: if_splits)
  then have "length x = 4 \<or> length x = 16" by (simp add: mk)
  then have l4: "length x = 4" using assms(2) mk To4_CIDRMask128 by auto
  then obtain a b c d where x: "x = [a, b, c, d]" using four_bytes by blast
  obtain p q r t where m: "CIDRMask k 32 = [p, q, r, t]"
    using four_bytes [of "CIDRMask k 32"] by auto
  have i: "net_ip n = [a AND p, b AND q, c AND r, d AND t]"
    using ni by (simp add: x m as16_def ip_mask_def v4InV6Prefix_def)
  have "be_u32 (net_ip n) = be_u32 [a, b, c, d] AND be_u32 [p, q, r, t]"
    unfolding i by (rule be_u32_and)
  then have "subnet_first n = be_u32 (net_ip n)"
    using mk l4 by (simp add: subnet_first_def i m To4_def and.assoc)
  then show ?thesis using that i by blast
qed

lemma subnet_last_size:
  assumes "To4 (net_mask n) = CIDRMask m 32" "m \<le> 32"
  shows "uint (subnet_last n) = uint (subnet_first n) + 2 ^ (32 - m) - 1"
proof -
  define k where "k = 32 - m"
  have k: "k \<le> 32" by (simp add: k_def)
  have mk: "be_u32 (To4 (net_mask n)) = NOT (mask k)"
    using assms by (simp add: be_u32_CIDRMask k_def)
  have fl: "subnet_first n = be_u32 (To4 (net_ip n)) AND NOT (mask k)"
    "subnet_last n = subnet_first n OR mask k"
    by (simp_all add: subnet_first_def subnet_last_def mk)
  have z: "subnet_first n AND mask k = 0" unfolding fl(1) by (simp add: and.assoc)
  then have sum: "subnet_last n = subnet_first n + mask k"
    unfolding fl(2) using word_plus_and_or [of "subnet_first n" "mask k"] by simp
  have le: "subnet_first n \<le> subnet_last n" unfolding fl(2) by (rule le_word_or2)
  have "uint (subnet_last n) = uint (subnet_first n) + uint (mask k :: u32)"
    using le sum uint_plus_simple_iff [of "subnet_first n" "mask k"] by simp
  moreover have "uint (mask k :: u32) = mask k"
    using k by (simp add: uint_mask_eq min_def)
  then have "uint (mask k :: u32) = 2 ^ k - 1" by (simp add: mask_eq_exp_minus_1)
  ultimately show ?thesis by (simp add: k_def)
qed

text \<open>For an IPv4 block the onboarding configuration hands out exactly one unguarded range
  whose text parses back to bounds strictly between the network and the broadcast address of the
  block, first not above last, above the gateway position (network + 1), and it advertises no
  router and no name server; a block without room for a range is refused.\<close>

theorem onboardingSubnet_range:
  assumes "onboardingSubnet i cidr = Inr sub" "ParseCIDR cidr = Some (ip, n)" "To4 (net_mask n) \<noteq> []"
  shows "\<exists>r a b. sn_Pools sub = [\<lparr>pc_Range = r, pc_ClientClass = []\<rparr>] \<and> ParsePoolRange r = Some (a, b)
    \<and> subnet_first n + 1 < a \<and> a \<le> b \<and> b < subnet_last n
    \<and> s4_OptionData (build_subnet sub) = [] \<and> s4_ValidLifetime (build_subnet sub) = 0"
proof -
  obtain x y z w where ni: "net_ip n = [x, y, z, w]" and sf: "subnet_first n = be_u32 (net_ip n)"
    by (rule ParseCIDR_net_ip [OF assms(2,3)])
  obtain mk: "To4 (net_mask n) = CIDRMask (mask_ones (net_mask n)) 32" "mask_ones (net_mask n) \<le> 32"
    by (rule ParseCIDR_mask [OF assms(2,3)])
  let ?m = "mask_ones (net_mask n)"
  define t where "t = (2 :: int) ^ (32 - ?m)"
  define lastOff where "lastOff = (if 250 > t - 2 then t - 2 else 250)"
  define firstOff where "firstOff = (if 100 \<ge> lastOff then (if t div 2 < 2 then 2 else t div 2) else 100)"
  have four: "\<not> t < 4" and sub: "sub = \<lparr>sn_ID = i, sn_Subnet = ipnet_String n,
      sn_Pools = [\<lparr>pc_Range = ip_String (IncIP (net_ip n) firstOff) @ '' - ''
        @ ip_String (IncIP (net_ip n) lastOff), pc_ClientClass = []\<rparr>],
      sn_Gateway = [], sn_DNS = [], sn_LeaseLifetime = 0, sn_Options = []\<rparr>"
    using assms(1,2) by (auto simp: onboardingSubnet_def Let_def t_def lastOff_def firstOff_def split: if_splits)
  have off: "2 \<le> firstOff" "firstOff \<le> lastOff" "lastOff \<le> t - 2"
    using four by (auto simp: lastOff_def firstOff_def)
  have size: "uint (subnet_last n) = uint (subnet_first n) + t - 1"
    using subnet_last_size [OF mk] by (simp add: t_def)
  let ?a = "subnet_first n + word_of_int firstOff" and ?b = "subnet_first n + word_of_int lastOff"
  have u: "uint (subnet_first n + word_of_int k) = uint (subnet_first n) + k" if "0 \<le> k" "k \<le> t - 1" for k
  proof -
    have "uint (subnet_first n) + k \<le> uint (subnet_last n)" using size that by linarith
    also have "\<dots> < 4294967296" by simp
    finally have "uint (word_of_int (uint (subnet_first n) + k) :: u32) = uint (subnet_first n) + k"
      using that by (intro uint_u32_of_int) auto
    then show ?thesis by simp
  qed
  have inc: "ip_String (IncIP (net_ip n) k) = v4_string (Uint32ToIP (subnet_first n + word_of_int k))" for k
    unfolding sf ni IncIP_adds by (simp add: ip_String_def Uint32ToIP_def To4_def v4_string_def)
  have "ParsePoolRange (ip_String (IncIP (net_ip n) firstOff) @ '' - '' @ ip_String (IncIP (net_ip n) lastOff))
      = Some (?a, ?b)"
    unfolding inc range_text_def [symmetric] by (rule ParsePoolRange_text)
  moreover have "subnet_first n + 1 < ?a" "?a \<le> ?b" "?b < subnet_last n"
    using u [of 1] u [of firstOff] u [of lastOff] off size unfolding word_less_def word_le_def by simp_all
  ultimately show ?thesis
    by (simp add: sub build_subnet_def build_options_def)
qed

lemma onboardingSubnet_range_witness:
  "subnet_first \<lparr>net_ip = [10, 0, 0, 0], net_mask = [255, 255, 255, 0]\<rparr> = 0x0a000000
   \<and> (\<exists>r a b. sn_Pools (case onboardingSubnet 1 ''10.0.0.1/24'' of Inr s \<Rightarrow> s | Inl _ \<Rightarrow> undefined)
        = [\<lparr>pc_Range = r, pc_ClientClass = []\<rparr>] \<and> a \<le> b \<and> ParsePoolRange r = Some (a, b))"
proof -
  have o: "onboardingSubnet 1 ''10.0.0.1/24'' = Inr \<lparr>sn_ID = 1, sn_Subnet = ''10.0.0.0/24'',
      sn_Pools = [\<lparr>pc_Range = ''10.0.0.100 - 10.0.0.250'', pc_ClientClass = []\<rparr>],
      sn_Gateway = [], sn_DNS = [], sn_LeaseLifetime = 0, sn_Options = []\<rparr>" by code_simp
  have p: "ParseCIDR ''10.0.0.1/24'' = Some ([0, 0, 0, 0, 0, 0, 0, 0, 0, 0, 0xff, 0xff, 10, 0, 0, 1],
      \<lparr>net_ip = [10, 0, 0, 0], net_mask = [255, 255, 255, 0]\<rparr>)" by code_simp
  have m: "To4 (net_mask \<lparr>net_ip = [10, 0, 0, 0], net_mask = [255, 255, 255, 0]\<rparr>) \<noteq> []" by code_simp
  have f: "subnet_first \<lparr>net_ip = [10, 0, 0, 0], net_mask = [255, 255, 255, 0]\<rparr> = 0x0a000000" by code_simp
  from onboardingSubnet_range [OF o p m] o f show ?thesis by auto
qed

section \<open>The order of a scope's pools\<close>

lemma rank_one_range: "pc_Range (fst (fst (rank_one plan idx pooled i p))) = pp_Range p"
  by (simp add: rank_one_def Let_def)

lemma rank_one_prec_others:
  "pp_Class p = ClassNameOthers \<Longrightarrow> \<not> (i < length plan \<and> VendorClassTest (ps_Vendors (plan ! i)) \<noteq> [])
    \<Longrightarrow> snd (fst (rank_one plan idx pooled i p)) = 0"
  by (auto simp: rank_one_def)

lemma ranked_ranges:
  "map (pc_Range \<circ> fst \<circ> fst) (ranked_pools placements plan idx pooled) = map pp_Range (filter served placements)"
proof -
  have "map (\<lambda>(i, p). pp_Range p) (filter (\<lambda>(i, p). served p) (zip [k ..< k + length ps] ps)) = map pp_Range (filter served ps)" for k ps
  proof (induction ps arbitrary: k)
    case (Cons p ps)
    then show ?case using Cons.IH [of "Suc k"] by (simp add: upt_conv_Cons del: upt_Suc)
  qed simp
  from this [of 0 placements] show ?thesis
    by (simp add: ranked_pools_def comp_def rank_one_range case_prod_unfold)
qed

definition pool_order_ok :: "PoolPlacement list \<Rightarrow> PoolSpec list \<Rightarrow> nat \<Rightarrow> DeviceClass list \<Rightarrow> int \<Rightarrow> bool" where
  "pool_order_ok placements plan idx pooled k \<longleftrightarrow>
    (let rps = map fst (ranked_pools placements plan idx pooled); out = sort_key (\<lambda>r. - snd r) rps in
     fst (rankScopePools placements plan idx pooled) = map fst out
     \<and> sorted_wrt (\<lambda>a b. snd a \<ge> snd b) out
     \<and> mset (map pc_Range (fst (rankScopePools placements plan idx pooled)))
         = mset (map pp_Range (filter served placements))
     \<and> filter (\<lambda>r. snd r = k) out = filter (\<lambda>r. snd r = k) rps)"

lemma pool_order: "pool_order_ok placements plan idx pooled k"
proof -
  let ?rps = "map fst (ranked_pools placements plan idx pooled)"
  let ?out = "sort_key (\<lambda>r. - snd r) ?rps"
  have "sorted (map (\<lambda>r. - snd r) ?out)" by (rule sorted_sort_key)
  then have "sorted_wrt (\<lambda>a b. snd a \<ge> snd b) ?out" by (simp add: sorted_map)
  moreover have "mset (map pc_Range (map fst ?out)) = mset (map pp_Range (filter served placements))"
  proof -
    have "mset (map pc_Range (map fst ?out)) = image_mset pc_Range (image_mset fst (mset ?rps))"
      by (simp only: mset_map mset_sort)
    also have "\<dots> = mset (map (pc_Range \<circ> fst \<circ> fst) (ranked_pools placements plan idx pooled))"
      by (simp add: image_mset.compositionality comp_assoc)
    finally show ?thesis by (simp only: ranked_ranges)
  qed
  moreover have "filter (\<lambda>r. snd r = k) ?out = filter (\<lambda>r. snd r = k) ?rps"
    using sort_key_stable [of "\<lambda>r. - snd r" "- k" ?rps] by simp
  ultimately show ?thesis by (simp add: pool_order_ok_def rankScopePools_def Let_def)
qed

text \<open>The Kea pools of a scope are a permutation of the served (non-reserve, non-empty)
  placements, listed by non-increasing match precedence; pools of equal precedence keep the plan's
  order.\<close>

theorem rankScopePools_permutes:
  "(let rps = map fst (ranked_pools placements plan idx pooled); out = sort_key (\<lambda>r. - snd r) rps in
     fst (rankScopePools placements plan idx pooled) = map fst out
     \<and> sorted_wrt (\<lambda>a b. snd a \<ge> snd b) out
     \<and> mset (map pc_Range (fst (rankScopePools placements plan idx pooled)))
         = mset (map pp_Range (filter served placements))
     \<and> filter (\<lambda>r. snd r = k) out = filter (\<lambda>r. snd r = k) rps)"
  using pool_order unfolding pool_order_ok_def .

section \<open>Isolation\<close>

lemma layout_size_ok_parses:
  assumes "layout_size_ok s r" "r \<noteq> []"
  obtains a b where "ParsePoolRange r = Some (a, b)"
proof -
  have "ParsePoolRange r \<noteq> None"
  proof (cases "TrimSpace (ps_Range s) = []")
    case True
    then have "0 < range_count r"
      using assms FloorForClass_pos [of "ps_Class s"] by (auto simp: layout_size_ok_def split: if_splits)
    then show ?thesis by (auto simp: range_count_def split: option.splits)
  next
    case False
    then show ?thesis using assms by (auto simp: layout_size_ok_def pin_honoured_def ParsePoolRange_text)
  qed
  then show ?thesis using that by auto
qed

lemma LayoutPools_parses:
  assumes "LayoutPools cidr specs = Inr pls" "p \<in> set pls" "pp_Range p \<noteq> []"
  obtains a b where "ParsePoolRange (pp_Range p) = Some (a, b)"
proof -
  obtain rs where rs: "pls = map2 mk_placement specs rs" "list_all2 layout_size_ok specs rs"
    by (rule LayoutPools_ok [OF assms(1)])
  then obtain s r where "(s, r) \<in> set (zip specs rs)" "p = mk_placement s r" using assms(2) by auto
  then have "layout_size_ok s r" "pp_Range p = r"
    using rs(2) by (auto simp: mk_placement_def list_all2_iff)
  then show ?thesis using layout_size_ok_parses assms(3) that by blast
qed


lemma render_scopes_nth:
  assumes "render_scopes inp k scs = Inr (subs, cls)"
  shows "length subs = length scs \<and>
    (\<forall>i < length scs. \<exists>c. render_scope inp (k + i) (scs ! i) = Inr (subs ! i, c))"
  using assms
proof (induction scs arbitrary: k subs cls)
  case (Cons sc scs)
  obtain sub cl subs' cls' where r: "render_scope inp k sc = Inr (sub, cl)"
    "render_scopes inp (Suc k) scs = Inr (subs', cls')" "subs = sub # subs'"
    using Cons.prems by (auto split: sum.splits prod.splits)
  show ?case
  proof (intro conjI allI impI)
    show "length subs = length (sc # scs)" using Cons.IH [OF r(2)] r(3) by simp
    fix i assume "i < length (sc # scs)"
    then show "\<exists>c. render_scope inp (k + i) ((sc # scs) ! i) = Inr (subs ! i, c)"
      using Cons.IH [OF r(2)] r by (cases i) auto
  qed
qed simp

lemma render_scope_ok:
  assumes "render_scope inp idx sc = Inr (sub, cl)"
  obtains ip n placements where "ParseCIDR (si_CIDR sc) = Some (ip, n)"
    "LayoutPools (si_CIDR sc) (si_PoolPlan sc) = Inr placements"
    "gateway_clash (si_Gateway sc) placements = None"
    "sub = \<lparr>sn_ID = int idx + 1, sn_Subnet = ipnet_String n,
       sn_Pools = fst (rankScopePools placements (si_PoolPlan sc) idx (pooled_ggo placements)),
       sn_Gateway = scope_gateway sc (IncIP (net_ip n) 1), sn_DNS = scope_dns inp sc (IncIP (net_ip n) 1),
       sn_LeaseLifetime = si_LeaseLifetime sc, sn_Options = scope_options inp sc\<rparr>"
    "cl = snd (rankScopePools placements (si_PoolPlan sc) idx (pooled_ggo placements))"
proof -
  obtain ip n where p: "ParseCIDR (si_CIDR sc) = Some (ip, n)"
    using assms by (auto simp: render_scope_def split: option.splits)
  obtain placements where l: "LayoutPools (si_CIDR sc) (si_PoolPlan sc) = Inr placements"
    using assms p by (auto simp: render_scope_def Let_def split: sum.splits if_splits)
  have g: "gateway_clash (si_Gateway sc) placements = None"
    using assms p l by (auto simp: render_scope_def Let_def split: option.splits if_splits)
  show ?thesis
    using that [OF p l g] assms p l g by (auto simp: render_scope_def Let_def case_prod_beta split: if_splits)
qed

text \<open>C12: In a rendered profile, subnet \<open>i\<close> has the positional id \<open>i + 1\<close>; a scope
  with neither an explicit gateway nor an uplink advertises no router unless a DHCP option of
  the site or of the scope is itself named \<open>routers\<close>; and an explicit IPv4 gateway is the
  router and lies in none of the ranges the scope serves.\<close>

theorem RenderProfile_isolation:
  assumes "RenderProfile dir inp = Inr (cfg, ifaces)" "i < length (pr_Scopes inp)"
  shows "length (kc_Subnet4 cfg) = length (pr_Scopes inp) \<and> s4_ID (kc_Subnet4 cfg ! i) = int i + 1
    \<and> (let sc = pr_Scopes inp ! i; sn = kc_Subnet4 cfg ! i in
        (si_Gateway sc = [] \<and> \<not> si_Uplink sc \<longrightarrow>
           filter (\<lambda>x. ok_Name x = ''routers'') (s4_OptionData sn)
             = filter (\<lambda>x. ok_Name x = ''routers'' \<and> ok_Data x \<noteq> []) (scope_options inp sc))
        \<and> (si_Gateway sc \<noteq> [] \<longrightarrow> hd (s4_OptionData sn) = \<lparr>ok_Name = ''routers'', ok_Data = si_Gateway sc\<rparr>
            \<and> list_all (\<lambda>p. To4 (ParseIP (si_Gateway sc)) = []
                 \<or> IPToUint32 (To4 (ParseIP (si_Gateway sc))) \<notin> placed (pl_Pool p)) (s4_Pools sn)))"
proof -
  obtain subs cls where rs: "render_scopes inp 0 (pr_Scopes inp) = Inr (subs, cls)"
    and cfg: "kc_Subnet4 cfg = map build_subnet subs"
    using assms(1) unfolding RenderProfile_def Let_def
    by (auto simp: RenderConfig_def Let_def buildSubnets_def split: sum.splits prod.splits)
  let ?sc = "pr_Scopes inp ! i" let ?sn = "kc_Subnet4 cfg ! i"
  have len: "length subs = length (pr_Scopes inp)" using render_scopes_nth [OF rs] by simp
  obtain c where "render_scope inp i ?sc = Inr (subs ! i, c)"
    using render_scopes_nth [OF rs] assms(2) by auto
  then obtain ip n placements where
    lay: "LayoutPools (si_CIDR ?sc) (si_PoolPlan ?sc) = Inr placements"
    and clash: "gateway_clash (si_Gateway ?sc) placements = None"
    and sub: "subs ! i = \<lparr>sn_ID = int i + 1, sn_Subnet = ipnet_String n,
       sn_Pools = fst (rankScopePools placements (si_PoolPlan ?sc) i (pooled_ggo placements)),
       sn_Gateway = scope_gateway ?sc (IncIP (net_ip n) 1), sn_DNS = scope_dns inp ?sc (IncIP (net_ip n) 1),
       sn_LeaseLifetime = si_LeaseLifetime ?sc, sn_Options = scope_options inp ?sc\<rparr>"
    by (rule render_scope_ok)
  have sn: "?sn = build_subnet (subs ! i)" using assms(2) len by (simp add: cfg)
  have opt: "s4_OptionData ?sn = build_options (subs ! i)" and pools: "s4_Pools ?sn = map build_pool (sn_Pools (subs ! i))"
    and ident: "s4_ID ?sn = int i + 1"
    by (simp_all add: sn build_subnet_def sub split: prod.splits)
  have 1: "filter (\<lambda>x. ok_Name x = ''routers'') (s4_OptionData ?sn)
             = filter (\<lambda>x. ok_Name x = ''routers'' \<and> ok_Data x \<noteq> []) (scope_options inp ?sc)"
    if "si_Gateway ?sc = [] \<and> \<not> si_Uplink ?sc"
  proof -
    have "\<not> (''domain-name-servers'' = ''routers'')" by simp
    moreover have "ok_Name x = ''routers'' \<Longrightarrow> ok_Name x \<noteq> []" for x :: OptionKV by simp
    ultimately show ?thesis using that
      by (auto simp: opt build_options_def sub scope_gateway_def intro!: filter_cong)
  qed
  have 2: "hd (s4_OptionData ?sn) = \<lparr>ok_Name = ''routers'', ok_Data = si_Gateway ?sc\<rparr>"
    if "si_Gateway ?sc \<noteq> []"
    using that by (simp add: opt build_options_def sub scope_gateway_def)
  have ranges: "set (map pl_Pool (s4_Pools ?sn)) = pp_Range ` {p \<in> set placements. served p}"
  proof -
    have "mset (map pl_Pool (s4_Pools ?sn)) = mset (map pc_Range (sn_Pools (subs ! i)))"
      by (simp add: pools build_pool_def comp_def)
    also have "\<dots> = mset (map pp_Range (filter served placements))"
      using pool_order [unfolded pool_order_ok_def Let_def, of placements "si_PoolPlan ?sc" i "pooled_ggo placements" 0]
      unfolding sub SubnetConfig.select_convs by blast
    finally show ?thesis using mset_eq_setD by fastforce
  qed
  have 3: "list_all (\<lambda>p. To4 (ParseIP (si_Gateway ?sc)) = []
      \<or> IPToUint32 (To4 (ParseIP (si_Gateway ?sc))) \<notin> placed (pl_Pool p)) (s4_Pools ?sn)"
    if g: "si_Gateway ?sc \<noteq> []"
    unfolding list_all_iff
  proof
    fix p assume "p \<in> set (s4_Pools ?sn)"
    then have "pl_Pool p \<in> pp_Range ` {p \<in> set placements. served p}" using ranges by auto
    then obtain q where q: "q \<in> set placements" "served q" "pl_Pool p = pp_Range q" by auto
    obtain a b where can: "ParsePoolRange (pp_Range q) = Some (a, b)"
      using LayoutPools_parses [OF lay q(1)] q(2) by (auto simp: served_def)
    show "To4 (ParseIP (si_Gateway ?sc)) = [] \<or> IPToUint32 (To4 (ParseIP (si_Gateway ?sc))) \<notin> placed (pl_Pool p)"
    proof (cases "To4 (ParseIP (si_Gateway ?sc)) = []")
      case False
      then have "\<not> (a \<le> IPToUint32 (To4 (ParseIP (si_Gateway ?sc))) \<and> IPToUint32 (To4 (ParseIP (si_Gateway ?sc))) \<le> b)"
        using clash g q(1,2) can by (force simp: gateway_clash_def Let_def find_None_iff)
      then show ?thesis using q(2,3) can by (auto simp: placed_def served_def)
    qed simp
  qed
  show ?thesis using len ident 1 2 3 by (simp add: cfg Let_def)
qed


definition ex_input :: ProfileRenderInput where
  "ex_input = \<lparr>pr_Scopes = [\<lparr>si_VlanID = 12, si_CIDR = ''10.0.0.1/28'',
       si_PoolPlan = [ex_spec ''GGO-BPX'' PoolFixed 3 [], ex_spec ''OTHERS'' PoolElastic 0 []],
       si_Uplink = False, si_Gateway = [], si_DNS = [], si_LocalDNS = True, si_LeaseLifetime = 0, si_Options = []\<rparr>],
     pr_MariaDBHost = [], pr_MariaDBUser = [], pr_MariaDBPass = [], pr_MariaDBName = [],
     pr_KeaSecretPath = [], pr_GlobalDNS = ''1.1.1.1'', pr_GlobalOptions = [], pr_LeaseLifetime = 0,
     pr_Debug = False, pr_IfaceWildcard = False\<rparr>"

lemma ex_render: "\<exists>cfg. RenderProfile ''/h/'' ex_input = Inr (cfg, [''eth0.12'']) \<and>
  kc_Subnet4 cfg = [\<lparr>s4_ID = 1, s4_Subnet = ''10.0.0.0/28'',
    s4_Pools = [\<lparr>pl_Pool = ''10.0.0.2 - 10.0.0.4'', pl_ClientClasses = [''GGO-BPX'', ''KNOWN'']\<rparr>,
       \<lparr>pl_Pool = ''10.0.0.5 - 10.0.0.14'', pl_ClientClasses = [''OTHERS'', ''KNOWN'']\<rparr>],
    s4_ValidLifetime = 0, s4_RenewTimer = 0, s4_RebindTimer = 0,
    s4_OptionData = [\<lparr>ok_Name = ''domain-name-servers'', ok_Data = ''10.0.0.1''\<rparr>,
      \<lparr>ok_Name = ''domain-search'', ok_Data = ''inv.greengo.digital, dhcp.greengo.digital''\<rparr>]\<rparr>]"
proof -
  have "(case RenderProfile ''/h/'' ex_input of Inr (cfg, i) \<Rightarrow> i = [''eth0.12''] \<and> kc_Subnet4 cfg =
    [\<lparr>s4_ID = 1, s4_Subnet = ''10.0.0.0/28'',
    s4_Pools = [\<lparr>pl_Pool = ''10.0.0.2 - 10.0.0.4'', pl_ClientClasses = [''GGO-BPX'', ''KNOWN'']\<rparr>,
       \<lparr>pl_Pool = ''10.0.0.5 - 10.0.0.14'', pl_ClientClasses = [''OTHERS'', ''KNOWN'']\<rparr>],
    s4_ValidLifetime = 0, s4_RenewTimer = 0, s4_RebindTimer = 0,
    s4_OptionData = [\<lparr>ok_Name = ''domain-name-servers'', ok_Data = ''10.0.0.1''\<rparr>,
      \<lparr>ok_Name = ''domain-search'', ok_Data = ''inv.greengo.digital, dhcp.greengo.digital''\<rparr>]\<rparr>] | Inl _ \<Rightarrow> False)"
    by code_simp
  then show ?thesis by (auto split: sum.splits prod.splits)
qed

lemma RenderProfile_isolation_witness:
  "\<exists>cfg. RenderProfile ''/h/'' ex_input = Inr (cfg, [''eth0.12''])
     \<and> filter (\<lambda>x. ok_Name x = ''routers'') (s4_OptionData (kc_Subnet4 cfg ! 0)) = []"
proof -
  obtain cfg where c: "RenderProfile ''/h/'' ex_input = Inr (cfg, [''eth0.12''])" using ex_render by auto
  have i: "0 < length (pr_Scopes ex_input)" by (simp add: ex_input_def)
  have "filter (\<lambda>x. ok_Name x = ''routers'' \<and> ok_Data x \<noteq> []) (scope_options ex_input (pr_Scopes ex_input ! 0)) = []"
    by code_simp
  moreover have "si_Gateway (pr_Scopes ex_input ! 0) = []" "\<not> si_Uplink (pr_Scopes ex_input ! 0)"
    by (simp_all add: ex_input_def)
  ultimately show ?thesis using RenderProfile_isolation [OF c i] c by (auto simp: Let_def)
qed

end
