(* ===== verification/Identity.thy ===== *)
theory Identity
  imports KeaClasses
begin

text \<open>
  \<open>src/internal/appliance/identity.go\<close> (with \<open>BytesToPortIdentity\<close> of
  \<open>pinning.go\<close>): the opaque switch-port identity of an Option-82 port.  A byte slice is a
  \<open>string\<close> here, as the conversions \<open>string(b)\<close> and \<open>[]byte(s)\<close> are the
  identity on bytes.  The round trip between raw flex-id bytes and the port key is what makes a pin
  match, and is the instance of the \<open>text_codec\<close> interface.
\<close>

section \<open>The interface of a text encoding\<close>

locale text_codec =
  fixes enc :: "'a \<Rightarrow> string" and dec :: "string \<Rightarrow> 'a"
  assumes dec_enc: "dec (enc x) = x"
begin

lemma enc_inj: "enc x = enc y \<longleftrightarrow> x = y"
  by (metis dec_enc)

lemma enc_distinct: "distinct (map enc xs) \<longleftrightarrow> distinct xs"
  by (simp add: distinct_map inj_on_def enc_inj)

end

section \<open>Hexadecimal text\<close>

definition hex2 :: "char \<Rightarrow> string" where
  "hex2 c = (let n = (of_char c :: int) in [hex_digit (n div 16), hex_digit (n mod 16)])"

definition colonHex :: "string \<Rightarrow> string" where
  "colonHex b = Join (map hex2 b) '':''"

text \<open>\<open>hex.DecodeString\<close>: \<open>None\<close> for an odd length or a byte that is no hex
  digit.\<close>

fun hex_decode :: "string \<Rightarrow> string option" where
  "hex_decode [] = Some []"
| "hex_decode [c] = None"
| "hex_decode (a # b # cs) =
     (if is_hex a \<and> is_hex b
      then map_option ((#) (char_of (hex_val a * 16 + hex_val b))) (hex_decode cs) else None)"

text \<open>The regular expression \<open>^[0-9a-fA-F]{2}(:[0-9a-fA-F]{2})*$\<close>.\<close>

fun colonHexRe :: "string \<Rightarrow> bool" where
  "colonHexRe [a, b] = (is_hex a \<and> is_hex b)"
| "colonHexRe (a # b # c # cs) = (is_hex a \<and> is_hex b \<and> c = CHR '':'' \<and> colonHexRe cs)"
| "colonHexRe _ = False"

definition remove_colons :: "string \<Rightarrow> string" where
  "remove_colons s = filter (\<lambda>c. c \<noteq> CHR '':'') s"

definition NormalizeMAC :: "string \<Rightarrow> string" where
  "NormalizeMAC mac = ToLower (remove_colons mac)"

definition decodeHex :: "string \<Rightarrow> string" where
  "decodeHex h = (let h' = remove_colons h in
     case hex_decode h' of Some b \<Rightarrow> b | None \<Rightarrow> h')"

section \<open>Port identities\<close>

definition BytesToPortIdentity :: "string \<Rightarrow> string" where
  "BytesToPortIdentity b = (if length b = 0 then [] else colonHex b)"

definition FlexIDToBytes :: "string \<Rightarrow> string" where
  "FlexIDToBytes p =
    (if colonHexRe p then (case hex_decode (remove_colons p) of Some b \<Rightarrow> b | None \<Rightarrow> p) else p)"

definition CanonicalPortID :: "string \<Rightarrow> string" where
  "CanonicalPortID p = (if colonHexRe p then p else colonHex p)"

definition portFlexDelim :: char where "portFlexDelim = CHR 0x1f"

definition splitFlexID :: "string \<Rightarrow> string \<times> string" where
  "splitFlexID flex =
    (if portFlexDelim \<in> set flex
     then (takeWhile (\<lambda>c. c \<noteq> portFlexDelim) flex, tl (dropWhile (\<lambda>c. c \<noteq> portFlexDelim) flex))
     else (flex, []))"

definition isPrintableASCII :: "string \<Rightarrow> bool" where
  "isPrintableASCII s = list_all (\<lambda>c. 0x20 \<le> (of_char c :: int) \<and> (of_char c :: int) \<le> 0x7e) s"

definition trim_nuls :: "string \<Rightarrow> string" where
  "trim_nuls b = rev (dropWhile (\<lambda>c. c = CHR 0x00) (rev b))"

definition renderIDPart :: "string \<Rightarrow> string \<times> string" where
  "renderIDPart b =
    (if length b = 0 then ([], [])
     else let h = colonHex b; s = trim_nuls b in
       if s \<noteq> [] \<and> isPrintableASCII s then (s, h) else (h, h))"

record PortIdent =
  pi_Key :: string
  pi_RemoteID :: string
  pi_RemoteHex :: string
  pi_CircuitID :: string
  pi_CircuitHex :: string
  pi_Delimited :: bool

definition PortIdentFromFlex :: "string \<Rightarrow> PortIdent" where
  "PortIdentFromFlex flex =
    (let (remote, circuit) = splitFlexID flex;
         (rid, rhex) = renderIDPart remote;
         (cid, chex) = renderIDPart circuit
     in \<lparr>pi_Key = BytesToPortIdentity flex, pi_RemoteID = rid, pi_RemoteHex = rhex,
         pi_CircuitID = cid, pi_CircuitHex = chex, pi_Delimited = (portFlexDelim \<in> set flex)\<rparr>)"

definition DecodePortIdentity :: "string \<Rightarrow> PortIdent option" where
  "DecodePortIdentity clientID =
    (let raw = decodeHex clientID in
     if length raw < 2 \<or> raw ! 0 \<noteq> CHR 0x00 then None
     else Some (PortIdentFromFlex (drop 1 raw)))"

definition CapacityOf :: "u32 \<Rightarrow> u32 \<Rightarrow> int" where
  "CapacityOf l h = uint h - uint l + 1"

section \<open>Round trips\<close>

lemma of_char_bounds: "0 \<le> (of_char c :: int)" "(of_char c :: int) < 256"
  by (simp_all add: of_char_def) 

lemma hex_digit_ok:
  assumes "0 \<le> d" "d < 16"
  shows "is_hex (hex_digit d)" "hex_val (hex_digit d) = d" "hex_digit d \<noteq> CHR '':''"
proof -
  have "d \<in> {0..15}" using assms by simp
  then have "d \<in> set [0..15]" by simp
  moreover have "list_all (\<lambda>d. is_hex (hex_digit d) \<and> hex_val (hex_digit d) = d
      \<and> hex_digit d \<noteq> CHR '':'') [0..15]" by code_simp
  ultimately show "is_hex (hex_digit d)" "hex_val (hex_digit d) = d" "hex_digit d \<noteq> CHR '':''"
    by (auto simp: list_all_iff simp del: set_upto)
qed

lemma hex2_shape:
  obtains a b where "hex2 c = [a, b]" "is_hex a" "is_hex b" "a \<noteq> CHR '':''" "b \<noteq> CHR '':''"
    "char_of (hex_val a * 16 + hex_val b) = c"
proof -
  let ?n = "of_char c :: int"
  have d: "0 \<le> ?n div 16" "?n div 16 < 16" "0 \<le> ?n mod 16" "?n mod 16 < 16"
    using of_char_bounds [of c] by auto
  have "char_of (?n div 16 * 16 + ?n mod 16) = c" by simp
  then show ?thesis
    using that [of "hex_digit (?n div 16)" "hex_digit (?n mod 16)"]
      hex_digit_ok [OF d(1,2)] hex_digit_ok [OF d(3,4)]
    by (simp add: hex2_def Let_def)
qed

lemma colonHex_Cons: "colonHex (c # cs) = hex2 c @ (if cs = [] then [] else CHR '':'' # colonHex cs)"
  by (cases cs) (simp_all add: colonHex_def)

lemma colonHex_decode: "hex_decode (remove_colons (colonHex b)) = Some b"
proof (induction b)
  case Nil
  then show ?case by (simp add: colonHex_def remove_colons_def)
next
  case (Cons c cs)
  obtain x y where "hex2 c = [x, y]" "is_hex x" "is_hex y" "x \<noteq> CHR '':''" "y \<noteq> CHR '':''"
    "char_of (hex_val x * 16 + hex_val y) = c" by (rule hex2_shape)
  then show ?case using Cons.IH by (auto simp: colonHex_Cons remove_colons_def)
qed

lemma colonHexRe_colonHex: "b \<noteq> [] \<Longrightarrow> colonHexRe (colonHex b)"
proof (induction b)
  case (Cons c cs)
  obtain x y where "hex2 c = [x, y]" "is_hex x" "is_hex y" by (rule hex2_shape)
  then show ?case using Cons.IH by (cases cs) (auto simp: colonHex_Cons)
qed simp

lemma FlexIDToBytes_colonHex: "FlexIDToBytes (colonHex b) = b"
  by (cases "b = []") (simp_all add: FlexIDToBytes_def colonHexRe_colonHex colonHex_decode, simp add: colonHex_def)

lemma BytesToPortIdentity_eq: "BytesToPortIdentity b = colonHex b"
  by (simp add: BytesToPortIdentity_def colonHex_def)

interpretation port_key: text_codec BytesToPortIdentity FlexIDToBytes
  by unfold_locales (simp add: BytesToPortIdentity_eq FlexIDToBytes_colonHex)

lemma decodeHex_colonHex: "decodeHex (colonHex b) = b"
  by (simp add: decodeHex_def Let_def colonHex_decode)

section \<open>Properties\<close>

text \<open>A port key decodes to exactly the raw flex-id bytes it was built from, for every
  byte string; two ports share a key only if their flex-ids are equal; and the client-id Kea reports
  (a zero byte, then the flex-id) decodes to the port whose key denotes the flex-id, so a pin made
  from a lease is stored under the bytes Kea looks up.\<close>

theorem port_key_round_trip:
  "FlexIDToBytes (BytesToPortIdentity b) = b
    \<and> (BytesToPortIdentity b = BytesToPortIdentity b' \<longleftrightarrow> b = b')
    \<and> (b = [] \<or> (\<exists>p. DecodePortIdentity (colonHex (CHR 0x00 # b)) = Some p
          \<and> FlexIDToBytes (pi_Key p) = b))"
proof (intro conjI)
  show "FlexIDToBytes (BytesToPortIdentity b) = b" by (rule port_key.dec_enc)
  show "BytesToPortIdentity b = BytesToPortIdentity b' \<longleftrightarrow> b = b'" by (rule port_key.enc_inj)
  show "b = [] \<or> (\<exists>p. DecodePortIdentity (colonHex (CHR 0x00 # b)) = Some p
          \<and> FlexIDToBytes (pi_Key p) = b)"
    by (cases b) (auto simp: DecodePortIdentity_def decodeHex_colonHex PortIdentFromFlex_def
        port_key.dec_enc split: prod.splits)
qed

text \<open>Re-encoding a stored port label with \<open>CanonicalPortID\<close> never changes the bytes
  it stands for, and is the identity the second time; the remote and circuit halves of a delimited
  flex-id, joined by the delimiter, are the flex-id.\<close>

theorem CanonicalPortID_keeps_bytes:
  "FlexIDToBytes (CanonicalPortID p) = FlexIDToBytes p
    \<and> CanonicalPortID (CanonicalPortID p) = CanonicalPortID p
    \<and> (case splitFlexID p of (r, c) \<Rightarrow>
         p = (if portFlexDelim \<in> set p then r @ portFlexDelim # c else r))"
proof (intro conjI)
  show "FlexIDToBytes (CanonicalPortID p) = FlexIDToBytes p"
    by (simp add: CanonicalPortID_def FlexIDToBytes_colonHex) (simp add: FlexIDToBytes_def)
  show "CanonicalPortID (CanonicalPortID p) = CanonicalPortID p"
  proof (cases "p = []")
    case True
    then show ?thesis by (simp add: CanonicalPortID_def colonHex_def)
  next
    case False
    then show ?thesis using colonHexRe_colonHex [of p] by (simp add: CanonicalPortID_def)
  qed
  show "case splitFlexID p of (r, c) \<Rightarrow>
         p = (if portFlexDelim \<in> set p then r @ portFlexDelim # c else r)"
  proof (cases "portFlexDelim \<in> set p")
    case True
    then have "dropWhile (\<lambda>c. c \<noteq> portFlexDelim) p \<noteq> []" by auto
    then have "dropWhile (\<lambda>c. c \<noteq> portFlexDelim) p
      = portFlexDelim # tl (dropWhile (\<lambda>c. c \<noteq> portFlexDelim) p)"
      using hd_dropWhile [of "\<lambda>c. c \<noteq> portFlexDelim" p] by (metis list.collapse)
    then show ?thesis
      using True by (simp add: splitFlexID_def)
  qed (simp add: splitFlexID_def)
qed

end
