(* ===== verification/ScopePlan.thy ===== *)
theory ScopePlan
  imports KeaLayout Identity
begin

text \<open>
  \<open>src/internal/appliance/scope.go\<close> (and the size presets of \<open>identity.go\<close>): the
  configuration of one served subnet, its ordered pool plan, the seed plans, the mapping of a plan to
  the allocator's specs and the parse path of the per-scope network services.  The pool kinds of
  a plan are the persisted strings; any kind that is neither elastic nor reserve is a fixed pool, as
  in the code's switch.
\<close>

definition staticReserveSize :: int where "staticReserveSize = 18"
definition PoolKindFixed :: string where "PoolKindFixed = ''fixed''"
definition PoolKindElastic :: string where "PoolKindElastic = ''elastic''"
definition PoolKindReserve :: string where "PoolKindReserve = ''reserve''"

record PoolPlanEntry =
  pe_Kind :: string
  pe_Name :: string
  pe_Class :: string
  pe_Sizing :: string
  pe_Count :: int
  pe_Range :: string
  pe_Weight :: int
  pe_Vendors :: "string list"
  pe_Icon :: string

type_synonym PoolPlan = "PoolPlanEntry list"

definition zero_entry :: PoolPlanEntry where
  "zero_entry = \<lparr>pe_Kind = [], pe_Name = [], pe_Class = [], pe_Sizing = [], pe_Count = 0,
     pe_Range = [], pe_Weight = 0, pe_Vendors = [], pe_Icon = []\<rparr>"

definition static_reserve :: PoolPlanEntry where
  "static_reserve = zero_entry\<lparr>pe_Kind := PoolKindReserve, pe_Name := ''Static reserve'',
     pe_Count := staticReserveSize\<rparr>"

definition elastic_entry :: "string \<Rightarrow> string \<Rightarrow> string \<Rightarrow> int \<Rightarrow> PoolPlanEntry" where
  "elastic_entry cl label icon w = zero_entry\<lparr>pe_Kind := PoolKindElastic, pe_Class := cl,
     pe_Name := label, pe_Icon := icon, pe_Weight := w\<rparr>"

record DeviceCounts =
  cnt_BPX :: int
  cnt_MCX :: int
  cnt_MCD :: int
  cnt_Interface :: int
  cnt_WPX :: int
  cnt_Bridge :: int
  cnt_WAA :: int
  cnt_Beacon :: int
  cnt_Stride :: int
  cnt_Switch :: int
  cnt_Others :: int
  cnt_Nodes :: int

definition zero_counts :: DeviceCounts where
  "zero_counts = \<lparr>cnt_BPX = 0, cnt_MCX = 0, cnt_MCD = 0, cnt_Interface = 0, cnt_WPX = 0,
     cnt_Bridge = 0, cnt_WAA = 0, cnt_Beacon = 0, cnt_Stride = 0, cnt_Switch = 0, cnt_Others = 0,
     cnt_Nodes = 0\<rparr>"

text \<open>\<open>Map\<close>: a missing key reads as zero, like a Go map.\<close>

definition counts_assoc :: "DeviceCounts \<Rightarrow> (string \<times> int) list" where
  "counts_assoc d =
    [(''count_bpx'', cnt_BPX d), (''count_mcx'', cnt_MCX d), (''count_mcd'', cnt_MCD d),
     (''count_interface'', cnt_Interface d), (''count_wpx'', cnt_WPX d), (''count_bridge'', cnt_Bridge d),
     (''count_waa'', cnt_WAA d), (''count_beacon'', cnt_Beacon d), (''count_stride'', cnt_Stride d),
     (''count_switch'', cnt_Switch d), (''count_others'', cnt_Others d)]"

definition counts_Map :: "DeviceCounts \<Rightarrow> string \<Rightarrow> int" where
  "counts_Map d k = (case map_of (counts_assoc d) k of Some n \<Rightarrow> n | None \<Rightarrow> 0)"

record ScopeOption =
  so_Name :: string
  so_Data :: string

record ScopeServices =
  sv_Gateway :: string
  sv_DNS :: string
  sv_LocalDNS :: bool
  sv_LeaseLifetime :: int
  sv_Options :: "ScopeOption list"

record UplinkConfig =
  up_Enabled :: bool
  up_SSID :: string
  up_Password :: string

record ScopeConfig =
  sc_Name :: string
  sc_Preset :: string
  sc_VlanID :: int
  sc_CIDR :: string
  sc_Counts :: DeviceCounts
  sc_Uplink :: UplinkConfig
  sc_Plan :: PoolPlan
  sc_Services :: ScopeServices

definition FlatPlan :: PoolPlan where
  "FlatPlan = [static_reserve, elastic_entry [] ''All devices'' ''cpu'' 1]"

definition single_pool_label :: "string \<Rightarrow> string \<times> string" where
  "single_pool_label preset =
    (if preset = ''dante'' then (''Dante / AES67'', ''speaker'')
     else if preset = ''sacn'' then (''sACN / Art-Net'', ''cpu'')
     else if preset = ''flat'' then (''Green-GO (flat)'', ''cpu'')
     else if preset = ''custom'' then (''General'', ''cpu'')
     else (''Devices'', ''cpu''))"

definition countFor :: "DeviceCounts \<Rightarrow> string \<Rightarrow> int" where
  "countFor d cl = (case List.find (\<lambda>dc. dc_Name dc = cl) DeviceClasses of
     Some dc \<Rightarrow> counts_Map d (dc_CountKey dc) | None \<Rightarrow> 0)"

definition seed_fixed :: "DeviceCounts \<Rightarrow> string \<Rightarrow> PoolPlan" where
  "seed_fixed d cl =
    (if countFor d cl \<le> 0 then []
     else case ClassMetadata cl of (label, icon, codes) \<Rightarrow>
       [zero_entry\<lparr>pe_Kind := PoolKindFixed, pe_Class := cl, pe_Name := label, pe_Icon := icon,
          pe_Sizing := ''auto'', pe_Count := countFor d cl\<rparr>])"

definition seed_order :: "string list" where
  "seed_order = [''GGO-BPX'', ''GGO-MCX-D'', ''GGO-MCD-MCR'', ''GGO-WP-X'', ''GGO-WAA'', ''GGO-STRIDE'',
     ''GGO-RDX-SI-BEACON'', ''GGO-INTERFACE-Q4WR'', ''GGO-BRIDGE-DANTEX'', ''GGO-SWITCH'']"

definition seed_elastic :: "string \<Rightarrow> int \<Rightarrow> PoolPlanEntry" where
  "seed_elastic cl w = (case ClassMetadata cl of (label, icon, codes) \<Rightarrow> elastic_entry cl label icon w)"

definition SeedPlan :: "ScopeConfig \<Rightarrow> PoolPlan" where
  "SeedPlan sc =
    (if sc_Preset sc \<noteq> ''greengo'' then
       (case single_pool_label (sc_Preset sc) of (label, icon) \<Rightarrow>
          [static_reserve, elastic_entry [] label icon 1])
     else [static_reserve] @ concat (map (seed_fixed (sc_Counts sc)) seed_order)
       @ [seed_elastic ClassNameGGOOthers 2, seed_elastic ClassNameOthers 1])"

definition small_counts :: DeviceCounts where
  "small_counts = zero_counts\<lparr>cnt_BPX := 15, cnt_MCX := 3, cnt_Interface := 3, cnt_Others := 15,
     cnt_WAA := 2, cnt_Nodes := 25\<rparr>"

definition GoSizePresets :: "(string \<times> DeviceCounts) list" where
  "GoSizePresets =
    [(''small'', small_counts),
     (''medium'', zero_counts\<lparr>cnt_BPX := 50, cnt_MCX := 20, cnt_WPX := 2, cnt_Interface := 6,
        cnt_Bridge := 2, cnt_Stride := 6, cnt_Beacon := 2, cnt_Others := 18, cnt_Nodes := 120\<rparr>),
     (''large'', zero_counts\<lparr>cnt_BPX := 100, cnt_MCX := 40, cnt_WPX := 16, cnt_Interface := 40,
        cnt_Bridge := 10, cnt_Stride := 50, cnt_Beacon := 50, cnt_Others := 20, cnt_Nodes := 300\<rparr>)]"

definition DefaultSizePreset :: string where "DefaultSizePreset = ''small''"

definition SeedDefaultPlan :: "ScopeConfig \<Rightarrow> PoolPlan" where
  "SeedDefaultPlan sc =
    (if sc_Counts sc = zero_counts
     then SeedPlan (sc\<lparr>sc_Counts := (case map_of GoSizePresets DefaultSizePreset of
            Some c \<Rightarrow> c | None \<Rightarrow> zero_counts)\<rparr>)
     else SeedPlan sc)"

definition StripRangePins :: "PoolPlan \<Rightarrow> PoolPlan" where
  "StripRangePins p = map (\<lambda>e. e\<lparr>pe_Range := []\<rparr>) p"

definition entry_spec :: "PoolPlanEntry \<Rightarrow> PoolSpec" where
  "entry_spec e =
    (if pe_Kind e = PoolKindElastic then
       \<lparr>ps_Class = pe_Class e, ps_Kind = PoolElastic, ps_Size = 0, ps_Weight = max (pe_Weight e) 1,
        ps_Range = pe_Range e, ps_Vendors = pe_Vendors e\<rparr>
     else if pe_Kind e = PoolKindReserve then
       \<lparr>ps_Class = [], ps_Kind = PoolReserve, ps_Size = pe_Count e, ps_Weight = 0,
        ps_Range = pe_Range e, ps_Vendors = []\<rparr>
     else
       \<lparr>ps_Class = pe_Class e, ps_Kind = PoolFixed,
        ps_Size = (if pe_Sizing e \<noteq> ''explicit'' then SizeForClass (pe_Class e) (pe_Count e)
                   else if IsCatchAll (pe_Class e) then max (pe_Count e) (FloorForClass (pe_Class e))
                   else pe_Count e),
        ps_Weight = 0, ps_Range = pe_Range e, ps_Vendors = pe_Vendors e\<rparr>)"

definition ToSpecs :: "PoolPlan \<Rightarrow> PoolSpec list" where
  "ToSpecs p = map entry_spec p"

section \<open>Network services\<close>

datatype services_error = BadGateway string | BadDNS string | BadLease

definition valid_v4 :: "string \<Rightarrow> bool" where
  "valid_v4 s \<longleftrightarrow> ParseIP s \<noteq> [] \<and> To4 (ParseIP s) \<noteq> []"

fun clean_dns :: "string list \<Rightarrow> services_error + string list" where
  "clean_dns [] = Inr []"
| "clean_dns (p0 # ps) =
     (let p = TrimSpace p0 in
      if p = [] then clean_dns ps
      else if \<not> valid_v4 p then Inl (BadDNS p)
      else map_sum id ((#) p) (clean_dns ps))"

definition service_options :: "string list \<Rightarrow> string list \<Rightarrow> ScopeOption list" where
  "service_options optNames optData =
    concat (map (\<lambda>i. let name = TrimSpace (optNames ! i);
                         d = (if i < length optData then TrimSpace (optData ! i) else [])
       in if name = [] \<or> d = [] then [] else [\<lparr>so_Name = name, so_Data = d\<rparr>])
      [0 ..< length optNames])"

definition parse_gateway :: "string \<Rightarrow> services_error + string" where
  "parse_gateway g0 = (let g = TrimSpace g0 in
     if g = [] then Inr [] else if \<not> valid_v4 g then Inl (BadGateway g) else Inr g)"

definition parse_dns :: "string \<Rightarrow> services_error + string" where
  "parse_dns d0 = (let d = TrimSpace d0 in
     if d = [] then Inr []
     else map_sum id (\<lambda>ps. Join ps '', '') (clean_dns (split_on (CHR '','') d)))"

definition parse_lease :: "string \<Rightarrow> services_error + int" where
  "parse_lease l0 = (let l = TrimSpace l0 in
     if l = [] then Inr 0
     else (case Atoi l of None \<Rightarrow> Inl BadLease
       | Some n \<Rightarrow> if n < 30 \<or> n > 86400 then Inl BadLease else Inr n))"

definition ParseScopeServices :: "string \<Rightarrow> string \<Rightarrow> string \<Rightarrow> string \<Rightarrow> string list \<Rightarrow> string list
    \<Rightarrow> services_error + ScopeServices" where
  "ParseScopeServices gateway dns lease localDNS optNames optData =
    (case parse_gateway gateway of
       Inl e \<Rightarrow> Inl e
     | Inr g \<Rightarrow>
       (case parse_dns dns of
          Inl e \<Rightarrow> Inl e
        | Inr d \<Rightarrow>
          (case parse_lease lease of
             Inl e \<Rightarrow> Inl e
           | Inr n \<Rightarrow> Inr \<lparr>sv_Gateway = g, sv_DNS = d, sv_LocalDNS = (localDNS = ''true''),
               sv_LeaseLifetime = n, sv_Options = service_options optNames optData\<rparr>)))"

section \<open>Properties\<close>

lemma FloorForClass_catch_all: "IsCatchAll c \<Longrightarrow> FloorForClass c = 10"
  by (simp add: FloorForClass_def layoutCatchAll_def)

lemma range_count_fixed:
  assumes "layout_size_ok s r" "TrimSpace (ps_Range s) = []" "ps_Kind s \<noteq> PoolElastic" "0 < ps_Size s"
  shows "range_count r = ps_Size s"
  using assms by (auto simp: layout_size_ok_def split: if_splits)

lemma entry_spec_floor:
  assumes "pe_Kind e \<noteq> PoolKindReserve" "pe_Sizing e \<noteq> ''explicit'' \<or> IsCatchAll (pe_Class e)"
    "TrimSpace (pe_Range e) = []" "layout_size_ok (entry_spec e) r"
  shows "FloorForClass (pe_Class e) \<le> range_count r"
proof (cases "pe_Kind e = PoolKindElastic")
  case True
  then show ?thesis using assms by (auto simp: entry_spec_def layout_size_ok_def)
next
  case False
  have "FloorForClass (pe_Class e) \<le> ps_Size (entry_spec e)"
    using assms(1,2) False by (auto simp: entry_spec_def SizeForClass_def)
  moreover have "ps_Kind (entry_spec e) \<noteq> PoolElastic" "ps_Range (entry_spec e) = pe_Range e"
    using False assms(1) by (simp_all add: entry_spec_def)
  ultimately show ?thesis
    using range_count_fixed [OF assms(4)] assms(3) FloorForClass_pos [of "pe_Class e"] by simp
qed

text \<open>When the allocator accepts a scope's plan, every unpinned pool of the plan that is
  auto-sized, elastic, or one of the two catch-alls (whatever size the operator typed) has at least
  the floor of its class: the safety net for unmatched devices never has fewer than ten
  addresses.\<close>

theorem plan_pools_keep_floor:
  assumes "LayoutPools cidr (ToSpecs p) = Inr pls" "i < length p"
    "pe_Kind (p ! i) \<noteq> PoolKindReserve" "TrimSpace (pe_Range (p ! i)) = []"
    "pe_Sizing (p ! i) \<noteq> ''explicit'' \<or> IsCatchAll (pe_Class (p ! i))"
  shows "FloorForClass (pe_Class (p ! i)) \<le> range_count (pp_Range (pls ! i))
    \<and> (if IsCatchAll (pe_Class (p ! i)) then 10 else 5) \<le> range_count (pp_Range (pls ! i))"
proof -
  have "list_all2 layout_size_ok (ToSpecs p) (map pp_Range pls)"
    by (rule LayoutPools_ok [OF assms(1)]) (metis list_all2_lengthD map2_placement(3))
  then have "layout_size_ok (entry_spec (p ! i)) (pp_Range (pls ! i))"
    using assms(2) by (auto simp: ToSpecs_def list_all2_conv_all_nth)
  from entry_spec_floor [OF assms(3,5,4) this] show ?thesis
    by (auto simp: FloorForClass_catch_all intro: order_trans [OF FloorForClass_pos])
qed

definition ex_plan :: PoolPlan where
  "ex_plan = [zero_entry\<lparr>pe_Kind := PoolKindFixed, pe_Class := ''OTHERS'', pe_Sizing := ''explicit'', pe_Count := 3\<rparr>]"

lemma ex_plan_layout: "LayoutPools ''10.0.0.0/28'' (ToSpecs ex_plan)
    = Inr [\<lparr>pp_Class = ''OTHERS'', pp_Kind = PoolFixed, pp_Range = ''10.0.0.2 - 10.0.0.11''\<rparr>]"
  by code_simp

lemma plan_pools_keep_floor_witness: "10 \<le> range_count ''10.0.0.2 - 10.0.0.11''"
proof -
  have c: "IsCatchAll ''OTHERS''" by (simp add: IsCatchAll_def ClassNameOthers_def)
  show ?thesis
    using plan_pools_keep_floor [OF ex_plan_layout, of 0] c
    by (simp add: ex_plan_def zero_entry_def PoolKindFixed_def PoolKindReserve_def TrimSpace_def)
qed

lemma clean_dns_valid: "clean_dns ps = Inr qs \<Longrightarrow> list_all valid_v4 qs"
  by (induction ps arbitrary: qs) (auto simp: Let_def split: if_splits)

lemma service_options_nonblank:
  "list_all (\<lambda>x. so_Name x \<noteq> [] \<and> so_Data x \<noteq> []) (service_options ns ds)"
  by (auto simp: service_options_def list_all_iff Let_def split: if_splits)

text \<open>Network services that \<open>ParseScopeServices\<close> accepts are well-formed: the gateway
  is empty or a valid IPv4 literal, the DNS text is the comma list of valid IPv4 literals, the lease
  lifetime is zero (inherit) or between 30 and 86400 seconds, and no option row has a blank name or
  blank data.\<close>

theorem ParseScopeServices_valid:
  assumes "ParseScopeServices gateway dns lease localDNS optNames optData = Inr svc"
  shows "(sv_Gateway svc = [] \<or> valid_v4 (sv_Gateway svc))
    \<and> (\<exists>servers. sv_DNS svc = Join servers '', '' \<and> list_all valid_v4 servers)
    \<and> (sv_LeaseLifetime svc = 0 \<or> (30 \<le> sv_LeaseLifetime svc \<and> sv_LeaseLifetime svc \<le> 86400))
    \<and> list_all (\<lambda>x. so_Name x \<noteq> [] \<and> so_Data x \<noteq> []) (sv_Options svc)
    \<and> sv_LocalDNS svc = (localDNS = ''true'')"
proof -
  obtain g d n where p: "parse_gateway gateway = Inr g" "parse_dns dns = Inr d" "parse_lease lease = Inr n"
    and svc: "svc = \<lparr>sv_Gateway = g, sv_DNS = d, sv_LocalDNS = (localDNS = ''true''),
               sv_LeaseLifetime = n, sv_Options = service_options optNames optData\<rparr>"
    using assms by (auto simp: ParseScopeServices_def split: sum.splits)
  have "g = [] \<or> valid_v4 g" using p(1) by (auto simp: parse_gateway_def Let_def split: if_splits)
  moreover have "\<exists>servers. d = Join servers '', '' \<and> list_all valid_v4 servers"
  proof (cases "TrimSpace dns = []")
    case True
    then have "d = Join [] '', ''" using p(2) by (simp add: parse_dns_def)
    then show ?thesis by (intro exI [of _ "[]"]) simp
  next
    case False
    then show ?thesis using p(2) by (auto simp: parse_dns_def Let_def dest: clean_dns_valid)
  qed
  moreover have "n = 0 \<or> (30 \<le> n \<and> n \<le> 86400)"
    using p(3) by (auto simp: parse_lease_def Let_def split: if_splits option.splits)
  ultimately show ?thesis using service_options_nonblank by (simp add: svc)
qed

lemma ParseScopeServices_valid_witness:
  "ParseScopeServices '' 10.0.0.1 '' ''1.1.1.1 , ,8.8.8.8'' ''600'' ''true'' [''ntp-servers'', ''x''] [''10.0.0.9'']
    = Inr \<lparr>sv_Gateway = ''10.0.0.1'', sv_DNS = ''1.1.1.1, 8.8.8.8'', sv_LocalDNS = True,
        sv_LeaseLifetime = 600, sv_Options = [\<lparr>so_Name = ''ntp-servers'', so_Data = ''10.0.0.9''\<rparr>]\<rparr>
   \<and> valid_v4 ''10.0.0.1''"
proof -
  have e: "ParseScopeServices '' 10.0.0.1 '' ''1.1.1.1 , ,8.8.8.8'' ''600'' ''true'' [''ntp-servers'', ''x''] [''10.0.0.9'']
    = Inr \<lparr>sv_Gateway = ''10.0.0.1'', sv_DNS = ''1.1.1.1, 8.8.8.8'', sv_LocalDNS = True,
        sv_LeaseLifetime = 600, sv_Options = [\<lparr>so_Name = ''ntp-servers'', so_Data = ''10.0.0.9''\<rparr>]\<rparr>"
    by code_simp
  from ParseScopeServices_valid [OF e] e show ?thesis by simp
qed

section \<open>The seeded plans\<close>

lemma seed_fixed_class: "x \<in> set (seed_fixed d cl) \<Longrightarrow> pe_Class x = cl \<and> pe_Kind x = PoolKindFixed
    \<and> pe_Sizing x = ''auto'' \<and> 0 < pe_Count x"
  by (auto simp: seed_fixed_def zero_entry_def split: prod.splits if_splits)

lemma seed_fixed_classes: "map pe_Class (seed_fixed d cl) = (if countFor d cl \<le> 0 then [] else [cl])"
  by (simp add: seed_fixed_def zero_entry_def split: prod.splits)

lemma concat_seed_classes:
  "map pe_Class (concat (map (seed_fixed d) cls)) = filter (\<lambda>c. 0 < countFor d c) cls"
  by (induction cls) (simp_all add: seed_fixed_classes)

lemma seed_order_classes: "set seed_order = dc_Name ` set DeviceClasses" "distinct seed_order"
proof -
  have "list_all (\<lambda>c. c \<in> set (map dc_Name DeviceClasses)) seed_order"
    "list_all (\<lambda>c. c \<in> set seed_order) (map dc_Name DeviceClasses)" "distinct seed_order"
    by code_simp+
  then show "set seed_order = dc_Name ` set DeviceClasses" "distinct seed_order"
    by (auto simp: list_all_iff)
qed

lemma greengo_classes:
  assumes "sc_Preset sc = ''greengo''"
  shows "map pe_Class (SeedPlan sc) = [] # filter (\<lambda>c. 0 < countFor (sc_Counts sc) c) seed_order
    @ [ClassNameGGOOthers, ClassNameOthers]"
  using assms
  by (simp add: SeedPlan_def concat_seed_classes static_reserve_def zero_entry_def seed_elastic_def
      elastic_entry_def split: prod.splits)

end
