(* ===== verification/DevicePools.thy ===== *)
theory DevicePools
  imports KeaProfile ScopePlan
begin

text \<open>
  The composition of the scope seed (\<open>appliance/scope.go\<close>), the allocator and the renderer:
  on a greenGO scope with its seeded plan every device has exactly one pool whose client-class guard
  admits it.
\<close>

text \<open>The meaning of the guard a rendered pool carries, by the class name the renderer gives
  it.\<close>

definition guard_expr :: "nat \<Rightarrow> DeviceClass list \<Rightarrow> string \<Rightarrow> kexpr option" where
  "guard_expr idx pooled nm =
    (if nm = ClassNameOthers then Some others_expr
     else if nm = ClassNameGGOOthers @ ''-'' @ Itoa (int idx) then Some (ggo_others_expr pooled)
     else map_option class_expr (deviceClassByName nm))"

definition guard_holds :: "nat \<Rightarrow> DeviceClass list \<Rightarrow> string \<Rightarrow> PoolConfig \<Rightarrow> bool" where
  "guard_holds idx pooled hexmac p \<longleftrightarrow>
     (case guard_expr idx pooled (pc_ClientClass p) of Some e \<Rightarrow> keval hexmac e | None \<Rightarrow> False)"

text \<open>Kea's rule for the \<open>client-classes\<close> of a pool in the rendered file: a client may
  take an address from it when the list is empty or the client is in one of the classes; the
  built-in class \<open>KNOWN\<close> holds of the clients with a host reservation.\<close>

definition in_class :: "nat \<Rightarrow> DeviceClass list \<Rightarrow> bool \<Rightarrow> string \<Rightarrow> string \<Rightarrow> bool" where
  "in_class idx pooled reserved hexmac c \<longleftrightarrow>
     (if c = ''KNOWN'' then reserved
      else (case guard_expr idx pooled c of Some e \<Rightarrow> keval hexmac e | None \<Rightarrow> False))"

definition admits :: "nat \<Rightarrow> DeviceClass list \<Rightarrow> bool \<Rightarrow> string \<Rightarrow> poolEntry \<Rightarrow> bool" where
  "admits idx pooled reserved hexmac p \<longleftrightarrow> pl_ClientClasses p = []
     \<or> list_ex (in_class idx pooled reserved hexmac) (pl_ClientClasses p)"

lemma no_guard: "guard_expr idx pooled [] = None" "guard_expr idx pooled ''KNOWN'' = None"
proof -
  have "deviceClassByName [] = None" "deviceClassByName ''KNOWN'' = None" by code_simp+
  then show "guard_expr idx pooled [] = None" "guard_expr idx pooled ''KNOWN'' = None"
    by (simp_all add: guard_expr_def ClassNameOthers_def ClassNameGGOOthers_def)
qed

lemma admits_built:
  assumes "guard_expr idx pooled (pc_ClientClass p) = Some e"
  shows "admits idx pooled False hexmac (build_pool p) \<longleftrightarrow> guard_holds idx pooled hexmac p"
    "admits idx pooled True hexmac (build_pool p)"
proof -
  have "pc_ClientClass p \<noteq> []" "pc_ClientClass p \<noteq> ''KNOWN''" using assms no_guard by force+
  then show "admits idx pooled False hexmac (build_pool p) \<longleftrightarrow> guard_holds idx pooled hexmac p"
    "admits idx pooled True hexmac (build_pool p)"
    using assms by (simp_all add: admits_def build_pool_def in_class_def guard_holds_def)
qed

lemma device_names: 
  assumes "d \<in> set DeviceClasses"
  shows "dc_Name d \<noteq> ClassNameOthers" "dc_Name d \<noteq> ClassNameGGOOthers" "dc_Name d \<noteq> ClassNameGGOOthers @ s"
proof -
  have "list_all (\<lambda>d. dc_Name d \<noteq> ClassNameOthers \<and> \<not> has_prefix (dc_Name d) ClassNameGGOOthers) DeviceClasses"
    by code_simp
  then have n: "dc_Name d \<noteq> ClassNameOthers" "\<not> has_prefix (dc_Name d) ClassNameGGOOthers"
    using assms by (auto simp: list_all_iff)
  have "has_prefix (ClassNameGGOOthers @ t) ClassNameGGOOthers" for t by (simp add: has_prefix_def)
  with n show "dc_Name d \<noteq> ClassNameOthers" "dc_Name d \<noteq> ClassNameGGOOthers @ s" by metis+
  show "dc_Name d \<noteq> ClassNameGGOOthers" using n(2) by (auto simp: has_prefix_def)
qed

lemma deviceClassByName_Some: "deviceClassByName nm = Some d \<Longrightarrow> d \<in> set DeviceClasses \<and> dc_Name d = nm"
  by (auto simp: deviceClassByName_def find_Some_iff)

lemma deviceClassByName_name: "nm \<in> dc_Name ` set DeviceClasses \<Longrightarrow> \<exists>d. deviceClassByName nm = Some d"
  by (cases "deviceClassByName nm") (auto simp: deviceClassByName_def find_None_iff)

definition rename_class :: "nat \<Rightarrow> string \<Rightarrow> string" where
  "rename_class idx c = (if c = ClassNameGGOOthers then ClassNameGGOOthers @ ''-'' @ Itoa (int idx) else c)"

lemma rank_one_class:
  assumes "i < length plan \<Longrightarrow> ps_Vendors (plan ! i) = []"
  shows "pc_ClientClass (fst (fst (rank_one plan idx pooled i p))) = rename_class idx (pp_Class p)"
proof -
  have "VendorClassTest [] = []" by (simp add: VendorClassTest_def)
  moreover have "ClassNameGGOOthers \<noteq> ClassNameOthers" by (simp add: ClassNameGGOOthers_def ClassNameOthers_def)
  ultimately show ?thesis using assms by (auto simp: rank_one_def rename_class_def Let_def)
qed

lemma rendered_classes:
  assumes "\<forall>s \<in> set plan. ps_Vendors s = []"
  shows "mset (map pc_ClientClass (fst (rankScopePools placements plan idx pooled)))
    = mset (map (rename_class idx) (map pp_Class (filter served placements)))"
proof -
  have z: "map (\<lambda>x. pc_ClientClass (fst (fst (rank_one plan idx pooled (fst x) (snd x)))))
      (filter (\<lambda>x. served (snd x)) (zip [k ..< k + length ps] ps))
    = map (rename_class idx) (map pp_Class (filter served ps))" for k ps
  proof (induction ps arbitrary: k)
    case (Cons p ps)
    have "pc_ClientClass (fst (fst (rank_one plan idx pooled k p))) = rename_class idx (pp_Class p)"
      using assms by (intro rank_one_class) auto
    then show ?case using Cons.IH [of "Suc k"] by (simp add: upt_conv_Cons del: upt_Suc)
  qed simp
  have "mset (map pc_ClientClass (fst (rankScopePools placements plan idx pooled)))
    = mset (map (\<lambda>x. pc_ClientClass (fst (fst x))) (ranked_pools placements plan idx pooled))"
    by (simp add: rankScopePools_def Let_def image_mset.compositionality comp_def)
  also have "\<dots> = mset (map (rename_class idx) (map pp_Class (filter served placements)))"
    using z [of 0 placements] by (simp add: ranked_pools_def case_prod_unfold comp_def)
  finally show ?thesis .
qed

lemma pooled_names:
  "dc_Name ` set (pooled_ggo placements)
     = set (map pp_Class (filter served placements)) \<inter> dc_Name ` set DeviceClasses"
  "set (pooled_ggo placements) \<subseteq> set DeviceClasses"
proof -
  show "set (pooled_ggo placements) \<subseteq> set DeviceClasses"
    by (auto simp: pooled_ggo_def dest: deviceClassByName_Some deviceClassByName_Some [OF sym] split: if_splits option.splits)
  show "dc_Name ` set (pooled_ggo placements)
     = set (map pp_Class (filter served placements)) \<inter> dc_Name ` set DeviceClasses"
  proof (intro equalityI subsetI)
    fix x assume "x \<in> dc_Name ` set (pooled_ggo placements)"
    then obtain d p where "p \<in> set placements" "served p" "deviceClassByName (pp_Class p) = Some d" "x = dc_Name d"
      unfolding pooled_ggo_def by (auto split: if_splits option.splits dest: sym)
    then show "x \<in> set (map pp_Class (filter served placements)) \<inter> dc_Name ` set DeviceClasses"
      using deviceClassByName_Some by force
  next
    fix x assume x: "x \<in> set (map pp_Class (filter served placements)) \<inter> dc_Name ` set DeviceClasses"
    then obtain p where p: "p \<in> set placements" "served p" "pp_Class p = x" by auto
    obtain d where d: "deviceClassByName x = Some d" using deviceClassByName_name x by blast
    then have "d \<in> set (pooled_ggo placements)" using p by (force simp: pooled_ggo_def)
    then show "x \<in> dc_Name ` set (pooled_ggo placements)" using deviceClassByName_Some [OF d] by force
  qed
qed

lemma seed_specs:
  assumes "sc_Preset sc = ''greengo''"
  shows "\<exists>r ss. ToSpecs (SeedPlan sc) = r # ss \<and> ps_Kind r = PoolReserve
    \<and> map ps_Class ss = filter (\<lambda>c. 0 < countFor (sc_Counts sc) c) seed_order @ [ClassNameGGOOthers, ClassNameOthers]
    \<and> list_all (\<lambda>s. ps_Vendors s = [] \<and> TrimSpace (ps_Range s) = [] \<and> ps_Kind s \<noteq> PoolReserve
        \<and> (ps_Kind s = PoolFixed \<longrightarrow> 0 < ps_Size s)) (ss)
    \<and> ps_Vendors r = []"
proof -
  let ?cls = "filter (\<lambda>c. 0 < countFor (sc_Counts sc) c) seed_order"
  let ?pools = "concat (map (seed_fixed (sc_Counts sc)) seed_order) @ [seed_elastic ClassNameGGOOthers 2, seed_elastic ClassNameOthers 1]"
  have T: "TrimSpace [] = []" by (simp add: TrimSpace_def)
  have plan: "SeedPlan sc = static_reserve # ?pools" using assms by (simp add: SeedPlan_def)
  have f: "ps_Class (entry_spec e) = pe_Class e \<and> ps_Vendors (entry_spec e) = [] \<and> TrimSpace (ps_Range (entry_spec e)) = []
     \<and> ps_Kind (entry_spec e) = PoolFixed \<and> 0 < ps_Size (entry_spec e)"
    if "e \<in> set (seed_fixed (sc_Counts sc) c)" for e c
    using that FloorForClass_pos [of c]
    by (auto simp: seed_fixed_def entry_spec_def zero_entry_def T PoolKindFixed_def PoolKindElastic_def PoolKindReserve_def
        SizeForClass_def max_def split: prod.splits if_splits)
  have g: "ps_Class (entry_spec (seed_elastic c w)) = c \<and> ps_Vendors (entry_spec (seed_elastic c w)) = []
     \<and> TrimSpace (ps_Range (entry_spec (seed_elastic c w))) = [] \<and> ps_Kind (entry_spec (seed_elastic c w)) = PoolElastic" for c w
    by (auto simp: seed_elastic_def elastic_entry_def entry_spec_def zero_entry_def T split: prod.splits)
  have "map ps_Class (map entry_spec (concat (map (seed_fixed (sc_Counts sc)) seed_order)))
      = map pe_Class (concat (map (seed_fixed (sc_Counts sc)) seed_order))"
    using f by auto
  then have cl: "map ps_Class (map entry_spec ?pools) = ?cls @ [ClassNameGGOOthers, ClassNameOthers]"
    using g by (simp add: concat_seed_classes)
  have r: "ps_Kind (entry_spec static_reserve) = PoolReserve" "ps_Vendors (entry_spec static_reserve) = []"
    by (simp_all add: static_reserve_def entry_spec_def zero_entry_def PoolKindElastic_def PoolKindReserve_def)
  have "list_all (\<lambda>s. ps_Vendors s = [] \<and> TrimSpace (ps_Range s) = [] \<and> ps_Kind s \<noteq> PoolReserve
        \<and> (ps_Kind s = PoolFixed \<longrightarrow> 0 < ps_Size s)) (map entry_spec ?pools)"
    using f g by (auto simp: list_all_iff)
  then show ?thesis using cl r unfolding plan ToSpecs_def by auto
qed


definition pool_guard :: "nat \<Rightarrow> DeviceClass list \<Rightarrow> string \<Rightarrow> string \<Rightarrow> bool" where
  "pool_guard idx pooled hexmac c =
     (case guard_expr idx pooled c of Some e \<Rightarrow> keval hexmac e | None \<Rightarrow> False)"

lemma catch_all_neq: "ClassNameGGOOthers \<noteq> ClassNameOthers" "ClassNameGGOOthers @ s \<noteq> ClassNameOthers"
  by (simp_all add: ClassNameGGOOthers_def ClassNameOthers_def)

text \<open>The class whose pool admits a device: its own class when that class is served, and the
  GGO catch-all otherwise.\<close>

definition target_class :: "string set \<Rightarrow> string \<Rightarrow> string" where
  "target_class cs mac = (if ClassifyMAC mac \<in> cs then ClassifyMAC mac else ClassNameGGOOthers)"

lemma pool_guard_target:
  assumes "set cs = pp_Class ` {p \<in> set placements. served p}"
    and sub: "set cs \<subseteq> {ClassNameGGOOthers, ClassNameOthers} \<union> dc_Name ` set DeviceClasses"
    and mem: "ClassNameGGOOthers \<in> set cs" "ClassNameOthers \<in> set cs" "c \<in> set cs"
    and len: "8 \<le> length (mac_hex mac)"
  shows "pool_guard idx (pooled_ggo placements) (mac_hex mac) (rename_class idx c)
    \<longleftrightarrow> c = target_class (set cs) mac"
proof -
  consider "c = ClassNameOthers" | "c = ClassNameGGOOthers"
    | d where "d \<in> set DeviceClasses" "c = dc_Name d" using sub mem(3) by auto
  then show ?thesis
  proof cases
    case 1
    have "rename_class idx ClassNameOthers = ClassNameOthers" using catch_all_neq(1) by (simp add: rename_class_def)
    then show ?thesis using 1 mem catch_all_neq(1) ClassifyMAC_others [OF len]
      by (auto simp: guard_expr_def pool_guard_def target_class_def)
  next
    case 2
    have "pool_guard idx (pooled_ggo placements) (mac_hex mac) (rename_class idx c) \<longleftrightarrow>
        ClassifyMAC mac \<noteq> ClassNameOthers \<and> ClassifyMAC mac \<notin> set cs \<inter> dc_Name ` set DeviceClasses"
      using 2 catch_all_neq ClassifyMAC_ggo_others [OF pooled_names(2) len] pooled_names(1) [of placements] assms(1)
      by (simp add: guard_expr_def rename_class_def pool_guard_def)
    moreover have "ClassNameGGOOthers \<notin> dc_Name ` set DeviceClasses" using device_names(2) by fastforce
    moreover have "ClassifyMAC mac \<in> set cs \<Longrightarrow> ClassifyMAC mac = ClassNameGGOOthers
        \<or> ClassifyMAC mac = ClassNameOthers \<or> ClassifyMAC mac \<in> dc_Name ` set DeviceClasses"
      using sub by blast
    ultimately show ?thesis using mem catch_all_neq(1) unfolding 2 target_class_def
      by (cases "ClassifyMAC mac \<in> set cs") auto
  next
    case 3
    obtain e where e: "deviceClassByName c = Some e" using deviceClassByName_name [of c] 3 by auto
    then have "e \<in> set DeviceClasses" "dc_Name e = c" using deviceClassByName_Some by auto
    then show ?thesis using e mem(3) device_names [of e] ClassifyMAC_class [of e, OF _ len]
      by (auto simp: guard_expr_def rename_class_def pool_guard_def target_class_def)
  qed
qed

lemma length_filter_mset: "mset xs = mset ys \<Longrightarrow> length (filter P xs) = length (filter P ys)"
  by (metis mset_filter size_mset)

lemma admitted_by_one:
  assumes cs: "cs = map pp_Class (filter served placements)"
    "distinct cs" "set cs \<subseteq> {ClassNameGGOOthers, ClassNameOthers} \<union> dc_Name ` set DeviceClasses"
    "ClassNameGGOOthers \<in> set cs" "ClassNameOthers \<in> set cs"
    and plan: "\<forall>s \<in> set plan. ps_Vendors s = []" and len: "8 \<le> length (mac_hex mac)"
  shows "length (filter (guard_holds idx (pooled_ggo placements) (mac_hex mac))
      (fst (rankScopePools placements plan idx (pooled_ggo placements)))) = 1"
proof -
  let ?P = "pool_guard idx (pooled_ggo placements) (mac_hex mac)"
  have one: "?P (rename_class idx c) \<longleftrightarrow> c = target_class (set cs) mac" if c: "c \<in> set cs" for c
    using cs c len by (intro pool_guard_target) auto
  have "length (filter (guard_holds idx (pooled_ggo placements) (mac_hex mac))
      (fst (rankScopePools placements plan idx (pooled_ggo placements))))
    = length (filter ?P (map pc_ClientClass (fst (rankScopePools placements plan idx (pooled_ggo placements)))))"
    by (simp add: filter_map comp_def guard_holds_def [abs_def] pool_guard_def [abs_def])
  also have "\<dots> = length (filter ?P (map (rename_class idx) cs))"
    using rendered_classes [OF plan, of placements idx "pooled_ggo placements"]
    by (intro length_filter_mset) (simp add: cs(1))
  also have "\<dots> = length (filter (\<lambda>c. ?P (rename_class idx c)) cs)"
    by (simp add: filter_map comp_def)
  also have "\<dots> = length (filter (\<lambda>c. c = target_class (set cs) mac) cs)"
    using one by (metis (mono_tags, lifting) filter_cong)
  also have "\<dots> = card {target_class (set cs) mac}"
    unfolding distinct_length_filter [OF cs(2)] using cs(4) by (intro arg_cong [where f = card]) (auto simp: target_class_def)
  also have "\<dots> = 1" by simp
  finally show ?thesis .
qed

lemma rank_one_guard:
  assumes "i < length plan \<Longrightarrow> ps_Vendors (plan ! i) = []"
    "pp_Class p \<in> {ClassNameGGOOthers, ClassNameOthers} \<union> dc_Name ` set DeviceClasses"
    "rank_one plan idx pooled i p = ((pc, prec), cls)"
  shows "\<exists>e. guard_expr idx pooled (pc_ClientClass pc) = Some e
    \<and> \<lparr>cc_Name = pc_ClientClass pc, cc_Test = kexpr_text e\<rparr> \<in> set (ClientClasses @ cls)"
proof -
  have v: "VendorClassTest [] = []" by (simp add: VendorClassTest_def)
  have c: "pc_ClientClass pc = rename_class idx (pp_Class p)"
    using rank_one_class [of i plan idx pooled p] assms(1,3) by simp
  consider "pp_Class p = ClassNameOthers" | "pp_Class p = ClassNameGGOOthers"
    | d where "d \<in> set DeviceClasses" "pp_Class p = dc_Name d" using assms(2) by auto
  then show ?thesis
  proof cases
    case 1
    then have "guard_expr idx pooled (pc_ClientClass pc) = Some others_expr" "pc_ClientClass pc = ClassNameOthers"
      using c catch_all_neq(1) by (auto simp: guard_expr_def rename_class_def)
    moreover have "kexpr_text others_expr = ''not ('' @ ouiMatch @ '')''" by (simp add: others_expr_def ouiMatch_text)
    ultimately show ?thesis by (simp add: ClientClasses_def)
  next
    case 2
    then have "cls = [\<lparr>cc_Name = pc_ClientClass pc, cc_Test = GGOOthersTest pooled\<rparr>]"
      using assms(1,3) v catch_all_neq(1) by (cases "i < length plan") (auto simp: rank_one_def Let_def)
    moreover have "guard_expr idx pooled (pc_ClientClass pc) = Some (ggo_others_expr pooled)"
      using 2 c catch_all_neq by (simp add: guard_expr_def rename_class_def)
    ultimately show ?thesis by (simp add: ggo_others_expr_text)
  next
    case 3
    obtain e where e: "deviceClassByName (pp_Class p) = Some e" "e \<in> set DeviceClasses" "dc_Name e = pp_Class p"
      using deviceClassByName_name [of "pp_Class p"] deviceClassByName_Some 3 by (metis imageI)
    then have "guard_expr idx pooled (pc_ClientClass pc) = Some (class_expr e)" "pc_ClientClass pc = dc_Name e"
      using c device_names [of e] by (auto simp: guard_expr_def rename_class_def)
    then show ?thesis using e(2) by (auto simp: ClientClasses_def class_expr_text)
  qed
qed

lemma pools_guarded:
  assumes "\<forall>s \<in> set plan. ps_Vendors s = []"
    "pp_Class ` {p \<in> set placements. served p} \<subseteq> {ClassNameGGOOthers, ClassNameOthers} \<union> dc_Name ` set DeviceClasses"
    "rankScopePools placements plan idx pooled = (pcs, cls)" "pc \<in> set pcs"
  shows "\<exists>e. guard_expr idx pooled (pc_ClientClass pc) = Some e
    \<and> \<lparr>cc_Name = pc_ClientClass pc, cc_Test = kexpr_text e\<rparr> \<in> set (ClientClasses @ cls)"
proof -
  from assms(3,4) obtain x where x: "x \<in> set (ranked_pools placements plan idx pooled)" "pc = fst (fst x)"
    by (auto simp: rankScopePools_def Let_def)
  then have "set (snd x) \<subseteq> set cls" using assms(3) by (auto simp: rankScopePools_def Let_def)
  moreover from x(1) obtain i p where ip: "(i, p) \<in> set (zip [0 ..< length placements] placements)" "served p"
    "x = rank_one plan idx pooled i p"
    by (auto simp: ranked_pools_def)
  ultimately have r: "rank_one plan idx pooled i p = ((pc, snd (fst x)), snd x)" "served p" "set (snd x) \<subseteq> set cls"
    using x(2) by simp_all
  have "p \<in> set placements" using ip(1) by (auto dest: set_zip_rightD)
  then have c: "pp_Class p \<in> {ClassNameGGOOthers, ClassNameOthers} \<union> dc_Name ` set DeviceClasses"
    using assms(2) r(2) by blast
  have v: "i < length plan \<Longrightarrow> ps_Vendors (plan ! i) = []" using assms(1) by simp
  from rank_one_guard [OF v c r(1)] r(3) show ?thesis by auto
qed

lemma ParsePoolRange_Nil: "ParsePoolRange [] = None" by code_simp

text \<open>C17: On a greenGO scope with its seeded plan, whatever the device counts, the rendered
  Kea pools partition the devices without a reservation: for every MAC of at least four octets
  exactly one of the scope's pools admits the client when it has no host reservation, while a
  client with one is admitted by every pool (the \<open>KNOWN\<close> guard), and every pool's class
  guard is the expression of a client class that the renderer writes under the pool's class
  name.\<close>

theorem greengo_device_has_one_pool:
  assumes "sc_Preset sc = ''greengo''" "8 \<le> length (mac_hex mac)"
    "LayoutPools cidr (ToSpecs (SeedPlan sc)) = Inr placements"
    "rankScopePools placements (ToSpecs (SeedPlan sc)) idx (pooled_ggo placements) = (pools, classes)"
  shows "length (filter (admits idx (pooled_ggo placements) False (mac_hex mac)) (map build_pool pools)) = 1
    \<and> list_all (admits idx (pooled_ggo placements) True (mac_hex mac)) (map build_pool pools)
    \<and> (\<forall>pc \<in> set pools. \<exists>e. guard_expr idx (pooled_ggo placements) (pc_ClientClass pc) = Some e
        \<and> \<lparr>cc_Name = pc_ClientClass pc, cc_Test = kexpr_text e\<rparr> \<in> set (ClientClasses @ classes))"
proof -
  let ?cs = "filter (\<lambda>c. 0 < countFor (sc_Counts sc) c) seed_order @ [ClassNameGGOOthers, ClassNameOthers]"
  obtain r ss where specs: "ToSpecs (SeedPlan sc) = r # ss" "ps_Kind r = PoolReserve" "map ps_Class ss = ?cs"
    "list_all (\<lambda>s. ps_Vendors s = [] \<and> TrimSpace (ps_Range s) = [] \<and> ps_Kind s \<noteq> PoolReserve
        \<and> (ps_Kind s = PoolFixed \<longrightarrow> 0 < ps_Size s)) ss" "ps_Vendors r = []"
    using seed_specs [OF assms(1)] by blast
  obtain rs where rs: "placements = map2 mk_placement (r # ss) rs" "list_all2 layout_size_ok (r # ss) rs"
    using LayoutPools_ok [OF assms(3)] specs(1) by metis
  then obtain r0 rs' where rs': "rs = r0 # rs'" "list_all2 layout_size_ok ss rs'" by (auto simp: list_all2_Cons1)
  have served: "filter served (map2 mk_placement ss rs') = map2 mk_placement ss rs'
      \<and> map pp_Class (map2 mk_placement ss rs') = map ps_Class ss"
    using rs'(2) specs(4)
  proof (induction ss rs' rule: list_all2_induct)
    case (Cons s ss x xs)
    have "x \<noteq> []"
      using Cons by (cases "ps_Kind s") (auto simp: layout_size_ok_def range_count_def ParsePoolRange_Nil split: if_splits)
    then show ?case using Cons by (auto simp: mk_placement_def served_def)
  qed simp
  then have cs: "map pp_Class (filter served placements) = ?cs"
    using specs(2,3) by (simp add: rs(1) rs'(1) mk_placement_def served_def)
  have "ClassNameGGOOthers \<notin> set seed_order" "ClassNameOthers \<notin> set seed_order" "ClassNameGGOOthers \<noteq> ClassNameOthers"
    using device_names seed_order_classes by (fastforce, fastforce, simp add: ClassNameGGOOthers_def ClassNameOthers_def)
  then have one: "length (filter (guard_holds idx (pooled_ggo placements) (mac_hex mac)) pools) = 1"
    using seed_order_classes specs assms(2) admitted_by_one [where cs = ?cs and placements = placements
        and plan = "ToSpecs (SeedPlan sc)" and idx = idx and mac = mac]
    by (auto simp: cs list_all_iff assms(4) [unfolded specs(1)])
  have "pp_Class ` {p \<in> set placements. served p} = set (map pp_Class (filter served placements))" by auto
  then have "pp_Class ` {p \<in> set placements. served p}
      \<subseteq> {ClassNameGGOOthers, ClassNameOthers} \<union> dc_Name ` set DeviceClasses"
    unfolding cs using seed_order_classes by auto
  moreover have "\<forall>s \<in> set (ToSpecs (SeedPlan sc)). ps_Vendors s = []" using specs by (auto simp: list_all_iff)
  ultimately have g: "\<forall>pc \<in> set pools. \<exists>e. guard_expr idx (pooled_ggo placements) (pc_ClientClass pc) = Some e
        \<and> \<lparr>cc_Name = pc_ClientClass pc, cc_Test = kexpr_text e\<rparr> \<in> set (ClientClasses @ classes)"
    using pools_guarded [OF _ _ assms(4)] by blast
  then have "filter (admits idx (pooled_ggo placements) False (mac_hex mac)) (map build_pool pools)
      = map build_pool (filter (guard_holds idx (pooled_ggo placements) (mac_hex mac)) pools)"
    "list_all (admits idx (pooled_ggo placements) True (mac_hex mac)) (map build_pool pools)"
    by (auto simp: filter_map comp_def list_all_iff dest!: bspec intro!: arg_cong [of _ _ "map build_pool"] filter_cong
        dest: admits_built)
  then show ?thesis using one g by simp
qed

definition ex_scope :: ScopeConfig where
  "ex_scope = \<lparr>sc_Name = ''Show'', sc_Preset = ''greengo'', sc_VlanID = 10, sc_CIDR = ''10.0.0.0/24'',
     sc_Counts = zero_counts\<lparr>cnt_Beacon := 1\<rparr>,
     sc_Uplink = \<lparr>up_Enabled = False, up_SSID = [], up_Password = []\<rparr>, sc_Plan = [],
     sc_Services = \<lparr>sv_Gateway = [], sv_DNS = [], sv_LocalDNS = False, sv_LeaseLifetime = 0, sv_Options = []\<rparr>\<rparr>"

definition ex_scope_placements :: "PoolPlacement list" where
  "ex_scope_placements =
     [\<lparr>pp_Class = [], pp_Kind = PoolReserve, pp_Range = ''10.0.0.2 - 10.0.0.19''\<rparr>,
      \<lparr>pp_Class = ''GGO-RDX-SI-BEACON'', pp_Kind = PoolFixed, pp_Range = ''10.0.0.20 - 10.0.0.24''\<rparr>,
      \<lparr>pp_Class = ''GGO-OTHERS'', pp_Kind = PoolElastic, pp_Range = ''10.0.0.25 - 10.0.0.178''\<rparr>,
      \<lparr>pp_Class = ''OTHERS'', pp_Kind = PoolElastic, pp_Range = ''10.0.0.179 - 10.0.0.254''\<rparr>]"

lemma ex_scope_layout: "LayoutPools ''10.0.0.0/24'' (ToSpecs (SeedPlan ex_scope)) = Inr ex_scope_placements"
  by code_simp

lemma greengo_device_has_one_pool_witness:
  "length (filter (admits 0 (pooled_ggo ex_scope_placements) False (mac_hex ''aa:bb:cc:00:11:22''))
    (map build_pool (fst (rankScopePools ex_scope_placements (ToSpecs (SeedPlan ex_scope)) 0
      (pooled_ggo ex_scope_placements))))) = 1"
proof -
  have g: "sc_Preset ex_scope = ''greengo''" by (simp add: ex_scope_def)
  have l: "8 \<le> length (mac_hex ''aa:bb:cc:00:11:22'')" by code_simp
  show ?thesis using greengo_device_has_one_pool [OF g l ex_scope_layout, of 0] by (metis prod.collapse)
qed

end
