(* ===== verification/NetFrame.thy ===== *)
theory NetFrame
  imports DnsMessage
begin

text \<open>
  \<open>src/internal/netmon/frame.go\<close>: the header accessors of the passive monitor, on a frame's
  bytes.  A fixed-size array (\<open>[4]byte\<close>, \<open>[6]byte\<close>) is a byte list of that
  length; an accessor with an \<open>ok\<close> result returns an option.
\<close>

record Frame =
  fr_Iface :: string
  fr_TS :: int
  fr_Data :: "byte list"
  fr_VLAN :: int
  fr_VLANKnown :: bool

definition etherTypeIPv4 :: u16 where "etherTypeIPv4 = 0x0800"
definition etherTypeARP :: u16 where "etherTypeARP = 0x0806"
definition etherTypeVLAN :: u16 where "etherTypeVLAN = 0x8100"
definition etherTypeQinQ :: u16 where "etherTypeQinQ = 0x88a8"
definition etherTypeLLDP :: u16 where "etherTypeLLDP = 0x88cc"
definition etherTypePTP :: u16 where "etherTypePTP = 0x88f7"
definition ipProtoICMP :: byte where "ipProtoICMP = 1"
definition ipProtoIGMP :: byte where "ipProtoIGMP = 2"
definition ipProtoUDP :: byte where "ipProtoUDP = 17"
definition ethHdrLen :: nat where "ethHdrLen = 14"
definition vlanTagLen :: nat where "vlanTagLen = 4"

lemmas frame_consts = etherTypeIPv4_def etherTypeARP_def etherTypeVLAN_def etherTypeQinQ_def
  etherTypeLLDP_def etherTypePTP_def ipProtoICMP_def ipProtoIGMP_def ipProtoUDP_def ethHdrLen_def vlanTagLen_def

section \<open>Accessors\<close>

definition macAt :: "byte list \<Rightarrow> nat \<Rightarrow> byte list option" where
  "macAt b off = (if length b < off + 6 then None else Some (take 6 (drop off b)))"

definition dstMAC :: "byte list \<Rightarrow> byte list option" where "dstMAC b = macAt b 0"
definition srcMAC :: "byte list \<Rightarrow> byte list option" where "srcMAC b = macAt b 6"

definition be16 :: "byte list \<Rightarrow> nat \<Rightarrow> u16" where
  "be16 b off = be_u16 (b ! off) (b ! (off + 1))"

definition be32 :: "byte list \<Rightarrow> nat \<Rightarrow> u32" where
  "be32 b off = be_u32 [b ! off, b ! (off + 1), b ! (off + 2), b ! (off + 3)]"

definition be64 :: "byte list \<Rightarrow> nat \<Rightarrow> u64" where
  "be64 b off = push_bit 32 (ucast (be32 b off)) OR ucast (be32 b (off + 4))"

definition etherInfo :: "byte list \<Rightarrow> (u16 \<times> nat \<times> int) option" where
  "etherInfo b =
    (if length b < ethHdrLen then None
     else if be16 b 12 = etherTypeVLAN then
       (if length b < ethHdrLen + vlanTagLen then None
        else if be16 b 16 = etherTypeVLAN \<or> be16 b 16 = etherTypeQinQ then None
        else Some (be16 b 16, ethHdrLen + vlanTagLen, uint (be16 b 14 AND 0x0fff)))
     else Some (be16 b 12, ethHdrLen, 0))"

definition effectiveVID :: "int \<Rightarrow> Frame \<Rightarrow> int" where
  "effectiveVID inbandVID f = (if inbandVID \<noteq> 0 then inbandVID else fr_VLAN f)"

record ipv4 =
  ip_proto :: byte
  ip_src :: "byte list"
  ip_dst :: "byte list"
  ip_l4 :: nat

definition ipv4Info :: "byte list \<Rightarrow> nat \<Rightarrow> ipv4 option" where
  "ipv4Info b off =
    (if length b < off + 20 then None
     else let ihl = unat (b ! off AND 0x0f) * 4 in
       if ihl < 20 \<or> length b < off + ihl then None
       else Some \<lparr>ip_proto = b ! (off + 9), ip_src = take 4 (drop (off + 12) b),
              ip_dst = take 4 (drop (off + 16) b), ip_l4 = off + ihl\<rparr>)"

definition udpPorts :: "byte list \<Rightarrow> nat \<Rightarrow> (u16 \<times> u16 \<times> nat) option" where
  "udpPorts b off = (if length b < off + 8 then None else Some (be16 b off, be16 b (off + 2), off + 8))"

section \<open>Text forms\<close>

function itoa_loop :: "int \<Rightarrow> string \<Rightarrow> string" where
  "itoa_loop n acc = (if 0 < n then itoa_loop (n div 10) (digit_char (n mod 10) # acc) else acc)"
  by pat_completeness auto
termination by (relation "measure (\<lambda>(n, _). nat n)") auto

declare itoa_loop.simps [simp del]

definition netmon_itoa :: "int \<Rightarrow> string" where
  "netmon_itoa n = (if n = 0 then ''0'' else itoa_loop n [])"

definition ipString :: "byte list \<Rightarrow> string" where
  "ipString ip = netmon_itoa (uint (ip ! 0)) @ ''.'' @ netmon_itoa (uint (ip ! 1)) @ ''.''
     @ netmon_itoa (uint (ip ! 2)) @ ''.'' @ netmon_itoa (uint (ip ! 3))"

definition byte_hex :: "byte \<Rightarrow> string" where
  "byte_hex x = [hex_digit (uint (drop_bit 4 x)), hex_digit (uint (x AND 0x0f))]"

definition macString :: "byte list \<Rightarrow> string" where
  "macString mac = Join (map byte_hex mac) '':''"

definition hex64 :: "u64 \<Rightarrow> string" where
  "hex64 v = map (\<lambda>i. hex_digit (uint (drop_bit (4 * (15 - i)) v AND 0x0f))) [0 ..< 16]"

definition ip4ToU32 :: "byte list \<Rightarrow> u32" where
  "ip4ToU32 ip = be_u32 ip"

definition u32_octet :: "string \<Rightarrow> byte option" where
  "u32_octet p =
    (if length p = 0 \<or> 3 < length p then None
     else if \<not> list_all is_digit p then None
     else if 255 < dec_value p then None else Some (word_of_int (dec_value p)))"

definition parseU32 :: "string \<Rightarrow> u32 option" where
  "parseU32 s =
    (case map u32_octet (split_on CHR ''.'' (TrimSpace s)) of
       [Some a, Some b, Some c, Some d] \<Rightarrow> Some (ip4ToU32 [a, b, c, d])
     | _ \<Rightarrow> None)"

section \<open>Facts\<close>

lemma itoa_loop_dec: "0 < n \<Longrightarrow> itoa_loop n acc = dec_str n @ acc"
proof (induction n acc rule: itoa_loop.induct)
  case (1 n acc)
  show ?case
  proof (cases "n < 10")
    case True
    then have "n div 10 = 0" "n mod 10 = n" using "1.prems" by simp_all
    then show ?thesis using "1.prems" True by (simp add: itoa_loop.simps [of n] itoa_loop.simps [of 0] dec_str.simps [of n])
  next
    case False
    then have "0 < n div 10" using "1.prems" by (simp add: pos_imp_zdiv_pos_iff)
    then show ?thesis using "1.IH" "1.prems" False by (simp add: itoa_loop.simps [of n] dec_str.simps [of n])
  qed
qed

lemma netmon_itoa_dec: "0 \<le> n \<Longrightarrow> netmon_itoa n = dec_str n"
  by (simp add: netmon_itoa_def itoa_loop_dec dec_str.simps [of 0] digit_char_def) (simp add: char_of_def)

lemma ipString_v4: "ipString [a, b, c, d] = v4_string [a, b, c, d]"
  by (simp add: ipString_def v4_string_def netmon_itoa_dec)

lemma length_dec_octet: "length (dec_str (uint (x :: byte))) \<le> 3"
proof -
  have "uint x < 256" by (rule byte_less)
  then have "uint x div 10 div 10 < 10" by presburger
  then show ?thesis by (simp add: dec_str.simps)
qed

lemma u32_octet_dec: "u32_octet (dec_str (uint x)) = Some x"
proof -
  have "\<not> 255 < uint x" using byte_less(2) [of x] by linarith
  then show ?thesis using length_dec_octet [of x]
    by (auto simp: u32_octet_def list_all_iff dec_value_dec_str intro: dec_str_digits [OF uint_ge_0])
qed

lemma dec_str_no_dot: "CHR ''.'' \<notin> set (dec_str (uint (x :: byte)))"
  using dec_str_digits [of "uint x" "CHR ''.''"] by (auto simp: is_digit_def)

lemma etherInfo_bounds: "etherInfo b = Some (et, off, vid) \<Longrightarrow> 14 \<le> off \<and> off \<le> length b \<and> 0 \<le> vid \<and> vid < 4096"
proof -
  have "uint (be16 b 14 AND 0x0fff) < 4096"
    using word_and_le1 [of "be16 b 14" "0x0fff"] by (simp add: word_le_def)
  then show "etherInfo b = Some (et, off, vid) \<Longrightarrow> 14 \<le> off \<and> off \<le> length b \<and> 0 \<le> vid \<and> vid < 4096"
    by (auto simp: etherInfo_def ethHdrLen_def vlanTagLen_def split: if_splits)
qed

lemma ipv4Info_bounds: "ipv4Info b off = Some i \<Longrightarrow>
    off + 20 \<le> ip_l4 i \<and> ip_l4 i \<le> length b \<and> length (ip_src i) = 4 \<and> length (ip_dst i) = 4"
  by (auto simp: ipv4Info_def Let_def split: if_splits)

lemma uint_ucast_byte: "uint (ucast (b :: byte) :: u16) = uint b" "uint (ucast (b :: byte) :: u32) = uint b"
  "uint (ucast (w :: u16) :: u32) = uint w"
proof -
  have "uint b < 65536" "uint b < 4294967296" using byte_less(2) [of b] by linarith+
  moreover have "uint w < 2 ^ 32" using uint_lt2p [of w] by simp
  ultimately show "uint (ucast (b :: byte) :: u16) = uint b" "uint (ucast (b :: byte) :: u32) = uint b"
    "uint (ucast (w :: u16) :: u32) = uint w"
    by (simp_all only: unsigned_ucast_eq take_bit_int_eq_self uint_ge_0 len_of_numeral_defs)
      (simp_all add: take_bit_int_eq_self)
qed

lemma uint_be_u16: "uint (be_u16 a b) = uint a * 256 + uint b"
proof -
  have "0 \<le> uint a * 256 + uint b" by simp
  moreover have "uint a * 256 + uint b < 65536" using byte_less(2) [of a] byte_less(2) [of b] by linarith
  ultimately show ?thesis by (simp add: be_u16_def uint_word_ariths uint_ucast_byte)
qed

lemma be_u16_eq: "be_u16 x y = be_u16 a b \<longleftrightarrow> x = a \<and> y = b"
proof
  assume "be_u16 x y = be_u16 a b"
  then have e: "uint x * 256 + uint y = uint a * 256 + uint b" by (metis uint_be_u16)
  then have "(uint x * 256 + uint y) div 256 = (uint a * 256 + uint b) div 256"
    "(uint x * 256 + uint y) mod 256 = (uint a * 256 + uint b) mod 256" by simp_all
  then have "uint x = uint a" "uint y = uint b"
    by (simp_all only: div_mod_256 [OF uint_ge_0 byte_less(2)])
  then show "x = a \<and> y = b" by (simp add: word_uint_eq_iff)
qed simp

lemma be16_bytes: "be16 f i = be_u16 a b \<longleftrightarrow> f ! i = a \<and> f ! (i + 1) = b"
  by (simp add: be16_def be_u16_eq)

lemma take_nth: "i + n \<le> length f \<Longrightarrow> take n (drop i f) = map (\<lambda>j. f ! (i + j)) [0..<n]"
  by (rule nth_equalityI) simp_all

lemma be_values: "be_u16 8 6 = 0x0806" "be_u16 0x81 0 = 0x8100" "be_u16 0 1 = 1" "be_u16 0 2 = 2" by code_simp+

text \<open>An ARP frame by its bytes: the EtherType 08 06 at offset 12, or behind an 802.1Q tag.\<close>

lemma etherInfo_arp:
  assumes "etherInfo b = Some (etherTypeARP, off, vid)"
  shows "\<exists>e \<in> {12, 16}. off = e + 2 \<and> (e = 16 \<longrightarrow> take 2 (drop 12 b) = [0x81, 0x00]) \<and> take 2 (drop e b) = [0x08, 0x06]"
proof -
  have t: "take 2 (drop i b) = [b ! i, b ! (i + 1)]" if "i + 2 \<le> length b" for i
    using that by (simp add: take_nth numeral_eq_Suc)
  have v: "be16 b 12 = etherTypeVLAN \<longleftrightarrow> b ! 12 = 0x81 \<and> b ! 13 = 0x00"
    using be16_bytes [of b 12 129 0] by (simp add: be_values frame_consts)
  have a: "be16 b i = etherTypeARP \<longleftrightarrow> b ! i = 0x08 \<and> b ! (i + 1) = 0x06" for i
    using be16_bytes [of b i 8 6] by (simp add: be_values frame_consts)
  consider "18 \<le> length b" "be16 b 12 = etherTypeVLAN" "be16 b 16 = etherTypeARP" "off = 18"
    | "14 \<le> length b" "be16 b 12 = etherTypeARP" "off = 14"
    using assms by (auto simp: etherInfo_def ethHdrLen_def vlanTagLen_def split: if_splits)
  then show ?thesis
  proof cases
    case 1
    then show ?thesis using t [of 12] t [of 16] v a [of 16] by (intro bexI [of _ 16]) simp_all
  next
    case 2
    then show ?thesis using t [of 12] a [of 12] by (intro bexI [of _ 12]) simp_all
  qed
qed

section \<open>Properties\<close>

text \<open>Printing an IPv4 address and parsing it back with the monitor's own routines is the
  identity, so pool ranges, leases and sightings compare as the same 32-bit value.\<close>

theorem parseU32_ipString: "parseU32 (ipString [a, b, c, d]) = Some (ip4ToU32 [a, b, c, d])"
proof -
  have "split_on CHR ''.'' (v4_string [a, b, c, d])
     = [dec_str (uint a), dec_str (uint b), dec_str (uint c), dec_str (uint d)]"
    using dec_str_no_dot by (simp add: v4_string_def split_on_append_no_sep split_on_no_sep)
  moreover have "TrimSpace (v4_string [a, b, c, d]) = v4_string [a, b, c, d]"
    using TrimSpace_v4_chars v4_string_chars by blast
  ultimately show ?thesis by (simp add: parseU32_def ipString_v4 u32_octet_dec)
qed

end
