(* ===== verification/Presence.thy ===== *)
theory Presence
  imports NetFrame "HOL-Library.AList"
begin

text \<open>
  \<open>src/internal/netmon/detector.go\<close> and \<open>event.go\<close>: severities, events, snapshots, the
  debounced presence state every detector uses, and the capped presence maps.  Clock readings are
  nanosecond counts.  The locale \<open>edge_trigger\<close> is the contract between a presence state and
  the audit log: reported edges are exactly the changes of the confirmed state.
\<close>

datatype Severity = SevOK | SevInfo | SevWarn | SevError

record Event =
  ev_Action :: string
  ev_Target :: string
  ev_Before :: string
  ev_After :: string
  ev_Severity :: Severity

record DetectorSnapshot =
  ds_Kind :: string
  ds_Severity :: Severity
  ds_Subject :: string
  ds_Text :: string
  ds_Fields :: "(string \<times> string) list"

definition maxRogueServers :: nat where "maxRogueServers = 64"
definition maxStaticPoolHosts :: nat where "maxStaticPoolHosts = 1024"
definition maxGgoDevices :: nat where "maxGgoDevices = 512"
definition maxGgoConfigs :: nat where "maxGgoConfigs = 256"
definition maxPTPGMs :: nat where "maxPTPGMs = 32"
definition maxDupIPConflicts :: nat where "maxDupIPConflicts = 1024"

definition plural :: "int \<Rightarrow> string \<Rightarrow> string \<Rightarrow> string" where
  "plural n one many = (if n = 1 then one else many)"

definition second :: int where "second = 1000000000"

section \<open>Presence\<close>

record presence =
  pr_confirmAfter :: int
  pr_absenceAfter :: int
  pr_present :: bool
  pr_seen :: bool
  pr_runStart :: int
  pr_lastSeen :: int

definition newPresence :: "int \<Rightarrow> int \<Rightarrow> presence" where
  "newPresence c a = \<lparr>pr_confirmAfter = c, pr_absenceAfter = a, pr_present = False, pr_seen = False,
     pr_runStart = 0, pr_lastSeen = 0\<rparr>"

definition sighting :: "int \<Rightarrow> presence \<Rightarrow> presence" where
  "sighting now p =
    (let p1 = (if \<not> pr_seen p \<or> pr_absenceAfter p < now - pr_lastSeen p then p\<lparr>pr_runStart := now\<rparr> else p)
     in p1\<lparr>pr_lastSeen := now, pr_seen := True\<rparr>)"

definition transition :: "int \<Rightarrow> presence \<Rightarrow> int \<times> presence" where
  "transition now p =
    (if pr_present p then
       (if \<not> pr_seen p \<or> pr_absenceAfter p < now - pr_lastSeen p then (-1, p\<lparr>pr_present := False\<rparr>) else (0, p))
     else if pr_seen p \<and> now - pr_lastSeen p \<le> pr_absenceAfter p \<and> pr_confirmAfter p \<le> now - pr_runStart p
       then (1, p\<lparr>pr_present := True\<rparr>)
     else (0, p))"

definition isPresent :: "presence \<Rightarrow> bool" where "isPresent p = pr_present p"

definition sustainedFor :: "int \<Rightarrow> presence \<Rightarrow> bool" where
  "sustainedFor d p \<longleftrightarrow> pr_present p \<and> d \<le> pr_lastSeen p - pr_runStart p"

section \<open>The edge-trigger contract\<close>

datatype obs = Sighted int | Ticked int

text \<open>Edges that strictly alternate, the first one leaving the state \<open>c\<close>.\<close>

fun alternating :: "bool \<Rightarrow> int list \<Rightarrow> bool" where
  "alternating c [] = True"
| "alternating c (e # es) = (e = (if c then -1 else 1) \<and> alternating (\<not> c) es)"

locale edge_trigger =
  fixes confirmed :: "'s \<Rightarrow> bool"
    and observe :: "int \<Rightarrow> 's \<Rightarrow> 's"
    and tick :: "int \<Rightarrow> 's \<Rightarrow> int \<times> 's"
  assumes observe_quiet: "confirmed (observe t s) = confirmed s"
    and tick_edge: "fst (tick t s) = (if confirmed (snd (tick t s)) \<and> \<not> confirmed s then 1
      else if \<not> confirmed (snd (tick t s)) \<and> confirmed s then -1 else 0)"
begin

fun edges :: "obs list \<Rightarrow> 's \<Rightarrow> int list" where
  "edges [] s = []"
| "edges (Sighted t # os) s = edges os (observe t s)"
| "edges (Ticked t # os) s = (let e = fst (tick t s); es = edges os (snd (tick t s)) in if e = 0 then es else e # es)"

fun final :: "obs list \<Rightarrow> 's \<Rightarrow> 's" where
  "final [] s = s"
| "final (Sighted t # os) s = final os (observe t s)"
| "final (Ticked t # os) s = final os (snd (tick t s))"

lemma edges_alternate: "alternating (confirmed s) (edges os s)"
proof (induction os arbitrary: s)
  case (Cons obs os)
  show ?case
  proof (cases obs)
    case (Sighted t)
    then show ?thesis using Cons.IH [of "observe t s"] by (simp add: observe_quiet)
  next
    case (Ticked t)
    then show ?thesis using Cons.IH [of "snd (tick t s)"] tick_edge [of t s] by (auto simp: Let_def)
  qed
qed simp

lemma edges_sum: "sum_list (edges os s) = of_bool (confirmed (final os s)) - of_bool (confirmed s)"
proof (induction os arbitrary: s)
  case (Cons obs os)
  show ?case
  proof (cases obs)
    case (Sighted t)
    then show ?thesis using Cons.IH [of "observe t s"] by (simp add: observe_quiet)
  next
    case (Ticked t)
    then show ?thesis using Cons.IH [of "snd (tick t s)"] tick_edge [of t s] by (auto simp: Let_def)
  qed
qed simp

end

lemma sighting_present [simp]: "pr_present (sighting t p) = pr_present p"
  by (simp add: sighting_def Let_def)

lemma transition_edge: "fst (transition t p) = (if pr_present (snd (transition t p)) \<and> \<not> pr_present p then 1
    else if \<not> pr_present (snd (transition t p)) \<and> pr_present p then -1 else 0)"
  by (simp add: transition_def)

interpretation presence: edge_trigger pr_present sighting transition
  by unfold_locales (simp_all only: sighting_present transition_edge)

text \<open>The run of a presence state over observations, and its reported edges.\<close>

fun presence_run :: "obs list \<Rightarrow> presence \<Rightarrow> int list \<times> presence" where
  "presence_run [] p = ([], p)"
| "presence_run (Sighted t # os) p = presence_run os (sighting t p)"
| "presence_run (Ticked t # os) p =
     (case transition t p of (e, p') \<Rightarrow> (case presence_run os p' of
        (es, q) \<Rightarrow> (if e = 0 then es else e # es, q)))"

lemma presence_run_edges: "presence_run os p = (presence.edges os p, presence.final os p)"
  by (induction os p rule: presence_run.induct) (simp_all add: Let_def split: prod.splits)

section \<open>Presence maps\<close>

fun stalest :: "('v \<Rightarrow> int) \<Rightarrow> ('k \<times> 'v) list \<Rightarrow> ('k \<times> int) option \<Rightarrow> ('k \<times> int) option" where
  "stalest at [] acc = acc"
| "stalest at ((k, v) # m) acc =
     stalest at m (case acc of None \<Rightarrow> Some (k, at v) | Some (ok, ot) \<Rightarrow> if at v < ot then Some (k, at v) else Some (ok, ot))"

text \<open>\<open>evictStalest\<close>; the list is the map in its iteration order.\<close>

definition evictStalest :: "('v \<Rightarrow> int) \<Rightarrow> ('k \<times> 'v) list \<Rightarrow> ('k \<times> 'v) list" where
  "evictStalest at m = (case stalest at m None of None \<Rightarrow> m | Some (k, _) \<Rightarrow> AList.delete k m)"

text \<open>The insert-or-update every detector performs on its map: an unknown key makes room first when
  the map is full.\<close>

definition touch :: "nat \<Rightarrow> ('v \<Rightarrow> int) \<Rightarrow> 'v \<Rightarrow> ('v \<Rightarrow> 'v) \<Rightarrow> 'k \<Rightarrow> ('k \<times> 'v) list \<Rightarrow> ('k \<times> 'v) list" where
  "touch cap at new f k m =
    (case map_of m k of
       Some v \<Rightarrow> AList.update k (f v) m
     | None \<Rightarrow> AList.update k (f new) (if cap \<le> length m then evictStalest at m else m))"

definition table_ok :: "nat \<Rightarrow> ('k \<times> 'v) list \<Rightarrow> bool" where
  "table_ok cap m \<longleftrightarrow> distinct (map fst m) \<and> length m \<le> cap"

lemma stalest_Some: "stalest at m acc = r \<Longrightarrow> m \<noteq> [] \<or> acc \<noteq> None \<Longrightarrow>
    \<exists>k t. r = Some (k, t) \<and> (acc = Some (k, t) \<or> (\<exists>v. (k, v) \<in> set m \<and> t = at v))
      \<and> (\<forall>(k', v) \<in> set m. t \<le> at v) \<and> (\<forall>k' t'. acc = Some (k', t') \<longrightarrow> t \<le> t')"
proof (induction m arbitrary: acc)
  case (Cons x m)
  obtain k v where x: "x = (k, v)" by (cases x)
  let ?acc = "case acc of None \<Rightarrow> Some (k, at v) | Some (ok, ot) \<Rightarrow> if at v < ot then Some (k, at v) else Some (ok, ot)"
  have "?acc \<noteq> None" by (auto split: option.splits)
  moreover have "stalest at m ?acc = r" using Cons.prems(1) x by simp
  ultimately obtain k1 t1 where r: "r = Some (k1, t1)" "?acc = Some (k1, t1) \<or> (\<exists>v. (k1, v) \<in> set m \<and> t1 = at v)"
    "\<forall>(k', v) \<in> set m. t1 \<le> at v" "\<forall>k' t'. ?acc = Some (k', t') \<longrightarrow> t1 \<le> t'"
    using Cons.IH [of ?acc] by blast
  show ?case
    using r x by (cases acc) (auto split: if_splits intro: order_trans)
qed auto


lemma evictStalest_length:
  assumes "m \<noteq> []" "distinct (map fst m)"
  shows "length (evictStalest at m) < length m" "distinct (map fst (evictStalest at m))"
proof -
  obtain k t v where k: "stalest at m None = Some (k, t)" "(k, v) \<in> set m"
    using stalest_Some [OF refl, where m = m and at = at and acc = None] assms(1) by fastforce
  have "length (filter (\<lambda>x. k \<noteq> fst x) m) < length m"
    using k(2) by (intro length_filter_less) auto
  then show "length (evictStalest at m) < length m"
    by (simp add: evictStalest_def k AList.delete_eq case_prod_unfold)
  show "distinct (map fst (evictStalest at m))"
    using assms(2) by (simp add: evictStalest_def k distinct_delete)
qed

text \<open>Eviction takes an entry none of the others is staler than.\<close>

lemma evictStalest_keeps:
  assumes "distinct (map fst m)" "map_of m k1 = Some v1" "map_of m k2 = Some v2" "at v2 < at v1"
  shows "map_of (evictStalest at m) k1 = Some v1"
proof -
  have "m \<noteq> []" using assms(2) by auto
  then obtain k t v where k: "stalest at m None = Some (k, t)" "(k, v) \<in> set m" "t = at v" "\<forall>(k', v) \<in> set m. t \<le> at v"
    using stalest_Some [OF refl, where m = m and at = at and acc = None] by fastforce
  have "(k2, v2) \<in> set m" using assms(3) by (rule map_of_SomeD)
  then have "at v < at v1" using k(3,4) assms(4) by fastforce
  moreover have "map_of m k = Some v" using k(2) assms(1) by simp
  ultimately have "k \<noteq> k1" using assms(2) by auto
  then show ?thesis using assms(2) by (simp add: evictStalest_def k(1) delete_conv')
qed

lemma length_AList_update: "length (AList.update k v m) = (if map_of m k = None then Suc (length m) else length m)"
  by (induction m) auto

lemma evict_map_of: "map_of (evictStalest at m) k = Some v \<Longrightarrow> map_of m k = Some v"
  by (auto simp: evictStalest_def delete_conv' split: option.splits if_splits)

lemma touch_table_ok: "table_ok cap m \<Longrightarrow> 0 < cap \<Longrightarrow> table_ok cap (touch cap at new f k m)"
proof -
  assume m: "table_ok cap m" "0 < cap"
  show ?thesis
  proof (cases "map_of m k")
    case None
    have "length (if cap \<le> length m then evictStalest at m else m) < cap"
      "distinct (map fst (if cap \<le> length m then evictStalest at m else m))"
      using m evictStalest_length [of m at] by (auto simp: table_ok_def)
    then show ?thesis using None m
      by (auto simp: touch_def table_ok_def length_AList_update distinct_update)
  next
    case (Some v)
    then show ?thesis using m by (simp add: touch_def table_ok_def length_AList_update distinct_update)
  qed
qed

lemma touch_key: "map_of (touch cap at new f k m) k = Some (f (case map_of m k of Some v \<Rightarrow> v | None \<Rightarrow> new))"
  by (auto simp: touch_def update_conv' split: option.splits)

section \<open>Properties\<close>

text \<open>Over any sequence of sightings and ticks, the edges a presence state reports strictly
  alternate between appearance and disappearance, beginning with the opposite of the initial state,
  and their sum is the change of the confirmed state: the audit log gets one row per real change.\<close>

theorem presence_edges_alternate:
  assumes "presence_run os p = (es, q)"
  shows "alternating (pr_present p) es \<and> sum_list es = of_bool (pr_present q) - of_bool (pr_present p)"
  using assms presence.edges_alternate [of p os] presence.edges_sum [of os p]
  by (auto simp: presence_run_edges)

lemma presence_edges_alternate_witness:
  "alternating False [1, -1] \<and> fst (presence_run [Sighted 5, Ticked 6, Ticked 7, Ticked 300, Ticked 301] (newPresence 0 100)) = [1, -1]"
proof -
  have r: "fst (presence_run [Sighted 5, Ticked 6, Ticked 7, Ticked 300, Ticked 301] (newPresence 0 100)) = [1, -1]"
    by code_simp
  show ?thesis using presence_edges_alternate [OF prod.collapse [symmetric]] r by (metis newPresence_def presence.select_convs(3))
qed

text \<open>The abstract view of a presence state: its sightings, latest first.  The current run reaches
  back over gaps of at most \<open>a\<close>.\<close>

fun run_start :: "int \<Rightarrow> int list \<Rightarrow> int" where
  "run_start a [] = 0"
| "run_start a [t] = t"
| "run_start a (t # u # ts) = (if a < t - u then t else run_start a (u # ts))"

lemma sightings_state:
  assumes "ts \<noteq> []"
  shows "fold sighting (rev ts) (newPresence c a) =
    \<lparr>pr_confirmAfter = c, pr_absenceAfter = a, pr_present = False, pr_seen = True,
     pr_runStart = run_start a ts, pr_lastSeen = hd ts\<rparr>"
  using assms
proof (induction ts)
  case (Cons t ts)
  show ?case
  proof (cases ts)
    case Nil
    then show ?thesis by (simp add: sighting_def newPresence_def)
  next
    case (Cons u us)
    then show ?thesis using \<open>ts \<noteq> [] \<Longrightarrow> _\<close> by (simp add: sighting_def)
  qed
qed simp

text \<open>Debounce, against the abstract history: after the sightings \<open>ts\<close> (latest
  first) a tick confirms presence exactly when the last sighting is at most the absence window old and
  the current unbroken run of sightings spans the confirmation time; a single stray sighting never
  confirms while the confirmation time has not passed.\<close>

theorem presence_debounce:
  assumes "ts \<noteq> []"
  shows "fst (transition now (fold sighting (rev ts) (newPresence c a))) =
    (if now - hd ts \<le> a \<and> c \<le> now - run_start a ts then 1 else 0)"
  using assms by (simp add: sightings_state transition_def)

lemma presence_debounce_witness:
  "fst (transition 40 (fold sighting (rev [35, 20, 10]) (newPresence 30 15))) = 1"
  using presence_debounce [of "[35, 20, 10]" 40 30 15] by simp

text \<open>A capped presence map stays within its cap with one entry per key; the touched key is
  always present afterwards, and at the cap a flood of new keys can only displace an entry that no
  other entry is staler than, so a recently sighted device survives.\<close>

theorem touch_bounded:
  assumes "table_ok cap m" "0 < cap"
  shows "table_ok cap (touch cap at new f k m)
    \<and> map_of (touch cap at new f k m) k = Some (f (case map_of m k of Some v \<Rightarrow> v | None \<Rightarrow> new))
    \<and> (map_of m k1 = Some v1 \<and> k1 \<noteq> k \<and> map_of m k2 = Some v2 \<and> at v2 < at v1
        \<longrightarrow> map_of (touch cap at new f k m) k1 = Some v1)"
proof (intro conjI impI)
  assume "map_of m k1 = Some v1 \<and> k1 \<noteq> k \<and> map_of m k2 = Some v2 \<and> at v2 < at v1"
  then show "map_of (touch cap at new f k m) k1 = Some v1"
    using evictStalest_keeps [of m k1 v1 k2 v2 at] assms(1)
    by (auto simp: touch_def table_ok_def update_conv' split: option.splits)
qed (use touch_table_ok [OF assms] touch_key in auto)

lemma touch_bounded_witness:
  "touch 2 id 0 (\<lambda>_. 9) ''c'' [(''a'', 5), (''b'', 3)] = [(''a'', 5), (''c'', (9 :: int))]
    \<and> map_of (touch 2 id 0 (\<lambda>_. 9) ''c'' [(''a'', 5), (''b'', 3)]) ''a'' = Some (5 :: int)"
proof -
  have t: "table_ok 2 [(''a'', 5 :: int), (''b'', 3)]" by (simp add: table_ok_def)
  show ?thesis using touch_bounded [OF t, of id 0 "\<lambda>_. 9" "''c''" "''a''" 5 "''b''" 3]
    by (simp add: touch_def evictStalest_def)
qed

end
