(* ===== verification/Bpf.thy ===== *)
theory Bpf
  imports NetFrame
begin

text \<open>
  \<open>src/internal/netmon/bpf.go\<close>: the label-resolving assembler and the combined capture
  filter it builds.  The machine that runs the filter is the kernel's (and, in the repository's tests,
  the one of \<open>golang.org/x/net/bpf\<close>): here it is any function that obeys the documented meaning
  of the five instructions used, the locale \<open>bpf_machine\<close>.
\<close>

section \<open>Instructions and the assembler\<close>

datatype JumpTest = JumpEqual | JumpBitsSet

datatype Instruction =
    LoadAbsolute nat nat
  | LoadIndirect nat nat
  | LoadMemShift nat
  | JumpIf JumpTest u32 nat nat
  | RetConstant u32

definition bpfAccept :: u32 where "bpfAccept = 0x40000"
definition bpfReject :: u32 where "bpfReject = 0"
definition ggoBusPort :: u32 where "ggoBusPort = 5810"

record bpfJump =
  bj_idx :: nat
  bj_onTrue :: string
  bj_onFalse :: string

record bpfAsm =
  ba_ins :: "Instruction list"
  ba_labels :: "(string \<times> nat) list"
  ba_jumps :: "bpfJump list"

definition newBPFAsm :: bpfAsm where
  "newBPFAsm = \<lparr>ba_ins = [], ba_labels = [], ba_jumps = []\<rparr>"

definition emit :: "Instruction \<Rightarrow> bpfAsm \<Rightarrow> bpfAsm" where
  "emit i a = a\<lparr>ba_ins := ba_ins a @ [i]\<rparr>"

definition label :: "string \<Rightarrow> bpfAsm \<Rightarrow> bpfAsm" where
  "label name a = a\<lparr>ba_labels := (name, length (ba_ins a)) # ba_labels a\<rparr>"

definition jump :: "JumpTest \<Rightarrow> u32 \<Rightarrow> string \<Rightarrow> string \<Rightarrow> bpfAsm \<Rightarrow> bpfAsm" where
  "jump cond val onTrue onFalse a =
    emit (JumpIf cond val 0 0)
      (a\<lparr>ba_jumps := ba_jumps a @ [\<lparr>bj_idx = length (ba_ins a), bj_onTrue = onTrue, bj_onFalse = onFalse\<rparr>]\<rparr>)"

text \<open>\<open>resolve\<close>: \<open>None\<close> is the panic.\<close>

definition skip_to :: "bpfAsm \<Rightarrow> string \<Rightarrow> nat \<Rightarrow> nat option" where
  "skip_to a lab idx =
    (case map_of (ba_labels a) lab of
       None \<Rightarrow> None
     | Some target \<Rightarrow> let d = int target - int idx - 1 in if d < 0 \<or> 255 < d then None else Some (nat d))"

definition patch :: "bpfAsm \<Rightarrow> bpfJump \<Rightarrow> Instruction list \<Rightarrow> Instruction list option" where
  "patch a j ins =
    (case ins ! bj_idx j of
       JumpIf c v st sf \<Rightarrow>
         (case (if bj_onTrue j = [] then Some st else skip_to a (bj_onTrue j) (bj_idx j)) of
            None \<Rightarrow> None
          | Some st' \<Rightarrow>
             (case (if bj_onFalse j = [] then Some sf else skip_to a (bj_onFalse j) (bj_idx j)) of
                None \<Rightarrow> None
              | Some sf' \<Rightarrow> Some (ins[bj_idx j := JumpIf c v st' sf'])))
     | _ \<Rightarrow> None)"

fun resolve_jumps :: "bpfAsm \<Rightarrow> bpfJump list \<Rightarrow> Instruction list \<Rightarrow> Instruction list option" where
  "resolve_jumps a [] ins = Some ins"
| "resolve_jumps a (j # js) ins =
     (case patch a j ins of None \<Rightarrow> None | Some ins' \<Rightarrow> resolve_jumps a js ins')"

definition resolve :: "bpfAsm \<Rightarrow> Instruction list option" where
  "resolve a = resolve_jumps a (ba_jumps a) (ba_ins a)"

definition buildAsm :: "bool \<Rightarrow> bpfAsm" where
  "buildAsm greengo = fold (\<lambda>f a. f a)
    ([emit (LoadAbsolute 12 2),
      jump JumpEqual (ucast etherTypeVLAN) ''accept'' '''',
      jump JumpEqual (ucast etherTypeLLDP) ''accept'' '''',
      jump JumpEqual (ucast etherTypePTP) ''accept'' '''',
      jump JumpEqual (ucast etherTypeARP) ''accept'' '''',
      emit (LoadAbsolute 0 4),
      jump JumpEqual 0x01000ccc '''' ''after_cdp'',
      emit (LoadAbsolute 4 2),
      jump JumpEqual 0xcccc ''accept'' '''',
      label ''after_cdp'',
      emit (LoadAbsolute 0 4),
      jump JumpEqual 0x0180c200 '''' ''after_bpdu'',
      emit (LoadAbsolute 4 2),
      jump JumpEqual 0x0000 ''accept'' '''',
      label ''after_bpdu'',
      emit (LoadAbsolute 12 2),
      jump JumpEqual (ucast etherTypeIPv4) ''ipv4'' ''reject'',
      label ''ipv4'',
      emit (LoadAbsolute 23 1),
      jump JumpEqual (ucast ipProtoIGMP) ''accept'' '''',
      jump JumpEqual (ucast ipProtoUDP) ''udp'' ''reject'',
      label ''udp'',
      emit (LoadAbsolute 20 2),
      jump JumpBitsSet 0x1fff ''reject'' '''',
      emit (LoadMemShift 14),
      emit (LoadIndirect 16 2),
      jump JumpEqual 67 ''accept'' '''',
      jump JumpEqual 320 ''accept'' '''',
      jump JumpEqual 319 ''accept'' '''']
     @ (if greengo then [jump JumpEqual ggoBusPort ''g5h'' ''''] else [])
     @ [emit (LoadIndirect 14 2),
      jump JumpEqual 67 ''accept'' '''']
     @ (if greengo then
         [jump JumpEqual ggoBusPort ''g5h'' ''reject'',
          label ''g5h'',
          emit (LoadIndirect 22 2),
          jump JumpEqual 0x4735 '''' ''reject'',
          emit (LoadIndirect 24 1),
          jump JumpEqual 0x68 ''accept'' ''reject''] else [])
     @ [label ''reject'',
      emit (RetConstant bpfReject),
      label ''accept'',
      emit (RetConstant bpfAccept)]) newBPFAsm"

definition buildBPFInstructions :: "bool \<Rightarrow> Instruction list option" where
  "buildBPFInstructions greengo = resolve (buildAsm greengo)"

text \<open>The two resolved programs.\<close>

definition prog_ggo :: "Instruction list" where
  "prog_ggo =
  [LoadAbsolute 12 2, JumpIf JumpEqual 33024 32 0,
   JumpIf JumpEqual 35020 31 0, JumpIf JumpEqual 35063 30 0,
   JumpIf JumpEqual 2054 29 0, LoadAbsolute 0 4,
   JumpIf JumpEqual 16780492 0 2, LoadAbsolute 4 2,
   JumpIf JumpEqual 52428 25 0, LoadAbsolute 0 4,
   JumpIf JumpEqual 25215488 0 2, LoadAbsolute 4 2, JumpIf JumpEqual 0 21 0,
   LoadAbsolute 12 2, JumpIf JumpEqual 2048 0 18, LoadAbsolute 23 1,
   JumpIf JumpEqual 2 17 0, JumpIf JumpEqual 17 0 15, LoadAbsolute 20 2,
   JumpIf JumpBitsSet 8191 13 0, LoadMemShift 14, LoadIndirect 16 2,
   JumpIf JumpEqual 67 11 0, JumpIf JumpEqual 320 10 0,
   JumpIf JumpEqual 319 9 0, JumpIf JumpEqual 5810 3 0, LoadIndirect 14 2,
   JumpIf JumpEqual 67 6 0, JumpIf JumpEqual 5810 0 4, LoadIndirect 22 2,
   JumpIf JumpEqual 18229 0 2, LoadIndirect 24 1, JumpIf JumpEqual 104 1 0,
   RetConstant 0, RetConstant 262144]"

definition prog_std :: "Instruction list" where
  "prog_std =
  [LoadAbsolute 12 2, JumpIf JumpEqual 33024 26 0,
   JumpIf JumpEqual 35020 25 0, JumpIf JumpEqual 35063 24 0,
   JumpIf JumpEqual 2054 23 0, LoadAbsolute 0 4,
   JumpIf JumpEqual 16780492 0 2, LoadAbsolute 4 2,
   JumpIf JumpEqual 52428 19 0, LoadAbsolute 0 4,
   JumpIf JumpEqual 25215488 0 2, LoadAbsolute 4 2, JumpIf JumpEqual 0 15 0,
   LoadAbsolute 12 2, JumpIf JumpEqual 2048 0 12, LoadAbsolute 23 1,
   JumpIf JumpEqual 2 11 0, JumpIf JumpEqual 17 0 9, LoadAbsolute 20 2,
   JumpIf JumpBitsSet 8191 7 0, LoadMemShift 14, LoadIndirect 16 2,
   JumpIf JumpEqual 67 5 0, JumpIf JumpEqual 320 4 0,
   JumpIf JumpEqual 319 3 0, LoadIndirect 14 2, JumpIf JumpEqual 67 1 0,
   RetConstant 0, RetConstant 262144]"

lemma build_ggo: "buildBPFInstructions True = Some prog_ggo" by code_simp
lemma build_std: "buildBPFInstructions False = Some prog_std" by code_simp

lemma prog_ggo_nth:
  "prog_ggo ! 0 = LoadAbsolute 12 2"
  "prog_ggo ! Suc 0 = JumpIf JumpEqual 33024 32 0"
  "prog_ggo ! 2 = JumpIf JumpEqual 35020 31 0"
  "prog_ggo ! 3 = JumpIf JumpEqual 35063 30 0"
  "prog_ggo ! 4 = JumpIf JumpEqual 2054 29 0"
  "prog_ggo ! 5 = LoadAbsolute 0 4"
  "prog_ggo ! 6 = JumpIf JumpEqual 16780492 0 2"
  "prog_ggo ! 7 = LoadAbsolute 4 2"
  "prog_ggo ! 8 = JumpIf JumpEqual 52428 25 0"
  "prog_ggo ! 9 = LoadAbsolute 0 4"
  "prog_ggo ! 10 = JumpIf JumpEqual 25215488 0 2"
  "prog_ggo ! 11 = LoadAbsolute 4 2"
  "prog_ggo ! 12 = JumpIf JumpEqual 0 21 0"
  "prog_ggo ! 13 = LoadAbsolute 12 2"
  "prog_ggo ! 14 = JumpIf JumpEqual 2048 0 18"
  "prog_ggo ! 15 = LoadAbsolute 23 1"
  "prog_ggo ! 16 = JumpIf JumpEqual 2 17 0"
  "prog_ggo ! 17 = JumpIf JumpEqual 17 0 15"
  "prog_ggo ! 18 = LoadAbsolute 20 2"
  "prog_ggo ! 19 = JumpIf JumpBitsSet 8191 13 0"
  "prog_ggo ! 20 = LoadMemShift 14"
  "prog_ggo ! 21 = LoadIndirect 16 2"
  "prog_ggo ! 22 = JumpIf JumpEqual 67 11 0"
  "prog_ggo ! 23 = JumpIf JumpEqual 320 10 0"
  "prog_ggo ! 24 = JumpIf JumpEqual 319 9 0"
  "prog_ggo ! 25 = JumpIf JumpEqual 5810 3 0"
  "prog_ggo ! 26 = LoadIndirect 14 2"
  "prog_ggo ! 27 = JumpIf JumpEqual 67 6 0"
  "prog_ggo ! 28 = JumpIf JumpEqual 5810 0 4"
  "prog_ggo ! 29 = LoadIndirect 22 2"
  "prog_ggo ! 30 = JumpIf JumpEqual 18229 0 2"
  "prog_ggo ! 31 = LoadIndirect 24 1"
  "prog_ggo ! 32 = JumpIf JumpEqual 104 1 0"
  "prog_ggo ! 33 = RetConstant 0"
  "prog_ggo ! 34 = RetConstant 262144"
  "length prog_ggo = 35"
  by (simp_all add: prog_ggo_def)

lemma prog_std_nth:
  "prog_std ! 0 = LoadAbsolute 12 2"
  "prog_std ! Suc 0 = JumpIf JumpEqual 33024 26 0"
  "prog_std ! 2 = JumpIf JumpEqual 35020 25 0"
  "prog_std ! 3 = JumpIf JumpEqual 35063 24 0"
  "prog_std ! 4 = JumpIf JumpEqual 2054 23 0"
  "prog_std ! 5 = LoadAbsolute 0 4"
  "prog_std ! 6 = JumpIf JumpEqual 16780492 0 2"
  "prog_std ! 7 = LoadAbsolute 4 2"
  "prog_std ! 8 = JumpIf JumpEqual 52428 19 0"
  "prog_std ! 9 = LoadAbsolute 0 4"
  "prog_std ! 10 = JumpIf JumpEqual 25215488 0 2"
  "prog_std ! 11 = LoadAbsolute 4 2"
  "prog_std ! 12 = JumpIf JumpEqual 0 15 0"
  "prog_std ! 13 = LoadAbsolute 12 2"
  "prog_std ! 14 = JumpIf JumpEqual 2048 0 12"
  "prog_std ! 15 = LoadAbsolute 23 1"
  "prog_std ! 16 = JumpIf JumpEqual 2 11 0"
  "prog_std ! 17 = JumpIf JumpEqual 17 0 9"
  "prog_std ! 18 = LoadAbsolute 20 2"
  "prog_std ! 19 = JumpIf JumpBitsSet 8191 7 0"
  "prog_std ! 20 = LoadMemShift 14"
  "prog_std ! 21 = LoadIndirect 16 2"
  "prog_std ! 22 = JumpIf JumpEqual 67 5 0"
  "prog_std ! 23 = JumpIf JumpEqual 320 4 0"
  "prog_std ! 24 = JumpIf JumpEqual 319 3 0"
  "prog_std ! 25 = LoadIndirect 14 2"
  "prog_std ! 26 = JumpIf JumpEqual 67 1 0"
  "prog_std ! 27 = RetConstant 0"
  "prog_std ! 28 = RetConstant 262144"
  "length prog_std = 29"
  by (simp_all add: prog_std_def)

section \<open>The machine\<close>

definition load :: "byte list \<Rightarrow> nat \<Rightarrow> nat \<Rightarrow> u32" where
  "load p off sz = foldl (\<lambda>acc b. acc * 256 + ucast b) 0 (take sz (drop off p))"

locale bpf_machine =
  fixes exec :: "Instruction list \<Rightarrow> nat \<Rightarrow> u32 \<Rightarrow> u32 \<Rightarrow> byte list \<Rightarrow> u32"
  assumes ld_abs: "pc < length P \<Longrightarrow> P ! pc = LoadAbsolute off sz \<Longrightarrow> exec P pc a x p =
      (if off + sz \<le> length p then exec P (Suc pc) (load p off sz) x p else 0)"
    and ld_ind: "pc < length P \<Longrightarrow> P ! pc = LoadIndirect off sz \<Longrightarrow> exec P pc a x p =
      (if unat x + off + sz \<le> length p then exec P (Suc pc) (load p (unat x + off) sz) x p else 0)"
    and ld_msh: "pc < length P \<Longrightarrow> P ! pc = LoadMemShift off \<Longrightarrow> exec P pc a x p =
      (if off + 1 \<le> length p then exec P (Suc pc) a (of_nat (4 * unat (p ! off AND 0x0f))) p else 0)"
    and jmp: "pc < length P \<Longrightarrow> P ! pc = JumpIf c v st sf \<Longrightarrow> exec P pc a x p =
      exec P (Suc pc + (if (case c of JumpEqual \<Rightarrow> a = v | JumpBitsSet \<Rightarrow> a AND v \<noteq> 0) then st else sf)) a x p"
    and ret: "pc < length P \<Longrightarrow> P ! pc = RetConstant v \<Longrightarrow> exec P pc a x p = v"

section \<open>What the filter is meant to pass\<close>

definition g5_announce :: "byte list \<Rightarrow> nat \<Rightarrow> bool" where
  "g5_announce p x \<longleftrightarrow> x + 25 \<le> length p \<and> be16 p (x + 22) = 0x4735 \<and> p ! (x + 24) = 0x68"

text \<open>The classes of the comment over the filter, with the announce of a Green-GO interface.  A
  UDP frame is judged by its ports only when it is a first fragment that holds them.\<close>

definition wanted_udp :: "bool \<Rightarrow> byte list \<Rightarrow> bool" where
  "wanted_udp greengo p \<longleftrightarrow>
    (let x = 4 * unat (p ! 14 AND 0x0f); sport = be16 p (x + 14); dport = be16 p (x + 16) in
     be16 p 20 AND 0x1fff = 0 \<and> x + 18 \<le> length p
     \<and> (dport = 67 \<or> sport = 67 \<or> dport = 319 \<or> dport = 320
        \<or> (greengo \<and> (dport = 5810 \<or> sport = 5810) \<and> g5_announce p x)))"

definition l2_class :: "byte list \<Rightarrow> bool" where
  "l2_class p \<longleftrightarrow>
     be16 p 12 = etherTypeVLAN \<or> be16 p 12 = etherTypeLLDP \<or> be16 p 12 = etherTypePTP \<or> be16 p 12 = etherTypeARP
     \<or> dstMAC p = Some [0x01, 0x00, 0x0c, 0xcc, 0xcc, 0xcc]
     \<or> dstMAC p = Some [0x01, 0x80, 0xc2, 0x00, 0x00, 0x00]"

definition wanted :: "bool \<Rightarrow> byte list \<Rightarrow> bool" where
  "wanted greengo p \<longleftrightarrow> 14 \<le> length p
     \<and> (l2_class p
        \<or> (be16 p 12 = etherTypeIPv4 \<and> 24 \<le> length p
           \<and> (p ! 23 = ipProtoIGMP \<or> (p ! 23 = ipProtoUDP \<and> wanted_udp greengo p))))"

text \<open>The exception of a Green-GO interface: a UDP frame from the DHCP port to the Green-GO port
  is tested as an announce and never as DHCP.\<close>

definition shadowed :: "byte list \<Rightarrow> bool" where
  "shadowed p \<longleftrightarrow> \<not> l2_class p \<and> p ! 23 = ipProtoUDP
     \<and> (let x = 4 * unat (p ! 14 AND 0x0f) in
          be16 p (x + 14) = 67 \<and> be16 p (x + 16) = 5810 \<and> \<not> g5_announce p x)"

text \<open>The same set as the program decides it.\<close>

definition passed_udp :: "bool \<Rightarrow> byte list \<Rightarrow> bool" where
  "passed_udp greengo p \<longleftrightarrow>
    (let x = 4 * unat (p ! 14 AND 0x0f); sport = be16 p (x + 14); dport = be16 p (x + 16) in
     be16 p 20 AND 0x1fff = 0 \<and> x + 18 \<le> length p
     \<and> (dport = 67 \<or> dport = 319 \<or> dport = 320
        \<or> (if greengo \<and> dport = 5810 then g5_announce p x
           else sport = 67 \<or> (greengo \<and> sport = 5810 \<and> g5_announce p x))))"

definition passed :: "bool \<Rightarrow> byte list \<Rightarrow> bool" where
  "passed greengo p \<longleftrightarrow> 14 \<le> length p
     \<and> (be16 p 12 = etherTypeVLAN \<or> be16 p 12 = etherTypeLLDP \<or> be16 p 12 = etherTypePTP \<or> be16 p 12 = etherTypeARP
        \<or> dstMAC p = Some [0x01, 0x00, 0x0c, 0xcc, 0xcc, 0xcc]
        \<or> dstMAC p = Some [0x01, 0x80, 0xc2, 0x00, 0x00, 0x00]
        \<or> (be16 p 12 = etherTypeIPv4 \<and> 24 \<le> length p
           \<and> (p ! 23 = ipProtoIGMP \<or> (p ! 23 = ipProtoUDP \<and> passed_udp greengo p))))"

lemma ucast_be_u16: "ucast (be_u16 a b) = (ucast a * 256 + ucast b :: u32)"
proof -
  have "0 \<le> uint a * 256 + uint b" "0 \<le> uint a * 256" by simp_all
  moreover have "uint a * 256 + uint b < 4294967296" "uint a * 256 < 4294967296"
    using byte_less(2) [of a] byte_less(2) [of b] by linarith+
  ultimately show ?thesis
    by (simp add: word_uint_eq_iff uint_word_ariths uint_be_u16 uint_ucast_byte mod_pos_pos_trivial)
qed

lemma drop_nths:
  "off + 1 \<le> length p \<Longrightarrow> drop off p = p ! off # drop (off + 1) p"
  "off + 2 \<le> length p \<Longrightarrow> drop off p = p ! off # p ! (off + 1) # drop (off + 2) p"
  "off + 4 \<le> length p \<Longrightarrow> drop off p = p ! off # p ! (off + 1) # p ! (off + 2) # p ! (off + 3) # drop (off + 4) p"
  by (simp_all add: Cons_nth_drop_Suc numeral_eq_Suc)

lemma load_sizes:
  "off + 1 \<le> length p \<Longrightarrow> load p off (Suc 0) = ucast (p ! off)"
  "off + 2 \<le> length p \<Longrightarrow> load p off 2 = ucast (be16 p off)"
  "off + 4 \<le> length p \<Longrightarrow> load p off 4 = be32 p off"
  by (simp_all only: load_def drop_nths) (simp_all add: be16_def ucast_be_u16 be32_def be_u32_def numeral_3_eq_3)

lemma be32_eq: "be32 p off = be_u32 [a, b, c, d] \<longleftrightarrow>
  p ! off = a \<and> p ! (off + 1) = b \<and> p ! (off + 2) = c \<and> p ! (off + 3) = d"
  unfolding be32_def by (metis put_u32_be_u32 list.inject)

lemma take6: "6 \<le> length p \<Longrightarrow> take 6 p = [p ! 0, p ! 1, p ! 2, p ! 3, p ! 4, p ! 5]"
  by (intro nth_equalityI) (auto simp: less_Suc_eq numeral_eq_Suc)

lemma dst_words:
  assumes "14 \<le> length p"
  shows "dstMAC p = Some [0x01, 0x00, 0x0c, 0xcc, 0xcc, 0xcc] \<longleftrightarrow> be32 p 0 = 0x01000ccc \<and> be16 p 4 = 0xcccc"
    "dstMAC p = Some [0x01, 0x80, 0xc2, 0x00, 0x00, 0x00] \<longleftrightarrow> be32 p 0 = 0x0180c200 \<and> be16 p 4 = 0"
proof -
  have d: "dstMAC p = Some [p ! 0, p ! 1, p ! 2, p ! 3, p ! 4, p ! 5]"
    using assms by (simp add: dstMAC_def macAt_def take6)
  have w: "be_u32 [1, 0, 0xc, 0xcc] = 0x01000ccc" "be_u32 [1, 0x80, 0xc2, 0] = 0x0180c200"
    "be_u16 0xcc 0xcc = 0xcccc" "be_u16 0 0 = 0" by (simp_all add: be_u32_def be_u16_def)
  have "be32 p 0 = 0x01000ccc \<longleftrightarrow> p ! 0 = 1 \<and> p ! 1 = 0 \<and> p ! 2 = 0xc \<and> p ! 3 = 0xcc"
    "be32 p 0 = 0x0180c200 \<longleftrightarrow> p ! 0 = 1 \<and> p ! 1 = 0x80 \<and> p ! 2 = 0xc2 \<and> p ! 3 = 0"
    using be32_eq [of p 0 1 0 "0xc" "0xcc"] be32_eq [of p 0 1 "0x80" "0xc2" 0] unfolding w add_0 by blast+
  moreover have "be16 p 4 = 0xcccc \<longleftrightarrow> p ! 4 = 0xcc \<and> p ! 5 = 0xcc" "be16 p 4 = 0 \<longleftrightarrow> p ! 4 = 0 \<and> p ! 5 = 0"
    using be_u16_eq [of "p ! 4" "p ! 5" "0xcc" "0xcc"] be_u16_eq [of "p ! 4" "p ! 5" 0 0] unfolding w
    by (simp_all add: be16_def)
  ultimately show "dstMAC p = Some [0x01, 0x00, 0x0c, 0xcc, 0xcc, 0xcc] \<longleftrightarrow> be32 p 0 = 0x01000ccc \<and> be16 p 4 = 0xcccc"
    "dstMAC p = Some [0x01, 0x80, 0xc2, 0x00, 0x00, 0x00] \<longleftrightarrow> be32 p 0 = 0x0180c200 \<and> be16 p 4 = 0"
    unfolding d by simp_all
qed


lemma ucast_u16_eq: "(ucast (w :: u16) :: u32) = n \<longleftrightarrow> uint w = uint n"
  by (simp add: word_uint_eq_iff uint_ucast_byte)

lemma ucast_byte_eq: "(ucast (b :: byte) :: u32) = n \<longleftrightarrow> uint b = uint n"
  by (simp add: word_uint_eq_iff uint_ucast_byte)

lemma u16_num: "w = (n :: u16) \<longleftrightarrow> uint w = uint n" by (simp add: word_uint_eq_iff)
lemma byte_num: "b = (n :: byte) \<longleftrightarrow> uint b = uint n" by (simp add: word_uint_eq_iff)

lemma frag_bits: "(ucast (w :: u16) :: u32) AND 0x1fff = 0 \<longleftrightarrow> w AND 0x1fff = 0"
proof -
  have "(ucast w :: u32) AND 0x1fff = ucast (w AND 0x1fff)" by (simp add: unsigned_and_eq)
  moreover have "(ucast v :: u32) = 0 \<longleftrightarrow> v = 0" for v :: u16 by (simp add: ucast_u16_eq u16_num)
  ultimately show ?thesis by metis
qed

lemma unat_ihl: "unat (of_nat (4 * unat (b AND 0x0f :: byte)) :: u32) = 4 * unat (b AND 0x0f)"
proof -
  have "unat (b AND 0x0f) \<le> 15" using word_and_le1 [of b "0x0f"] by (simp add: word_le_nat_alt)
  then have "4 * unat (b AND 0x0f) mod 2 ^ 32 = 4 * unat (b AND 0x0f)" by simp
  then show ?thesis by (simp only: unat_of_nat) simp
qed

lemmas unat_ihl_norm = unat_ihl [simplified]

context bpf_machine
begin

lemma jmp_eq: "pc < length P \<Longrightarrow> P ! pc = JumpIf JumpEqual v st sf \<Longrightarrow>
    exec P pc a x p = (if a = v then exec P (Suc (pc + st)) a x p else exec P (Suc (pc + sf)) a x p)"
  and jmp_set: "pc < length P \<Longrightarrow> P ! pc = JumpIf JumpBitsSet v st sf \<Longrightarrow>
    exec P pc a x p = (if a AND v \<noteq> 0 then exec P (Suc (pc + st)) a x p else exec P (Suc (pc + sf)) a x p)"
  by (simp_all add: jmp)

text \<open>One equation per instruction.\<close>

lemma ggo_at0: "exec prog_ggo 0 a x p = (if 14 \<le> length p then exec prog_ggo (Suc 0) (load p 12 2) x p else 0)"
  using ld_abs [of 0 prog_ggo] by (simp add: prog_ggo_nth)
lemma ggo_at1: "exec prog_ggo (Suc 0) a x p = (if a = 33024 then exec prog_ggo 34 a x p else exec prog_ggo 2 a x p)"
  using jmp_eq [of 1 prog_ggo] by (simp add: prog_ggo_nth numeral_2_eq_2)
lemma ggo_at2: "exec prog_ggo 2 a x p = (if a = 35020 then exec prog_ggo 34 a x p else exec prog_ggo 3 a x p)"
  using jmp_eq [of 2 prog_ggo] by (simp add: prog_ggo_nth)
lemma ggo_at3: "exec prog_ggo 3 a x p = (if a = 35063 then exec prog_ggo 34 a x p else exec prog_ggo 4 a x p)"
  using jmp_eq [of 3 prog_ggo] by (simp add: prog_ggo_nth)
lemma ggo_at4: "exec prog_ggo 4 a x p = (if a = 2054 then exec prog_ggo 34 a x p else exec prog_ggo 5 a x p)"
  using jmp_eq [of 4 prog_ggo] by (simp add: prog_ggo_nth)
lemma ggo_at5: "exec prog_ggo 5 a x p = (if 4 \<le> length p then exec prog_ggo 6 (load p 0 4) x p else 0)"
  using ld_abs [of 5 prog_ggo] by (simp add: prog_ggo_nth)
lemma ggo_at6: "exec prog_ggo 6 a x p = (if a = 16780492 then exec prog_ggo 7 a x p else exec prog_ggo 9 a x p)"
  using jmp_eq [of 6 prog_ggo] by (simp add: prog_ggo_nth)
lemma ggo_at7: "exec prog_ggo 7 a x p = (if 6 \<le> length p then exec prog_ggo 8 (load p 4 2) x p else 0)"
  using ld_abs [of 7 prog_ggo] by (simp add: prog_ggo_nth)
lemma ggo_at8: "exec prog_ggo 8 a x p = (if a = 52428 then exec prog_ggo 34 a x p else exec prog_ggo 9 a x p)"
  using jmp_eq [of 8 prog_ggo] by (simp add: prog_ggo_nth)
lemma ggo_at9: "exec prog_ggo 9 a x p = (if 4 \<le> length p then exec prog_ggo 10 (load p 0 4) x p else 0)"
  using ld_abs [of 9 prog_ggo] by (simp add: prog_ggo_nth)
lemma ggo_at10: "exec prog_ggo 10 a x p = (if a = 25215488 then exec prog_ggo 11 a x p else exec prog_ggo 13 a x p)"
  using jmp_eq [of 10 prog_ggo] by (simp add: prog_ggo_nth)
lemma ggo_at11: "exec prog_ggo 11 a x p = (if 6 \<le> length p then exec prog_ggo 12 (load p 4 2) x p else 0)"
  using ld_abs [of 11 prog_ggo] by (simp add: prog_ggo_nth)
lemma ggo_at12: "exec prog_ggo 12 a x p = (if a = 0 then exec prog_ggo 34 a x p else exec prog_ggo 13 a x p)"
  using jmp_eq [of 12 prog_ggo] by (simp add: prog_ggo_nth)
lemma ggo_at13: "exec prog_ggo 13 a x p = (if 14 \<le> length p then exec prog_ggo 14 (load p 12 2) x p else 0)"
  using ld_abs [of 13 prog_ggo] by (simp add: prog_ggo_nth)
lemma ggo_at14: "exec prog_ggo 14 a x p = (if a = 2048 then exec prog_ggo 15 a x p else exec prog_ggo 33 a x p)"
  using jmp_eq [of 14 prog_ggo] by (simp add: prog_ggo_nth)
lemma ggo_at15: "exec prog_ggo 15 a x p = (if 24 \<le> length p then exec prog_ggo 16 (load p 23 (Suc 0)) x p else 0)"
  using ld_abs [of 15 prog_ggo] by (simp add: prog_ggo_nth)
lemma ggo_at16: "exec prog_ggo 16 a x p = (if a = 2 then exec prog_ggo 34 a x p else exec prog_ggo 17 a x p)"
  using jmp_eq [of 16 prog_ggo] by (simp add: prog_ggo_nth)
lemma ggo_at17: "exec prog_ggo 17 a x p = (if a = 17 then exec prog_ggo 18 a x p else exec prog_ggo 33 a x p)"
  using jmp_eq [of 17 prog_ggo] by (simp add: prog_ggo_nth)
lemma ggo_at18: "exec prog_ggo 18 a x p = (if 22 \<le> length p then exec prog_ggo 19 (load p 20 2) x p else 0)"
  using ld_abs [of 18 prog_ggo] by (simp add: prog_ggo_nth)
lemma ggo_at19: "exec prog_ggo 19 a x p = (if a AND 8191 \<noteq> 0 then exec prog_ggo 33 a x p else exec prog_ggo 20 a x p)"
  using jmp_set [of 19 prog_ggo] by (simp add: prog_ggo_nth)
lemma ggo_at20: "exec prog_ggo 20 a x p = (if 15 \<le> length p then exec prog_ggo 21 a (of_nat (4 * unat (p ! 14 AND 0x0f))) p else 0)"
  using ld_msh [of 20 prog_ggo] by (simp add: prog_ggo_nth)
lemma ggo_at21: "exec prog_ggo 21 a x p = (if unat x + 18 \<le> length p then exec prog_ggo 22 (load p (unat x + 16) 2) x p else 0)"
  using ld_ind [of 21 prog_ggo] by (simp add: prog_ggo_nth)
lemma ggo_at22: "exec prog_ggo 22 a x p = (if a = 67 then exec prog_ggo 34 a x p else exec prog_ggo 23 a x p)"
  using jmp_eq [of 22 prog_ggo] by (simp add: prog_ggo_nth)
lemma ggo_at23: "exec prog_ggo 23 a x p = (if a = 320 then exec prog_ggo 34 a x p else exec prog_ggo 24 a x p)"
  using jmp_eq [of 23 prog_ggo] by (simp add: prog_ggo_nth)
lemma ggo_at24: "exec prog_ggo 24 a x p = (if a = 319 then exec prog_ggo 34 a x p else exec prog_ggo 25 a x p)"
  using jmp_eq [of 24 prog_ggo] by (simp add: prog_ggo_nth)
lemma ggo_at25: "exec prog_ggo 25 a x p = (if a = 5810 then exec prog_ggo 29 a x p else exec prog_ggo 26 a x p)"
  using jmp_eq [of 25 prog_ggo] by (simp add: prog_ggo_nth)
lemma ggo_at26: "exec prog_ggo 26 a x p = (if unat x + 16 \<le> length p then exec prog_ggo 27 (load p (unat x + 14) 2) x p else 0)"
  using ld_ind [of 26 prog_ggo] by (simp add: prog_ggo_nth)
lemma ggo_at27: "exec prog_ggo 27 a x p = (if a = 67 then exec prog_ggo 34 a x p else exec prog_ggo 28 a x p)"
  using jmp_eq [of 27 prog_ggo] by (simp add: prog_ggo_nth)
lemma ggo_at28: "exec prog_ggo 28 a x p = (if a = 5810 then exec prog_ggo 29 a x p else exec prog_ggo 33 a x p)"
  using jmp_eq [of 28 prog_ggo] by (simp add: prog_ggo_nth)
lemma ggo_at29: "exec prog_ggo 29 a x p = (if unat x + 24 \<le> length p then exec prog_ggo 30 (load p (unat x + 22) 2) x p else 0)"
  using ld_ind [of 29 prog_ggo] by (simp add: prog_ggo_nth)
lemma ggo_at30: "exec prog_ggo 30 a x p = (if a = 18229 then exec prog_ggo 31 a x p else exec prog_ggo 33 a x p)"
  using jmp_eq [of 30 prog_ggo] by (simp add: prog_ggo_nth)
lemma ggo_at31: "exec prog_ggo 31 a x p = (if unat x + 25 \<le> length p then exec prog_ggo 32 (load p (unat x + 24) (Suc 0)) x p else 0)"
  using ld_ind [of 31 prog_ggo] by (simp add: prog_ggo_nth)
lemma ggo_at32: "exec prog_ggo 32 a x p = (if a = 104 then exec prog_ggo 34 a x p else exec prog_ggo 33 a x p)"
  using jmp_eq [of 32 prog_ggo] by (simp add: prog_ggo_nth)
lemma ggo_at33: "exec prog_ggo 33 a x p = (0)"
  using ret [of 33 prog_ggo] by (simp add: prog_ggo_nth)
lemma ggo_at34: "exec prog_ggo 34 a x p = (262144)"
  using ret [of 34 prog_ggo] by (simp add: prog_ggo_nth)
lemmas ggo_at = ggo_at0 ggo_at1 ggo_at2 ggo_at3 ggo_at4 ggo_at5 ggo_at6 ggo_at7 ggo_at8 ggo_at9
  ggo_at10 ggo_at11 ggo_at12 ggo_at13 ggo_at14 ggo_at15 ggo_at16 ggo_at17 ggo_at18 ggo_at19
  ggo_at20 ggo_at21 ggo_at22 ggo_at23 ggo_at24 ggo_at25 ggo_at26 ggo_at27 ggo_at28 ggo_at29
  ggo_at30 ggo_at31 ggo_at32 ggo_at33 ggo_at34

lemma std_at0: "exec prog_std 0 a x p = (if 14 \<le> length p then exec prog_std (Suc 0) (load p 12 2) x p else 0)"
  using ld_abs [of 0 prog_std] by (simp add: prog_std_nth)
lemma std_at1: "exec prog_std (Suc 0) a x p = (if a = 33024 then exec prog_std 28 a x p else exec prog_std 2 a x p)"
  using jmp_eq [of 1 prog_std] by (simp add: prog_std_nth numeral_2_eq_2)
lemma std_at2: "exec prog_std 2 a x p = (if a = 35020 then exec prog_std 28 a x p else exec prog_std 3 a x p)"
  using jmp_eq [of 2 prog_std] by (simp add: prog_std_nth)
lemma std_at3: "exec prog_std 3 a x p = (if a = 35063 then exec prog_std 28 a x p else exec prog_std 4 a x p)"
  using jmp_eq [of 3 prog_std] by (simp add: prog_std_nth)
lemma std_at4: "exec prog_std 4 a x p = (if a = 2054 then exec prog_std 28 a x p else exec prog_std 5 a x p)"
  using jmp_eq [of 4 prog_std] by (simp add: prog_std_nth)
lemma std_at5: "exec prog_std 5 a x p = (if 4 \<le> length p then exec prog_std 6 (load p 0 4) x p else 0)"
  using ld_abs [of 5 prog_std] by (simp add: prog_std_nth)
lemma std_at6: "exec prog_std 6 a x p = (if a = 16780492 then exec prog_std 7 a x p else exec prog_std 9 a x p)"
  using jmp_eq [of 6 prog_std] by (simp add: prog_std_nth)
lemma std_at7: "exec prog_std 7 a x p = (if 6 \<le> length p then exec prog_std 8 (load p 4 2) x p else 0)"
  using ld_abs [of 7 prog_std] by (simp add: prog_std_nth)
lemma std_at8: "exec prog_std 8 a x p = (if a = 52428 then exec prog_std 28 a x p else exec prog_std 9 a x p)"
  using jmp_eq [of 8 prog_std] by (simp add: prog_std_nth)
lemma std_at9: "exec prog_std 9 a x p = (if 4 \<le> length p then exec prog_std 10 (load p 0 4) x p else 0)"
  using ld_abs [of 9 prog_std] by (simp add: prog_std_nth)
lemma std_at10: "exec prog_std 10 a x p = (if a = 25215488 then exec prog_std 11 a x p else exec prog_std 13 a x p)"
  using jmp_eq [of 10 prog_std] by (simp add: prog_std_nth)
lemma std_at11: "exec prog_std 11 a x p = (if 6 \<le> length p then exec prog_std 12 (load p 4 2) x p else 0)"
  using ld_abs [of 11 prog_std] by (simp add: prog_std_nth)
lemma std_at12: "exec prog_std 12 a x p = (if a = 0 then exec prog_std 28 a x p else exec prog_std 13 a x p)"
  using jmp_eq [of 12 prog_std] by (simp add: prog_std_nth)
lemma std_at13: "exec prog_std 13 a x p = (if 14 \<le> length p then exec prog_std 14 (load p 12 2) x p else 0)"
  using ld_abs [of 13 prog_std] by (simp add: prog_std_nth)
lemma std_at14: "exec prog_std 14 a x p = (if a = 2048 then exec prog_std 15 a x p else exec prog_std 27 a x p)"
  using jmp_eq [of 14 prog_std] by (simp add: prog_std_nth)
lemma std_at15: "exec prog_std 15 a x p = (if 24 \<le> length p then exec prog_std 16 (load p 23 (Suc 0)) x p else 0)"
  using ld_abs [of 15 prog_std] by (simp add: prog_std_nth)
lemma std_at16: "exec prog_std 16 a x p = (if a = 2 then exec prog_std 28 a x p else exec prog_std 17 a x p)"
  using jmp_eq [of 16 prog_std] by (simp add: prog_std_nth)
lemma std_at17: "exec prog_std 17 a x p = (if a = 17 then exec prog_std 18 a x p else exec prog_std 27 a x p)"
  using jmp_eq [of 17 prog_std] by (simp add: prog_std_nth)
lemma std_at18: "exec prog_std 18 a x p = (if 22 \<le> length p then exec prog_std 19 (load p 20 2) x p else 0)"
  using ld_abs [of 18 prog_std] by (simp add: prog_std_nth)
lemma std_at19: "exec prog_std 19 a x p = (if a AND 8191 \<noteq> 0 then exec prog_std 27 a x p else exec prog_std 20 a x p)"
  using jmp_set [of 19 prog_std] by (simp add: prog_std_nth)
lemma std_at20: "exec prog_std 20 a x p = (if 15 \<le> length p then exec prog_std 21 a (of_nat (4 * unat (p ! 14 AND 0x0f))) p else 0)"
  using ld_msh [of 20 prog_std] by (simp add: prog_std_nth)
lemma std_at21: "exec prog_std 21 a x p = (if unat x + 18 \<le> length p then exec prog_std 22 (load p (unat x + 16) 2) x p else 0)"
  using ld_ind [of 21 prog_std] by (simp add: prog_std_nth)
lemma std_at22: "exec prog_std 22 a x p = (if a = 67 then exec prog_std 28 a x p else exec prog_std 23 a x p)"
  using jmp_eq [of 22 prog_std] by (simp add: prog_std_nth)
lemma std_at23: "exec prog_std 23 a x p = (if a = 320 then exec prog_std 28 a x p else exec prog_std 24 a x p)"
  using jmp_eq [of 23 prog_std] by (simp add: prog_std_nth)
lemma std_at24: "exec prog_std 24 a x p = (if a = 319 then exec prog_std 28 a x p else exec prog_std 25 a x p)"
  using jmp_eq [of 24 prog_std] by (simp add: prog_std_nth)
lemma std_at25: "exec prog_std 25 a x p = (if unat x + 16 \<le> length p then exec prog_std 26 (load p (unat x + 14) 2) x p else 0)"
  using ld_ind [of 25 prog_std] by (simp add: prog_std_nth)
lemma std_at26: "exec prog_std 26 a x p = (if a = 67 then exec prog_std 28 a x p else exec prog_std 27 a x p)"
  using jmp_eq [of 26 prog_std] by (simp add: prog_std_nth)
lemma std_at27: "exec prog_std 27 a x p = (0)"
  using ret [of 27 prog_std] by (simp add: prog_std_nth)
lemma std_at28: "exec prog_std 28 a x p = (262144)"
  using ret [of 28 prog_std] by (simp add: prog_std_nth)
lemmas std_at = std_at0 std_at1 std_at2 std_at3 std_at4 std_at5 std_at6 std_at7 std_at8 std_at9
  std_at10 std_at11 std_at12 std_at13 std_at14 std_at15 std_at16 std_at17 std_at18 std_at19
  std_at20 std_at21 std_at22 std_at23 std_at24 std_at25 std_at26 std_at27 std_at28

lemma ggo_ret: "exec prog_ggo 33 a x p = 0" "exec prog_ggo 34 a x p = 262144"
  by (simp_all add: ggo_at)

lemma ggo_g5: "exec prog_ggo 29 a x p = (if g5_announce p (unat x) then 262144 else 0)"
  by (auto simp: ggo_at(30-33) ggo_ret g5_announce_def load_sizes ucast_u16_eq ucast_byte_eq u16_num byte_num)

text \<open>The program, from its end backwards.\<close>

lemma ggo_sport: "exec prog_ggo 26 a x p = (if unat x + 16 \<le> length p \<and>
    (be16 p (unat x + 14) = 67 \<or> (be16 p (unat x + 14) = 5810 \<and> g5_announce p (unat x))) then 262144 else 0)"
  by (auto simp: ggo_at(27-29) ggo_ret ggo_g5 load_sizes ucast_u16_eq u16_num)

lemma ggo_udp: "exec prog_ggo 18 a x p = (if passed_udp True p \<and> 22 \<le> length p then 262144 else 0)"
  by (auto simp: ggo_at(19-26) ggo_ret ggo_g5 ggo_sport load_sizes ucast_u16_eq u16_num frag_bits unat_ihl_norm passed_udp_def Let_def)

lemma std_ret: "exec prog_std 27 a x p = 0" "exec prog_std 28 a x p = 262144"
  by (simp_all add: std_at)

lemma std_udp: "exec prog_std 18 a x p = (if passed_udp False p \<and> 22 \<le> length p then 262144 else 0)"
  by (auto simp: std_at(19-27) std_ret load_sizes ucast_u16_eq u16_num frag_bits unat_ihl_norm passed_udp_def Let_def)

definition passed_ip :: "bool \<Rightarrow> byte list \<Rightarrow> bool" where
  "passed_ip gg p \<longleftrightarrow> be16 p 12 = etherTypeIPv4 \<and> 24 \<le> length p
     \<and> (p ! 23 = ipProtoIGMP \<or> (p ! 23 = ipProtoUDP \<and> passed_udp gg p))"

lemma ggo_ip: "14 \<le> length p \<Longrightarrow> exec prog_ggo 13 a x p = (if passed_ip True p then 262144 else 0)"
  by (auto simp: ggo_at(14-18) ggo_ret ggo_udp load_sizes ucast_u16_eq u16_num ucast_byte_eq byte_num passed_ip_def frame_consts)

lemma std_ip: "14 \<le> length p \<Longrightarrow> exec prog_std 13 a x p = (if passed_ip False p then 262144 else 0)"
  by (auto simp: std_at(14-18) std_ret std_udp load_sizes ucast_u16_eq u16_num ucast_byte_eq byte_num passed_ip_def frame_consts)

lemma ggo_bpdu: "14 \<le> length p \<Longrightarrow> exec prog_ggo 9 a x p =
    (if be32 p 0 = 0x0180c200 \<and> be16 p 4 = 0 \<or> passed_ip True p then 262144 else 0)"
  by (auto simp: ggo_at(10-13) ggo_ret ggo_ip load_sizes ucast_u16_eq u16_num)

lemma std_bpdu: "14 \<le> length p \<Longrightarrow> exec prog_std 9 a x p =
    (if be32 p 0 = 0x0180c200 \<and> be16 p 4 = 0 \<or> passed_ip False p then 262144 else 0)"
  by (auto simp: std_at(10-13) std_ret std_ip load_sizes ucast_u16_eq u16_num)

lemma ggo_cdp: "14 \<le> length p \<Longrightarrow> exec prog_ggo 5 a x p =
    (if be32 p 0 = 0x01000ccc \<and> be16 p 4 = 0xcccc \<or> be32 p 0 = 0x0180c200 \<and> be16 p 4 = 0 \<or> passed_ip True p
     then 262144 else 0)"
  by (auto simp: ggo_at(6-9) ggo_ret ggo_bpdu load_sizes ucast_u16_eq u16_num)

lemma std_cdp: "14 \<le> length p \<Longrightarrow> exec prog_std 5 a x p =
    (if be32 p 0 = 0x01000ccc \<and> be16 p 4 = 0xcccc \<or> be32 p 0 = 0x0180c200 \<and> be16 p 4 = 0 \<or> passed_ip False p
     then 262144 else 0)"
  by (auto simp: std_at(6-9) std_ret std_bpdu load_sizes ucast_u16_eq u16_num)

lemma passed_words: "passed gg p \<longleftrightarrow> 14 \<le> length p \<and>
    (be16 p 12 = etherTypeVLAN \<or> be16 p 12 = etherTypeLLDP \<or> be16 p 12 = etherTypePTP \<or> be16 p 12 = etherTypeARP
     \<or> be32 p 0 = 0x01000ccc \<and> be16 p 4 = 0xcccc \<or> be32 p 0 = 0x0180c200 \<and> be16 p 4 = 0 \<or> passed_ip gg p)"
  using dst_words [of p] by (auto simp: passed_def passed_ip_def)

lemma ggo_all: "exec prog_ggo 0 a x p = (if passed True p then bpfAccept else bpfReject)"
  unfolding passed_words
  by (auto simp: ggo_at(1-5) ggo_ret ggo_cdp load_sizes ucast_u16_eq u16_num frame_consts bpfAccept_def bpfReject_def)

lemma std_all: "exec prog_std 0 a x p = (if passed False p then bpfAccept else bpfReject)"
  unfolding passed_words
  by (auto simp: std_at(1-5) std_ret std_cdp load_sizes ucast_u16_eq u16_num frame_consts bpfAccept_def bpfReject_def)

end


section \<open>A reference machine\<close>

text \<open>One function that obeys the documented instruction meanings; the theorem below holds for all
  of them.\<close>

function bpf_exec :: "Instruction list \<Rightarrow> nat \<Rightarrow> u32 \<Rightarrow> u32 \<Rightarrow> byte list \<Rightarrow> u32" where
  "bpf_exec P pc a x p =
    (if length P \<le> pc then 0
     else case P ! pc of
       LoadAbsolute off sz \<Rightarrow> if off + sz \<le> length p then bpf_exec P (Suc pc) (load p off sz) x p else 0
     | LoadIndirect off sz \<Rightarrow>
         if unat x + off + sz \<le> length p then bpf_exec P (Suc pc) (load p (unat x + off) sz) x p else 0
     | LoadMemShift off \<Rightarrow>
         if off + 1 \<le> length p then bpf_exec P (Suc pc) a (of_nat (4 * unat (p ! off AND 0x0f))) p else 0
     | JumpIf c v st sf \<Rightarrow>
         bpf_exec P (Suc pc + (if (case c of JumpEqual \<Rightarrow> a = v | JumpBitsSet \<Rightarrow> a AND v \<noteq> 0) then st else sf)) a x p
     | RetConstant v \<Rightarrow> v)"
  by pat_completeness auto
termination
  by (relation "measure (\<lambda>(P, pc, _). length P - pc)") auto

declare bpf_exec.simps [simp del]

interpretation refm: bpf_machine bpf_exec
  by unfold_locales (simp_all add: bpf_exec.simps)

section \<open>Properties\<close>

lemma passed_wanted: "passed gg p \<longleftrightarrow> wanted gg p \<and> \<not> (gg \<and> shadowed p)"
proof -
  have "p ! 23 = ipProtoUDP \<Longrightarrow> p ! 23 \<noteq> ipProtoIGMP" by (simp add: frame_consts)
  moreover have "passed_udp gg p \<longleftrightarrow> wanted_udp gg p \<and> \<not> (gg \<and>
      (let x = 4 * unat (p ! 14 AND 0x0f) in
          be16 p (x + 14) = 67 \<and> be16 p (x + 16) = 5810 \<and> \<not> g5_announce p x))"
    by (auto simp: passed_udp_def wanted_udp_def Let_def)
  ultimately show ?thesis unfolding passed_def wanted_def shadowed_def l2_class_def by blast
qed

text \<open>C13: The assembler resolves every label of the combined capture filter, and on any machine
  with the documented meaning of the five instructions the resolved program accepts a frame exactly
  when it belongs to one of the classes the detectors need (tagged, LLDP, PTP, ARP, CDP, BPDU, IGMP,
  first-fragment UDP on the DHCP and PTP ports, and the Green-GO announce on a Green-GO interface),
  whatever the frame's length and header sizes; with one exception, which the theorem states: on a
  Green-GO interface a UDP frame from port 67 to port 5810 that is no announce is rejected, although
  the comment over the filter promises port 67 in either direction.\<close>

theorem capture_filter_exact:
  assumes "bpf_machine exec"
  shows "\<exists>P. buildBPFInstructions gg = Some P
    \<and> exec P 0 0 0 p = (if wanted gg p \<and> \<not> (gg \<and> shadowed p) then bpfAccept else bpfReject)"
  unfolding passed_wanted [symmetric]
  by (cases gg) (use bpf_machine.ggo_all [OF assms] bpf_machine.std_all [OF assms]
    in \<open>simp_all add: build_ggo build_std\<close>)

text \<open>A DHCP server that sends to the Green-GO port is seen on an ordinary interface and unseen
  on a Green-GO one.\<close>

definition ex_shadowed :: "byte list" where
  "ex_shadowed = replicate 12 0xff @ [0x08, 0x00] @ [0x45] @ replicate 8 0 @ [17] @ replicate 10 0
     @ [0, 67] @ [0x16, 0xb2] @ [0, 12, 0, 0] @ [2, 0, 0, 0]"

lemma greengo_filter_drops_dhcp: "wanted True ex_shadowed \<and> shadowed ex_shadowed"
  by code_simp

lemma capture_filter_exact_witness:
  "\<exists>P. buildBPFInstructions False = Some P \<and> bpf_exec P 0 0 0 (replicate 12 0xff @ [0x08, 0x06]) = bpfAccept"
proof -
  have w: "wanted False (replicate 12 0xff @ [0x08, 0x06])"
    by (simp add: wanted_def l2_class_def be16_def be_u16_def frame_consts nth_append)
  show ?thesis
    using capture_filter_exact [OF refm.bpf_machine_axioms, of False "replicate 12 0xff @ [0x08, 0x06]"] w
    by simp
qed

end
