(* ===== verification/DhcpDetectors.thy ===== *)
theory DhcpDetectors
  imports Presence Bpf "HOL-Library.List_Lexorder" "HOL-Library.Char_ord"
begin

text \<open>
  \<open>src/internal/netmon/detect_roguedhcp.go\<close> and \<open>detect_dupip.go\<close>: the DHCP option
  parser and the two detectors that watch DHCP traffic.  A detector is its record; \<open>Consume\<close> and
  \<open>Tick\<close> return the new one.  The rogue detector's life is the step relation
  \<open>rogue_step\<close>.
\<close>

section \<open>DHCP options\<close>

record dhcpOpts =
  op_msgType :: byte
  op_serverID :: "byte list"
  op_hasServerID :: bool
  op_requestedIP :: "byte list"
  op_hasRequestedIP :: bool

definition no_opts :: dhcpOpts where
  "no_opts = \<lparr>op_msgType = 0, op_serverID = [0, 0, 0, 0], op_hasServerID = False,
     op_requestedIP = [0, 0, 0, 0], op_hasRequestedIP = False\<rparr>"

definition apply_option :: "byte \<Rightarrow> byte list \<Rightarrow> dhcpOpts \<Rightarrow> dhcpOpts" where
  "apply_option code val out =
    (if code = 53 then (if 1 \<le> length val then out\<lparr>op_msgType := val ! 0\<rparr> else out)
     else if code = 54 then (if 4 \<le> length val then out\<lparr>op_serverID := take 4 val, op_hasServerID := True\<rparr> else out)
     else if code = 50 then (if 4 \<le> length val then out\<lparr>op_requestedIP := take 4 val, op_hasRequestedIP := True\<rparr> else out)
     else out)"

function opts_loop :: "byte list \<Rightarrow> nat \<Rightarrow> dhcpOpts \<Rightarrow> dhcpOpts" where
  "opts_loop opts i out =
    (if length opts \<le> i then out
     else if opts ! i = 255 then out
     else if opts ! i = 0 then opts_loop opts (i + 1) out
     else if length opts < i + 2 then out
     else let n = unat (opts ! (i + 1)) in
       if length opts < i + 2 + n then out
       else opts_loop opts (i + 2 + n) (apply_option (opts ! i) (take n (drop (i + 2) opts)) out))"
  by pat_completeness auto
termination by (relation "measure (\<lambda>(opts, i, _). length opts - i)") auto

declare opts_loop.simps [simp del]

definition parseDHCPOptions :: "byte list \<Rightarrow> dhcpOpts" where
  "parseDHCPOptions opts = opts_loop opts 0 no_opts"

definition dhcpOptsOff :: nat where "dhcpOptsOff = 240"

text \<open>The gate both detectors share: an untruncated IPv4/UDP frame on the served VLAN.\<close>

definition served_udp :: "int \<Rightarrow> Frame \<Rightarrow> (u16 \<times> u16 \<times> nat) option" where
  "served_udp servedVID f =
    (case etherInfo (fr_Data f) of
       None \<Rightarrow> None
     | Some (et, off, vid) \<Rightarrow>
        if et \<noteq> etherTypeIPv4 then None
        else if effectiveVID vid f \<noteq> servedVID then None
        else case ipv4Info (fr_Data f) off of
          None \<Rightarrow> None
        | Some i \<Rightarrow> if ip_proto i \<noteq> ipProtoUDP then None else udpPorts (fr_Data f) (ip_l4 i))"

definition ouiOf :: "string \<Rightarrow> string" where
  "ouiOf mac = (if 8 \<le> length mac then take 8 mac else [])"

section \<open>Rogue DHCP servers\<close>

definition defaultRogueAbsence :: int where "defaultRogueAbsence = 120 * second"
definition rogueSustainedAfter :: int where "rogueSustainedAfter = 30 * second"

record rogueServer =
  rs_pres :: presence
  rs_ip :: string
  rs_mac :: string
  rs_present :: bool

record rogueDHCP =
  rd_iface :: string
  rd_selfMAC :: "byte list"
  rd_selfMACSet :: bool
  rd_servedVID :: int
  rd_absence :: int
  rd_servers :: "(byte list \<times> rogueServer) list"

definition newRogueDHCPDetector :: "string \<Rightarrow> byte list \<Rightarrow> bool \<Rightarrow> int \<Rightarrow> int \<Rightarrow> rogueDHCP" where
  "newRogueDHCPDetector iface selfMAC macKnown servedVID absence =
    \<lparr>rd_iface = iface, rd_selfMAC = selfMAC, rd_selfMACSet = macKnown, rd_servedVID = servedVID,
     rd_absence = (if absence \<le> 0 then defaultRogueAbsence else absence), rd_servers = []\<rparr>"

definition rogue_seen :: "rogueDHCP \<Rightarrow> byte list \<Rightarrow> byte list option \<Rightarrow> int \<Rightarrow> rogueDHCP" where
  "rogue_seen d sid mac now = d\<lparr>rd_servers :=
     touch maxRogueServers (\<lambda>s. pr_lastSeen (rs_pres s))
       \<lparr>rs_pres = newPresence 0 (rd_absence d), rs_ip = ipString sid, rs_mac = [], rs_present = False\<rparr>
       (\<lambda>s. s\<lparr>rs_mac := (case mac of Some m \<Rightarrow> macString m | None \<Rightarrow> rs_mac s),
              rs_pres := sighting now (rs_pres s)\<rparr>)
       sid (rd_servers d)\<rparr>"

definition rogue_Consume :: "Frame \<Rightarrow> int \<Rightarrow> rogueDHCP \<Rightarrow> rogueDHCP" where
  "rogue_Consume f now d =
    (if \<not> rd_selfMACSet d then d
     else case served_udp (rd_servedVID d) f of
       None \<Rightarrow> d
     | Some (sport, dport, payload) \<Rightarrow>
        if sport \<noteq> 67 then d
        else if length (fr_Data f) < payload + dhcpOptsOff then d
        else let opts = parseDHCPOptions (drop (payload + dhcpOptsOff) (fr_Data f)) in
          if \<not> op_hasServerID opts \<or> (op_msgType opts \<noteq> 2 \<and> op_msgType opts \<noteq> 5) then d
          else if srcMAC (fr_Data f) = Some (rd_selfMAC d) then d
          else rogue_seen d (op_serverID opts) (srcMAC (fr_Data f)) now)"

definition rogue_tick_one :: "string \<Rightarrow> int \<Rightarrow> byte list \<times> rogueServer
    \<Rightarrow> (byte list \<times> rogueServer) list \<times> Event list" where
  "rogue_tick_one iface now x =
    (let (k, s) = x; (e, p) = transition now (rs_pres s) in
     if e = 1 then
       ([(k, s\<lparr>rs_pres := p, rs_present := True\<rparr>)],
        [\<lparr>ev_Action = ''Rogue DHCP server detected'', ev_Target = rs_ip s @ '' ('' @ rs_mac s @ '')'',
          ev_Before = ''none'', ev_After = ''on '' @ iface, ev_Severity = SevError\<rparr>])
     else if e = -1 then
       ([], [\<lparr>ev_Action = ''Rogue DHCP server gone'', ev_Target = rs_ip s @ '' ('' @ rs_mac s @ '')'',
          ev_Before = ''rogue'', ev_After = ''none'', ev_Severity = SevInfo\<rparr>])
     else ([(k, s\<lparr>rs_pres := p\<rparr>)], []))"

definition rogue_Tick :: "int \<Rightarrow> rogueDHCP \<Rightarrow> Event list \<times> rogueDHCP" where
  "rogue_Tick now d =
    (let rs = map (rogue_tick_one (rd_iface d) now) (rd_servers d) in
     (sort_key ev_After (concat (map snd rs)), d\<lparr>rd_servers := concat (map fst rs)\<rparr>))"

definition rogue_Snapshot :: "rogueDHCP \<Rightarrow> DetectorSnapshot" where
  "rogue_Snapshot d =
    (let active = sort_key rs_ip (filter rs_present (map snd (rd_servers d)));
         s = \<lparr>ds_Kind = ''rogue_dhcp'', ds_Severity = SevOK, ds_Subject = rd_iface d, ds_Text = [], ds_Fields = []\<rparr> in
     if \<not> rd_selfMACSet d then
       s\<lparr>ds_Severity := SevInfo, ds_Text := ''Rogue DHCP watch unverified (interface MAC unknown)''\<rparr>
     else if active = [] then s\<lparr>ds_Severity := SevOK, ds_Text := ''No rogue DHCP servers''\<rparr>
     else let first = hd active in
       s\<lparr>ds_Severity := SevError, ds_Subject := rs_ip first,
         ds_Text := (if 1 < length active then netmon_itoa (int (length active)) @ '' rogue DHCP servers''
                     else ''Rogue DHCP server '' @ rs_ip first),
         ds_Fields := [(''server'', rs_ip first), (''mac'', rs_mac first), (''oui'', ouiOf (rs_mac first)),
           (''count'', netmon_itoa (int (length active))),
           (''sustained'', if list_ex (\<lambda>s. sustainedFor rogueSustainedAfter (rs_pres s)) active then ''1'' else ''0'')]\<rparr>)"

section \<open>Duplicate addresses\<close>

definition defaultDeclineAbsence :: int where "defaultDeclineAbsence = 300 * second"

record conflictEntry =
  ce_pres :: presence
  ce_ip :: string
  ce_declines :: int
  ce_present :: bool

record duplicateIP =
  di_iface :: string
  di_servedVID :: int
  di_absence :: int
  di_conflicts :: "(byte list \<times> conflictEntry) list"

definition newDuplicateIPDetector :: "string \<Rightarrow> int \<Rightarrow> int \<Rightarrow> duplicateIP" where
  "newDuplicateIPDetector iface servedVID absence =
    \<lparr>di_iface = iface, di_servedVID = servedVID,
     di_absence = (if absence \<le> 0 then defaultDeclineAbsence else absence), di_conflicts = []\<rparr>"

definition dup_Consume :: "Frame \<Rightarrow> int \<Rightarrow> duplicateIP \<Rightarrow> duplicateIP" where
  "dup_Consume f now d =
    (case served_udp (di_servedVID d) f of
       None \<Rightarrow> d
     | Some (sport, dport, payload) \<Rightarrow>
        if dport \<noteq> 67 then d
        else if length (fr_Data f) < payload + dhcpOptsOff then d
        else let opts = parseDHCPOptions (drop (payload + dhcpOptsOff) (fr_Data f)) in
          if op_msgType opts \<noteq> 4 \<or> \<not> op_hasRequestedIP opts then d
          else d\<lparr>di_conflicts :=
            touch maxDupIPConflicts (\<lambda>c. pr_lastSeen (ce_pres c))
              \<lparr>ce_pres = newPresence 0 (di_absence d), ce_ip = ipString (op_requestedIP opts), ce_declines = 0, ce_present = False\<rparr>
              (\<lambda>c. c\<lparr>ce_declines := ce_declines c + 1, ce_pres := sighting now (ce_pres c)\<rparr>)
              (op_requestedIP opts) (di_conflicts d)\<rparr>)"

definition dup_tick_one :: "string \<Rightarrow> int \<Rightarrow> byte list \<times> conflictEntry
    \<Rightarrow> (byte list \<times> conflictEntry) list \<times> Event list" where
  "dup_tick_one iface now x =
    (let (k, c) = x; (e, p) = transition now (ce_pres c) in
     if e = 1 then
       ([(k, c\<lparr>ce_pres := p, ce_present := True\<rparr>)],
        [\<lparr>ev_Action = ''Address conflict detected'', ev_Target = ce_ip c, ev_Before = ''none'',
          ev_After = ''DHCPDECLINE on '' @ iface, ev_Severity = SevWarn\<rparr>])
     else if e = -1 then
       ([], [\<lparr>ev_Action = ''Address conflict cleared'', ev_Target = ce_ip c, ev_Before = ''conflict'',
          ev_After = ''none'', ev_Severity = SevInfo\<rparr>])
     else ([(k, c\<lparr>ce_pres := p\<rparr>)], []))"

definition dup_Tick :: "int \<Rightarrow> duplicateIP \<Rightarrow> Event list \<times> duplicateIP" where
  "dup_Tick now d =
    (let rs = map (dup_tick_one (di_iface d) now) (di_conflicts d) in
     (sort_key ev_After (concat (map snd rs)), d\<lparr>di_conflicts := concat (map fst rs)\<rparr>))"

definition dup_Snapshot :: "duplicateIP \<Rightarrow> DetectorSnapshot" where
  "dup_Snapshot d =
    (let active = sort_key ce_ip (filter ce_present (map snd (di_conflicts d)));
         s = \<lparr>ds_Kind = ''duplicate_ip'', ds_Severity = SevOK, ds_Subject = di_iface d, ds_Text = [], ds_Fields = []\<rparr> in
     if active = [] then s\<lparr>ds_Severity := SevOK, ds_Text := ''No address conflicts''\<rparr>
     else let first = hd active in
       s\<lparr>ds_Severity := SevWarn, ds_Subject := ce_ip first,
         ds_Text := (if 1 < length active then netmon_itoa (int (length active)) @ '' address conflicts''
                     else ''Address conflict: '' @ ce_ip first),
         ds_Fields := [(''address'', ce_ip first), (''declines'', netmon_itoa (ce_declines first))]\<rparr>)"

section \<open>The option parser\<close>

definition opt_ok :: "byte \<times> byte list \<Rightarrow> bool" where
  "opt_ok x \<longleftrightarrow> fst x \<noteq> 0 \<and> fst x \<noteq> 255 \<and> length (snd x) < 256"

definition encode_opt :: "byte \<times> byte list \<Rightarrow> byte list" where
  "encode_opt x = fst x # of_nat (length (snd x)) # snd x"

lemma opts_loop_encoded:
  assumes "list_all opt_ok os"
  shows "opts_loop (pre @ concat (map encode_opt os) @ 255 # junk) (length pre) out
    = fold (\<lambda>x. apply_option (fst x) (snd x)) os out"
  using assms
proof (induction os arbitrary: pre out)
  case Nil
  then show ?case by (simp add: opts_loop.simps nth_append)
next
  case (Cons x os)
  obtain c v where x: "x = (c, v)" by (cases x)
  then have c: "c \<noteq> 0" "c \<noteq> 255" "unat (of_nat (length v) :: byte) = length v"
    using Cons.prems by (simp_all add: opt_ok_def unat_of_nat)
  let ?all = "(pre @ c # of_nat (length v) # v) @ concat (map encode_opt os) @ 255 # junk"
  have e: "pre @ concat (map encode_opt (x # os)) @ 255 # junk = ?all"
    by (simp add: x encode_opt_def)
  have "opts_loop ?all (length pre) out = opts_loop ?all (length pre + 2 + length v) (apply_option c v out)"
    by (subst opts_loop.simps) (simp add: c Let_def nth_append)
  also have "length pre + 2 + length v = length (pre @ c # of_nat (length v) # v)" by simp
  finally show ?case using Cons.IH [of "pre @ c # of_nat (length v) # v" "apply_option c v out"] Cons.prems
    unfolding e by (simp add: x)
qed

section \<open>MAC texts\<close>

lemma hex_digit_inj: "0 \<le> a \<Longrightarrow> a < 16 \<Longrightarrow> 0 \<le> b \<Longrightarrow> b < 16 \<Longrightarrow> hex_digit a = hex_digit b \<Longrightarrow> a = b"
proof -
  assume h: "0 \<le> a" "a < 16" "0 \<le> b" "b < 16" "hex_digit a = hex_digit b"
  have "distinct (map hex_digit [0 .. 15])" by code_simp
  then have "inj_on hex_digit {0 .. 15}" by (simp add: distinct_map)
  then show ?thesis using h by (auto dest: inj_onD)
qed

lemma byte_hex_inj: "byte_hex x = byte_hex y \<longleftrightarrow> x = y"
proof
  assume e: "byte_hex x = byte_hex y"
  have hi: "uint (drop_bit 4 z) = uint z div 16" "uint (z AND 0x0f) = uint z mod 16" for z :: byte
    using take_bit_eq_mask [of 4 "uint z"]
    by (simp_all add: drop_bit_eq_div uint_div_distrib unsigned_and_eq mask_eq_exp_minus_1 take_bit_eq_mod)
  have r: "uint z div 16 < 16" for z :: byte using byte_less(2) [of z] by presburger
  have "uint x div 16 = uint y div 16" "uint x mod 16 = uint y mod 16"
    using e hex_digit_inj [of "uint x div 16" "uint y div 16"] hex_digit_inj [of "uint x mod 16" "uint y mod 16"] r
    by (simp_all add: byte_hex_def hi pos_imp_zdiv_nonneg_iff)
  then show "x = y" by (metis mult_div_mod_eq word_uint_eq_iff)
qed simp

lemma macString_inj: "macString a = macString b \<longleftrightarrow> a = b"
proof
  have n: "byte_hex x \<noteq> []" "length (byte_hex x) = 2" for x by (simp_all add: byte_hex_def)
  show "macString a = macString b \<Longrightarrow> a = b"
    unfolding macString_def
  proof (induction a arbitrary: b)
    case Nil
    then show ?case using n n(1) [symmetric] by (cases b; cases "tl b") auto
  next
    case (Cons x xs)
    obtain y ys where b: "b = y # ys" using Cons.prems n n(1) [symmetric] by (cases b; cases xs) auto
    then show ?case using Cons.prems Cons.IH [of ys] n
      by (cases xs; cases ys) (auto simp: append_eq_append_conv byte_hex_inj dest: arg_cong [where f = length])
  qed
qed simp

section \<open>The life of the rogue detector\<close>

inductive rogue_step :: "rogueDHCP \<Rightarrow> Event list \<Rightarrow> rogueDHCP \<Rightarrow> bool" where
  consume: "rogue_step d [] (rogue_Consume f now d)"
| tick: "rogue_Tick now d = (evs, d') \<Longrightarrow> rogue_step d evs d'"

inductive rogue_reaches :: "rogueDHCP \<Rightarrow> Event list \<Rightarrow> rogueDHCP \<Rightarrow> bool" for d0 where
  start: "rogue_reaches d0 [] d0"
| more: "rogue_reaches d0 evs d \<Longrightarrow> rogue_step d es d' \<Longrightarrow> rogue_reaches d0 (evs @ es) d'"

inductive_cases rogue_stepE: "rogue_step d evs d'"

text \<open>The MAC an event names is a MAC the detector saw, and never its own.\<close>

definition rogue_entry_ok :: "rogueDHCP \<Rightarrow> rogueServer \<Rightarrow> bool" where
  "rogue_entry_ok d s \<longleftrightarrow> (\<exists>m. rs_mac s = macString m \<and> m \<noteq> rd_selfMAC d)"

definition rogue_inv :: "rogueDHCP \<Rightarrow> bool" where
  "rogue_inv d \<longleftrightarrow> table_ok maxRogueServers (rd_servers d)
     \<and> (\<not> rd_selfMACSet d \<longrightarrow> rd_servers d = [])
     \<and> list_all (\<lambda>x. rogue_entry_ok d (snd x)) (rd_servers d)"

definition event_not_self :: "rogueDHCP \<Rightarrow> Event \<Rightarrow> bool" where
  "event_not_self d e \<longleftrightarrow> rd_selfMACSet d \<and>
     (\<exists>ip m. ev_Target e = ip @ '' ('' @ macString m @ '')'' \<and> m \<noteq> rd_selfMAC d)"

lemma evict_subset: "set (evictStalest at m) \<subseteq> set m"
  by (auto simp: evictStalest_def AList.delete_eq split: option.splits)

lemma touch_members:
  assumes "(k', v) \<in> set (touch cap at new f k m)" "distinct (map fst m)"
  shows "(k', v) \<in> set m \<or> (k' = k \<and> v = f (case map_of m k of Some v \<Rightarrow> v | None \<Rightarrow> new))"
proof -
  have "distinct (map fst (evictStalest at m))"
    using assms(2) by (simp add: evictStalest_def distinct_delete split: option.split)
  then have "distinct (map fst (touch cap at new f k m))"
    using assms(2) by (simp add: touch_def distinct_update split: option.split)
  then have "map_of (touch cap at new f k m) k' = Some v" using assms(1) by simp
  then show ?thesis
    using touch_key [of cap at new f k m]
    by (cases "k' = k") (auto simp: touch_def update_conv' dest: evict_map_of map_of_SomeD split: option.splits if_splits)
qed

lemma srcMAC_served: "served_udp v f = Some x \<Longrightarrow> \<exists>m. srcMAC (fr_Data f) = Some m"
  by (auto simp: served_udp_def etherInfo_def srcMAC_def macAt_def ethHdrLen_def split: if_splits option.splits)

lemma rogue_Consume_frame:
  "rd_selfMAC (rogue_Consume f now d) = rd_selfMAC d" "rd_selfMACSet (rogue_Consume f now d) = rd_selfMACSet d"
  by (simp_all add: rogue_Consume_def rogue_seen_def Let_def split: option.split prod.split)

lemma rogue_Consume_inv:
  assumes "rogue_inv d"
  shows "rogue_inv (rogue_Consume f now d)"
proof (cases "rogue_Consume f now d = d")
  case False
  then obtain x sid m where x: "served_udp (rd_servedVID d) f = Some x" "rd_selfMACSet d"
    "srcMAC (fr_Data f) = Some m" "m \<noteq> rd_selfMAC d" "rogue_Consume f now d = rogue_seen d sid (Some m) now"
    using srcMAC_served [of "rd_servedVID d" f]
    by (fastforce simp: rogue_Consume_def Let_def split: option.splits prod.splits if_splits)
  have "rogue_entry_ok d v" if "(k, v) \<in> set (rd_servers (rogue_seen d sid (Some m) now))" for k v
    using touch_members [OF that [unfolded rogue_seen_def, simplified]] assms x(4)
    by (auto simp: rogue_inv_def table_ok_def rogue_entry_ok_def list_all_iff)
  then show ?thesis using assms x touch_table_ok [of maxRogueServers]
    by (auto simp: rogue_inv_def rogue_seen_def list_all_iff rogue_entry_ok_def maxRogueServers_def)
qed (use assms in simp)


lemma rogue_tick_one_spec:
  assumes "rogue_tick_one iface now (k, s) = (xs, es)"
  shows "xs = [] \<or> (\<exists>s'. xs = [(k, s')] \<and> rs_mac s' = rs_mac s)"
    "\<forall>e \<in> set es. ev_Target e = rs_ip s @ '' ('' @ rs_mac s @ '')''"
  using assms by (auto simp: rogue_tick_one_def Let_def split: prod.splits if_splits)

definition tick_entries :: "string \<Rightarrow> int \<Rightarrow> (byte list \<times> rogueServer) list \<Rightarrow> (byte list \<times> rogueServer) list" where
  "tick_entries iface now m = concat (map (\<lambda>x. fst (rogue_tick_one iface now x)) m)"

lemma tick_entries_mem:
  assumes "(k, s) \<in> set (tick_entries iface now m)"
  shows "\<exists>s0. (k, s0) \<in> set m \<and> rs_mac s = rs_mac s0"
proof -
  from assms obtain k0 s0 where "(k0, s0) \<in> set m" "(k, s) \<in> set (fst (rogue_tick_one iface now (k0, s0)))"
    by (auto simp: tick_entries_def)
  then show ?thesis
    using rogue_tick_one_spec(1) [of iface now k0 s0] by (cases "rogue_tick_one iface now (k0, s0)") auto
qed

lemma tick_entries_table:
  "length (tick_entries iface now m) \<le> length m
    \<and> (distinct (map fst m) \<longrightarrow> distinct (map fst (tick_entries iface now m)))"
proof (induction m)
  case (Cons x m)
  obtain k s xs es where t: "x = (k, s)" "rogue_tick_one iface now (k, s) = (xs, es)" by (metis surj_pair)
  have r: "tick_entries iface now (x # m) = xs @ tick_entries iface now m" by (simp add: tick_entries_def t)
  have k: "k \<in> set (map fst (tick_entries iface now m)) \<Longrightarrow> k \<in> set (map fst m)"
    using tick_entries_mem [of k _ iface now m] by force
  have xs: "xs = [] \<or> (\<exists>s'. xs = [(k, s')])" using rogue_tick_one_spec(1) [OF t(2)] by blast
  then show ?case
  proof
    assume "xs = []"
    then have "tick_entries iface now (x # m) = tick_entries iface now m" using r by simp
    then show ?thesis using Cons.IH by simp
  next
    assume "\<exists>s'. xs = [(k, s')]"
    then obtain s' where e: "tick_entries iface now (x # m) = (k, s') # tick_entries iface now m" using r by auto
    show ?thesis using Cons.IH k unfolding e by (simp only: t(1) list.map distinct.simps fst_conv list.size) auto
  qed
qed (simp add: tick_entries_def)

lemma rogue_Tick_entries:
  assumes "rogue_Tick now d = (evs, d')"
  shows "d' = d\<lparr>rd_servers := tick_entries (rd_iface d) now (rd_servers d)\<rparr>"
    "set evs = (\<Union>x \<in> set (rd_servers d). set (snd (rogue_tick_one (rd_iface d) now x)))"
  using assms by (auto simp: rogue_Tick_def Let_def tick_entries_def comp_def)

lemma rogue_Tick_inv:
  assumes "rogue_inv d" "rogue_Tick now d = (evs, d')"
  shows "rogue_inv d' \<and> rd_selfMAC d' = rd_selfMAC d \<and> rd_selfMACSet d' = rd_selfMACSet d
    \<and> (\<forall>e \<in> set evs. event_not_self d e)"
proof -
  note d' = rogue_Tick_entries [OF assms(2)]
  have ok: "rogue_entry_ok d s" if "(k, s) \<in> set (rd_servers d)" for k s
    using assms(1) that by (force simp: rogue_inv_def list_all_iff)
  have "rogue_entry_ok d s" if "(k, s) \<in> set (tick_entries (rd_iface d) now (rd_servers d))" for k s
    using tick_entries_mem [OF that] ok by (auto simp: rogue_entry_ok_def)
  then have "list_all (\<lambda>x. rogue_entry_ok d (snd x)) (tick_entries (rd_iface d) now (rd_servers d))"
    by (auto simp: list_all_iff)
  moreover have "table_ok maxRogueServers (tick_entries (rd_iface d) now (rd_servers d))"
    using assms(1) tick_entries_table [of "rd_iface d" now "rd_servers d"]
    unfolding rogue_inv_def table_ok_def by (meson order_trans)
  moreover have "rd_servers d = [] \<Longrightarrow> tick_entries (rd_iface d) now (rd_servers d) = []"
    by (simp add: tick_entries_def)
  ultimately have "rogue_inv d'"
    using assms(1) by (simp add: rogue_inv_def d'(1) rogue_entry_ok_def)
  moreover have "event_not_self d e" if "e \<in> set evs" for e
  proof -
    from that obtain k s where s: "(k, s) \<in> set (rd_servers d)" "e \<in> set (snd (rogue_tick_one (rd_iface d) now (k, s)))"
      unfolding d'(2) by auto
    then have "ev_Target e = rs_ip s @ '' ('' @ rs_mac s @ '')''"
      using rogue_tick_one_spec(2) by (metis prod.collapse)
    moreover have "rd_selfMACSet d" using s(1) assms(1) by (auto simp: rogue_inv_def)
    ultimately show ?thesis using ok [OF s(1)] by (auto simp: event_not_self_def rogue_entry_ok_def)
  qed
  ultimately show ?thesis by (simp add: d'(1))
qed

lemma rogue_step_inv:
  assumes "rogue_step d evs d'" "rogue_inv d"
  shows "rogue_inv d' \<and> rd_selfMAC d' = rd_selfMAC d \<and> rd_selfMACSet d' = rd_selfMACSet d
    \<and> (\<forall>e \<in> set evs. event_not_self d e)"
  using assms by (auto elim!: rogue_stepE simp: rogue_Consume_inv rogue_Consume_frame dest: rogue_Tick_inv)

lemma rogue_reaches_inv:
  assumes "rogue_reaches d0 evs d" "rogue_inv d0"
  shows "rogue_inv d \<and> rd_selfMAC d = rd_selfMAC d0 \<and> rd_selfMACSet d = rd_selfMACSet d0
    \<and> (\<forall>e \<in> set evs. event_not_self d0 e)"
  using assms
proof (induction rule: rogue_reaches.induct)
  case (more evs d es d')
  then show ?case using rogue_step_inv [of d es d'] by (auto simp: event_not_self_def)
qed simp

section \<open>What the rogue detector has heard\<close>

datatype rogue_input = Heard Frame int | Clock int

definition rogue_input_step :: "rogueDHCP \<Rightarrow> rogue_input \<Rightarrow> rogueDHCP" where
  "rogue_input_step d x = (case x of Heard f t \<Rightarrow> rogue_Consume f t d | Clock t \<Rightarrow> snd (rogue_Tick t d))"

definition rogue_run :: "rogueDHCP \<Rightarrow> rogue_input list \<Rightarrow> rogueDHCP" where
  "rogue_run d hs = foldl rogue_input_step d hs"

text \<open>An OFFER or ACK of the server \<open>sid\<close> that did not come from the MAC \<open>mac\<close>.\<close>

definition server_answer :: "int \<Rightarrow> byte list \<Rightarrow> byte list \<Rightarrow> Frame \<Rightarrow> bool" where
  "server_answer vid mac sid f \<longleftrightarrow>
     (case served_udp vid f of
        None \<Rightarrow> False
      | Some (sport, dport, payload) \<Rightarrow> sport = 67
          \<and> (let opts = parseDHCPOptions (drop (payload + dhcpOptsOff) (fr_Data f)) in
             op_hasServerID opts \<and> op_serverID opts = sid \<and> (op_msgType opts = 2 \<or> op_msgType opts = 5)))
     \<and> srcMAC (fr_Data f) \<noteq> Some mac"

definition answer_at :: "rogue_input list \<Rightarrow> int \<Rightarrow> byte list \<Rightarrow> byte list \<Rightarrow> int \<Rightarrow> bool" where
  "answer_at hs vid mac sid t \<longleftrightarrow> (\<exists>f. Heard f t \<in> set hs \<and> server_answer vid mac sid f)"

text \<open>Both ends of a server's run are moments at which it was heard.\<close>

definition heard_inv :: "rogue_input list \<Rightarrow> rogueDHCP \<Rightarrow> bool" where
  "heard_inv hs d \<longleftrightarrow> (\<forall>(k, s) \<in> set (rd_servers d). pr_seen (rs_pres s)
     \<and> answer_at hs (rd_servedVID d) (rd_selfMAC d) k (pr_runStart (rs_pres s))
     \<and> answer_at hs (rd_servedVID d) (rd_selfMAC d) k (pr_lastSeen (rs_pres s)))"

lemma answer_at_mono: "answer_at hs v m k t \<Longrightarrow> answer_at (hs @ [x]) v m k t"
  by (auto simp: answer_at_def)

lemma sighting_ends:
  "pr_lastSeen (sighting now p) = now" "pr_seen (sighting now p)"
  "pr_runStart (sighting now p) = now \<or> pr_seen p \<and> pr_runStart (sighting now p) = pr_runStart p"
  by (auto simp: sighting_def Let_def)

lemma rogue_seen_entry:
  assumes "(k, s) \<in> set (rd_servers (rogue_seen d sid mac t))" "distinct (map fst (rd_servers d))"
  obtains (kept) "(k, s) \<in> set (rd_servers d)"
    | (seen) old where "k = sid" "rs_pres s = sighting t (rs_pres old)"
        "(sid, old) \<in> set (rd_servers d) \<or> \<not> pr_seen (rs_pres old)"
proof -
  define new where "new = \<lparr>rs_pres = newPresence 0 (rd_absence d), rs_ip = ipString sid, rs_mac = [], rs_present = False\<rparr>"
  define old where "old = (case map_of (rd_servers d) sid of Some v \<Rightarrow> v | None \<Rightarrow> new)"
  have t: "rd_servers (rogue_seen d sid mac t) = touch maxRogueServers (\<lambda>s. pr_lastSeen (rs_pres s)) new
       (\<lambda>s. s\<lparr>rs_mac := (case mac of Some m \<Rightarrow> macString m | None \<Rightarrow> rs_mac s),
              rs_pres := sighting t (rs_pres s)\<rparr>) sid (rd_servers d)"
    by (simp add: rogue_seen_def new_def)
  have "(sid, old) \<in> set (rd_servers d) \<or> \<not> pr_seen (rs_pres old)"
    by (cases "map_of (rd_servers d) sid") (auto simp: old_def new_def newPresence_def dest: map_of_SomeD)
  moreover have "(k, s) \<in> set (rd_servers d) \<or> (k = sid \<and> rs_pres s = sighting t (rs_pres old))"
    using touch_members [OF assms(1) [unfolded t] assms(2), folded old_def] by auto
  ultimately show ?thesis using that by blast
qed

lemma heard_inv_consume:
  assumes "heard_inv hs d" "rogue_inv d"
  shows "heard_inv (hs @ [Heard f t]) (rogue_Consume f t d)"
proof (cases "rogue_Consume f t d = d")
  case True
  then show ?thesis using assms(1) by (auto simp: heard_inv_def intro: answer_at_mono)
next
  case False
  then obtain sid mac where x: "server_answer (rd_servedVID d) (rd_selfMAC d) sid f"
    "rogue_Consume f t d = rogue_seen d sid mac t"
    by (fastforce simp: rogue_Consume_def server_answer_def Let_def split: option.splits prod.splits if_splits)
  have now: "answer_at (hs @ [Heard f t]) (rd_servedVID d) (rd_selfMAC d) sid t"
    using x(1) by (auto simp: answer_at_def)
  have dist: "distinct (map fst (rd_servers d))" using assms(2) by (simp add: rogue_inv_def table_ok_def)
  have same: "rd_servedVID (rogue_seen d sid mac t) = rd_servedVID d" "rd_selfMAC (rogue_seen d sid mac t) = rd_selfMAC d"
    by (simp_all add: rogue_seen_def)
  have "pr_seen (rs_pres s) \<and> answer_at (hs @ [Heard f t]) (rd_servedVID d) (rd_selfMAC d) k (pr_runStart (rs_pres s))
      \<and> answer_at (hs @ [Heard f t]) (rd_servedVID d) (rd_selfMAC d) k (pr_lastSeen (rs_pres s))"
    if m: "(k, s) \<in> set (rd_servers (rogue_seen d sid mac t))" for k s
    using m dist
  proof (cases rule: rogue_seen_entry)
    case kept
    then show ?thesis using assms(1) by (auto simp: heard_inv_def intro: answer_at_mono)
  next
    case (seen old)
    then show ?thesis
      using sighting_ends [of t "rs_pres old"] now assms(1)
      by (fastforce simp: heard_inv_def intro: answer_at_mono)
  qed
  then show ?thesis unfolding x(2) heard_inv_def same by blast
qed

lemma tick_entries_pres:
  assumes "(k, s) \<in> set (tick_entries iface now m)"
  obtains s0 where "(k, s0) \<in> set m" "pr_seen (rs_pres s) = pr_seen (rs_pres s0)"
    "pr_runStart (rs_pres s) = pr_runStart (rs_pres s0)" "pr_lastSeen (rs_pres s) = pr_lastSeen (rs_pres s0)"
proof -
  from assms obtain k0 s0 where "(k0, s0) \<in> set m" "(k, s) \<in> set (fst (rogue_tick_one iface now (k0, s0)))"
    by (auto simp: tick_entries_def)
  then show ?thesis using that [of s0]
    by (auto simp: rogue_tick_one_def transition_def Let_def split: if_splits)
qed

lemma heard_inv_tick:
  assumes "heard_inv hs d"
  shows "heard_inv (hs @ [Clock t]) (snd (rogue_Tick t d))"
proof -
  have d': "snd (rogue_Tick t d) = d\<lparr>rd_servers := tick_entries (rd_iface d) t (rd_servers d)\<rparr>"
    using rogue_Tick_entries(1) [of t d] by (cases "rogue_Tick t d") simp
  have "pr_seen (rs_pres s) \<and> answer_at (hs @ [Clock t]) (rd_servedVID d) (rd_selfMAC d) k (pr_runStart (rs_pres s))
      \<and> answer_at (hs @ [Clock t]) (rd_servedVID d) (rd_selfMAC d) k (pr_lastSeen (rs_pres s))"
    if "(k, s) \<in> set (tick_entries (rd_iface d) t (rd_servers d))" for k s
    using tick_entries_pres [OF that] assms by (fastforce simp: heard_inv_def intro: answer_at_mono)
  then show ?thesis unfolding d' heard_inv_def by fastforce
qed

lemma rogue_run_inv:
  fixes iface mac known vid absence
  defines "d0 \<equiv> newRogueDHCPDetector iface mac known vid absence"
  shows "heard_inv hs (rogue_run d0 hs) \<and> rogue_inv (rogue_run d0 hs)
    \<and> rd_selfMAC (rogue_run d0 hs) = mac \<and> rd_selfMACSet (rogue_run d0 hs) = known \<and> rd_servedVID (rogue_run d0 hs) = vid"
proof (induction hs rule: rev_induct)
  case Nil
  then show ?case
    by (simp add: rogue_run_def d0_def newRogueDHCPDetector_def heard_inv_def rogue_inv_def table_ok_def maxRogueServers_def)
next
  case (snoc x hs)
  let ?d = "rogue_run d0 hs"
  show ?case
  proof (cases x)
    case (Heard f t)
    moreover have "rd_servedVID (rogue_Consume f t ?d) = rd_servedVID ?d"
      by (simp add: rogue_Consume_def rogue_seen_def Let_def split: option.split prod.split)
    ultimately show ?thesis
      using snoc heard_inv_consume [of hs ?d f t] rogue_Consume_inv [of ?d f t] rogue_Consume_frame [of f t ?d]
      by (simp add: rogue_run_def rogue_input_step_def)
  next
    case (Clock t)
    then show ?thesis
      using snoc heard_inv_tick [of hs ?d t] rogue_Tick_inv [of ?d t "fst (rogue_Tick t ?d)" "snd (rogue_Tick t ?d)"]
        rogue_Tick_entries(1) [of t ?d "fst (rogue_Tick t ?d)" "snd (rogue_Tick t ?d)"]
      by (simp add: rogue_run_def rogue_input_step_def)
  qed
qed

text \<open>A server the detector calls sustained was heard twice, that long apart.\<close>

lemma sustained_heard:
  assumes "x \<in> set (rd_servers (rogue_run (newRogueDHCPDetector iface mac known vid absence) hs))"
    "sustainedFor D (rs_pres (snd x))"
  obtains f1 t1 f2 t2 where "Heard f1 t1 \<in> set hs" "Heard f2 t2 \<in> set hs"
    "server_answer vid mac (fst x) f1" "server_answer vid mac (fst x) f2" "D \<le> t2 - t1" known
proof -
  let ?d = "rogue_run (newRogueDHCPDetector iface mac known vid absence) hs"
  have i: "heard_inv hs ?d" "rogue_inv ?d" "rd_selfMAC ?d = mac" "rd_selfMACSet ?d = known" "rd_servedVID ?d = vid"
    using rogue_run_inv [of hs iface mac known vid absence] by auto
  have "answer_at hs vid mac (fst x) (pr_runStart (rs_pres (snd x)))"
    "answer_at hs vid mac (fst x) (pr_lastSeen (rs_pres (snd x)))" known
    using i assms(1) by (auto simp: heard_inv_def rogue_inv_def)
  then show ?thesis using that assms(2) by (auto simp: answer_at_def sustainedFor_def)
qed

section \<open>Properties\<close>

text \<open>The option walk reads a well-formed DHCP option field as the left-to-right application
  of its options, whatever follows the end marker; options too short for their kind leave the result
  unchanged, and on any bytes at all it terminates inside the buffer.\<close>

theorem parseDHCPOptions_encoded:
  assumes "list_all opt_ok os"
  shows "parseDHCPOptions (concat (map encode_opt os) @ 255 # junk)
    = fold (\<lambda>x. apply_option (fst x) (snd x)) os no_opts"
  using opts_loop_encoded [OF assms, of "[]"] by (simp add: parseDHCPOptions_def)

lemma parseDHCPOptions_encoded_witness:
  "op_serverID (parseDHCPOptions [53, 1, 2, 54, 4, 10, 0, 0, 1, 255, 7]) = [10, 0, 0, 1]"
proof -
  have o: "list_all opt_ok [(53, [2]), (54, [10, 0, 0, 1])]" by (simp add: opt_ok_def)
  show ?thesis using parseDHCPOptions_encoded [OF o, of "[7]"]
    by (simp add: encode_opt_def apply_option_def no_opts_def)
qed

text \<open>In every life of a rogue-DHCP detector, however frames and ticks interleave, it tracks at
  most 64 servers, and no event ever names the box's own MAC as a rogue; when the own MAC is unknown
  it tracks nothing and emits nothing.\<close>

theorem rogue_detector_safe:
  assumes "rogue_reaches (newRogueDHCPDetector iface selfMAC macKnown vid absence) evs d"
  shows "length (rd_servers d) \<le> 64
    \<and> (\<forall>e \<in> set evs. macKnown \<and> (\<exists>ip m. ev_Target e = ip @ '' ('' @ macString m @ '')'' \<and> m \<noteq> selfMAC))
    \<and> (\<forall>(k, s) \<in> set (rd_servers d). macKnown \<and> rs_mac s \<noteq> macString selfMAC)"
proof -
  have init: "rogue_inv (newRogueDHCPDetector iface selfMAC macKnown vid absence)"
    by (simp add: newRogueDHCPDetector_def rogue_inv_def table_ok_def maxRogueServers_def)
  from rogue_reaches_inv [OF assms init] show ?thesis
    by (auto simp: newRogueDHCPDetector_def rogue_inv_def table_ok_def maxRogueServers_def event_not_self_def
        list_all_iff rogue_entry_ok_def macString_inj)
qed

definition ex_offer :: "byte list \<Rightarrow> byte list" where
  "ex_offer src = [0xff, 0xff, 0xff, 0xff, 0xff, 0xff] @ src @ [0x08, 0x00]
     @ [0x45, 0, 1, 0x18, 0, 0, 0, 0, 64, 17, 0, 0, 10, 0, 0, 66, 255, 255, 255, 255]
     @ [0, 67, 0, 68, 1, 4, 0, 0] @ replicate 240 0 @ [53, 1, 2, 54, 4, 10, 0, 0, 66, 255]"

definition ex_frame :: "byte list \<Rightarrow> Frame" where
  "ex_frame data = \<lparr>fr_Iface = ''eth0'', fr_TS = 0, fr_Data = data, fr_VLAN = 0, fr_VLANKnown = False\<rparr>"

definition ex_rogue :: rogueDHCP where
  "ex_rogue = newRogueDHCPDetector ''eth0'' [2, 0, 0, 0, 0, 1] True 0 0"

lemma rogue_detector_safe_witness:
  "rogue_reaches ex_rogue
     (fst (rogue_Tick 5 (rogue_Consume (ex_frame (ex_offer [2, 0, 0, 0, 0, 9])) 1 ex_rogue)))
     (snd (rogue_Tick 5 (rogue_Consume (ex_frame (ex_offer [2, 0, 0, 0, 0, 9])) 1 ex_rogue)))
   \<and> map ev_Target (fst (rogue_Tick 5 (rogue_Consume (ex_frame (ex_offer [2, 0, 0, 0, 0, 9])) 1 ex_rogue)))
     = [''10.0.0.66 (02:00:00:00:00:09)'']
   \<and> length (rd_servers (snd (rogue_Tick 5 (rogue_Consume (ex_frame (ex_offer [2, 0, 0, 0, 0, 9])) 1 ex_rogue)))) \<le> 64"
proof -
  let ?d = "rogue_Consume (ex_frame (ex_offer [2, 0, 0, 0, 0, 9])) 1 ex_rogue"
  have "rogue_reaches ex_rogue ([] @ []) ?d" by (rule rogue_reaches.more [OF rogue_reaches.start rogue_step.consume])
  then have "rogue_reaches ex_rogue ([] @ fst (rogue_Tick 5 ?d)) (snd (rogue_Tick 5 ?d))"
    by (intro rogue_reaches.more [OF _ rogue_step.tick]) auto
  then have r: "rogue_reaches ex_rogue (fst (rogue_Tick 5 ?d)) (snd (rogue_Tick 5 ?d))" by simp
  moreover have "map ev_Target (fst (rogue_Tick 5 ?d)) = [''10.0.0.66 (02:00:00:00:00:09)'']" by code_simp
  ultimately show ?thesis using rogue_detector_safe [OF r [unfolded ex_rogue_def]] by (simp add: ex_rogue_def)
qed

lemma served_udp_passed:
  assumes "served_udp v f = Some (sport, dport, payload)" "sport = 67 \<or> dport = 67"
    "be16 (fr_Data f) 20 AND 0x1fff = 0"
    "gg \<Longrightarrow> be16 (fr_Data f) (4 * unat (fr_Data f ! 14 AND 0x0f) + 16) \<noteq> 5810"
  shows "passed gg (fr_Data f)"
proof -
  let ?p = "fr_Data f"
  obtain et off vid i where e: "etherInfo ?p = Some (et, off, vid)" "et = etherTypeIPv4" "ipv4Info ?p off = Some i"
    "ip_proto i = ipProtoUDP" "udpPorts ?p (ip_l4 i) = Some (sport, dport, payload)"
    using assms(1) by (auto simp: served_udp_def split: option.splits if_splits)
  show ?thesis
  proof (cases "be16 ?p 12 = etherTypeVLAN")
    case True
    then show ?thesis using etherInfo_bounds [OF e(1)] by (auto simp: passed_def)
  next
    case False
    then have off: "off = 14" "be16 ?p 12 = etherTypeIPv4"
      using e(1,2) by (auto simp: etherInfo_def ethHdrLen_def split: if_splits)
    then have i: "34 \<le> length ?p" "?p ! 23 = ipProtoUDP" "ip_l4 i = 4 * unat (?p ! 14 AND 0x0f) + 14"
      using e(3,4) by (auto simp: ipv4Info_def Let_def split: if_splits)
    then have u: "4 * unat (?p ! 14 AND 0x0f) + 14 + 8 \<le> length ?p" "sport = be16 ?p (4 * unat (?p ! 14 AND 0x0f) + 14)"
      "dport = be16 ?p (4 * unat (?p ! 14 AND 0x0f) + 16)"
      using e(5) by (auto simp: udpPorts_def add.commute split: if_splits)
    then have "passed_udp gg ?p" using assms(2,3,4) by (auto simp: passed_udp_def Let_def)
    then show ?thesis using off i by (simp add: passed_def)
  qed
qed

text \<open>The kernel filter never starves the DHCP detectors: every first-fragment frame that
  changes the state of the rogue-server or the duplicate-address detector, tagged or not and whatever
  its IP header length, is in the class the capture filter accepts (on a Green-GO interface, unless
  it is addressed to the Green-GO port).\<close>

theorem filter_feeds_dhcp_detectors:
  assumes "rogue_Consume f now d \<noteq> d \<or> dup_Consume f now e \<noteq> e"
    "be16 (fr_Data f) 20 AND 0x1fff = 0"
    "gg \<Longrightarrow> be16 (fr_Data f) (4 * unat (fr_Data f ! 14 AND 0x0f) + 16) \<noteq> 5810"
  shows "passed gg (fr_Data f)"
  using assms(1)
proof
  assume "rogue_Consume f now d \<noteq> d"
  then obtain dport payload where "served_udp (rd_servedVID d) f = Some (67, dport, payload)"
    by (auto simp: rogue_Consume_def split: if_splits option.splits)
  then show ?thesis using served_udp_passed assms(2,3) by blast
next
  assume "dup_Consume f now e \<noteq> e"
  then obtain sport payload where "served_udp (di_servedVID e) f = Some (sport, 67, payload)"
    by (auto simp: dup_Consume_def split: if_splits option.splits)
  then show ?thesis using served_udp_passed assms(2,3) by blast
qed

lemma filter_feeds_dhcp_detectors_witness:
  "passed False (ex_offer [2, 0, 0, 0, 0, 9])"
proof -
  have c: "rd_servers (rogue_Consume (ex_frame (ex_offer [2, 0, 0, 0, 0, 9])) 1 ex_rogue) \<noteq> rd_servers ex_rogue"
    by code_simp
  have b: "be16 (fr_Data (ex_frame (ex_offer [2, 0, 0, 0, 0, 9]))) 20 AND 0x1fff = 0" by code_simp
  from c have c': "rogue_Consume (ex_frame (ex_offer [2, 0, 0, 0, 0, 9])) 1 ex_rogue \<noteq> ex_rogue" by metis
  have "passed False (fr_Data (ex_frame (ex_offer [2, 0, 0, 0, 0, 9])))"
    by (rule filter_feeds_dhcp_detectors [OF disjI1 [OF c'] b]) simp
  then show ?thesis by (simp add: ex_frame_def)
qed

end
