(* ===== verification/LinkDetectors.thy ===== *)
theory LinkDetectors
  imports DhcpDetectors
begin

unbundle bit_operations_syntax

text \<open>
  The detectors of the link itself: \<open>detect_igmp.go\<close>, \<open>detect_vlan.go\<close>,
  \<open>detect_idle.go\<close>, \<open>detect_storm.go\<close>, \<open>detect_lldp.go\<close> and
  \<open>detect_ptp.go\<close> under \<open>src/internal/netmon/\<close>.  Each is a state, a step per frame
  and a step per tick; the kernel counters and the carrier a tick reads are inputs of the tick.
\<close>

definition pruneBefore :: "int list \<Rightarrow> int \<Rightarrow> int list" where
  "pruneBefore ts cutoff = filter (\<lambda>t. cutoff < t) ts"

section \<open>IGMP querier\<close>

definition defaultIGMPAbsence :: int where "defaultIGMPAbsence = 300 * second"

record igmpDetector =
  ig_iface :: string
  ig_pres :: presence
  ig_everPresent :: bool
  ig_querierIP :: string
  ig_version :: int
  ig_queries :: int

definition newIGMPDetector :: "string \<Rightarrow> int \<Rightarrow> igmpDetector" where
  "newIGMPDetector iface absence =
    \<lparr>ig_iface = iface, ig_pres = newPresence 0 (if absence \<le> 0 then defaultIGMPAbsence else absence),
     ig_everPresent = False, ig_querierIP = [], ig_version = 0, ig_queries = 0\<rparr>"

definition igmpVersion :: "byte list \<Rightarrow> nat \<Rightarrow> int \<Rightarrow> int" where
  "igmpVersion b off msgLen =
    (if msgLen \<ge> 12 then 3 else if off + 1 < length b \<and> b ! (off + 1) = 0 then 1 else 2)"

definition igmp_Consume :: "Frame \<Rightarrow> int \<Rightarrow> igmpDetector \<Rightarrow> igmpDetector" where
  "igmp_Consume f now d =
    (case etherInfo (fr_Data f) of
       None \<Rightarrow> d
     | Some (et, off, _) \<Rightarrow>
        if et \<noteq> etherTypeIPv4 then d
        else (case ipv4Info (fr_Data f) off of
            None \<Rightarrow> d
          | Some h \<Rightarrow>
              if ip_proto h \<noteq> ipProtoIGMP then d
              else let l4 = ip_l4 h; b = fr_Data f in
                if length b \<le> l4 \<or> b ! l4 \<noteq> 0x11 then d
                else let total = uint (be16 b (off + 2)); n = total - (int l4 - int off);
                    len = int (length b) - int l4;
                    igmpLen = (if total > 0 \<and> n \<ge> 0 \<and> n < len then n else len)
                  in d\<lparr>ig_querierIP := ipString (ip_src h), ig_version := igmpVersion b l4 igmpLen,
                       ig_queries := ig_queries d + 1, ig_pres := sighting now (ig_pres d)\<rparr>))"

definition igmp_Tick :: "int \<Rightarrow> igmpDetector \<Rightarrow> Event list \<times> igmpDetector" where
  "igmp_Tick now d =
    (let (e, p) = transition now (ig_pres d) in
     if e = 1 then
       ([\<lparr>ev_Action = ''IGMP querier present'', ev_Target = ig_querierIP d, ev_Before = ''absent'',
          ev_After = ''querier on '' @ ig_iface d, ev_Severity = SevOK\<rparr>],
        d\<lparr>ig_pres := p, ig_everPresent := True\<rparr>)
     else if e = -1 then
       ([\<lparr>ev_Action = ''IGMP querier lost'', ev_Target = ig_querierIP d, ev_Before = ''present'',
          ev_After = ''absent'', ev_Severity = SevWarn\<rparr>], d\<lparr>ig_pres := p\<rparr>)
     else ([], d\<lparr>ig_pres := p\<rparr>))"

definition igmp_Snapshot :: "igmpDetector \<Rightarrow> DetectorSnapshot" where
  "igmp_Snapshot d =
    (let s = \<lparr>ds_Kind = ''igmp'', ds_Severity = SevOK, ds_Subject = ig_iface d, ds_Text = [], ds_Fields = []\<rparr> in
     if isPresent (ig_pres d) then
       s\<lparr>ds_Text := ''IGMP querier present'',
         ds_Fields := [(''querier'', ig_querierIP d), (''version'', ''v'' @ netmon_itoa (ig_version d)),
           (''queries'', netmon_itoa (ig_queries d))]\<rparr>
     else if ig_everPresent d then
       s\<lparr>ds_Severity := SevWarn, ds_Text := ''IGMP querier lost - multicast may be pruned''\<rparr>
     else s\<lparr>ds_Severity := SevInfo, ds_Text := ''No IGMP querier observed yet''\<rparr>)"

section \<open>Unexpected VLANs\<close>

definition vlanSelfHeal :: int where "vlanSelfHeal = 600 * second"

record vlanDetector =
  vd_iface :: string
  vd_configured :: "int list"
  vd_seen :: "(int \<times> int) list"
  vd_announced :: "int list"
  vd_visible :: bool

definition newVLANDetector :: "string \<Rightarrow> int list \<Rightarrow> vlanDetector" where
  "newVLANDetector iface configuredVIDs =
    \<lparr>vd_iface = iface, vd_configured = configuredVIDs, vd_seen = [], vd_announced = [], vd_visible = False\<rparr>"

definition vlan_Consume :: "Frame \<Rightarrow> int \<Rightarrow> vlanDetector \<Rightarrow> vlanDetector" where
  "vlan_Consume f now d =
    (case etherInfo (fr_Data f) of
       None \<Rightarrow> d
     | Some (_, _, inband) \<Rightarrow>
        let d = (if fr_VLANKnown f then d\<lparr>vd_visible := True\<rparr> else d);
            vlanID = (if fr_VLANKnown f \<and> fr_VLAN f \<noteq> 0 then fr_VLAN f else inband) in
        if vlanID = 0 \<or> vlanID \<in> set (vd_configured d) then d
        else d\<lparr>vd_seen := AList.update vlanID now (vd_seen d)\<rparr>)"

definition sortedSeen :: "vlanDetector \<Rightarrow> int list" where
  "sortedSeen d = sort (map fst (vd_seen d))"

definition vlan_tick_one :: "int \<Rightarrow> int \<Rightarrow> Event list \<times> vlanDetector \<Rightarrow> Event list \<times> vlanDetector" where
  "vlan_tick_one now v acc =
    (let (evs, d) = acc;
         last_seen = (case map_of (vd_seen d) v of Some t \<Rightarrow> t | None \<Rightarrow> 0) in
     if vd_visible d \<and> now - last_seen > vlanSelfHeal then
       (evs @ [\<lparr>ev_Action = ''Trunked VLAN no longer seen'', ev_Target = ''VID '' @ netmon_itoa v,
          ev_Before = ''seen on '' @ vd_iface d @ '', no scope'', ev_After = ''gone'', ev_Severity = SevInfo\<rparr>],
        d\<lparr>vd_seen := AList.delete v (vd_seen d), vd_announced := removeAll v (vd_announced d)\<rparr>)
     else if v \<in> set (vd_announced d) then (evs, d)
     else (evs @ [\<lparr>ev_Action = ''Trunked VLAN has no DHCP scope'', ev_Target = ''VID '' @ netmon_itoa v,
          ev_Before = ''none'', ev_After = ''seen on '' @ vd_iface d @ '', no scope'', ev_Severity = SevWarn\<rparr>],
        d\<lparr>vd_announced := v # vd_announced d\<rparr>))"

definition vlan_Tick :: "bool \<Rightarrow> int \<Rightarrow> vlanDetector \<Rightarrow> Event list \<times> vlanDetector" where
  "vlan_Tick linkUp now d =
    (if \<not> linkUp then ([], if vd_seen d \<noteq> [] then d\<lparr>vd_seen := [], vd_announced := []\<rparr> else d)
     else fold (vlan_tick_one now) (sortedSeen d) ([], d))"

definition vlan_Snapshot :: "vlanDetector \<Rightarrow> DetectorSnapshot" where
  "vlan_Snapshot d =
    (let vids = sortedSeen d;
         s = \<lparr>ds_Kind = ''vlan'', ds_Severity = SevOK, ds_Subject = vd_iface d, ds_Text = [], ds_Fields = []\<rparr> in
     if vids = [] then
       (if vd_visible d then s\<lparr>ds_Text := ''No unexpected VLAN tags''\<rparr>
        else s\<lparr>ds_Severity := SevInfo, ds_Text := ''VLAN inspection limited - tags not visible on this NIC''\<rparr>)
     else let list = Join (map netmon_itoa vids) '', '' in
       s\<lparr>ds_Severity := SevWarn,
         ds_Text := plural (int (length vids)) ''VLAN'' ''VLANs'' @ '' '' @ list @ '': no DHCP scope'',
         ds_Fields := [(''vids'', list)]\<rparr>)"

section \<open>Silence\<close>

definition idleAbsence :: int where "idleAbsence = 300 * second"

record idleDetector =
  id_iface :: string
  id_absence :: int
  id_lastPkts :: u64
  id_haveLast :: bool
  id_started :: "int option"
  id_lastTraffic :: int
  id_idle :: bool

definition newIdleDetector :: "string \<Rightarrow> idleDetector" where
  "newIdleDetector iface =
    \<lparr>id_iface = iface, id_absence = idleAbsence, id_lastPkts = 0, id_haveLast = False, id_started = None,
     id_lastTraffic = 0, id_idle = False\<rparr>"

definition minutes_text :: "int \<Rightarrow> string" where
  "minutes_text d = netmon_itoa (d div (60 * second)) @ ''m+''"

definition idle_count :: "u64 \<Rightarrow> int \<Rightarrow> idleDetector \<Rightarrow> idleDetector" where
  "idle_count cur now d =
    (if \<not> id_haveLast d then d\<lparr>id_haveLast := True, id_lastPkts := cur, id_lastTraffic := now\<rparr>
     else if cur \<noteq> id_lastPkts d then d\<lparr>id_lastPkts := cur, id_lastTraffic := now\<rparr> else d)"

definition idle_Tick :: "u64 option option \<Rightarrow> int \<Rightarrow> idleDetector \<Rightarrow> Event list \<times> idleDetector" where
  "idle_Tick rx now d =
    (case rx of None \<Rightarrow> ([], d) | Some None \<Rightarrow> ([], d)
     | Some (Some cur) \<Rightarrow>
        let started = (case id_started d of None \<Rightarrow> now | Some t \<Rightarrow> t);
            d = idle_count cur now (d\<lparr>id_started := Some started\<rparr>);
            silent = (id_absence d \<le> now - id_lastTraffic d) in
        if now - started < id_absence d then ([], d)
        else if silent \<and> \<not> id_idle d then
          ([\<lparr>ev_Action = ''No traffic on interface'', ev_Target = id_iface d, ev_Before = ''active'',
             ev_After = ''silent for '' @ minutes_text (id_absence d), ev_Severity = SevWarn\<rparr>], d\<lparr>id_idle := True\<rparr>)
        else if \<not> silent \<and> id_idle d then
          ([\<lparr>ev_Action = ''Traffic resumed on interface'', ev_Target = id_iface d, ev_Before = ''silent'',
             ev_After = ''active'', ev_Severity = SevInfo\<rparr>], d\<lparr>id_idle := False\<rparr>)
        else ([], d))"

definition idle_Snapshot :: "idleDetector \<Rightarrow> DetectorSnapshot" where
  "idle_Snapshot d =
    (let s = \<lparr>ds_Kind = ''idle'', ds_Severity = SevOK, ds_Subject = id_iface d, ds_Text = [], ds_Fields = []\<rparr> in
     if id_idle d then
       s\<lparr>ds_Severity := SevWarn, ds_Text := ''No network activity ('' @ minutes_text (id_absence d) @ '')''\<rparr>
     else s\<lparr>ds_Text := ''Active network traffic''\<rparr>)"

section \<open>Storms and spanning-tree churn\<close>

definition defaultStormPPS :: int where "defaultStormPPS = 5000"
definition stpChurnWindow :: int where "stpChurnWindow = 30 * second"
definition stpChurnThreshold :: nat where "stpChurnThreshold = 5"
definition macSTP :: "byte list" where "macSTP = [0x01, 0x80, 0xc2, 0x00, 0x00, 0x00]"

record stormDetector =
  st_iface :: string
  st_threshold :: int
  st_lastPkts :: u64
  st_lastTick :: int
  st_haveLast :: bool
  st_curPPS :: int
  st_highRuns :: int
  st_storming :: bool
  st_tcnTimes :: "int list"
  st_churning :: bool
  st_framesFrozen :: bool

definition newStormDetector :: "string \<Rightarrow> int \<Rightarrow> stormDetector" where
  "newStormDetector iface threshold =
    \<lparr>st_iface = iface, st_threshold = (if threshold \<le> 0 then defaultStormPPS else threshold), st_lastPkts = 0,
     st_lastTick = 0, st_haveLast = False, st_curPPS = 0, st_highRuns = 0, st_storming = False, st_tcnTimes = [],
     st_churning = False, st_framesFrozen = False\<rparr>"

definition setFramesDropped :: "bool \<Rightarrow> stormDetector \<Rightarrow> stormDetector" where
  "setFramesDropped dropping d = d\<lparr>st_framesFrozen := dropping\<rparr>"

definition storm_Consume :: "Frame \<Rightarrow> int \<Rightarrow> stormDetector \<Rightarrow> stormDetector" where
  "storm_Consume f now d =
    (let b = fr_Data f; bpduOff = ethHdrLen + 3 in
     if dstMAC b \<noteq> Some macSTP then d
     else if length b \<le> bpduOff + 4 then d
     else let bpduType = b ! (bpduOff + 3); flags = b ! (bpduOff + 4) in
       if bpduType = 0x80 \<or> ((bpduType = 0x00 \<or> bpduType = 0x02) \<and> flags AND 0x01 \<noteq> 0)
       then d\<lparr>st_tcnTimes := st_tcnTimes d @ [now]\<rparr> else d)"

text \<open>The float64 quotient of a packet delta and a time delta is the parameter \<open>rate\<close>.\<close>

definition storm_count :: "(u64 \<Rightarrow> int \<Rightarrow> int) \<Rightarrow> u64 option option \<Rightarrow> int \<Rightarrow> stormDetector \<Rightarrow> stormDetector" where
  "storm_count rate rx now d =
    (case rx of
       None \<Rightarrow> d
     | Some None \<Rightarrow> d\<lparr>st_curPPS := 0, st_haveLast := False\<rparr>
     | Some (Some cur) \<Rightarrow>
        if st_haveLast d \<and> st_lastPkts d \<le> cur then
          d\<lparr>st_curPPS := (if now - st_lastTick d > 0 then rate (cur - st_lastPkts d) (now - st_lastTick d) else st_curPPS d),
            st_lastPkts := cur, st_lastTick := now\<rparr>
        else d\<lparr>st_curPPS := 0, st_lastPkts := cur, st_lastTick := now, st_haveLast := True\<rparr>)"

definition storm_volume :: "(u64 \<Rightarrow> int \<Rightarrow> int) \<Rightarrow> u64 option option \<Rightarrow> int \<Rightarrow> stormDetector \<Rightarrow> Event list \<times> stormDetector" where
  "storm_volume rate rx now d =
    (let d = storm_count rate rx now d;
         d = d\<lparr>st_highRuns := (if st_threshold d \<le> st_curPPS d then st_highRuns d + 1 else 0)\<rparr> in
     if \<not> st_storming d \<and> st_highRuns d \<ge> 2 then
       ([\<lparr>ev_Action = ''Broadcast storm detected'', ev_Target = st_iface d, ev_Before = ''stable'',
          ev_After = netmon_itoa (st_curPPS d) @ '' pps'', ev_Severity = SevWarn\<rparr>], d\<lparr>st_storming := True\<rparr>)
     else if st_storming d \<and> st_curPPS d < st_threshold d then
       ([\<lparr>ev_Action = ''Broadcast storm cleared'', ev_Target = st_iface d, ev_Before = ''storming'',
          ev_After = netmon_itoa (st_curPPS d) @ '' pps'', ev_Severity = SevInfo\<rparr>], d\<lparr>st_storming := False\<rparr>)
     else ([], d))"

definition stp_churn :: "int \<Rightarrow> stormDetector \<Rightarrow> Event list \<times> stormDetector" where
  "stp_churn now d =
    (if st_framesFrozen d then ([], d)
     else let d = d\<lparr>st_tcnTimes := pruneBefore (st_tcnTimes d) (now - stpChurnWindow)\<rparr>;
         churn = (stpChurnThreshold \<le> length (st_tcnTimes d)) in
       if churn \<and> \<not> st_churning d then
         ([\<lparr>ev_Action = ''STP topology churn'', ev_Target = st_iface d, ev_Before = ''stable'',
            ev_After = netmon_itoa (int (length (st_tcnTimes d))) @ '' changes/'' @ netmon_itoa (stpChurnWindow div second) @ ''s'',
            ev_Severity = SevWarn\<rparr>], d\<lparr>st_churning := True\<rparr>)
       else if \<not> churn \<and> st_churning d then
         ([\<lparr>ev_Action = ''STP topology stabilized'', ev_Target = st_iface d, ev_Before = ''churning'',
            ev_After = ''stable'', ev_Severity = SevInfo\<rparr>], d\<lparr>st_churning := False\<rparr>)
       else ([], d))"

definition storm_Tick :: "(u64 \<Rightarrow> int \<Rightarrow> int) \<Rightarrow> u64 option option \<Rightarrow> int \<Rightarrow> stormDetector \<Rightarrow> Event list \<times> stormDetector" where
  "storm_Tick rate rx now d =
    (let (evs, d1) = storm_volume rate rx now d; (evs', d2) = stp_churn now d1 in (evs @ evs', d2))"

definition storm_Snapshot :: "stormDetector \<Rightarrow> DetectorSnapshot" where
  "storm_Snapshot d =
    (let s = \<lparr>ds_Kind = ''storm'', ds_Severity = SevOK, ds_Subject = st_iface d, ds_Text = [], ds_Fields = []\<rparr> in
     if st_storming d then
       s\<lparr>ds_Severity := SevWarn, ds_Text := ''Broadcast storm - '' @ netmon_itoa (st_curPPS d) @ '' pps'',
         ds_Fields := [(''pps'', netmon_itoa (st_curPPS d))]\<rparr>
     else if st_churning d then
       s\<lparr>ds_Severity := SevWarn, ds_Text := ''STP topology churn'',
         ds_Fields := [(''changes'', netmon_itoa (int (length (st_tcnTimes d))))]\<rparr>
     else s\<lparr>ds_Text := ''No broadcast storm'', ds_Fields := [(''pps'', netmon_itoa (st_curPPS d))]\<rparr>)"

section \<open>The switch neighbour\<close>

definition macCDP :: "byte list" where "macCDP = [0x01, 0x00, 0x0c, 0xcc, 0xcc, 0xcc]"
definition maxWireName :: nat where "maxWireName = 96"
definition cdpTLVStart :: nat where "cdpTLVStart = 26"

record lldpDetector =
  ll_iface :: string
  ll_present :: bool
  ll_announced :: bool
  ll_everPresent :: bool
  ll_sysName :: string
  ll_portID :: string
  ll_nativeVLAN :: int
  ll_via :: string

definition newLLDPDetector :: "string \<Rightarrow> lldpDetector" where
  "newLLDPDetector iface =
    \<lparr>ll_iface = iface, ll_present = False, ll_announced = False, ll_everPresent = False, ll_sysName = [],
     ll_portID = [], ll_nativeVLAN = 0, ll_via = []\<rparr>"

definition printable_byte :: "byte \<Rightarrow> bool" where
  "printable_byte c \<longleftrightarrow> \<not> (c < 0x20 \<or> c > 0x7e)"

definition printableID :: "byte list \<Rightarrow> string" where
  "printableID v0 =
    (let truncated = maxWireName < length v0; v = take maxWireName v0; dots = (if truncated then ''..'' else []) in
     if v \<noteq> [] \<and> list_all printable_byte v then map byte_char v @ dots
     else Join (map byte_hex v) '':'' @ dots)"

definition lldp_tlv :: "nat \<Rightarrow> byte list \<Rightarrow> lldpDetector \<Rightarrow> lldpDetector" where
  "lldp_tlv typ v d =
    (if typ = 2 then
       (if length v > 1 then (let p = printableID (drop 1 v) in if p \<noteq> [] then d\<lparr>ll_portID := p\<rparr> else d) else d)
     else if typ = 5 then (let s = printableID v in if s \<noteq> [] then d\<lparr>ll_sysName := s\<rparr> else d)
     else if typ = 127 \<and> length v \<ge> 6 \<and> take 4 v = [0x00, 0x80, 0xc2, 1] then
       (let vid = uint (be16 v 4) in if vid > 0 then d\<lparr>ll_nativeVLAN := vid\<rparr> else d)
     else d)"

function parseLLDP :: "byte list \<Rightarrow> nat \<Rightarrow> lldpDetector \<Rightarrow> lldpDetector" where
  "parseLLDP b i d =
    (if length b < i + 2 then d
     else let hdr = be16 b i; typ = unat (drop_bit 9 hdr); len = unat (hdr AND 0x01ff); j = i + 2 in
       if typ = 0 \<or> length b < j + len then d
       else parseLLDP b (j + len) (lldp_tlv typ (take len (drop j b)) d))"
  by pat_completeness auto
termination by (relation "measure (\<lambda>(b, i, d). length b - i)") auto

declare parseLLDP.simps [simp del]

definition cdp_tlv :: "u16 \<Rightarrow> byte list \<Rightarrow> lldpDetector \<Rightarrow> lldpDetector" where
  "cdp_tlv typ v d =
    (if typ = 0x0001 then (let s = printableID v in if s \<noteq> [] then d\<lparr>ll_sysName := s\<rparr> else d)
     else if typ = 0x0003 then (let p = printableID v in if p \<noteq> [] then d\<lparr>ll_portID := p\<rparr> else d)
     else d)"

function parseCDP :: "byte list \<Rightarrow> nat \<Rightarrow> lldpDetector \<Rightarrow> lldpDetector" where
  "parseCDP b i d =
    (if length b < i + 4 then d
     else let typ = be16 b i; len = unat (be16 b (i + 2)) in
       if len < 4 \<or> length b < i + len then d
       else parseCDP b (i + len) (cdp_tlv typ (take (len - 4) (drop (i + 4) b)) d))"
  by pat_completeness auto
termination by (relation "measure (\<lambda>(b, i, d). length b - i)") auto

declare parseCDP.simps [simp del]

definition lldp_Consume :: "Frame \<Rightarrow> lldpDetector \<Rightarrow> lldpDetector" where
  "lldp_Consume f d =
    (case etherInfo (fr_Data f) of
       None \<Rightarrow> d
     | Some (et, off, _) \<Rightarrow>
        if et = etherTypeLLDP then
          (parseLLDP (drop off (fr_Data f)) 0 d)\<lparr>ll_via := ''LLDP'', ll_present := True, ll_everPresent := True\<rparr>
        else if dstMAC (fr_Data f) = Some macCDP then
          (parseCDP (fr_Data f) cdpTLVStart d)\<lparr>ll_via := ''CDP'', ll_present := True, ll_everPresent := True\<rparr>
        else d)"

definition neighborLabel :: "lldpDetector \<Rightarrow> string" where
  "neighborLabel d =
    (if ll_sysName d = [] then ''unknown switch''
     else if ll_portID d \<noteq> [] then ll_sysName d @ '' / '' @ ll_portID d
     else ll_sysName d)"

definition lldp_Tick :: "bool \<Rightarrow> lldpDetector \<Rightarrow> Event list \<times> lldpDetector" where
  "lldp_Tick linkUp d =
    (if ll_present d \<and> \<not> linkUp then
       ([\<lparr>ev_Action = ''Switch neighbor lost'', ev_Target = ll_iface d, ev_Before = neighborLabel d,
          ev_After = ''link down'', ev_Severity = SevInfo\<rparr>], d\<lparr>ll_present := False, ll_announced := False\<rparr>)
     else if ll_present d \<and> \<not> ll_announced d then
       ([\<lparr>ev_Action = ''Switch neighbor seen'', ev_Target = ll_iface d, ev_Before = ''none'',
          ev_After = neighborLabel d, ev_Severity = SevInfo\<rparr>], d\<lparr>ll_announced := True\<rparr>)
     else ([], d))"

definition lldp_Snapshot :: "lldpDetector \<Rightarrow> DetectorSnapshot" where
  "lldp_Snapshot d =
    (let s = \<lparr>ds_Kind = ''lldp'', ds_Severity = SevInfo, ds_Subject = ll_iface d, ds_Text = [], ds_Fields = []\<rparr> in
     if ll_present d then
       s\<lparr>ds_Severity := SevOK, ds_Subject := neighborLabel d, ds_Text := ''Uplink: '' @ neighborLabel d,
         ds_Fields := [(''switch'', ll_sysName d), (''port'', ll_portID d), (''via'', ll_via d)]
           @ (if ll_nativeVLAN d > 0 then [(''native_vlan'', netmon_itoa (ll_nativeVLAN d))] else [])\<rparr>
     else if ll_everPresent d then s\<lparr>ds_Text := ''Switch neighbor lost (link down)''\<rparr>
     else s\<lparr>ds_Text := ''No LLDP/CDP neighbor seen''\<rparr>)"

section \<open>PTP grandmasters\<close>

definition defaultPTPAbsence :: int where "defaultPTPAbsence = 15 * second"
definition ptpChurnWindow :: int where "ptpChurnWindow = 60 * second"
definition ptpChurnThreshold :: nat where "ptpChurnThreshold = 3"

record ptpGM =
  pg_pres :: presence
  pg_identity :: string
  pg_priority1 :: byte
  pg_priority2 :: byte
  pg_clockClass :: byte
  pg_present :: bool

record ptpDomain =
  pd_gms :: "(u64 \<times> ptpGM) list"
  pd_everPopulated :: bool
  pd_lossTimes :: "int list"

record ptpDetector =
  pt_iface :: string
  pt_absence :: int
  pt_domains :: "(byte \<times> ptpDomain) list"

definition newPTPDetector :: "string \<Rightarrow> int \<Rightarrow> ptpDetector" where
  "newPTPDetector iface absence =
    \<lparr>pt_iface = iface, pt_absence = (if absence \<le> 0 then defaultPTPAbsence else absence), pt_domains = []\<rparr>"

definition ptpPayload :: "byte list \<Rightarrow> byte list option" where
  "ptpPayload b =
    (case etherInfo b of
       None \<Rightarrow> None
     | Some (et, off, _) \<Rightarrow>
        if et = etherTypePTP then Some (drop off b)
        else if et \<noteq> etherTypeIPv4 then None
        else (case ipv4Info b off of
            None \<Rightarrow> None
          | Some h \<Rightarrow>
              if ip_proto h \<noteq> ipProtoUDP then None
              else (case udpPorts b (ip_l4 h) of
                  None \<Rightarrow> None
                | Some (_, dport, payload) \<Rightarrow>
                    if dport \<noteq> 319 \<and> dport \<noteq> 320 then None else Some (drop payload b))))"

definition new_domain :: ptpDomain where
  "new_domain = \<lparr>pd_gms = [], pd_everPopulated = False, pd_lossTimes = []\<rparr>"

definition announce :: "byte list \<Rightarrow> int \<Rightarrow> ptpGM \<Rightarrow> ptpGM" where
  "announce ptp now g = g\<lparr>pg_priority1 := ptp ! 47, pg_priority2 := ptp ! 52, pg_clockClass := ptp ! 48,
     pg_pres := sighting now (pg_pres g)\<rparr>"

definition ptp_Consume :: "Frame \<Rightarrow> int \<Rightarrow> ptpDetector \<Rightarrow> ptpDetector" where
  "ptp_Consume f now d =
    (case ptpPayload (fr_Data f) of
       None \<Rightarrow> d
     | Some ptp \<Rightarrow>
        if length ptp < 61 then d
        else if ptp ! 0 AND 0x0f \<noteq> 0x0b then d
        else let domain = ptp ! 4; identity = be64 ptp 53;
            pd = (case map_of (pt_domains d) domain of Some x \<Rightarrow> x | None \<Rightarrow> new_domain);
            fresh = \<lparr>pg_pres = newPresence 0 (pt_absence d), pg_identity = hex64 identity, pg_priority1 = 0,
              pg_priority2 = 0, pg_clockClass = 0, pg_present = False\<rparr>
          in d\<lparr>pt_domains := AList.update domain
              (pd\<lparr>pd_gms := touch maxPTPGMs (\<lambda>g. pr_lastSeen (pg_pres g)) fresh (announce ptp now) identity (pd_gms pd)\<rparr>)
              (pt_domains d)\<rparr>)"

definition domainGMCount :: "ptpDomain \<Rightarrow> nat" where
  "domainGMCount pd = length (filter (\<lambda>x. pg_present (snd x)) (pd_gms pd))"

definition ptp_target :: "string \<Rightarrow> byte \<Rightarrow> string" where
  "ptp_target iface domain = iface @ '' domain '' @ netmon_itoa (uint domain)"

definition ptp_tick_gm :: "string \<Rightarrow> byte \<Rightarrow> int \<Rightarrow> u64 \<Rightarrow> Event list \<times> ptpDomain \<Rightarrow> Event list \<times> ptpDomain" where
  "ptp_tick_gm iface domain now i acc =
    (let (evs, pd) = acc in
     case map_of (pd_gms pd) i of
       None \<Rightarrow> (evs, pd)
     | Some g \<Rightarrow>
        let (e, p) = transition now (pg_pres g) in
        if e = 1 then
          (evs @ [\<lparr>ev_Action = ''PTP grandmaster seen'', ev_Target = ptp_target iface domain, ev_Before = ''none'',
             ev_After = pg_identity g, ev_Severity = SevInfo\<rparr>],
           pd\<lparr>pd_gms := AList.update i (g\<lparr>pg_pres := p, pg_present := True\<rparr>) (pd_gms pd), pd_everPopulated := True\<rparr>)
        else if e = -1 then
          (let pd' = pd\<lparr>pd_gms := AList.delete i (pd_gms pd), pd_lossTimes := pd_lossTimes pd @ [now]\<rparr> in
           (evs @ [\<lparr>ev_Action = ''PTP grandmaster lost'', ev_Target = ptp_target iface domain,
              ev_Before = pg_identity g, ev_After = ''none'',
              ev_Severity = (if domainGMCount pd' = 0 then SevWarn else SevInfo)\<rparr>], pd'))
        else (evs, pd\<lparr>pd_gms := AList.update i (g\<lparr>pg_pres := p\<rparr>) (pd_gms pd)\<rparr>))"

definition ptp_tick_domain :: "string \<Rightarrow> int \<Rightarrow> byte \<times> ptpDomain \<Rightarrow> Event list \<times> (byte \<times> ptpDomain)" where
  "ptp_tick_domain iface now x =
    (let (domain, pd) = x;
         (evs, pd1) = fold (ptp_tick_gm iface domain now) (map fst (pd_gms pd)) ([], pd)
     in (evs, (domain, pd1\<lparr>pd_lossTimes := pruneBefore (pd_lossTimes pd1) (now - ptpChurnWindow)\<rparr>)))"

definition ptp_Tick :: "int \<Rightarrow> ptpDetector \<Rightarrow> Event list \<times> ptpDetector" where
  "ptp_Tick now d =
    (let rs = map (ptp_tick_domain (pt_iface d) now) (sort_key fst (pt_domains d))
     in (concat (map fst rs), d\<lparr>pt_domains := map snd rs\<rparr>))"

record domState =
  dm_domain :: byte
  dm_count :: nat
  dm_churn :: bool
  dm_empty :: bool
  dm_gm :: "ptpGM option"

definition dom_state :: "byte \<times> ptpDomain \<Rightarrow> domState" where
  "dom_state x =
    (let (dn, pd) = x; count = domainGMCount pd in
     \<lparr>dm_domain = dn, dm_count = count, dm_churn = (ptpChurnThreshold \<le> length (pd_lossTimes pd)),
      dm_empty = (count = 0 \<and> pd_everPopulated pd),
      dm_gm = (if count = 0 then None else List.find pg_present (map snd (pd_gms pd)))\<rparr>)"

type_synonym headline = "Severity \<times> string \<times> string \<times> ptpGM option"

definition headline_step :: "domState \<Rightarrow> headline \<Rightarrow> headline" where
  "headline_step st acc =
    (let (sev, txt, subject, gm) = acc; n = netmon_itoa (uint (dm_domain st)) in
     if dm_empty st \<or> dm_churn st then
       (if sev \<noteq> SevWarn then
          (SevWarn, (if dm_empty st then ''PTP grandmaster lost in domain '' else ''PTP grandmaster contention in domain '') @ n,
           ''domain '' @ n, dm_gm st)
        else acc)
     else if dm_count st > 1 then
       (if sev = SevOK then
          (SevInfo, netmon_itoa (int (dm_count st)) @ '' PTP grandmasters in domain '' @ n @ '' (failover)'',
           ''domain '' @ n, dm_gm st)
        else acc)
     else (case dm_gm st of
         Some g \<Rightarrow> if sev = SevOK \<and> txt = [] then
             (sev, ''PTP GM '' @ pg_identity g @ '' (domain '' @ n @ '')'', ''domain '' @ n, Some g) else acc
       | None \<Rightarrow> acc))"

definition ptp_Snapshot :: "ptpDetector \<Rightarrow> DetectorSnapshot" where
  "ptp_Snapshot d =
    (let states = map dom_state (sort_key fst (pt_domains d));
         s = \<lparr>ds_Kind = ''ptp'', ds_Severity = SevOK, ds_Subject = pt_iface d, ds_Text = [], ds_Fields = []\<rparr> in
     if states = [] then s\<lparr>ds_Severity := SevInfo, ds_Text := ''No PTP grandmaster seen''\<rparr>
     else let (sev, txt, subject, gm) = fold headline_step states (SevOK, [], pt_iface d, None) in
       s\<lparr>ds_Severity := sev, ds_Text := txt, ds_Subject := subject,
         ds_Fields := (''domains'', netmon_itoa (int (length states)))
           # (case gm of Some g \<Rightarrow> [(''clockClass'', netmon_itoa (uint (pg_clockClass g)))] | None \<Rightarrow> [])\<rparr>)"

section \<open>The alarm contract\<close>

text \<open>An alarm is a flag of a state; a step may raise one row when it sets the flag and one when
  it clears it.  The rows of any run then alternate and follow the flag.\<close>

fun rows_alternate :: "bool \<Rightarrow> string \<Rightarrow> string \<Rightarrow> string list \<Rightarrow> bool" where
  "rows_alternate on up down [] = True"
| "rows_alternate on up down (a # as) = (a = (if on then down else up) \<and> rows_alternate (\<not> on) up down as)"

text \<open>The rows of a run, restricted to the given actions, and its last state.\<close>

fun rows_of :: "('i \<Rightarrow> 's \<Rightarrow> Event list \<times> 's) \<Rightarrow> string set \<Rightarrow> 'i list \<Rightarrow> 's \<Rightarrow> string list" where
  "rows_of step acts [] s = []"
| "rows_of step acts (i # is) s =
     map ev_Action (filter (\<lambda>e. ev_Action e \<in> acts) (fst (step i s))) @ rows_of step acts is (snd (step i s))"

fun state_after :: "('i \<Rightarrow> 's \<Rightarrow> Event list \<times> 's) \<Rightarrow> 'i list \<Rightarrow> 's \<Rightarrow> 's" where
  "state_after step [] s = s"
| "state_after step (i # is) s = state_after step is (snd (step i s))"

definition rows_tell :: "('s \<Rightarrow> bool) \<Rightarrow> ('i \<Rightarrow> 's \<Rightarrow> Event list \<times> 's) \<Rightarrow> string \<Rightarrow> string \<Rightarrow> 'i list \<Rightarrow> 's \<Rightarrow> bool" where
  "rows_tell on step up down is s \<longleftrightarrow>
     (let rows = rows_of step {up, down} is s in
      rows_alternate (on s) up down rows
      \<and> on (state_after step is s) = (case rows of [] \<Rightarrow> on s | _ \<Rightarrow> last rows = up))"

locale alarm =
  fixes on :: "'s \<Rightarrow> bool" and step :: "'i \<Rightarrow> 's \<Rightarrow> Event list \<times> 's" and up down :: string
  assumes edge: "map ev_Action (filter (\<lambda>e. ev_Action e \<in> {up, down}) (fst (step i s)))
        = (if on s then (if on (snd (step i s)) then [] else [down]) else (if on (snd (step i s)) then [up] else []))"
    and rows_differ: "up \<noteq> down"
begin

lemma rows_alternate: "rows_alternate (on s) up down (rows_of step {up, down} is s)"
proof (induction "is" arbitrary: s)
  case (Cons i "is")
  have "rows_of step {up, down} (i # is) s
      = (if on s then (if on (snd (step i s)) then [] else [down]) else (if on (snd (step i s)) then [up] else []))
        @ rows_of step {up, down} is (snd (step i s))"
    by (simp only: rows_of.simps edge)
  then show ?case using Cons.IH [of "snd (step i s)"] by (cases "on (snd (step i s))") simp_all
qed simp

lemma rows_follow:
  "on (state_after step is s) = (case rows_of step {up, down} is s of [] \<Rightarrow> on s | rs \<Rightarrow> last rs = up)"
proof (induction "is" arbitrary: s)
  case (Cons i "is")
  have "rows_of step {up, down} (i # is) s
      = (if on s then (if on (snd (step i s)) then [] else [down]) else (if on (snd (step i s)) then [up] else []))
        @ rows_of step {up, down} is (snd (step i s))"
    by (simp only: rows_of.simps edge)
  then show ?case using Cons.IH [of "snd (step i s)"] rows_differ
    by (cases "on (snd (step i s))"; cases "on s") (auto split: list.splits)
qed simp

lemma rows_tell: "rows_tell on step up down is s"
  using rows_alternate [of s "is"] rows_follow [of "is" s] by (auto simp: rows_tell_def Let_def split: list.splits)

end

text \<open>The inputs of a detector: a frame, or a tick with what it reads.\<close>

datatype 'c wire = Heard Frame int | Clock 'c int | Dropping bool

fun igmp_step :: "unit wire \<Rightarrow> igmpDetector \<Rightarrow> Event list \<times> igmpDetector" where
  "igmp_step (Heard f now) d = ([], igmp_Consume f now d)"
| "igmp_step (Clock u now) d = igmp_Tick now d"
| "igmp_step (Dropping b) d = ([], d)"

fun idle_step :: "u64 option option wire \<Rightarrow> idleDetector \<Rightarrow> Event list \<times> idleDetector" where
  "idle_step (Heard f now) d = ([], d)"
| "idle_step (Clock rx now) d = idle_Tick rx now d"
| "idle_step (Dropping b) d = ([], d)"

fun storm_step :: "(u64 \<Rightarrow> int \<Rightarrow> int) \<Rightarrow> u64 option option wire \<Rightarrow> stormDetector \<Rightarrow> Event list \<times> stormDetector" where
  "storm_step rate (Heard f now) d = ([], storm_Consume f now d)"
| "storm_step rate (Clock rx now) d = storm_Tick rate rx now d"
| "storm_step rate (Dropping b) d = ([], setFramesDropped b d)"

lemma igmp_present_frame: "pr_present (ig_pres (igmp_Consume f now d)) = pr_present (ig_pres d)"
  by (simp add: igmp_Consume_def Let_def split: option.split)

interpretation querier: alarm "\<lambda>d. pr_present (ig_pres d)" igmp_step "''IGMP querier present''" "''IGMP querier lost''"
proof
  fix i :: "unit wire" and d
  show "map ev_Action (filter (\<lambda>e. ev_Action e \<in> {''IGMP querier present'', ''IGMP querier lost''}) (fst (igmp_step i d)))
    = (if pr_present (ig_pres d) then if pr_present (ig_pres (snd (igmp_step i d))) then [] else [''IGMP querier lost'']
       else if pr_present (ig_pres (snd (igmp_step i d))) then [''IGMP querier present''] else [])"
    by (cases i) (auto simp: igmp_present_frame igmp_Tick_def transition_def Let_def split: if_splits)
qed simp

interpretation silence: alarm id_idle idle_step "''No traffic on interface''" "''Traffic resumed on interface''"
proof
  fix i :: "u64 option option wire" and d
  show "map ev_Action (filter (\<lambda>e. ev_Action e \<in> {''No traffic on interface'', ''Traffic resumed on interface''}) (fst (idle_step i d)))
    = (if id_idle d then if id_idle (snd (idle_step i d)) then [] else [''Traffic resumed on interface'']
       else if id_idle (snd (idle_step i d)) then [''No traffic on interface''] else [])"
    by (cases i) (auto simp: idle_Tick_def idle_count_def Let_def split: if_splits option.splits)
qed simp

lemma storm_frame [simp]: "st_storming (storm_Consume f now d) = st_storming d" "st_churning (storm_Consume f now d) = st_churning d"
  by (simp_all add: storm_Consume_def Let_def)

lemma storm_count_flags [simp]:
  "st_storming (storm_count rate rx now d) = st_storming d" "st_churning (storm_count rate rx now d) = st_churning d"
  by (simp_all add: storm_count_def split: option.split)

lemma volume_rows:
  assumes "storm_volume rate rx now d = (evs, d')"
  shows "map ev_Action evs = (if st_storming d then (if st_storming d' then [] else [''Broadcast storm cleared''])
      else (if st_storming d' then [''Broadcast storm detected''] else []))" "st_churning d' = st_churning d"
  using assms by (auto simp: storm_volume_def Let_def split: if_splits)

lemma churn_rows:
  assumes "stp_churn now d = (evs, d')"
  shows "map ev_Action evs = (if st_churning d then (if st_churning d' then [] else [''STP topology stabilized''])
      else (if st_churning d' then [''STP topology churn''] else []))" "st_storming d' = st_storming d"
  using assms by (auto simp: stp_churn_def Let_def split: if_splits)

lemma map_filter_actions: "map ev_Action (filter (\<lambda>e. ev_Action e \<in> A) evs) = filter (\<lambda>a. a \<in> A) (map ev_Action evs)"
  by (induction evs) auto

lemma storm_rows:
  "filter (\<lambda>a. a \<in> {''Broadcast storm detected'', ''Broadcast storm cleared''}) (map ev_Action (fst (storm_step rate i d)))
    = (if st_storming d then if st_storming (snd (storm_step rate i d)) then [] else [''Broadcast storm cleared'']
       else if st_storming (snd (storm_step rate i d)) then [''Broadcast storm detected''] else [])"
  "filter (\<lambda>a. a \<in> {''STP topology churn'', ''STP topology stabilized''}) (map ev_Action (fst (storm_step rate i d)))
    = (if st_churning d then if st_churning (snd (storm_step rate i d)) then [] else [''STP topology stabilized'']
       else if st_churning (snd (storm_step rate i d)) then [''STP topology churn''] else [])"
proof -
  have "(filter (\<lambda>a. a \<in> {''Broadcast storm detected'', ''Broadcast storm cleared''}) (map ev_Action (fst (storm_step rate i d)))
      = (if st_storming d then if st_storming (snd (storm_step rate i d)) then [] else [''Broadcast storm cleared'']
         else if st_storming (snd (storm_step rate i d)) then [''Broadcast storm detected''] else []))
    \<and> (filter (\<lambda>a. a \<in> {''STP topology churn'', ''STP topology stabilized''}) (map ev_Action (fst (storm_step rate i d)))
      = (if st_churning d then if st_churning (snd (storm_step rate i d)) then [] else [''STP topology stabilized'']
         else if st_churning (snd (storm_step rate i d)) then [''STP topology churn''] else []))"
  proof (cases i)
    case (Clock rx now)
    obtain e1 d1 where v: "storm_volume rate rx now d = (e1, d1)" by fastforce
    obtain e2 d2 where c: "stp_churn now d1 = (e2, d2)" by fastforce
    show ?thesis
      using volume_rows [OF v] churn_rows [OF c] by (simp add: Clock storm_Tick_def v c)
  qed (simp_all add: setFramesDropped_def)
  then show "filter (\<lambda>a. a \<in> {''Broadcast storm detected'', ''Broadcast storm cleared''}) (map ev_Action (fst (storm_step rate i d)))
      = (if st_storming d then if st_storming (snd (storm_step rate i d)) then [] else [''Broadcast storm cleared'']
         else if st_storming (snd (storm_step rate i d)) then [''Broadcast storm detected''] else [])"
    "filter (\<lambda>a. a \<in> {''STP topology churn'', ''STP topology stabilized''}) (map ev_Action (fst (storm_step rate i d)))
      = (if st_churning d then if st_churning (snd (storm_step rate i d)) then [] else [''STP topology stabilized'']
         else if st_churning (snd (storm_step rate i d)) then [''STP topology churn''] else [])"
    by blast+
qed

interpretation storm: alarm st_storming "storm_step rate" "''Broadcast storm detected''" "''Broadcast storm cleared''" for rate
  by unfold_locales (simp only: map_filter_actions storm_rows, simp)

interpretation churn: alarm st_churning "storm_step rate" "''STP topology churn''" "''STP topology stabilized''" for rate
  by unfold_locales (simp only: map_filter_actions storm_rows, simp)

text \<open>Whatever frames, counters and dropped-frame notices a monitor feeds them, the audit rows
  of the querier, silence, storm and spanning-tree alarms strictly alternate between raised and
  cleared, starting from the current state, and the last row tells the state: no alarm is raised
  twice, none is cleared that was not raised, none is lost.\<close>

theorem link_alarms_alternate:
  "rows_tell (\<lambda>d. pr_present (ig_pres d)) igmp_step ''IGMP querier present'' ''IGMP querier lost'' is d
   \<and> rows_tell id_idle idle_step ''No traffic on interface'' ''Traffic resumed on interface'' js e
   \<and> rows_tell st_storming (storm_step rate) ''Broadcast storm detected'' ''Broadcast storm cleared'' js s
   \<and> rows_tell st_churning (storm_step rate) ''STP topology churn'' ''STP topology stabilized'' js s"
  by (intro conjI querier.rows_tell silence.rows_tell storm.rows_tell churn.rows_tell)

section \<open>Names off the wire\<close>

definition plain_text :: "string \<Rightarrow> bool" where
  "plain_text s \<longleftrightarrow> list_all (\<lambda>c. 0x20 \<le> (of_char c :: int) \<and> (of_char c :: int) \<le> 0x7e) s"

definition clean_name :: "string \<Rightarrow> bool" where
  "clean_name s \<longleftrightarrow> plain_text s \<and> length s \<le> 290"

lemma plain_append [simp]: "plain_text (a @ b) \<longleftrightarrow> plain_text a \<and> plain_text b"
  by (simp add: plain_text_def)

lemma plain_colon [simp]: "plain_text []" "plain_text (CHR '':'' # s) \<longleftrightarrow> plain_text s"
  by (simp_all add: plain_text_def)

lemma plain_byte: "printable_byte c \<Longrightarrow> plain_text [byte_char c]"
  by (simp add: printable_byte_def plain_text_def byte_char_def word_less_def not_less word_le_def)

lemma plain_digit:
  assumes "0 \<le> d" "d < 16" shows "plain_text [hex_digit d]"
proof -
  have "\<forall>d \<in> set [0..15]. plain_text [hex_digit d]" by code_simp
  moreover have "d \<in> set [0..15]" using assms by simp
  ultimately show ?thesis by blast
qed

lemma plain_hex: "plain_text (byte_hex x)" "length (byte_hex x) = 2"
proof -
  have "uint (drop_bit 4 x) = uint x div 16" "uint (x AND 0x0f) = uint x mod 16"
    using take_bit_eq_mask [of 4 "uint x"]
    by (simp_all add: drop_bit_eq_div uint_div_distrib unsigned_and_eq mask_eq_exp_minus_1 take_bit_eq_mod)
  moreover have "uint x div 16 < 16" using byte_less(2) [of x] by presburger
  ultimately show "plain_text (byte_hex x)"
    using plain_digit [of "uint (drop_bit 4 x)"] plain_digit [of "uint (x AND 0x0f)"]
    by (simp add: byte_hex_def plain_text_def pos_imp_zdiv_nonneg_iff)
  show "length (byte_hex x) = 2" by (simp add: byte_hex_def)
qed

lemma plain_join: "plain_text (Join (map byte_hex v) '':'')" "length (Join (map byte_hex v) '':'') \<le> 3 * length v"
proof -
  show "plain_text (Join (map byte_hex v) '':'')"
    by (induction v rule: induct_list012) (simp_all add: plain_hex)
  show "length (Join (map byte_hex v) '':'') \<le> 3 * length v"
    by (induction v rule: induct_list012) (simp_all add: plain_hex)
qed

lemma printableID_clean: "clean_name (printableID v)"
proof -
  let ?v = "take maxWireName v"
  have v: "length ?v \<le> 96" by (simp add: maxWireName_def)
  have "plain_text (map byte_char ?v)" if "list_all printable_byte ?v"
    using that plain_byte by (auto simp: plain_text_def list_all_iff)
  moreover have "length (Join (map byte_hex ?v) '':'') \<le> 288"
    using plain_join(2) [of ?v] v by linarith
  ultimately show ?thesis
    using plain_join(1) [of ?v] v
    by (auto simp: printableID_def clean_name_def Let_def) (simp_all add: plain_text_def)
qed

definition names_clean :: "lldpDetector \<Rightarrow> bool" where
  "names_clean d \<longleftrightarrow> clean_name (ll_sysName d) \<and> clean_name (ll_portID d) \<and> 0 \<le> ll_nativeVLAN d \<and> ll_nativeVLAN d < 65536"

lemma tlv_clean: "names_clean d \<Longrightarrow> names_clean (lldp_tlv typ v d)" "names_clean d \<Longrightarrow> names_clean (cdp_tlv ct v d)"
  using uint_lt2p [of "be16 v 4"]
  by (auto simp: lldp_tlv_def cdp_tlv_def names_clean_def Let_def printableID_clean)

lemma parse_clean:
  "names_clean d \<Longrightarrow> names_clean (parseLLDP b i d)" "names_clean d \<Longrightarrow> names_clean (parseCDP b i d)"
proof -
  show "names_clean d \<Longrightarrow> names_clean (parseLLDP b i d)"
    by (induction b i d rule: parseLLDP.induct) (subst parseLLDP.simps, simp add: Let_def tlv_clean(1))
  show "names_clean d \<Longrightarrow> names_clean (parseCDP b i d)"
    by (induction b i d rule: parseCDP.induct) (subst parseCDP.simps, simp add: Let_def tlv_clean(2))
qed

fun lldp_step :: "bool wire \<Rightarrow> lldpDetector \<Rightarrow> Event list \<times> lldpDetector" where
  "lldp_step (Heard f now) d = ([], lldp_Consume f d)"
| "lldp_step (Clock linkUp now) d = lldp_Tick linkUp d"
| "lldp_step (Dropping b) d = ([], d)"

lemma lldp_step_clean:
  assumes "names_clean d" shows "names_clean (snd (lldp_step i d))"
  using assms
proof (cases i)
  case (Heard f now)
  then show ?thesis
    using assms parse_clean [OF assms] by (auto simp: lldp_Consume_def names_clean_def split: option.split)
qed (auto simp: lldp_Tick_def names_clean_def)

lemma plain_texts [simp]:
  "plain_text (x @ y) \<longleftrightarrow> plain_text x \<and> plain_text y" "plain_text []"
  "plain_text ''unknown switch''" "plain_text '' / ''" "plain_text ''Uplink: ''" "plain_text ''none''"
  "plain_text ''link down''" "plain_text ''LLDP''" "plain_text ''CDP''"
  "plain_text ''Switch neighbor lost (link down)''" "plain_text ''No LLDP/CDP neighbor seen''"
  by (auto simp: plain_text_def)

lemma plain_itoa: "0 \<le> n \<Longrightarrow> plain_text (netmon_itoa n)"
proof -
  assume n: "0 \<le> n"
  have "0x20 \<le> (of_char c :: int) \<and> (of_char c :: int) \<le> 0x7e" if "c \<in> set (dec_str n)" for c
    using dec_str_digits [OF n that] by (simp add: is_digit_def)
  then show ?thesis using n by (cases "n = 0") (simp_all add: netmon_itoa_def itoa_loop_dec plain_text_def list_all_iff)
qed

lemma label_clean:
  assumes "names_clean d"
  shows "plain_text (neighborLabel d) \<and> length (neighborLabel d) \<le> 583"
  using assms by (auto simp: neighborLabel_def names_clean_def clean_name_def simp del: append_Cons append_Nil)

lemma via_clean: "plain_text (ll_via d) \<Longrightarrow> plain_text (ll_via (snd (lldp_step i d)))"
proof -
  have "ll_via (lldp_tlv ty v d) = ll_via d" "ll_via (cdp_tlv ct v d) = ll_via d" for ty ct v d
    by (simp_all add: lldp_tlv_def cdp_tlv_def Let_def)
  then show "plain_text (ll_via d) \<Longrightarrow> plain_text (ll_via (snd (lldp_step i d)))"
    by (cases i) (simp_all add: lldp_Consume_def lldp_Tick_def split: option.split)
qed


text \<open>A link drop clears the latch but keeps the names: a second switch that advertises no
  system name is reported under the name of the first.\<close>

lemma names_survive_link_drop:
  "ll_sysName (snd (lldp_Tick linkUp d)) = ll_sysName d \<and> ll_portID (snd (lldp_Tick linkUp d)) = ll_portID d
   \<and> ll_nativeVLAN (snd (lldp_Tick linkUp d)) = ll_nativeVLAN d"
  by (simp add: lldp_Tick_def)

section \<open>VLANs and grandmasters\<close>

fun vlan_step :: "bool wire \<Rightarrow> vlanDetector \<Rightarrow> Event list \<times> vlanDetector" where
  "vlan_step (Heard f now) d = ([], vlan_Consume f now d)"
| "vlan_step (Clock linkUp now) d = vlan_Tick linkUp now d"
| "vlan_step (Dropping b) d = ([], d)"

definition vids :: "vlanDetector \<Rightarrow> int set" where
  "vids d = fst ` set (vd_seen d)"

definition vlan_inv :: "vlanDetector \<Rightarrow> bool" where
  "vlan_inv d \<longleftrightarrow> distinct (map fst (vd_seen d)) \<and> 0 \<notin> vids d \<and> vids d \<inter> set (vd_configured d) = {}
     \<and> set (vd_announced d) \<subseteq> vids d"

lemma vids_upd [simp]:
  "fst ` set (AList.delete v m) = fst ` set m - {v}" "fst ` set (AList.update v t m) = insert v (fst ` set m)"
proof -
  show "fst ` set (AList.delete v m) = fst ` set m - {v}"
    using arg_cong [OF delete_keys [of v m], of set] by simp
  show "fst ` set (AList.update v t m) = insert v (fst ` set m)"
    using arg_cong [OF update_keys [of v t m], of set] by auto
qed

definition vlan_row_ok :: "int list \<Rightarrow> Event \<Rightarrow> bool" where
  "vlan_row_ok configured e \<longleftrightarrow> (\<exists>v. ev_Target e = ''VID '' @ netmon_itoa v \<and> v \<noteq> 0 \<and> v \<notin> set configured)"

definition vlan_acc_ok :: "int list \<Rightarrow> Event list \<times> vlanDetector \<Rightarrow> bool" where
  "vlan_acc_ok configured acc \<longleftrightarrow> vlan_inv (snd acc) \<and> vd_configured (snd acc) = configured
     \<and> list_all (vlan_row_ok configured) (fst acc)"

lemma vlan_tick_one_ok:
  assumes "vlan_acc_ok cs acc" "v \<in> vids (snd acc)"
  shows "vlan_acc_ok cs (vlan_tick_one now v acc) \<and> vids (snd acc) - {v} \<subseteq> vids (snd (vlan_tick_one now v acc))"
proof -
  have "vlan_row_ok cs e" if "ev_Target e = ''VID '' @ netmon_itoa v" for e
    using assms that by (auto simp: vlan_acc_ok_def vlan_inv_def vlan_row_ok_def)
  then show ?thesis
    using assms
    by (auto simp: vlan_tick_one_def vlan_acc_ok_def vlan_inv_def vids_def Let_def split_beta distinct_delete)
qed

lemma vlan_fold_ok:
  "distinct vs \<Longrightarrow> set vs \<subseteq> vids (snd acc) \<Longrightarrow> vlan_acc_ok cs acc \<Longrightarrow> vlan_acc_ok cs (fold (vlan_tick_one now) vs acc)"
proof (induction vs arbitrary: acc)
  case (Cons v vs)
  have "vlan_acc_ok cs (vlan_tick_one now v acc)" "set vs \<subseteq> vids (snd (vlan_tick_one now v acc))"
    using Cons.prems vlan_tick_one_ok [of cs acc v now] by auto
  then show ?case using Cons.IH [of "vlan_tick_one now v acc"] Cons.prems by simp
qed simp

lemma vlan_step_ok:
  assumes "vlan_inv d"
  shows "vlan_inv (snd (vlan_step i d)) \<and> vd_configured (snd (vlan_step i d)) = vd_configured d
    \<and> list_all (vlan_row_ok (vd_configured d)) (fst (vlan_step i d))"
proof (cases i)
  case (Heard f now)
  then show ?thesis
    using assms by (auto simp: vlan_Consume_def vlan_inv_def vids_def Let_def distinct_update split: option.split)
next
  case (Clock linkUp now)
  have "vlan_acc_ok (vd_configured d) (fold (vlan_tick_one now) (sortedSeen d) ([], d))"
    using assms by (intro vlan_fold_ok) (auto simp: sortedSeen_def vids_def vlan_inv_def vlan_acc_ok_def)
  then show ?thesis
    using assms Clock by (auto simp: vlan_Tick_def vlan_acc_ok_def vlan_inv_def vids_def)
qed (use assms in simp)

text \<open>A run with the rows it emits.\<close>

fun wire_events :: "('i \<Rightarrow> 's \<Rightarrow> Event list \<times> 's) \<Rightarrow> 'i list \<Rightarrow> 's \<Rightarrow> Event list" where
  "wire_events step [] s = []"
| "wire_events step (i # is) s = fst (step i s) @ wire_events step is (snd (step i s))"

text \<open>The trunk watch never reports a VLAN that the active profile serves, nor the untagged
  one: over any run every row names an unconfigured VID, the reported VIDs are unconfigured, and the
  card claims an all-clear only after a frame has shown that tags are visible.\<close>

theorem vlan_watch_sound:
  "list_all (vlan_row_ok configured) (wire_events vlan_step is (newVLANDetector iface configured))
   \<and> (\<forall>v \<in> set (sortedSeen (state_after vlan_step is (newVLANDetector iface configured))). v \<noteq> 0 \<and> v \<notin> set configured)
   \<and> (ds_Severity (vlan_Snapshot (state_after vlan_step is (newVLANDetector iface configured))) = SevOK
        \<longrightarrow> vd_visible (state_after vlan_step is (newVLANDetector iface configured)))"
proof -
  have "vlan_inv d \<Longrightarrow> vlan_inv (state_after vlan_step is d) \<and> vd_configured (state_after vlan_step is d) = vd_configured d
      \<and> list_all (vlan_row_ok (vd_configured d)) (wire_events vlan_step is d)" for d
  proof (induction "is" arbitrary: d)
    case (Cons i "is")
    then show ?case using vlan_step_ok [OF Cons.prems, of i] Cons.IH [of "snd (vlan_step i d)"] by simp
  qed simp
  from this [of "newVLANDetector iface configured"] show ?thesis
    by (auto simp: newVLANDetector_def vlan_inv_def vids_def sortedSeen_def vlan_Snapshot_def Let_def)
qed

definition ex_tagged :: "byte \<Rightarrow> Frame" where
  "ex_tagged vid = (ex_frame ([0xff, 0xff, 0xff, 0xff, 0xff, 0xff, 2, 0, 0, 0, 0, 9, 0x81, 0x00, 0, vid, 0x08, 0x06]
     @ replicate 46 0))\<lparr>fr_VLANKnown := True\<rparr>"

lemma vlan_watch_sound_witness:
  "map ev_Target (wire_events vlan_step [Heard (ex_tagged 200) 1, Heard (ex_tagged 10) 2, Clock True 3]
      (newVLANDetector ''eth0'' [10, 20])) = [''VID 200'']
   \<and> set (sortedSeen (state_after vlan_step [Heard (ex_tagged 200) 1, Heard (ex_tagged 10) 2, Clock True 3]
      (newVLANDetector ''eth0'' [10, 20]))) \<inter> {0, 10, 20} = {}"
proof -
  have "map ev_Target (wire_events vlan_step [Heard (ex_tagged 200) 1, Heard (ex_tagged 10) 2, Clock True 3]
      (newVLANDetector ''eth0'' [10, 20])) = [''VID 200'']" by code_simp
  with vlan_watch_sound [of "[10, 20]" "[Heard (ex_tagged 200) 1, Heard (ex_tagged 10) 2, Clock True 3]" "''eth0''"]
  show ?thesis by auto
qed

definition in_trouble :: "ptpDomain \<Rightarrow> bool" where
  "in_trouble pd \<longleftrightarrow> (domainGMCount pd = 0 \<and> pd_everPopulated pd) \<or> 3 \<le> length (pd_lossTimes pd)"

lemma headline_warns:
  "fst (fold headline_step sts acc) = SevWarn \<longleftrightarrow> fst acc = SevWarn \<or> (\<exists>st \<in> set sts. dm_empty st \<or> dm_churn st)"
proof (induction sts arbitrary: acc)
  case (Cons st sts)
  have "fst (headline_step st acc) = SevWarn \<longleftrightarrow> fst acc = SevWarn \<or> dm_empty st \<or> dm_churn st"
    by (auto simp: headline_step_def Let_def split_beta split: option.split)
  then show ?case using Cons.IH [of "headline_step st acc"] by auto
qed simp

lemma dom_state_trouble: "dm_empty (dom_state x) \<or> dm_churn (dom_state x) \<longleftrightarrow> in_trouble (snd x)"
  by (auto simp: dom_state_def in_trouble_def ptpChurnThreshold_def Let_def split_beta)

text \<open>The last grandmaster of a domain that goes is a warning row, and the domain it leaves is in
  trouble.\<close>

lemma ptp_lost_row:
  assumes "ptp_tick_gm iface domain now i (evs, pd) = (evs', pd')" "e \<in> set evs'" "e \<notin> set evs"
  shows "if ev_Severity e = SevWarn then domainGMCount pd' = 0 \<and> pd_lossTimes pd' = pd_lossTimes pd @ [now]
    else ev_Severity e = SevInfo"
  using assms by (auto simp: ptp_tick_gm_def Let_def split_beta split: option.splits if_splits)

text \<open>The clock card warns exactly when some PTP domain is in trouble: it had a grandmaster
  and has none now, or three were lost within the churn window; several grandmasters at once, the
  normal failover stack, never warn by themselves, and no domain's trouble hides behind another.\<close>

theorem ptp_card_warns_iff:
  "ds_Severity (ptp_Snapshot d) = SevWarn \<longleftrightarrow> (\<exists>x \<in> set (pt_domains d). in_trouble (snd x))"
proof -
  let ?f = "fold headline_step (map dom_state (sort_key fst (pt_domains d))) (SevOK, [], pt_iface d, None)"
  have "ds_Severity (ptp_Snapshot d) = SevWarn \<longleftrightarrow> pt_domains d \<noteq> [] \<and> fst ?f = SevWarn"
    by (auto simp: ptp_Snapshot_def Let_def split_beta simp flip: set_empty)
  also have "\<dots> \<longleftrightarrow> pt_domains d \<noteq> [] \<and> (\<exists>x \<in> set (pt_domains d). in_trouble (snd x))"
    by (simp only: headline_warns) (auto simp: dom_state_trouble)
  finally show ?thesis by auto
qed

end
