(* ===== verification/GreenGoConfig.thy ===== *)
theory GreenGoConfig
  imports LinkDetectors
begin

text \<open>
  \<open>src/internal/netmon/detect_greengo_h.go\<close>: the Green-GO leader announce, that is the block
  cipher of its payload, the nibble TLV stream inside, and the set of configurations heard.  A cipher
  that inverts the decoder and a TLV writer are part of the specification: the program only reads.
\<close>

section \<open>The cipher\<close>

definition bus_port :: u16 where "bus_port = ucast ggoBusPort"
definition greengoConfigAbsence :: int where "greengoConfigAbsence = 30 * second"

definition ror32 :: "u32 \<Rightarrow> nat \<Rightarrow> u32" where
  "ror32 x n = drop_bit n x OR push_bit (32 - n) x"

definition leu32 :: "byte list \<Rightarrow> nat \<Rightarrow> u32" where
  "leu32 b off = ucast (b ! off) OR push_bit 8 (ucast (b ! (off + 1)))
     OR push_bit 16 (ucast (b ! (off + 2))) OR push_bit 24 (ucast (b ! (off + 3)))"

definition putLEu32 :: "byte list \<Rightarrow> nat \<Rightarrow> u32 \<Rightarrow> byte list" where
  "putLEu32 b off v = b[off := ucast v, off + 1 := ucast (drop_bit 8 v),
     off + 2 := ucast (drop_bit 16 v), off + 3 := ucast (drop_bit 24 v)]"

definition g5_block :: "nat \<Rightarrow> byte list \<times> u32 \<times> u32 \<Rightarrow> byte list \<times> u32 \<times> u32" where
  "g5_block i s =
    (let (out, k, acc) = s; off = i * 16;
         p0 = ror32 k 6 XOR leu32 out off;
         p1 = ror32 k 19 XOR leu32 out (off + 4);
         p2 = ror32 k 1 XOR leu32 out (off + 8);
         p3 = ror32 k 7 XOR leu32 out (off + 12);
         acc' = acc + (p0 + p1 + p2 + p3)
     in (putLEu32 (putLEu32 (putLEu32 (putLEu32 out off p0) (off + 4) p1) (off + 8) p2) (off + 12) p3,
         ror32 k 15 + acc', acc'))"

definition g5DecryptPayload :: "byte list \<Rightarrow> u32 \<Rightarrow> u32 \<Rightarrow> byte list \<times> bool" where
  "g5DecryptPayload payload seed checksum =
    (let nblocks = length payload div 16;
         (out, _, acc) = fold g5_block [0 ..< nblocks] (take (nblocks * 16) payload, seed, 0)
     in (out, checksum + acc = 0))"

section \<open>The nibble TLV stream\<close>

record tlvRec =
  tv_typ :: int
  tv_value :: "byte list"

fun wide :: "byte list \<Rightarrow> nat \<Rightarrow> nat \<Rightarrow> int \<Rightarrow> (int \<times> nat) option" where
  "wide buf 0 pos v = Some (v, pos)"
| "wide buf (Suc k) pos v =
    (if length buf \<le> pos then None else wide buf k (pos + 1) (i64 (push_bit 8 v OR uint (buf ! pos))))"

definition nibble :: "byte list \<Rightarrow> nat \<Rightarrow> nat \<Rightarrow> (int \<times> nat) option" where
  "nibble buf n pos = (if n > 0x0b then wide buf (n - 0x0b) pos 0 else Some (int n, pos))"

text \<open>The header byte, with the end mark and the accumulator reset.\<close>

definition tlv_head :: "byte list \<Rightarrow> nat \<Rightarrow> int \<Rightarrow> bool + byte \<times> nat \<times> int" where
  "tlv_head buf pos acc =
    (let b = buf ! pos in
     if b AND 0x0f = 0 then
       (if b = 0 then Inl True
        else if drop_bit 4 b \<noteq> 1 then Inl False
        else if length buf \<le> pos + 1 then Inl True
        else Inr (buf ! (pos + 1), pos + 2, 0))
     else Inr (b, pos + 1, acc))"

definition tlv_body :: "byte list \<Rightarrow> byte \<Rightarrow> nat \<Rightarrow> int \<Rightarrow> (tlvRec \<times> nat) option" where
  "tlv_body buf b pos acc =
    (case nibble buf (unat (b AND 0x0f)) pos of
       None \<Rightarrow> None
     | Some (tdelta, pos1) \<Rightarrow>
        (case nibble buf (unat (drop_bit 4 b)) pos1 of
           None \<Rightarrow> None
         | Some (len, pos2) \<Rightarrow>
            if len < 0 \<or> len > int (length buf) - int pos2 then None
            else Some (\<lparr>tv_typ = i64 (acc + tdelta), tv_value = take (nat len) (drop pos2 buf)\<rparr>, pos2 + nat len)))"

lemma wide_pos: "wide buf k pos v = Some (w, p) \<Longrightarrow> p = pos + k"
  by (induction k arbitrary: pos v) (fastforce split: if_splits)+

lemma nibble_pos: "nibble buf n pos = Some (w, p) \<Longrightarrow> pos \<le> p"
  by (auto simp: nibble_def dest: wide_pos split: if_splits)

lemma tlv_pos:
  "tlv_head buf pos acc = Inr (b, p, a) \<Longrightarrow> pos < p"
  "tlv_body buf b pos acc = Some (r, p) \<Longrightarrow> pos \<le> p"
  by (auto simp: tlv_head_def tlv_body_def Let_def dest!: nibble_pos split: if_splits option.splits)

function tlv_loop :: "byte list \<Rightarrow> nat \<Rightarrow> int \<Rightarrow> tlvRec list \<Rightarrow> tlvRec list \<times> bool" where
  "tlv_loop buf pos acc recs =
    (if \<not> pos < length buf then (recs, True)
     else case tlv_head buf pos acc of
       Inl ok \<Rightarrow> (recs, ok)
     | Inr (b, pos1, acc1) \<Rightarrow>
        (case tlv_body buf b pos1 acc1 of
           None \<Rightarrow> (recs, False)
         | Some (r, pos2) \<Rightarrow> tlv_loop buf pos2 (tv_typ r) (recs @ [r])))"
  by pat_completeness auto
termination
  by (relation "measure (\<lambda>(buf, pos, acc, recs). length buf - pos)") (auto dest!: tlv_pos)

declare tlv_loop.simps [simp del]

definition parseNibbleTLV :: "byte list \<Rightarrow> tlvRec list \<times> bool" where
  "parseNibbleTLV buf = tlv_loop buf 0 0 []"

section \<open>The configurations heard\<close>

record ggoConfig =
  gc_id :: string
  gc_name :: string
  gc_group :: string
  gc_lastSeen :: int

definition displayName :: "ggoConfig \<Rightarrow> string" where
  "displayName c = (if gc_name c \<noteq> [] then gc_name c else gc_id c)"

record greengoHDetector =
  gh_iface :: string
  gh_servedVID :: int
  gh_absence :: int
  gh_configs :: "(string \<times> ggoConfig) list"
  gh_flaggedMulti :: bool
  gh_lastCount :: int

definition newGreengoHDetector :: "string \<Rightarrow> int \<Rightarrow> int \<Rightarrow> greengoHDetector" where
  "newGreengoHDetector iface absence servedVID =
    \<lparr>gh_iface = iface, gh_servedVID = servedVID,
     gh_absence = (if absence \<le> 0 then greengoConfigAbsence else absence),
     gh_configs = [], gh_flaggedMulti = False, gh_lastCount = 0\<rparr>"

definition asciiTrim :: "byte list \<Rightarrow> string" where
  "asciiTrim b = printableID (takeWhile (\<lambda>x. x \<noteq> 0) b)"

definition announce_field :: "tlvRec \<Rightarrow> string \<times> string \<times> string \<Rightarrow> string \<times> string \<times> string" where
  "announce_field r s =
    (let (cid, name, grp) = s; v = tv_value r in
     if tv_typ r = 1 then (if length v = 8 then (hex64 (be64 v 0), name, grp) else s)
     else if tv_typ r = 2 then (if length v = 4 then (cid, name, ipString v) else s)
     else if tv_typ r = 4 then (cid, asciiTrim v, grp)
     else s)"

definition recordConfig :: "string \<Rightarrow> string \<Rightarrow> string \<Rightarrow> int \<Rightarrow> greengoHDetector \<Rightarrow> greengoHDetector" where
  "recordConfig cid name grp now d =
    d\<lparr>gh_configs := touch maxGgoConfigs gc_lastSeen \<lparr>gc_id = cid, gc_name = [], gc_group = [], gc_lastSeen = 0\<rparr>
       (\<lambda>c. c\<lparr>gc_name := name, gc_group := grp, gc_lastSeen := now\<rparr>) cid (gh_configs d)\<rparr>"

text \<open>The UDP payload of a bus frame on the served VLAN.\<close>

definition bus_payload :: "int \<Rightarrow> Frame \<Rightarrow> byte list option" where
  "bus_payload servedVID f =
    (case etherInfo (fr_Data f) of
       None \<Rightarrow> None
     | Some (et, off, vid) \<Rightarrow>
        if et \<noteq> etherTypeIPv4 then None
        else if effectiveVID vid f \<noteq> servedVID then None
        else (case ipv4Info (fr_Data f) off of
           None \<Rightarrow> None
         | Some i \<Rightarrow>
            if ip_proto i \<noteq> ipProtoUDP then None
            else (case udpPorts (fr_Data f) (ip_l4 i) of
               None \<Rightarrow> None
             | Some (sport, dport, payOff) \<Rightarrow>
                if sport \<noteq> bus_port \<and> dport \<noteq> bus_port then None else Some (drop payOff (fr_Data f)))))"

definition read_announce :: "byte list \<Rightarrow> (string \<times> string \<times> string) option" where
  "read_announce g5 =
    (if length g5 < 14 \<or> g5 ! 0 \<noteq> 0x47 \<or> g5 ! 1 \<noteq> 0x35 \<or> g5 ! 2 \<noteq> 0x68 then None
     else if g5 ! 3 AND 0x80 = 0 then None
     else let (plain, valid) = g5DecryptPayload (drop 14 g5) (leu32 g5 6) (leu32 g5 10) in
       if \<not> valid then None
       else let (recs, ok) = parseNibbleTLV plain in
         if \<not> ok then None
         else let (cid, name, grp) = fold announce_field recs ([], [], []) in
           if cid = [] then None else Some (cid, name, grp))"

definition ggoh_Consume :: "Frame \<Rightarrow> int \<Rightarrow> greengoHDetector \<Rightarrow> greengoHDetector" where
  "ggoh_Consume f now d =
    (case bus_payload (gh_servedVID d) f of
       None \<Rightarrow> d
     | Some g5 \<Rightarrow> (case read_announce g5 of
         None \<Rightarrow> d
       | Some (cid, name, grp) \<Rightarrow> recordConfig cid name grp now d))"

definition ggoh_Tick :: "int \<Rightarrow> greengoHDetector \<Rightarrow> Event list \<times> greengoHDetector" where
  "ggoh_Tick now d0 =
    (let d = d0\<lparr>gh_configs := filter (\<lambda>(cid, c). \<not> (now - gc_lastSeen c > gh_absence d0)) (gh_configs d0)\<rparr>;
         current = int (length (gh_configs d)); multi = current \<ge> 2;
         row = (\<lambda>action sev. \<lparr>ev_Action = action, ev_Target = gh_iface d, ev_Before = netmon_itoa (gh_lastCount d),
           ev_After = netmon_itoa current, ev_Severity = sev\<rparr>);
         (evs, d1) =
           (if multi \<and> \<not> gh_flaggedMulti d
            then ([row ''Multiple Green-GO configs active on segment'' SevWarn], d\<lparr>gh_flaggedMulti := True\<rparr>)
            else if \<not> multi \<and> gh_flaggedMulti d
            then ([row ''Multiple Green-GO configs cleared'' SevInfo], d\<lparr>gh_flaggedMulti := False\<rparr>)
            else ([], d))
     in (evs, d1\<lparr>gh_lastCount := current\<rparr>))"

definition ggoh_Snapshot :: "greengoHDetector \<Rightarrow> DetectorSnapshot" where
  "ggoh_Snapshot d =
    (let s = \<lparr>ds_Kind = ''greengo_config'', ds_Severity = SevOK, ds_Subject = gh_iface d, ds_Text = [], ds_Fields = []\<rparr>;
         cs = map snd (gh_configs d); names = sort (map displayName cs) in
     if cs = [] then s\<lparr>ds_Severity := SevInfo, ds_Text := ''No Green-GO config announced''\<rparr>
     else if length cs = 1 then
       (let c = hd cs in
        s\<lparr>ds_Severity := SevOK, ds_Subject := displayName c, ds_Text := ''Green-GO config: '' @ displayName c,
          ds_Fields := [(''config'', displayName c), (''group'', gc_group c), (''configs'', ''1'')]\<rparr>)
     else s\<lparr>ds_Severity := SevWarn,
       ds_Text := ''Multiple Green-GO configs active on this segment: '' @ Join names '', '',
       ds_Fields := [(''configs'', netmon_itoa (int (length cs))), (''names'', Join names '', '')]\<rparr>)"

section \<open>Sealing a payload\<close>

text \<open>The inverse of the decoder, block by block: the cipher text and the sum of the plain words.\<close>

definition le4 :: "u32 \<Rightarrow> byte list" where
  "le4 v = [ucast v, ucast (drop_bit 8 v), ucast (drop_bit 16 v), ucast (drop_bit 24 v)]"

function g5_seal :: "u32 \<Rightarrow> u32 \<Rightarrow> byte list \<Rightarrow> byte list \<times> u32" where
  "g5_seal k acc b =
    (if length b < 16 then ([], acc)
     else let acc' = acc + (leu32 b 0 + leu32 b 4 + leu32 b 8 + leu32 b 12);
              (rest, tot) = g5_seal (ror32 k 15 + acc') acc' (drop 16 b)
       in (le4 (ror32 k 6 XOR leu32 b 0) @ le4 (ror32 k 19 XOR leu32 b 4)
           @ le4 (ror32 k 1 XOR leu32 b 8) @ le4 (ror32 k 7 XOR leu32 b 12) @ rest, tot))"
  by pat_completeness auto
termination by (relation "measure (\<lambda>(k, acc, b). length b)") auto

declare g5_seal.simps [simp del]

lemma length_le4 [simp]: "length (le4 v) = 4"
  by (simp add: le4_def)

lemma leu32_cong: "take 4 (drop i a) = take 4 (drop j b) \<Longrightarrow> i + 4 \<le> length a \<Longrightarrow> j + 4 \<le> length b \<Longrightarrow> leu32 a i = leu32 b j"
proof -
  assume h: "take 4 (drop i a) = take 4 (drop j b)" "i + 4 \<le> length a" "j + 4 \<le> length b"
  have "a ! (i + n) = b ! (j + n)" if "n < 4" for n
    using arg_cong [OF h(1), of "\<lambda>l. l ! n"] that h(2,3) by simp
  from this [of 0] this [of 1] this [of 2] this [of 3] show ?thesis by (simp add: leu32_def)
qed

lemma leu32_le4 [simp]: "leu32 (le4 v) 0 = v"
proof (rule bit_word_eqI)
  fix n assume "n < LENGTH(32)"
  then show "bit (leu32 (le4 v) 0) n = bit v n"
    by (cases "n < 8"; cases "n < 16"; cases "n < 24") (auto simp: leu32_def le4_def bit_simps)
qed

lemma le4_leu32: "le4 (leu32 [a, b, c, d] 0) = [a, b, c, d]"
proof -
  have "ucast (leu32 [a, b, c, d] 0) = a" "ucast (drop_bit 8 (leu32 [a, b, c, d] 0)) = b"
    "ucast (drop_bit 16 (leu32 [a, b, c, d] 0)) = c" "ucast (drop_bit 24 (leu32 [a, b, c, d] 0)) = d"
    by (intro bit_word_eqI; auto simp: leu32_def bit_simps dest: bit_imp_le_length)+
  then show ?thesis by (simp add: le4_def)
qed

lemma leu32_append: "off = length xs \<Longrightarrow> leu32 (xs @ le4 v @ ys) off = v"
  using leu32_cong [of off "xs @ le4 v @ ys" 0 "le4 v"] by simp

lemma list4: "length zs = 4 \<Longrightarrow> \<exists>a b c d. zs = [a, b, c, d]"
  by (auto simp: length_Suc_conv numeral_eq_Suc)

lemma putLEu32_append:
  assumes "off = length xs" "length zs = 4" shows "putLEu32 (xs @ zs @ ys) off v = xs @ le4 v @ ys"
proof -
  obtain a b c d where "zs = [a, b, c, d]" using list4 [OF assms(2)] by blast
  then show ?thesis by (simp add: putLEu32_def le4_def assms(1) list_update_append)
qed

lemma g5_block_step:
  assumes "length pre = i * 16"
  shows "g5_block i (pre @ le4 c0 @ le4 c1 @ le4 c2 @ le4 c3 @ rest, k, acc) =
    (let p0 = ror32 k 6 XOR c0; p1 = ror32 k 19 XOR c1; p2 = ror32 k 1 XOR c2; p3 = ror32 k 7 XOR c3;
         acc' = acc + (p0 + p1 + p2 + p3)
     in (pre @ le4 p0 @ le4 p1 @ le4 p2 @ le4 p3 @ rest, ror32 k 15 + acc', acc'))"
proof -
  have l: "leu32 (pre @ le4 c0 @ le4 c1 @ le4 c2 @ le4 c3 @ rest) (i * 16) = c0"
    "leu32 (pre @ le4 c0 @ le4 c1 @ le4 c2 @ le4 c3 @ rest) (i * 16 + 4) = c1"
    "leu32 (pre @ le4 c0 @ le4 c1 @ le4 c2 @ le4 c3 @ rest) (i * 16 + 8) = c2"
    "leu32 (pre @ le4 c0 @ le4 c1 @ le4 c2 @ le4 c3 @ rest) (i * 16 + 12) = c3"
    using assms leu32_append [of "i * 16" pre c0 "le4 c1 @ le4 c2 @ le4 c3 @ rest"]
      leu32_append [of "i * 16 + 4" "pre @ le4 c0" c1 "le4 c2 @ le4 c3 @ rest"]
      leu32_append [of "i * 16 + 8" "pre @ le4 c0 @ le4 c1" c2 "le4 c3 @ rest"]
      leu32_append [of "i * 16 + 12" "pre @ le4 c0 @ le4 c1 @ le4 c2" c3 rest] by simp_all
  have p: "putLEu32 (putLEu32 (putLEu32 (putLEu32 (pre @ le4 c0 @ le4 c1 @ le4 c2 @ le4 c3 @ rest) (i * 16) p0)
      (i * 16 + 4) p1) (i * 16 + 8) p2) (i * 16 + 12) p3
    = pre @ le4 p0 @ le4 p1 @ le4 p2 @ le4 p3 @ rest" for p0 p1 p2 p3
    using assms putLEu32_append [of "i * 16" pre "le4 c0" "le4 c1 @ le4 c2 @ le4 c3 @ rest" p0]
      putLEu32_append [of "i * 16 + 4" "pre @ le4 p0" "le4 c1" "le4 c2 @ le4 c3 @ rest" p1]
      putLEu32_append [of "i * 16 + 8" "pre @ le4 p0 @ le4 p1" "le4 c2" "le4 c3 @ rest" p2]
      putLEu32_append [of "i * 16 + 12" "pre @ le4 p0 @ le4 p1 @ le4 p2" "le4 c3" rest p3] by simp
  show ?thesis by (simp add: g5_block_def Let_def l p)
qed

lemma split_block:
  assumes "16 \<le> length b"
  shows "b = le4 (leu32 b 0) @ le4 (leu32 b 4) @ le4 (leu32 b 8) @ le4 (leu32 b 12) @ drop 16 b"
proof -
  have w: "le4 (leu32 b n) = take 4 (drop n b)" if "n + 4 \<le> length b" for n
  proof -
    have "length (take 4 (drop n b)) = 4" using that by simp
    then obtain x y z w where q: "take 4 (drop n b) = [x, y, z, w]" using list4 by blast
    then have "leu32 b n = leu32 [x, y, z, w] 0" using that by (intro leu32_cong) simp_all
    then show ?thesis using q le4_leu32 by simp
  qed
  have "take 16 b = take 4 (drop 0 b) @ take 4 (drop 4 b) @ take 4 (drop 8 b) @ take 4 (drop 12 b)"
    using take_add [of 4 12 b] take_add [of 4 8 "drop 4 b"] take_add [of 4 4 "drop 8 b"] by simp
  also have "\<dots> = le4 (leu32 b 0) @ le4 (leu32 b 4) @ le4 (leu32 b 8) @ le4 (leu32 b 12)"
    using assms by (simp only: w add_0 numeral_plus_numeral) (simp add: w)
  finally have "take 16 b @ drop 16 b
      = (le4 (leu32 b 0) @ le4 (leu32 b 4) @ le4 (leu32 b 8) @ le4 (leu32 b 12)) @ drop 16 b" by (rule arg_cong)
  then show ?thesis by (simp only: append_take_drop_id append_assoc)
qed

text \<open>The decoder undoes the seal, whatever has been decoded before and whatever follows.\<close>

lemma fold_g5_seal:
  "g5_seal k acc b = (c, tot) \<Longrightarrow> length pre = i * 16 \<Longrightarrow> length b = n * 16 \<Longrightarrow>
     \<exists>k'. fold g5_block [i ..< i + n] (pre @ c, k, acc) = (pre @ b, k', tot) \<and> length c = n * 16"
proof (induction n arbitrary: i pre k acc b c tot)
  case 0
  then show ?case by (simp add: g5_seal.simps [of k acc b])
next
  case (Suc n)
  let ?acc = "acc + (leu32 b 0 + leu32 b 4 + leu32 b 8 + leu32 b 12)"
  obtain r t where r: "g5_seal (ror32 k 15 + ?acc) ?acc (drop 16 b) = (r, t)" by fastforce
  let ?p = "pre @ le4 (leu32 b 0) @ le4 (leu32 b 4) @ le4 (leu32 b 8) @ le4 (leu32 b 12)"
  have c: "c = le4 (ror32 k 6 XOR leu32 b 0) @ le4 (ror32 k 19 XOR leu32 b 4)
           @ le4 (ror32 k 1 XOR leu32 b 8) @ le4 (ror32 k 7 XOR leu32 b 12) @ r" "tot = t"
    using Suc.prems(1,3) by (simp_all add: g5_seal.simps [of k acc b] Let_def r)
  from Suc.IH [OF r, of ?p "Suc i"] Suc.prems(2,3)
  obtain k' where k': "fold g5_block [Suc i ..< Suc i + n] (?p @ r, ror32 k 15 + ?acc, ?acc) = (?p @ drop 16 b, k', t)"
    "length r = n * 16" by auto
  have u: "[i ..< i + Suc n] = i # [Suc i ..< Suc i + n]" by (simp add: upt_conv_Cons)
  have "g5_block i (pre @ c, k, acc) = (?p @ r, ror32 k 15 + ?acc, ?acc)"
    unfolding c(1) by (simp add: g5_block_step [OF Suc.prems(2)] Let_def xor.assoc [symmetric])
  then have "fold g5_block [i ..< i + Suc n] (pre @ c, k, acc)
      = fold g5_block [Suc i ..< Suc i + n] (?p @ r, ror32 k 15 + ?acc, ?acc)"
    by (simp only: u fold.simps o_apply)
  moreover have "?p @ drop 16 b = pre @ b"
    using split_block [of b] Suc.prems(3) by (metis append_assoc le_add1 mult_Suc)
  ultimately show ?case using k' c by simp
qed

lemma g5DecryptPayload_seal:
  assumes "g5_seal seed 0 b = (c, tot)" "length b = n * 16" "length tail < 16"
  shows "g5DecryptPayload (c @ tail) seed checksum = (b, checksum = - tot)"
proof -
  obtain k' where k': "fold g5_block [0 ..< 0 + n] ([] @ c, seed, 0) = ([] @ b, k', tot)" "length c = n * 16"
    using fold_g5_seal [OF assms(1), of "[]" 0 n] assms(2) by auto
  have "length (c @ tail) div 16 = n" using k'(2) assms(3) by simp
  then show ?thesis
    using k' by (auto simp: g5DecryptPayload_def Let_def eq_neg_iff_add_eq_0 simp del: upt.simps)
qed

section \<open>Writing the stream\<close>

text \<open>A number of at most 11 is its nibble; a larger one is nibble 15 and four big-endian bytes.\<close>

definition put_nibble :: "int \<Rightarrow> byte \<times> byte list" where
  "put_nibble n = (if n \<le> 0x0b then (word_of_int n, []) else (0x0f, put_u32 (word_of_int n)))"

definition put_tlv :: "int \<Rightarrow> tlvRec \<Rightarrow> byte list" where
  "put_tlv acc r =
    (let (td, tx) = put_nibble (tv_typ r - acc); (ln, lx) = put_nibble (int (length (tv_value r)))
     in [push_bit 4 ln OR td] @ tx @ lx @ tv_value r)"

fun put_tlvs :: "int \<Rightarrow> tlvRec list \<Rightarrow> byte list" where
  "put_tlvs acc [] = [0]"
| "put_tlvs acc (r # rs) = put_tlv acc r @ put_tlvs (tv_typ r) rs"

text \<open>Types rise from record to record, and every number fits four bytes.\<close>

fun rising :: "int \<Rightarrow> tlvRec list \<Rightarrow> bool" where
  "rising acc [] = True"
| "rising acc (r # rs) = (acc < tv_typ r \<and> tv_typ r < 2 ^ 32 \<and> length (tv_value r) < 2 ^ 32 \<and> rising (tv_typ r) rs)"

lemma or_shift:
  assumes "0 \<le> (b :: int)" "b < 2 ^ k" shows "push_bit k a OR b = a * 2 ^ k + b"
proof -
  have "take_bit k b = b" using assms by (simp add: take_bit_eq_mod)
  then show ?thesis
    using concat_bit_def [of k b a] concat_bit_eq [of k b a] by (simp add: or.commute push_bit_eq_mult add.commute)
qed

lemma wide_byte:
  assumes "0 \<le> v" "v < 2 ^ 24"
  shows "wide (pre @ x # rest) (Suc k) (length pre) v = wide (pre @ x # rest) k (length pre + 1) (v * 256 + uint x)"
proof -
  have "push_bit 8 v OR uint x = v * 256 + uint x" using or_shift [of "uint x" 8 v] byte_less(2) [of x] by simp
  moreover have "in_i64 (v * 256 + uint x)" using assms byte_less(2) [of x] uint_ge_0 [of x]
    by (simp add: in_i64_def, intro conjI; linarith)
  ultimately show ?thesis by simp
qed

lemma wide_put_u32: "wide (pre @ put_u32 n @ rest) 4 (length pre) 0 = Some (uint n, length pre + 4)"
proof -
  obtain a b c d where p: "put_u32 n = [a, b, c, d]" by (simp add: put_u32_def)
  have n: "uint n = uint a * 16777216 + uint b * 65536 + uint c * 256 + uint d"
    using uint_be_u32 [of a b c d] by (simp flip: p)
  have h: "uint a < 2 ^ 24" "uint a * 256 + uint b < 2 ^ 24" "(uint a * 256 + uint b) * 256 + uint c < 2 ^ 24"
    using byte_less(2) [of a] byte_less(2) [of b] byte_less(2) [of c] uint_ge_0 [of a]
    by (simp_all, linarith+)
  have "wide (pre @ [a, b, c, d] @ rest) 4 (length pre) 0
      = wide (pre @ [a, b, c, d] @ rest) 0 (length pre + 4) (((uint a * 256 + uint b) * 256 + uint c) * 256 + uint d)"
    using wide_byte [of 0 pre a "b # c # d # rest" 3] wide_byte [of "uint a" "pre @ [a]" b "c # d # rest" 2] h
      wide_byte [of "uint a * 256 + uint b" "pre @ [a, b]" c "d # rest" 1]
      wide_byte [of "(uint a * 256 + uint b) * 256 + uint c" "pre @ [a, b, c]" d rest 0]
    by (simp add: numeral_eq_Suc del: wide.simps)
  then show ?thesis by (simp add: p n algebra_simps)
qed

lemma nibble_put:
  assumes "put_nibble n = (t, xs)" "0 \<le> n" "n < 2 ^ 32"
  shows "nibble (pre @ xs @ rest) (unat t) (length pre) = Some (n, length pre + length xs)" "unat t < 16"
    "0 < n \<Longrightarrow> 0 < unat t"
proof -
  have "n \<le> 0x0b \<Longrightarrow> unat (word_of_int n :: byte) = nat n"
    using assms(2) by (simp add: unat_eq_nat_uint uint_word_of_int)
  then show "nibble (pre @ xs @ rest) (unat t) (length pre) = Some (n, length pre + length xs)" "unat t < 16"
    "0 < n \<Longrightarrow> 0 < unat t"
    using assms wide_put_u32 [of pre "word_of_int n" rest]
    by (auto simp: put_nibble_def nibble_def uint_word_of_int split: if_splits)
qed

lemma header_byte:
  assumes "unat (t :: byte) < 16" "unat (l :: byte) < 16"
  shows "(push_bit 4 l OR t) AND 0x0f = t" "drop_bit 4 (push_bit 4 l OR t) = l"
proof -
  have "\<forall>n \<in> set [0 ..< 16]. \<forall>m \<in> set [0 ..< 16]. (push_bit 4 (word_of_nat m) OR word_of_nat n) AND 0x0f = (word_of_nat n :: byte)
      \<and> drop_bit 4 (push_bit 4 (word_of_nat m) OR word_of_nat n) = (word_of_nat m :: byte)"
    by code_simp
  moreover have "unat t \<in> set [0 ..< 16]" "unat l \<in> set [0 ..< 16]" using assms by simp_all
  ultimately have "(push_bit 4 (word_of_nat (unat l)) OR word_of_nat (unat t)) AND 0x0f = (word_of_nat (unat t) :: byte)
      \<and> drop_bit 4 (push_bit 4 (word_of_nat (unat l)) OR word_of_nat (unat t)) = (word_of_nat (unat l) :: byte)"
    by blast
  then show "(push_bit 4 l OR t) AND 0x0f = t" "drop_bit 4 (push_bit 4 l OR t) = l" by simp_all
qed

lemma tlv_body_put:
  assumes "rising acc (r # rs)" "0 \<le> acc" "put_tlv acc r = h # bs"
  shows "h AND 0x0f \<noteq> 0" "tlv_body (pre @ put_tlv acc r @ rest) h (length pre + 1) acc = Some (r, length pre + length (put_tlv acc r))"
proof -
  obtain td tx where t: "put_nibble (tv_typ r - acc) = (td, tx)" by fastforce
  obtain ln lx where l: "put_nibble (int (length (tv_value r))) = (ln, lx)" by fastforce
  have b: "0 \<le> tv_typ r - acc" "tv_typ r - acc < 2 ^ 32" "0 < tv_typ r - acc"
    "0 \<le> int (length (tv_value r))" "int (length (tv_value r)) < 2 ^ 32"
    using assms by auto
  note tn = nibble_put [OF t b(1,2)] and ln = nibble_put [OF l b(4,5)]
  have h: "h = push_bit 4 ln OR td" "bs = tx @ lx @ tv_value r" using assms(3) by (auto simp: put_tlv_def t l)
  have e: "pre @ put_tlv acc r @ rest = (pre @ [h]) @ tx @ lx @ tv_value r @ rest"
    "pre @ put_tlv acc r @ rest = (pre @ [h] @ tx) @ lx @ tv_value r @ rest"
    "drop (length pre + 1 + length tx + length lx) (pre @ put_tlv acc r @ rest) = tv_value r @ rest"
    using assms(3) h(2) by simp_all
  have n1: "nibble (pre @ put_tlv acc r @ rest) (unat td) (length pre + 1) = Some (tv_typ r - acc, length pre + 1 + length tx)"
    using tn(1) [of "pre @ [h]"] by (simp only: e(1)) simp
  have n2: "nibble (pre @ put_tlv acc r @ rest) (unat ln) (length pre + 1 + length tx)
      = Some (int (length (tv_value r)), length pre + 1 + length tx + length lx)"
    using ln(1) [of "pre @ [h] @ tx"] by (simp only: e(2)) simp
  note hb = header_byte [OF tn(2) ln(2)]
  show "h AND 0x0f \<noteq> 0" using hb(1) tn(3) [OF b(3)] h(1) by auto
  have "in_i64 (tv_typ r)" using assms(1,2) by (simp add: in_i64_def)
  then show "tlv_body (pre @ put_tlv acc r @ rest) h (length pre + 1) acc = Some (r, length pre + length (put_tlv acc r))"
    using e(3) by (simp only: tlv_body_def h(1) hb n1 n2 option.case prod.case) (simp add: put_tlv_def t l)
qed

lemma tlv_loop_put:
  "rising acc rs \<Longrightarrow> 0 \<le> acc \<Longrightarrow> tlv_loop (pre @ put_tlvs acc rs @ pad) (length pre) acc recs = (recs @ rs, True)"
proof (induction rs arbitrary: pre acc recs)
  case Nil
  then show ?case by (simp add: tlv_loop.simps [of "pre @ 0 # pad"] tlv_head_def)
next
  case (Cons r rs)
  obtain h bs where p: "put_tlv acc r = h # bs" by (cases "put_tlv acc r") (auto simp: put_tlv_def Let_def split: prod.splits)
  let ?buf = "pre @ put_tlvs acc (r # rs) @ pad"
  note tb = tlv_body_put [OF Cons.prems p]
  have hd: "tlv_head ?buf (length pre) acc = Inr (h, length pre + 1, acc)" "length pre < length ?buf"
    using tb(1) by (simp_all add: tlv_head_def p)
  have bd: "tlv_body ?buf h (length pre + 1) acc = Some (r, length pre + length (put_tlv acc r))"
    using tb(2) [of pre "put_tlvs (tv_typ r) rs @ pad"] by simp
  have "tlv_loop ?buf (length pre) acc recs = tlv_loop ?buf (length pre + length (put_tlv acc r)) (tv_typ r) (recs @ [r])"
    using hd(2) by (subst tlv_loop.simps) (simp only: hd bd sum.case option.case prod.case, simp)
  then show ?case
    using Cons.IH [of "tv_typ r" "pre @ put_tlv acc r" "recs @ [r]"] Cons.prems by simp
qed

lemma parseNibbleTLV_put:
  assumes "rising 0 rs" shows "parseNibbleTLV (put_tlvs 0 rs @ pad) = (rs, True)"
  using tlv_loop_put [OF assms, of "[]"] by (simp add: parseNibbleTLV_def)

section \<open>The announce and its detector\<close>

definition pad16 :: "byte list \<Rightarrow> byte list" where
  "pad16 b = b @ replicate ((16 - length b mod 16) mod 16) 0"

definition bus_announce :: "byte \<Rightarrow> byte \<Rightarrow> byte \<Rightarrow> u32 \<Rightarrow> u32 \<Rightarrow> tlvRec list \<Rightarrow> byte list" where
  "bus_announce fl x y seed checksum recs =
    [0x47, 0x35, 0x68, fl, x, y] @ le4 seed @ le4 checksum @ fst (g5_seal seed 0 (pad16 (put_tlvs 0 recs)))"

definition seal_checksum :: "u32 \<Rightarrow> tlvRec list \<Rightarrow> u32" where
  "seal_checksum seed recs = - snd (g5_seal seed 0 (pad16 (put_tlvs 0 recs)))"

definition config_recs :: "byte list \<Rightarrow> byte list \<Rightarrow> byte list \<Rightarrow> tlvRec list" where
  "config_recs ident grp name = [\<lparr>tv_typ = 1, tv_value = ident\<rparr>, \<lparr>tv_typ = 2, tv_value = grp\<rparr>, \<lparr>tv_typ = 4, tv_value = name\<rparr>]"

lemma pad16_blocks: "\<exists>n. length (pad16 b) = n * 16"
proof -
  obtain q r where l: "length b = q * 16 + r" "r < 16"
    using that [of "length b div 16" "length b mod 16"] by simp
  then have "length (pad16 b) = (if r = 0 then q else q + 1) * 16" by (simp add: pad16_def)
  then show ?thesis by blast
qed

lemma length_hex64 [simp]: "length (hex64 v) = 16"
  by (simp add: hex64_def)

lemma read_announce:
  assumes "length ident = 8" "length grp = 4" "length name < 2 ^ 32" "fl AND 0x80 \<noteq> 0" "length tail < 16"
  shows "read_announce (bus_announce fl x y seed checksum (config_recs ident grp name) @ tail) =
    (if checksum = seal_checksum seed (config_recs ident grp name)
     then Some (hex64 (be64 ident 0), asciiTrim name, ipString grp) else None)"
proof -
  let ?recs = "config_recs ident grp name" let ?plain = "pad16 (put_tlvs 0 ?recs)"
  obtain c tot where s: "g5_seal seed 0 ?plain = (c, tot)" by fastforce
  obtain n where n: "length ?plain = n * 16" using pad16_blocks by blast
  have d: "g5DecryptPayload (c @ tail) seed checksum = (?plain, checksum = - tot)"
    by (rule g5DecryptPayload_seal [OF s n assms(5)])
  have "rising 0 ?recs" using assms by (simp add: config_recs_def)
  then have p: "parseNibbleTLV ?plain = (?recs, True)"
    using parseNibbleTLV_put by (simp add: pad16_def)
  define g where "g = bus_announce fl x y seed checksum ?recs @ tail"
  have g: "g = [0x47, 0x35, 0x68, fl, x, y] @ le4 seed @ le4 checksum @ c @ tail"
    by (simp add: g_def bus_announce_def s)
  have w: "leu32 g 6 = seed" "leu32 g 10 = checksum" "drop 14 g = c @ tail"
    unfolding g using leu32_append [of 6 "[0x47, 0x35, 0x68, fl, x, y]" seed "le4 checksum @ c @ tail"]
      leu32_append [of 10 "[0x47, 0x35, 0x68, fl, x, y] @ le4 seed" checksum "c @ tail"] by simp_all
  have h: "length g \<ge> 14" "g ! 0 = 0x47" "g ! 1 = 0x35" "g ! 2 = 0x68" "g ! 3 = fl" by (simp_all add: g)
  have f: "fold announce_field ?recs ([], [], []) = (hex64 (be64 ident 0), asciiTrim name, ipString grp)"
    using assms by (simp add: config_recs_def announce_field_def)
  have "hex64 (be64 ident 0) \<noteq> []" using length_hex64 [of "be64 ident 0"] by (metis list.size(3) zero_neq_numeral)
  then show ?thesis
    using h assms(4) unfolding g_def [symmetric] seal_checksum_def s
    by (simp add: read_announce_def w d p f)
qed

section \<open>Runs of the detector\<close>

fun ggoh_step :: "unit wire \<Rightarrow> greengoHDetector \<Rightarrow> Event list \<times> greengoHDetector" where
  "ggoh_step (Heard f now) d = ([], ggoh_Consume f now d)"
| "ggoh_step (Clock u now) d = ggoh_Tick now d"
| "ggoh_step (Dropping b) d = ([], d)"

definition config_ok :: "string \<times> ggoConfig \<Rightarrow> bool" where
  "config_ok x \<longleftrightarrow> gc_id (snd x) = fst x \<and> length (fst x) = 16 \<and> clean_name (gc_name (snd x))"

definition configs_ok :: "greengoHDetector \<Rightarrow> bool" where
  "configs_ok d \<longleftrightarrow> table_ok maxGgoConfigs (gh_configs d) \<and> list_all config_ok (gh_configs d)"

lemma announce_fields_clean:
  "fst s = [] \<or> length (fst s) = 16 \<Longrightarrow> clean_name (fst (snd s)) \<Longrightarrow>
     (let r = fold announce_field recs s in (fst r = [] \<or> length (fst r) = 16) \<and> clean_name (fst (snd r)))"
proof (induction recs arbitrary: s)
  case (Cons r recs)
  have "(fst (announce_field r s) = [] \<or> length (fst (announce_field r s)) = 16) \<and> clean_name (fst (snd (announce_field r s)))"
    using Cons.prems by (cases s) (auto simp: announce_field_def asciiTrim_def printableID_clean Let_def)
  then show ?case using Cons.IH [of "announce_field r s"] by simp
qed simp

lemma read_announce_clean:
  assumes "read_announce g = Some (cid, name, grp)" shows "length cid = 16 \<and> clean_name name"
proof -
  obtain recs where r: "fold announce_field recs ([], [], []) = (cid, name, grp)" "cid \<noteq> []"
    using assms by (auto simp: read_announce_def Let_def split_beta split: if_splits prod.splits)
  have "clean_name []" by (simp add: clean_name_def)
  then show ?thesis using announce_fields_clean [of "([], [], [])" recs] r by simp
qed

lemma recordConfig_ok:
  assumes "configs_ok d" "length cid = 16" "clean_name name"
  shows "configs_ok (recordConfig cid name grp now d)"
proof -
  have t: "table_ok maxGgoConfigs (gh_configs (recordConfig cid name grp now d))"
    using assms(1) by (auto simp: configs_ok_def recordConfig_def maxGgoConfigs_def intro!: touch_table_ok)
  have "config_ok (k, c)" if "(k, c) \<in> set (gh_configs (recordConfig cid name grp now d))" for k c
  proof -
    have "distinct (map fst (gh_configs d))" using assms(1) by (simp add: configs_ok_def table_ok_def)
    from touch_members [OF that [unfolded recordConfig_def, simplified] this] show ?thesis
      using assms by (auto simp: configs_ok_def config_ok_def list_all_iff dest!: map_of_SomeD split: option.splits)
  qed
  then show ?thesis using t by (auto simp: configs_ok_def list_all_iff)
qed

lemma ggoh_step_ok:
  assumes "configs_ok d" shows "configs_ok (snd (ggoh_step i d))"
proof (cases i)
  case (Heard f now)
  then show ?thesis
    using assms by (auto simp: ggoh_Consume_def recordConfig_ok dest!: read_announce_clean split: option.splits)
next
  case (Clock u now)
  then show ?thesis using assms
    by (auto simp: ggoh_Tick_def configs_ok_def table_ok_def Let_def list_all_iff distinct_map_filter
        intro: order_trans [OF length_filter_le])
qed (use assms in simp)

lemma ggoh_flag_frame: "gh_flaggedMulti (ggoh_Consume f now d) = gh_flaggedMulti d"
  by (auto simp: ggoh_Consume_def recordConfig_def split: option.split)

interpretation multi: alarm gh_flaggedMulti ggoh_step "''Multiple Green-GO configs active on segment''"
  "''Multiple Green-GO configs cleared''"
proof
  fix i d
  show "map ev_Action (filter (\<lambda>e. ev_Action e \<in> {''Multiple Green-GO configs active on segment'', ''Multiple Green-GO configs cleared''})
      (fst (ggoh_step i d)))
    = (if gh_flaggedMulti d then if gh_flaggedMulti (snd (ggoh_step i d)) then [] else [''Multiple Green-GO configs cleared'']
       else if gh_flaggedMulti (snd (ggoh_step i d)) then [''Multiple Green-GO configs active on segment''] else [])"
    by (cases i) (auto simp: ggoh_flag_frame ggoh_Tick_def Let_def)
qed simp

section \<open>Properties\<close>

text \<open>C28: The decoder reads what a leader announces: for any identity, multicast group and name, any
  seed and any padding, the frame that carries the sealed stream is stored under the identity's 16 hex
  digits with the group in dotted form and the name made printable, and the same frame with any other
  checksum changes nothing.\<close>

theorem announce_round_trip:
  assumes "bus_payload (gh_servedVID d) f
      = Some (bus_announce fl x y seed checksum (config_recs ident grp name) @ tail)"
    and "length ident = 8" "length grp = 4" "length name < 2 ^ 32" "fl AND 0x80 \<noteq> 0" "length tail < 16"
    and "configs_ok d"
  shows "if checksum = seal_checksum seed (config_recs ident grp name)
    then map_of (gh_configs (ggoh_Consume f now d)) (hex64 (be64 ident 0))
      = Some \<lparr>gc_id = hex64 (be64 ident 0), gc_name = asciiTrim name, gc_group = ipString grp, gc_lastSeen = now\<rparr>
    else ggoh_Consume f now d = d"
proof -
  have "gc_id c = hex64 (be64 ident 0)" if "map_of (gh_configs d) (hex64 (be64 ident 0)) = Some c" for c
    using that assms(7) by (auto simp: configs_ok_def config_ok_def list_all_iff dest!: map_of_SomeD)
  then show ?thesis
    using read_announce [OF assms(2-6), of x y seed checksum] assms(1)
    by (auto simp: ggoh_Consume_def recordConfig_def touch_key split: option.split)
qed

text \<open>However many identities are forged on the bus, at most 256 configurations are kept, each
  under its own identity of 16 digits and with a printable name; the rows of the "multiple
  configurations" alarm alternate and follow the flag; and a tick leaves the flag set exactly when two
  or more configurations were heard within the absence limit, which is when the card warns.\<close>

theorem config_watch_sound:
  "configs_ok (state_after ggoh_step is (newGreengoHDetector iface absence vid))
   \<and> rows_tell gh_flaggedMulti ggoh_step ''Multiple Green-GO configs active on segment''
        ''Multiple Green-GO configs cleared'' is (newGreengoHDetector iface absence vid)
   \<and> gh_flaggedMulti (snd (ggoh_Tick now d))
      = (2 \<le> length (filter (\<lambda>x. now - gc_lastSeen (snd x) \<le> gh_absence d) (gh_configs d)))
   \<and> (ds_Severity (ggoh_Snapshot (snd (ggoh_Tick now d))) = SevWarn) = gh_flaggedMulti (snd (ggoh_Tick now d))"
proof -
  have r: "configs_ok d \<Longrightarrow> configs_ok (state_after ggoh_step is d)" for d
    by (induction "is" arbitrary: d) (simp_all add: ggoh_step_ok)
  have "configs_ok (newGreengoHDetector iface absence vid)"
    by (simp add: newGreengoHDetector_def configs_ok_def table_ok_def)
  note r = r [OF this]
  have t: "gh_flaggedMulti (snd (ggoh_Tick now d)) = (2 \<le> length (gh_configs (snd (ggoh_Tick now d))))"
    "gh_configs (snd (ggoh_Tick now d)) = filter (\<lambda>x. now - gc_lastSeen (snd x) \<le> gh_absence d) (gh_configs d)"
    by (auto simp: ggoh_Tick_def Let_def case_prod_unfold not_less)
  have "(ds_Severity (ggoh_Snapshot d) = SevWarn) = (2 \<le> length (gh_configs d))" for d
    by (cases "gh_configs d" rule: list.exhaust; cases "tl (gh_configs d)") (auto simp: ggoh_Snapshot_def Let_def)
  then show ?thesis using r multi.rows_tell t by simp
qed

definition ex_recs :: "tlvRec list" where
  "ex_recs = config_recs [0, 0, 0, 0, 0, 0, 1, 0x2a] [239, 0, 0, 1] [83, 104, 111, 119]"

definition ex_bus :: Frame where
  "ex_bus = ex_frame (replicate 12 0 @ [0x08, 0x00] @ [0x45, 0, 0, 0, 0, 0, 0, 0, 64, 17, 0, 0, 10, 0, 0, 9, 10, 0, 0, 255]
     @ [0x16, 0xb2, 0x16, 0xb2, 0, 0, 0, 0] @ bus_announce 0x80 0 0 0xdeadbeef (seal_checksum 0xdeadbeef ex_recs) ex_recs)"

definition ex_ggoh :: greengoHDetector where
  "ex_ggoh = newGreengoHDetector ''eth0'' 0 0"

lemma announce_round_trip_witness:
  "map_of (gh_configs (ggoh_Consume ex_bus 5 ex_ggoh)) ''000000000000012a''
     = Some \<lparr>gc_id = ''000000000000012a'', gc_name = ''Show'', gc_group = ''239.0.0.1'', gc_lastSeen = 5\<rparr>"
proof -
  have b: "bus_payload (gh_servedVID ex_ggoh) ex_bus
      = Some (bus_announce 0x80 0 0 0xdeadbeef (seal_checksum 0xdeadbeef ex_recs)
          (config_recs [0, 0, 0, 0, 0, 0, 1, 0x2a] [239, 0, 0, 1] [83, 104, 111, 119]) @ [])"
    by code_simp
  have v: "hex64 (be64 [0, 0, 0, 0, 0, 0, 1, 0x2a] 0) = ''000000000000012a''"
    "asciiTrim [83, 104, 111, 119] = ''Show''" "ipString [239, 0, 0, 1] = ''239.0.0.1''"
    by code_simp+
  have "configs_ok ex_ggoh" by (simp add: ex_ggoh_def newGreengoHDetector_def configs_ok_def table_ok_def)
  from announce_round_trip [OF b _ _ _ _ _ this, of 5] show ?thesis by (simp add: v ex_recs_def)
qed

end
