(* ===== verification/StaticPool.thy ===== *)
theory StaticPool
  imports DhcpDetectors
begin

text \<open>
  \<open>src/internal/netmon/detect_static_in_pool.go\<close>: ARP-active hosts that hold an address of a
  dynamic pool without a lease.  Times are nanoseconds; the lease closure is the list of addresses
  it returns at a tick (\<open>None\<close> when it is nil), the detector's maps are association lists.
\<close>

section \<open>Pools and constants\<close>

definition defaultSquatterAbsence :: int where "defaultSquatterAbsence = 120 * second"
definition defaultLeaseRefresh :: int where "defaultLeaseRefresh = 30 * second"
definition staticWarmup :: int where "staticWarmup = 180 * second"
definition staticLeaseGraceFloor :: int where "staticLeaseGraceFloor = 120 * second"
definition staticLeaseGraceCap :: int where "staticLeaseGraceCap = 3600 * second"

record PoolRange =
  pr_Lo :: u32
  pr_Hi :: u32

definition range_contains :: "PoolRange \<Rightarrow> u32 \<Rightarrow> bool" where
  "range_contains r ip \<longleftrightarrow> pr_Lo r \<le> ip \<and> ip \<le> pr_Hi r"

definition u32ToIP :: "u32 \<Rightarrow> string" where
  "u32ToIP v = ipString (map (\<lambda>n. ucast (drop_bit n v AND 0xff)) [24, 16, 8, 0])"

definition range_String :: "PoolRange \<Rightarrow> string" where
  "range_String r = u32ToIP (pr_Lo r) @ ''-'' @ u32ToIP (pr_Hi r)"

definition netmon_ParsePoolRange :: "string \<Rightarrow> PoolRange option" where
  "netmon_ParsePoolRange s =
    (case str_cut ''-'' s of
       None \<Rightarrow> None
     | Some (l, h) \<Rightarrow>
        (case (parseU32 l, parseU32 h) of
           (Some a, Some b) \<Rightarrow> if a > b then None else Some \<lparr>pr_Lo = a, pr_Hi = b\<rparr>
         | _ \<Rightarrow> None))"

section \<open>The detector\<close>

record arpHost =
  ah_pres :: presence
  ah_ip :: u32
  ah_ipStr :: string
  ah_mac :: string
  ah_pool :: string
  ah_firstSeen :: int
  ah_present :: bool
  ah_flagged :: bool

record staticInPool =
  sp_iface :: string
  sp_pools :: "PoolRange list"
  sp_infra :: "u32 list"
  sp_absence :: int
  sp_leaseRefresh :: int
  sp_warmup :: int
  sp_leaseGrace :: int
  sp_startedAt :: "int option"
  sp_lastRefresh :: int
  sp_leasedSet :: "u32 list"
  sp_lastLeasedAt :: "(u32 \<times> int) list"
  sp_haveLeases :: bool
  sp_hosts :: "(u32 \<times> arpHost) list"

definition lease_grace :: "int \<Rightarrow> int" where
  "lease_grace leaseLifetimeSec =
    (let grace = i64 (go_div leaseLifetimeSec 2 * second);
         grace = (if grace < staticLeaseGraceFloor then staticLeaseGraceFloor else grace)
     in if grace > staticLeaseGraceCap then staticLeaseGraceCap else grace)"

definition newStaticInPoolDetector :: "string \<Rightarrow> PoolRange list \<Rightarrow> u32 list \<Rightarrow> int \<Rightarrow> int \<Rightarrow> staticInPool" where
  "newStaticInPoolDetector iface pools infraIPs absence leaseLifetimeSec =
    \<lparr>sp_iface = iface, sp_pools = pools, sp_infra = infraIPs,
     sp_absence = (if absence \<le> 0 then defaultSquatterAbsence else absence),
     sp_leaseRefresh = defaultLeaseRefresh, sp_warmup = staticWarmup, sp_leaseGrace = lease_grace leaseLifetimeSec,
     sp_startedAt = None, sp_lastRefresh = 0, sp_leasedSet = [], sp_lastLeasedAt = [], sp_haveLeases = False,
     sp_hosts = []\<rparr>"

definition static_Consume :: "Frame \<Rightarrow> int \<Rightarrow> staticInPool \<Rightarrow> staticInPool" where
  "static_Consume f now d =
    (case etherInfo (fr_Data f) of
       None \<Rightarrow> d
     | Some (et, off, _) \<Rightarrow>
        if et \<noteq> etherTypeARP then d
        else if length (fr_Data f) < off + 28 then d
        else let sha = take 6 (drop (off + 8) (fr_Data f)); spa = take 4 (drop (off + 14) (fr_Data f)) in
          if spa = [0, 0, 0, 0] then d
          else d\<lparr>sp_hosts :=
            touch maxStaticPoolHosts (\<lambda>h. pr_lastSeen (ah_pres h))
              \<lparr>ah_pres = newPresence 0 (sp_absence d), ah_ip = ip4ToU32 spa, ah_ipStr = ipString spa, ah_mac = [],
               ah_pool = [], ah_firstSeen = now, ah_present = False, ah_flagged = False\<rparr>
              (\<lambda>h. h\<lparr>ah_mac := macString sha, ah_pres := sighting now (ah_pres h)\<rparr>)
              (ip4ToU32 spa) (sp_hosts d)\<rparr>)"

definition pruneLeaseHistory :: "int \<Rightarrow> staticInPool \<Rightarrow> staticInPool" where
  "pruneLeaseHistory now d = d\<lparr>sp_lastLeasedAt := filter (\<lambda>(ip, t). now - t < sp_leaseGrace d) (sp_lastLeasedAt d)\<rparr>"

definition stamp :: "int \<Rightarrow> u32 list \<Rightarrow> (u32 \<times> int) list \<Rightarrow> (u32 \<times> int) list" where
  "stamp now ips m = fold (\<lambda>ip. AList.update ip now) ips m"

definition refresh_leases :: "string list option \<Rightarrow> int \<Rightarrow> staticInPool \<Rightarrow> staticInPool" where
  "refresh_leases leases now d =
    (case leases of
       None \<Rightarrow> d
     | Some ls \<Rightarrow>
        if sp_haveLeases d \<and> now - sp_lastRefresh d < sp_leaseRefresh d then d
        else let ips = List.map_filter parseU32 ls in
          pruneLeaseHistory now
            (d\<lparr>sp_leasedSet := ips, sp_lastLeasedAt := stamp now ips (sp_lastLeasedAt d),
              sp_haveLeases := True, sp_lastRefresh := now\<rparr>))"

definition squatterPool :: "staticInPool \<Rightarrow> arpHost \<Rightarrow> int \<Rightarrow> string option" where
  "squatterPool d h now =
    (if \<not> sp_haveLeases d \<or> ah_ip h \<in> set (sp_infra d) \<or> ah_ip h \<in> set (sp_leasedSet d) then None
     else if sp_lastRefresh d < ah_firstSeen h then None
     else if (case map_of (sp_lastLeasedAt d) (ah_ip h) of Some t \<Rightarrow> now - t < sp_leaseGrace d | None \<Rightarrow> False) then None
     else map_option range_String (List.find (\<lambda>r. range_contains r (ah_ip h)) (sp_pools d)))"

definition clearEvent :: "arpHost \<Rightarrow> Event" where
  "clearEvent h =
    \<lparr>ev_Action = ''Static device in DHCP pool cleared'', ev_Target = ah_ipStr h @ '' ('' @ ah_mac h @ '')'',
     ev_Before = ''static'', ev_After = ''none'', ev_Severity = SevInfo\<rparr>"

definition flagEvent :: "arpHost \<Rightarrow> string \<Rightarrow> Event" where
  "flagEvent h pool =
    \<lparr>ev_Action = ''Static device in DHCP pool'', ev_Target = ah_ipStr h @ '' ('' @ ah_mac h @ '')'',
     ev_Before = ''none'', ev_After = ''pool '' @ pool, ev_Severity = SevWarn\<rparr>"

definition host_status :: "staticInPool \<Rightarrow> bool \<Rightarrow> int \<Rightarrow> arpHost \<Rightarrow> arpHost \<times> Event list" where
  "host_status d warmingUp now h =
    (case (if ah_present h \<and> \<not> warmingUp then squatterPool d h now else None) of
       Some pool \<Rightarrow> if ah_flagged h then (h, [])
          else (let h' = h\<lparr>ah_flagged := True, ah_pool := pool\<rparr> in (h', [flagEvent h' pool]))
     | None \<Rightarrow> if ah_flagged h then (let h' = h\<lparr>ah_flagged := False\<rparr> in (h', [clearEvent h'])) else (h, []))"

definition tick_host :: "staticInPool \<Rightarrow> bool \<Rightarrow> int \<Rightarrow> u32 \<times> arpHost \<Rightarrow> (u32 \<times> arpHost) list \<times> Event list" where
  "tick_host d warmingUp now x =
    (let (k, h) = x; (e, p) = transition now (ah_pres h); h1 = h\<lparr>ah_pres := p\<rparr> in
     if e = -1 then ([], if ah_flagged h then [clearEvent h1] else [])
     else let (h2, evs) = host_status d warmingUp now (if e = 1 then h1\<lparr>ah_present := True\<rparr> else h1)
       in ([(k, h2)], evs))"

definition static_Tick :: "string list option \<Rightarrow> int \<Rightarrow> staticInPool \<Rightarrow> Event list \<times> staticInPool" where
  "static_Tick leases now d =
    (let started = (case sp_startedAt d of None \<Rightarrow> now | Some t \<Rightarrow> t);
         d1 = refresh_leases leases now (d\<lparr>sp_startedAt := Some started\<rparr>);
         rs = map (tick_host d1 (now - started < sp_warmup d) now) (sort_key fst (sp_hosts d1))
     in (concat (map snd rs), d1\<lparr>sp_hosts := concat (map fst rs)\<rparr>))"

record PoolHost =
  ph_IP :: string
  ph_MAC :: string
  ph_Flagged :: bool

definition unleased_host :: "staticInPool \<Rightarrow> u32 \<times> arpHost \<Rightarrow> bool" where
  "unleased_host d x \<longleftrightarrow> ah_present (snd x) \<and> fst x \<notin> set (sp_infra d) \<and> fst x \<notin> set (sp_leasedSet d)
     \<and> \<not> sp_lastRefresh d < ah_firstSeen (snd x) \<and> list_ex (\<lambda>r. range_contains r (fst x)) (sp_pools d)"

definition unleasedPoolHosts :: "staticInPool \<Rightarrow> PoolHost list" where
  "unleasedPoolHosts d =
    (if \<not> sp_haveLeases d then []
     else map (\<lambda>(ip, h). \<lparr>ph_IP = ah_ipStr h, ph_MAC = ah_mac h, ph_Flagged = ah_flagged h\<rparr>)
       (filter (unleased_host d) (sort_key fst (sp_hosts d))))"

definition static_Snapshot :: "staticInPool \<Rightarrow> DetectorSnapshot" where
  "static_Snapshot d =
    (let flagged = sort_key ah_ip (filter ah_flagged (map snd (sp_hosts d)));
         s = \<lparr>ds_Kind = ''static_in_pool'', ds_Severity = SevOK, ds_Subject = sp_iface d, ds_Text = [], ds_Fields = []\<rparr> in
     if flagged = [] then s\<lparr>ds_Severity := SevOK, ds_Text := ''No static devices in pools''\<rparr>
     else let h = hd flagged; oui = ouiOf (ah_mac h); n = int (length flagged) - 1 in
       s\<lparr>ds_Severity := SevWarn, ds_Subject := ah_ipStr h,
         ds_Text := (if n > 0
           then ah_ipStr h @ '' ('' @ oui @ '') and '' @ netmon_itoa n @ '' more static '' @ plural n ''device'' ''devices''
             @ '' using pool addresses - reserve or relocate them (harmless if intentional)''
           else ''Static device '' @ ah_ipStr h @ '' ('' @ oui @ '') is using a DHCP pool address''),
         ds_Fields := [(''ip'', ah_ipStr h), (''mac'', ah_mac h), (''oui'', oui), (''pool'', ah_pool h),
           (''reason'', ''active-not-leased'')]\<rparr>)"

section \<open>Reachable detectors\<close>

inductive static_step :: "staticInPool \<Rightarrow> staticInPool \<Rightarrow> bool" where
  consume: "static_step d (static_Consume f now d)"
| tick: "static_Tick leases now d = (evs, d') \<Longrightarrow> static_step d d'"

inductive static_reaches :: "staticInPool \<Rightarrow> staticInPool \<Rightarrow> bool" for d0 where
  start: "static_reaches d0 d0"
| more: "static_reaches d0 d \<Longrightarrow> static_step d d' \<Longrightarrow> static_reaches d0 d'"

definition static_inv :: "staticInPool \<Rightarrow> bool" where
  "static_inv d \<longleftrightarrow> table_ok maxStaticPoolHosts (sp_hosts d) \<and> (\<forall>(k, h) \<in> set (sp_hosts d). ah_ip h = k)"

lemma refresh_hosts [simp]:
  "sp_hosts (refresh_leases ls now d) = sp_hosts d" "sp_pools (refresh_leases ls now d) = sp_pools d"
  "sp_infra (refresh_leases ls now d) = sp_infra d" "sp_startedAt (refresh_leases ls now d) = sp_startedAt d"
  by (simp_all add: refresh_leases_def pruneLeaseHistory_def Let_def split: option.split)

lemma tick_host_keys:
  "(k', h') \<in> set (fst (tick_host d w now (k, h))) \<Longrightarrow> k' = k \<and> ah_ip h' = ah_ip h"
  by (auto simp: tick_host_def host_status_def Let_def split: prod.splits option.splits if_splits)

lemma tick_hosts_map: "map fst (concat (map fst (map (tick_host d w now) xs)))
    = map fst (filter (\<lambda>x. fst (tick_host d w now x) \<noteq> []) xs)"
  by (induction xs) (auto simp: tick_host_def Let_def split: prod.splits)

lemma static_Tick_inv:
  assumes "static_inv d" "static_Tick ls now d = (evs, d')"
  shows "static_inv d'"
proof -
  let ?xs = "sort_key fst (sp_hosts d)"
  obtain d1 w where d': "sp_hosts d' = concat (map fst (map (tick_host d1 w now) ?xs))"
    using assms(2) by (auto simp: static_Tick_def Let_def)
  have x: "distinct (map fst ?xs)" "length ?xs \<le> maxStaticPoolHosts"
    using assms(1) by (simp_all add: static_inv_def table_ok_def distinct_map)
  have m: "map fst (sp_hosts d') = map fst (filter (\<lambda>x. fst (tick_host d1 w now x) \<noteq> []) ?xs)"
    unfolding d' by (rule tick_hosts_map)
  have "length (sp_hosts d') \<le> length ?xs"
    using arg_cong [OF m, of length] length_filter_le [of "\<lambda>x. fst (tick_host d1 w now x) \<noteq> []" ?xs] by simp
  moreover have "distinct (map fst (sp_hosts d'))" unfolding m using x(1) by (rule distinct_map_filter)
  ultimately show ?thesis
    using assms(1) x(2) by (auto simp: static_inv_def table_ok_def d' dest!: tick_host_keys)
qed

lemma static_Consume_inv:
  assumes "static_inv d" shows "static_inv (static_Consume f now d)"
proof -
  define k new and g :: "arpHost \<Rightarrow> arpHost" where
    "k = ip4ToU32 (take 4 (drop (fst (snd (the (etherInfo (fr_Data f)))) + 14) (fr_Data f)))"
    and "new = (\<lparr>ah_pres = newPresence 0 (sp_absence d), ah_ip = k,
       ah_ipStr = ipString (take 4 (drop (fst (snd (the (etherInfo (fr_Data f)))) + 14) (fr_Data f))), ah_mac = [],
       ah_pool = [], ah_firstSeen = now, ah_present = False, ah_flagged = False\<rparr> :: arpHost)"
    and "g = (\<lambda>h. h\<lparr>ah_mac := macString (take 6 (drop (fst (snd (the (etherInfo (fr_Data f)))) + 8) (fr_Data f))), ah_pres := sighting now (ah_pres h)\<rparr>)"
  let ?t = "touch maxStaticPoolHosts (\<lambda>h. pr_lastSeen (ah_pres h)) new g k (sp_hosts d)"
  have t: "table_ok maxStaticPoolHosts ?t"
    using assms by (intro touch_table_ok) (auto simp: static_inv_def maxStaticPoolHosts_def)
  have d: "distinct (map fst (sp_hosts d))" using assms by (simp add: static_inv_def table_ok_def)
  have "ah_ip h = k'" if "(k', h) \<in> set ?t" for k' h
    using touch_members [OF that d] assms
    by (auto simp: static_inv_def new_def g_def split: option.splits dest!: map_of_SomeD)
  with t have "static_inv (d\<lparr>sp_hosts := ?t\<rparr>)" by (auto simp: static_inv_def)
  then show ?thesis
    using assms by (auto simp: static_Consume_def Let_def k_def new_def g_def split: option.splits)
qed

lemma static_reaches_inv: "static_reaches d0 d \<Longrightarrow> static_inv d0 \<Longrightarrow> static_inv d"
  by (induction rule: static_reaches.induct)
     (auto elim!: static_step.cases dest: static_Tick_inv static_Consume_inv)

section \<open>Justified alerts\<close>

definition justified :: "staticInPool \<Rightarrow> int \<Rightarrow> arpHost \<Rightarrow> bool" where
  "justified d now h \<longleftrightarrow> ah_present h \<and> sp_haveLeases d
     \<and> (case sp_startedAt d of Some t \<Rightarrow> sp_warmup d \<le> now - t | None \<Rightarrow> False)
     \<and> ah_ip h \<notin> set (sp_infra d) \<and> ah_ip h \<notin> set (sp_leasedSet d) \<and> ah_firstSeen h \<le> sp_lastRefresh d
     \<and> (\<forall>t. map_of (sp_lastLeasedAt d) (ah_ip h) = Some t \<longrightarrow> sp_leaseGrace d \<le> now - t)
     \<and> (\<exists>r \<in> set (sp_pools d). range_contains r (ah_ip h))"

lemma squatter_hosts:
  "squatterPool (d\<lparr>sp_hosts := hs\<rparr>) h now = squatterPool d h now"
  "justified (d\<lparr>sp_hosts := hs\<rparr>) now h = justified d now h"
  by (simp_all add: squatterPool_def justified_def split: option.split)

lemma find_in: "List.find P xs = Some x \<Longrightarrow> x \<in> set xs \<and> P x"
  by (auto simp: find_Some_iff)

lemma squatter_justified:
  assumes "squatterPool d h now = Some pool" "ah_present h" "sp_startedAt d = Some t" "\<not> now - t < sp_warmup d"
  shows "justified d now h"
  using assms
  by (auto simp: squatterPool_def justified_def split: if_splits option.splits dest!: find_in)

lemma status_justified:
  assumes "host_status d w now h = (h', evs)"
  shows "ah_flagged h' \<Longrightarrow> \<not> w \<and> ah_present h' \<and> squatterPool d h' now \<noteq> None"
    "\<forall>e \<in> set evs. if ah_flagged h' then e = flagEvent h' (ah_pool h') else e = clearEvent h'"
    "evs = [] \<longleftrightarrow> ah_flagged h' = ah_flagged h" "ah_present h' = ah_present h"
  using assms by (auto simp: host_status_def squatterPool_def Let_def split: option.splits if_splits)

lemma tick_host_status:
  assumes "tick_host d w now x = (es, evs)" "sp_startedAt d = Some t" "w = (now - t < sp_warmup d)"
  shows "(\<forall>y \<in> set es. ah_flagged (snd y) \<longrightarrow> justified d now (snd y))
    \<and> (\<forall>e \<in> set evs. ev_Action e = ''Static device in DHCP pool''
        \<longrightarrow> (\<exists>y \<in> set es. ah_flagged (snd y) \<and> e = flagEvent (snd y) (ah_pool (snd y))))"
proof -
  obtain k h where x: "x = (k, h)" by fastforce
  obtain e p where t: "transition now (ah_pres h) = (e, p)" by fastforce
  let ?h = "if e = 1 then h\<lparr>ah_pres := p, ah_present := True\<rparr> else h\<lparr>ah_pres := p\<rparr>"
  obtain h2 evs2 where s: "host_status d w now ?h = (h2, evs2)" by fastforce
  show ?thesis
  proof (cases "e = -1")
    case True
    then have "es = [] \<and> (evs = [] \<or> evs = [clearEvent (h\<lparr>ah_pres := p\<rparr>)])"
      using assms(1) t by (simp add: x tick_host_def Let_def split: if_splits)
    then show ?thesis by (elim conjE disjE) (simp_all add: clearEvent_def)
  next
    case False
    then have r: "es = [(k, h2)]" "evs = evs2"
      using assms(1) t s by (simp_all add: x tick_host_def Let_def split: if_splits)
    have f: "ev_Action e = ''Static device in DHCP pool'' \<Longrightarrow> ah_flagged h2 \<and> e = flagEvent h2 (ah_pool h2)"
      if "e \<in> set evs2" for e
      using status_justified(2) [OF s] that by (cases "ah_flagged h2") (auto simp: clearEvent_def)
    have "justified d now h2" if "ah_flagged h2"
      using status_justified(1) [OF s that] squatter_justified [of d h2 now _ t] assms(2,3) by auto
    with f show ?thesis unfolding r by auto
  qed
qed

lemma unleased_listed:
  assumes "static_inv d" "(k, h) \<in> set (sp_hosts d)" "justified d now h"
  shows "sp_haveLeases d \<and> unleased_host d (k, h)"
  using assms by (auto simp: justified_def unleased_host_def static_inv_def list_ex_iff)

definition as_PoolHost :: "arpHost \<Rightarrow> PoolHost" where
  "as_PoolHost h = \<lparr>ph_IP = ah_ipStr h, ph_MAC = ah_mac h, ph_Flagged = ah_flagged h\<rparr>"

lemma set_unleasedPoolHosts:
  "set (unleasedPoolHosts d) = (if sp_haveLeases d
     then (\<lambda>x. as_PoolHost (snd x)) ` {x \<in> set (sp_hosts d). unleased_host d x} else {})"
  by (auto simp: unleasedPoolHosts_def as_PoolHost_def image_def split: prod.splits)

lemma newStatic_inv: "static_inv (newStaticInPoolDetector iface pools infraIPs absence life)"
  by (simp add: newStaticInPoolDetector_def static_inv_def table_ok_def)

lemma Tick_flags_justified:
  assumes "static_Tick ls now d = (evs, d')"
  shows "\<forall>x \<in> set (sp_hosts d'). ah_flagged (snd x) \<longrightarrow> justified d' now (snd x)"
    "\<forall>e \<in> set evs. ev_Action e = ''Static device in DHCP pool''
      \<longrightarrow> (\<exists>x \<in> set (sp_hosts d'). ah_flagged (snd x) \<and> e = flagEvent (snd x) (ah_pool (snd x)))"
proof -
  define t where "t = (case sp_startedAt d of None \<Rightarrow> now | Some t \<Rightarrow> t)"
  define d1 where "d1 = refresh_leases ls now (d\<lparr>sp_startedAt := Some t\<rparr>)"
  let ?w = "now - t < sp_warmup d" and ?xs = "sort_key fst (sp_hosts d1)"
  have r: "evs = concat (map snd (map (tick_host d1 ?w now) ?xs))"
      "d' = d1\<lparr>sp_hosts := concat (map fst (map (tick_host d1 ?w now) ?xs))\<rparr>"
    using assms by (simp_all add: static_Tick_def Let_def t_def d1_def)
  have warm: "sp_startedAt d1 = Some t" "?w = (now - t < sp_warmup d1)"
    by (simp_all add: d1_def refresh_leases_def pruneLeaseHistory_def Let_def split: option.split)
  note st = tick_host_status [OF surjective_pairing warm]
  show "\<forall>x \<in> set (sp_hosts d'). ah_flagged (snd x) \<longrightarrow> justified d' now (snd x)"
    unfolding r(2) squatter_hosts using st by fastforce
  show "\<forall>e \<in> set evs. ev_Action e = ''Static device in DHCP pool''
      \<longrightarrow> (\<exists>x \<in> set (sp_hosts d'). ah_flagged (snd x) \<and> e = flagEvent (snd x) (ah_pool (snd x)))"
    unfolding r using st by fastforce
qed

section \<open>What the detector has been given\<close>

datatype static_input = Arp Frame int | Poll "string list option" int

definition static_input_step :: "staticInPool \<Rightarrow> static_input \<Rightarrow> staticInPool" where
  "static_input_step d x = (case x of Arp f t \<Rightarrow> static_Consume f t d | Poll ls t \<Rightarrow> snd (static_Tick ls t d))"

definition static_run :: "staticInPool \<Rightarrow> static_input list \<Rightarrow> staticInPool" where
  "static_run d hs = foldl static_input_step d hs"

text \<open>The lease lists that are read, newest first: the first one there is, and then one at a tick
  at least \<open>every\<close> after the last.\<close>

definition read_step :: "int \<Rightarrow> (int \<times> u32 list) list \<Rightarrow> static_input \<Rightarrow> (int \<times> u32 list) list" where
  "read_step every acc x = (case x of
     Poll (Some ls) t \<Rightarrow> if acc \<noteq> [] \<and> t - fst (hd acc) < every then acc else (t, List.map_filter parseU32 ls) # acc
   | _ \<Rightarrow> acc)"

definition lease_reads :: "int \<Rightarrow> static_input list \<Rightarrow> (int \<times> u32 list) list" where
  "lease_reads every hs = foldl (read_step every) [] hs"

definition poll_times :: "static_input list \<Rightarrow> int list" where
  "poll_times hs = concat (map (\<lambda>x. case x of Poll _ t \<Rightarrow> [t] | Arp _ _ \<Rightarrow> []) hs)"

text \<open>An ARP frame whose sender address is \<open>ip\<close>.\<close>

definition arp_from :: "u32 \<Rightarrow> Frame \<Rightarrow> bool" where
  "arp_from ip f \<longleftrightarrow> (let d = fr_Data f in \<exists>e \<in> {12, 16}.
     (e = 16 \<longrightarrow> take 2 (drop 12 d) = [0x81, 0x00]) \<and> take 2 (drop e d) = [0x08, 0x06]
     \<and> e + 30 \<le> length d \<and> take 4 (drop (e + 16) d) = put_u32 ip)"

definition arp_at :: "static_input list \<Rightarrow> u32 \<Rightarrow> int \<Rightarrow> bool" where
  "arp_at hs ip t \<longleftrightarrow> (\<exists>f. Arp f t \<in> set hs \<and> arp_from ip f)"

lemma arp_at_mono: "arp_at hs ip t \<Longrightarrow> arp_at (hs @ [x]) ip t"
  by (auto simp: arp_at_def)

lemma put_ip4ToU32: "length b = 4 \<Longrightarrow> put_u32 (ip4ToU32 b) = b"
  by (auto simp: ip4ToU32_def length_Suc_conv eval_nat_numeral put_u32_be_u32)

lemma static_Consume_cases:
  obtains (same) "static_Consume f now d = d"
  | (seen) k new g where "arp_from k f" "new = \<lparr>ah_pres = newPresence 0 (sp_absence d), ah_ip = k, ah_ipStr = ah_ipStr new,
        ah_mac = [], ah_pool = [], ah_firstSeen = now, ah_present = False, ah_flagged = False\<rparr>"
      "\<And>h. ah_pres (g h) = sighting now (ah_pres h) \<and> ah_ip (g h) = ah_ip h \<and> ah_firstSeen (g h) = ah_firstSeen h
         \<and> ah_present (g h) = ah_present h"
      "static_Consume f now d = d\<lparr>sp_hosts := touch maxStaticPoolHosts (\<lambda>h. pr_lastSeen (ah_pres h)) new g k (sp_hosts d)\<rparr>"
proof (cases "static_Consume f now d = d")
  case False
  then obtain et off vid where e: "etherInfo (fr_Data f) = Some (et, off, vid)" "et = etherTypeARP"
    "off + 28 \<le> length (fr_Data f)" "take 4 (drop (off + 14) (fr_Data f)) \<noteq> [0, 0, 0, 0]"
    by (auto simp: static_Consume_def Let_def split: option.splits if_splits)
  define spa where "spa = take 4 (drop (off + 14) (fr_Data f))"
  have "arp_from (ip4ToU32 spa) f"
    using e etherInfo_arp [OF e(1) [unfolded e(2)]] by (auto simp: arp_from_def put_ip4ToU32 spa_def add.commute)
  then show ?thesis
    by (rule seen [where g = "\<lambda>h. h\<lparr>ah_mac := macString (take 6 (drop (off + 8) (fr_Data f))), ah_pres := sighting now (ah_pres h)\<rparr>"
          and new = "\<lparr>ah_pres = newPresence 0 (sp_absence d), ah_ip = ip4ToU32 spa, ah_ipStr = ipString spa, ah_mac = [],
               ah_pool = [], ah_firstSeen = now, ah_present = False, ah_flagged = False\<rparr>"])
      (use e in \<open>simp_all add: static_Consume_def Let_def spa_def\<close>)
qed (rule same)

text \<open>What the state says of the history.\<close>

definition host_hist :: "int \<Rightarrow> static_input list \<Rightarrow> u32 \<times> arpHost \<Rightarrow> bool" where
  "host_hist absence hs x \<longleftrightarrow> ah_ip (snd x) = fst x \<and> pr_seen (ah_pres (snd x))
     \<and> pr_absenceAfter (ah_pres (snd x)) = absence \<and> (ah_present (snd x) \<longleftrightarrow> pr_present (ah_pres (snd x)))
     \<and> arp_at hs (fst x) (ah_firstSeen (snd x)) \<and> arp_at hs (fst x) (pr_lastSeen (ah_pres (snd x)))"

definition lease_hist :: "static_input list \<Rightarrow> staticInPool \<Rightarrow> bool" where
  "lease_hist hs d \<longleftrightarrow> (let reads = lease_reads (sp_leaseRefresh d) hs in
     sp_haveLeases d = (reads \<noteq> [])
     \<and> (reads \<noteq> [] \<longrightarrow> sp_lastRefresh d = fst (hd reads) \<and> sp_leasedSet d = snd (hd reads))
     \<and> (\<forall>(t, ips) \<in> set reads. t \<in> set (poll_times hs) \<and> (\<forall>ip \<in> set ips.
          (\<exists>t'. map_of (sp_lastLeasedAt d) ip = Some t' \<and> t \<le> t')
          \<or> (\<exists>p \<in> set (poll_times hs). sp_leaseGrace d \<le> p - t))))"

definition same_setup :: "staticInPool \<Rightarrow> staticInPool \<Rightarrow> bool" where
  "same_setup d0 d \<longleftrightarrow> sp_pools d = sp_pools d0 \<and> sp_infra d = sp_infra d0 \<and> sp_absence d = sp_absence d0
     \<and> sp_leaseRefresh d = sp_leaseRefresh d0 \<and> sp_warmup d = sp_warmup d0 \<and> sp_leaseGrace d = sp_leaseGrace d0"

definition started_hist :: "static_input list \<Rightarrow> staticInPool \<Rightarrow> bool" where
  "started_hist hs d \<longleftrightarrow> sp_startedAt d = (case poll_times hs of [] \<Rightarrow> None | t # _ \<Rightarrow> Some t)"

lemma host_hist_mono: "host_hist absence hs x \<Longrightarrow> host_hist absence (hs @ [y]) x"
  by (simp add: host_hist_def arp_at_mono)

lemma host_hist_consume:
  assumes "list_all (host_hist (sp_absence d) hs) (sp_hosts d)" "distinct (map fst (sp_hosts d))"
  shows "list_all (host_hist (sp_absence d) (hs @ [Arp f t])) (sp_hosts (static_Consume f t d))"
proof (cases rule: static_Consume_cases [of f t d])
  case same
  then show ?thesis using assms(1) by (auto simp: list_all_iff intro: host_hist_mono)
next
  case (seen k new g)
  have now: "arp_at (hs @ [Arp f t]) k t" using seen(1) by (auto simp: arp_at_def)
  have "host_hist (sp_absence d) (hs @ [Arp f t]) (k', h)"
    if m: "(k', h) \<in> set (touch maxStaticPoolHosts (\<lambda>h. pr_lastSeen (ah_pres h)) new g k (sp_hosts d))" for k' h
    using touch_members [OF m assms(2)]
  proof
    assume "(k', h) \<in> set (sp_hosts d)"
    then show ?thesis using assms(1) by (auto simp: list_all_iff intro: host_hist_mono)
  next
    assume h: "k' = k \<and> h = g (case map_of (sp_hosts d) k of Some v \<Rightarrow> v | None \<Rightarrow> new)"
    show ?thesis
    proof (cases "map_of (sp_hosts d) k")
      case None
      have "ah_pres new = newPresence 0 (sp_absence d)" "ah_ip new = k" "ah_firstSeen new = t" "\<not> ah_present new"
        by (subst seen(2), simp)+
      then show ?thesis using h None now seen(3) [of new]
        by (simp add: host_hist_def sighting_def newPresence_def Let_def)
    next
      case (Some v)
      then have "host_hist (sp_absence d) hs (k, v)" using assms(1) by (auto simp: list_all_iff dest: map_of_SomeD)
      then show ?thesis using h Some now seen(3) [of v]
        by (auto simp: host_hist_def sighting_def Let_def intro: arp_at_mono)
    qed
  qed
  then show ?thesis by (auto simp: seen(4) list_all_iff)
qed

lemma tick_host_hist:
  assumes "host_hist absence hs x" "y \<in> set (fst (tick_host d w now x))"
  shows "host_hist absence hs y \<and> (ah_present (snd y) \<longrightarrow> now - pr_lastSeen (ah_pres (snd y)) \<le> absence)"
  using assms
  by (auto simp: tick_host_def host_hist_def host_status_def transition_def Let_def
      split: prod.splits option.splits if_splits)

lemma static_Tick_shape:
  obtains d1 w where "snd (static_Tick ls now d) = d1\<lparr>sp_hosts := concat (map (\<lambda>x. fst (tick_host d1 w now x)) (sort_key fst (sp_hosts d)))\<rparr>"
    "d1 = refresh_leases ls now (d\<lparr>sp_startedAt := Some (case sp_startedAt d of None \<Rightarrow> now | Some t \<Rightarrow> t)\<rparr>)"
  by (rule that [OF _ refl]) (simp add: static_Tick_def Let_def comp_def)

lemma stamp_map_of: "map_of (stamp now ips m) ip = (if ip \<in> set ips then Some now else map_of m ip)"
  unfolding stamp_def by (induction ips arbitrary: m) (auto simp: update_conv')

lemma poll_times_snoc:
  "poll_times (hs @ [Poll ls t]) = poll_times hs @ [t]" "poll_times (hs @ [Arp f t]) = poll_times hs"
  by (simp_all add: poll_times_def)

lemma lease_reads_snoc: "lease_reads every (hs @ [x]) = read_step every (lease_reads every hs) x"
  by (simp add: lease_reads_def)

lemma refresh_setup:
  "sp_leaseRefresh (refresh_leases ls now d) = sp_leaseRefresh d" "sp_leaseGrace (refresh_leases ls now d) = sp_leaseGrace d"
  "sp_absence (refresh_leases ls now d) = sp_absence d" "sp_warmup (refresh_leases ls now d) = sp_warmup d"
  by (simp_all add: refresh_leases_def pruneLeaseHistory_def Let_def split: option.split)

lemma map_of_filter_snd: "map_of m k = Some v \<Longrightarrow> P v \<Longrightarrow> map_of (filter (\<lambda>(i, t). P t) m) k = Some v"
  by (induction m) (auto split: if_splits)

lemma lease_histI:
  assumes "lease_reads (sp_leaseRefresh d) hs = (t0, ips) # older" "sp_haveLeases d" "sp_lastRefresh d = t0" "sp_leasedSet d = ips"
    "\<forall>(t, jps) \<in> set ((t0, ips) # older). t \<in> set (poll_times hs) \<and> (\<forall>ip \<in> set jps.
       (\<exists>t'. map_of (sp_lastLeasedAt d) ip = Some t' \<and> t \<le> t')
       \<or> (\<exists>p \<in> set (poll_times hs). sp_leaseGrace d \<le> p - t))"
  shows "lease_hist hs d"
  unfolding lease_hist_def Let_def assms(1) using assms(2-5) by simp

lemma lease_hist_refresh:
  assumes "lease_hist hs d" "\<forall>p \<in> set (poll_times hs). p \<le> now"
  shows "lease_hist (hs @ [Poll ls now]) (refresh_leases ls now d)"
proof (cases "refresh_leases ls now d = d \<and> lease_reads (sp_leaseRefresh d) (hs @ [Poll ls now]) = lease_reads (sp_leaseRefresh d) hs")
  case True
  then show ?thesis using assms(1) by (fastforce simp: lease_hist_def Let_def poll_times_snoc)
next
  case False
  let ?reads = "lease_reads (sp_leaseRefresh d) hs"
  from False assms(1) obtain l where l: "ls = Some l"
    "\<not> (sp_haveLeases d \<and> now - sp_lastRefresh d < sp_leaseRefresh d)"
    by (cases ls) (auto simp: refresh_leases_def lease_reads_snoc read_step_def lease_hist_def Let_def split: if_splits)
  define ips where "ips = List.map_filter parseU32 l"
  let ?m = "filter (\<lambda>(ip, t). now - t < sp_leaseGrace d) (stamp now ips (sp_lastLeasedAt d))"
  have d': "refresh_leases ls now d = d\<lparr>sp_leasedSet := ips, sp_lastLeasedAt := ?m, sp_haveLeases := True, sp_lastRefresh := now\<rparr>"
    by (simp add: refresh_leases_def l(1) if_not_P [OF l(2)] pruneLeaseHistory_def Let_def ips_def)
  have r': "lease_reads (sp_leaseRefresh d) (hs @ [Poll ls now]) = (now, ips) # ?reads"
    using l assms(1) by (auto simp: lease_reads_snoc read_step_def lease_hist_def Let_def ips_def)
  have keep: "(\<exists>t'. map_of ?m ip = Some t' \<and> t \<le> t')
      \<or> (\<exists>p \<in> set (poll_times (hs @ [Poll ls now])). sp_leaseGrace d \<le> p - t)"
    if "map_of (stamp now ips (sp_lastLeasedAt d)) ip = Some t'" "t \<le> t'" for ip t t'
  proof (cases "now - t' < sp_leaseGrace d")
    case True
    then show ?thesis using map_of_filter_snd [OF that(1), of "\<lambda>t. now - t < sp_leaseGrace d"] that(2) by blast
  next
    case False
    then show ?thesis using that(2) by (intro disjI2 bexI [of _ now]) (auto simp: poll_times_snoc)
  qed
  have "(\<exists>t'. map_of ?m ip = Some t' \<and> t \<le> t')
      \<or> (\<exists>p \<in> set (poll_times (hs @ [Poll ls now])). sp_leaseGrace d \<le> p - t)"
    if x: "(t, jps) \<in> set ((now, ips) # ?reads)" "ip \<in> set jps" for t jps ip
  proof (cases "(t, jps) \<in> set ?reads")
    case True
    then have t: "t \<le> now" and
      o: "(\<exists>t'. map_of (sp_lastLeasedAt d) ip = Some t' \<and> t \<le> t') \<or> (\<exists>p \<in> set (poll_times hs). sp_leaseGrace d \<le> p - t)"
      using assms x(2) by (fastforce simp: lease_hist_def Let_def)+
    show ?thesis
      using o t keep [of ip "if ip \<in> set ips then now else (case map_of (sp_lastLeasedAt d) ip of Some t' \<Rightarrow> t' | None \<Rightarrow> 0)" t]
      by (auto simp: stamp_map_of poll_times_snoc)
  next
    case False
    then show ?thesis using x keep [of ip now t] by (simp add: stamp_map_of)
  qed
  moreover have "t \<in> set (poll_times (hs @ [Poll ls now]))" if "(t, jps) \<in> set ((now, ips) # ?reads)" for t jps
    using that assms(1) by (fastforce simp: lease_hist_def Let_def poll_times_snoc)
  ultimately have "\<forall>(t, jps) \<in> set ((now, ips) # ?reads). t \<in> set (poll_times (hs @ [Poll ls now]))
      \<and> (\<forall>ip \<in> set jps. (\<exists>t'. map_of ?m ip = Some t' \<and> t \<le> t')
          \<or> (\<exists>p \<in> set (poll_times (hs @ [Poll ls now])). sp_leaseGrace d \<le> p - t))" by blast
  then have "\<forall>(t, jps) \<in> set ((now, ips) # ?reads). t \<in> set (poll_times (hs @ [Poll ls now]))
      \<and> (\<forall>ip \<in> set jps. (\<exists>t'. map_of (sp_lastLeasedAt (refresh_leases ls now d)) ip = Some t' \<and> t \<le> t')
          \<or> (\<exists>p \<in> set (poll_times (hs @ [Poll ls now])). sp_leaseGrace (refresh_leases ls now d) \<le> p - t))"
    unfolding d' by simp
  then show ?thesis by (rule lease_histI [rotated -1]) (simp_all add: d' r')
qed

definition static_hist :: "staticInPool \<Rightarrow> static_input list \<Rightarrow> staticInPool \<Rightarrow> bool" where
  "static_hist d0 hs d \<longleftrightarrow> static_inv d \<and> same_setup d0 d \<and> started_hist hs d \<and> lease_hist hs d
     \<and> list_all (host_hist (sp_absence d) hs) (sp_hosts d)"

lemma static_hist_consume:
  assumes "static_hist d0 hs d"
  shows "static_hist d0 (hs @ [Arp f t]) (static_Consume f t d)"
proof -
  obtain hosts where e: "static_Consume f t d = d\<lparr>sp_hosts := hosts\<rparr>"
    by (rule static_Consume_cases [of f t d]) (metis staticInPool.surjective staticInPool.update_convs(13))+
  have "list_all (host_hist (sp_absence d) (hs @ [Arp f t])) (sp_hosts (static_Consume f t d))"
    using assms by (intro host_hist_consume) (auto simp: static_hist_def static_inv_def table_ok_def)
  moreover have "static_inv (static_Consume f t d)" using assms by (simp add: static_hist_def static_Consume_inv)
  moreover have "lease_hist (hs @ [Arp f t]) (static_Consume f t d)"
    using assms by (simp add: static_hist_def e lease_hist_def lease_reads_snoc read_step_def poll_times_snoc)
  moreover have "same_setup d0 (static_Consume f t d)" "started_hist (hs @ [Arp f t]) (static_Consume f t d)"
    "sp_absence (static_Consume f t d) = sp_absence d"
    using assms by (simp_all add: static_hist_def e same_setup_def started_hist_def poll_times_snoc)
  ultimately show ?thesis by (simp add: static_hist_def)
qed

lemma static_hist_tick:
  assumes "static_hist d0 hs d" "\<forall>p \<in> set (poll_times hs). p \<le> now"
  shows "static_hist d0 (hs @ [Poll ls now]) (snd (static_Tick ls now d))"
    "\<forall>x \<in> set (sp_hosts (snd (static_Tick ls now d))). ah_present (snd x)
      \<longrightarrow> now - pr_lastSeen (ah_pres (snd x)) \<le> sp_absence d0"
proof -
  obtain d1 w where t: "snd (static_Tick ls now d) = d1\<lparr>sp_hosts := concat (map (\<lambda>x. fst (tick_host d1 w now x)) (sort_key fst (sp_hosts d)))\<rparr>"
    "d1 = refresh_leases ls now (d\<lparr>sp_startedAt := Some (case sp_startedAt d of None \<Rightarrow> now | Some t \<Rightarrow> t)\<rparr>)"
    by (rule static_Tick_shape [of ls now d])
  let ?d = "d\<lparr>sp_startedAt := Some (case sp_startedAt d of None \<Rightarrow> now | Some t \<Rightarrow> t)\<rparr>"
  have "lease_hist hs ?d" using assms(1) by (simp add: static_hist_def lease_hist_def)
  then have "lease_hist (hs @ [Poll ls now]) d1" unfolding t(2) using assms(2) by (rule lease_hist_refresh)
  then have l: "lease_hist (hs @ [Poll ls now]) (snd (static_Tick ls now d))" by (simp add: t(1) lease_hist_def)
  have s: "same_setup d0 (snd (static_Tick ls now d))" "sp_absence (snd (static_Tick ls now d)) = sp_absence d"
    "sp_absence d = sp_absence d0"
    using assms(1) by (simp_all add: static_hist_def same_setup_def t refresh_setup)
  have "started_hist (hs @ [Poll ls now]) (snd (static_Tick ls now d))"
    using assms(1) by (cases "poll_times hs") (simp_all add: static_hist_def started_hist_def t poll_times_snoc)
  moreover have h: "host_hist (sp_absence d) (hs @ [Poll ls now]) y
      \<and> (ah_present (snd y) \<longrightarrow> now - pr_lastSeen (ah_pres (snd y)) \<le> sp_absence d)"
    if y: "y \<in> set (sp_hosts (snd (static_Tick ls now d)))" for y
  proof -
    from y obtain x where x: "x \<in> set (sp_hosts d)" "y \<in> set (fst (tick_host d1 w now x))" by (auto simp: t(1))
    then have "host_hist (sp_absence d) hs x" using assms(1) by (auto simp: static_hist_def list_all_iff)
    then show ?thesis by (rule tick_host_hist [OF host_hist_mono x(2)])
  qed
  moreover have "static_inv (snd (static_Tick ls now d))"
    using assms(1) by (auto simp: static_hist_def intro: static_Tick_inv [OF _ surjective_pairing])
  ultimately show "static_hist d0 (hs @ [Poll ls now]) (snd (static_Tick ls now d))"
    unfolding static_hist_def using l s by (auto simp: list_all_iff)
  show "\<forall>x \<in> set (sp_hosts (snd (static_Tick ls now d))). ah_present (snd x)
      \<longrightarrow> now - pr_lastSeen (ah_pres (snd x)) \<le> sp_absence d0"
    using h s(3) by auto
qed

lemma static_run_hist:
  fixes iface pools infra absence life
  defines "d0 \<equiv> newStaticInPoolDetector iface pools infra absence life"
  assumes "sorted (poll_times hs)"
  shows "static_hist d0 hs (static_run d0 hs)"
  using assms(2)
proof (induction hs rule: rev_induct)
  case Nil
  then show ?case
    by (simp add: static_run_def static_hist_def same_setup_def started_hist_def lease_hist_def lease_reads_def
        poll_times_def d0_def newStatic_inv) (simp add: newStaticInPoolDetector_def)
next
  case (snoc x hs)
  have run: "static_run d0 (hs @ [x]) = static_input_step (static_run d0 hs) x" by (simp add: static_run_def)
  show ?case
  proof (cases x)
    case (Arp f t)
    then have "static_hist d0 hs (static_run d0 hs)" using snoc by (simp add: poll_times_snoc)
    then show ?thesis unfolding run by (simp add: Arp static_input_step_def static_hist_consume)
  next
    case (Poll ls t)
    then have "static_hist d0 hs (static_run d0 hs)" "\<forall>p \<in> set (poll_times hs). p \<le> t"
      using snoc by (simp_all add: poll_times_snoc sorted_append)
    then show ?thesis unfolding run by (simp add: Poll static_input_step_def static_hist_tick(1))
  qed
qed

text \<open>The evidence against an address at the tick of \<open>now\<close>: it belongs to a pool and is no
  address of the appliance; an ARP frame from it was heard within the absence time; the last lease
  list read does not hold it, although an ARP frame from it had been heard by then; every list read
  that did hold it is older than the grace; and the first tick was at least three minutes ago.\<close>

definition evidence :: "PoolRange list \<Rightarrow> u32 list \<Rightarrow> int \<Rightarrow> int \<Rightarrow> static_input list \<Rightarrow> int \<Rightarrow> u32 \<Rightarrow> bool" where
  "evidence pools infra absence grace hs now ip \<longleftrightarrow>
     list_ex (\<lambda>r. range_contains r ip) pools \<and> ip \<notin> set infra
     \<and> (\<exists>t. arp_at hs ip t \<and> now - t \<le> absence)
     \<and> (\<exists>t0 ips older. lease_reads defaultLeaseRefresh hs = (t0, ips) # older \<and> ip \<notin> set ips
          \<and> (\<exists>t. arp_at hs ip t \<and> t \<le> t0))
     \<and> (\<forall>(t, ips) \<in> set (lease_reads defaultLeaseRefresh hs). ip \<in> set ips \<longrightarrow> grace \<le> now - t)
     \<and> (\<exists>t. hd (poll_times hs) = t \<and> staticWarmup \<le> now - t)"

lemma flagged_evidence:
  fixes iface pools infra absence life
  defines "d0 \<equiv> newStaticInPoolDetector iface pools infra absence life"
  assumes "sorted (poll_times (hs @ [Poll ls now]))" "static_Tick ls now (static_run d0 hs) = (evs, d')"
    "x \<in> set (sp_hosts d')" "ah_flagged (snd x)"
  shows "evidence pools infra (sp_absence d0) (lease_grace life) (hs @ [Poll ls now]) now (fst x)"
proof -
  let ?hs = "hs @ [Poll ls now]"
  have st: "sorted (poll_times hs)" "\<forall>p \<in> set (poll_times ?hs). p \<le> now"
    using assms(2) by (auto simp: poll_times_snoc sorted_append)
  have h0: "static_hist d0 hs (static_run d0 hs)" unfolding d0_def by (rule static_run_hist [OF st(1)])
  have d': "d' = snd (static_Tick ls now (static_run d0 hs))" using assms(3) by simp
  have ih: "static_hist d0 ?hs d'" and pres: "ah_present (snd x) \<longrightarrow> now - pr_lastSeen (ah_pres (snd x)) \<le> sp_absence d0"
    using static_hist_tick [OF h0, of now ls] st(2) assms(4) by (auto simp: d' poll_times_snoc)
  have j: "justified d' now (snd x)" using Tick_flags_justified(1) [OF assms(3)] assms(4,5) by blast
  have set: "sp_pools d' = pools" "sp_infra d' = infra" "sp_warmup d' = staticWarmup" "sp_leaseGrace d' = lease_grace life"
    "sp_leaseRefresh d' = defaultLeaseRefresh" "sp_absence d' = sp_absence d0"
    using ih by (simp_all add: static_hist_def same_setup_def d0_def newStaticInPoolDetector_def)
  have hx: "host_hist (sp_absence d0) ?hs x" using ih assms(4) set(6) by (simp add: static_hist_def list_all_iff)
  then have ip: "ah_ip (snd x) = fst x" by (simp add: host_hist_def)
  have lh: "lease_hist ?hs d'" using ih by (simp add: static_hist_def)
  obtain t0 ips older where r: "lease_reads defaultLeaseRefresh ?hs = (t0, ips) # older"
    "sp_lastRefresh d' = t0" "sp_leasedSet d' = ips"
    using lh j set(5) by (cases "lease_reads defaultLeaseRefresh ?hs") (auto simp: lease_hist_def justified_def Let_def)
  have old: "lease_grace life \<le> now - t"
    if m: "(t, jps) \<in> set (lease_reads defaultLeaseRefresh ?hs)" "fst x \<in> set jps" for t jps
  proof -
    have "(\<exists>t'. map_of (sp_lastLeasedAt d') (fst x) = Some t' \<and> t \<le> t')
        \<or> (\<exists>p \<in> set (poll_times ?hs). lease_grace life \<le> p - t)"
      using lh m set(4,5) by (fastforce simp: lease_hist_def Let_def)
    then show ?thesis using j ip set(4) st(2) by (fastforce simp: justified_def)
  qed
  have "arp_at ?hs (fst x) (ah_firstSeen (snd x)) \<and> ah_firstSeen (snd x) \<le> t0" using hx j r(2) by (simp add: host_hist_def justified_def)
  moreover have "arp_at ?hs (fst x) (pr_lastSeen (ah_pres (snd x))) \<and> now - pr_lastSeen (ah_pres (snd x)) \<le> sp_absence d0"
    using hx j pres by (simp add: host_hist_def justified_def)
  moreover have "staticWarmup \<le> now - hd (poll_times ?hs)"
    using ih j set(3) by (cases "poll_times ?hs") (auto simp: static_hist_def started_hist_def justified_def poll_times_snoc)
  moreover have "list_ex (\<lambda>r. range_contains r (fst x)) pools" "fst x \<notin> set infra" "fst x \<notin> set ips"
    using j ip set r by (auto simp: justified_def list_ex_iff)
  ultimately show ?thesis unfolding evidence_def using r(1) old by blast
qed

lemma static_reaches_run: "static_reaches d0 (static_run d0 hs)"
proof (induction hs rule: rev_induct)
  case Nil then show ?case by (simp add: static_run_def static_reaches.start)
next
  case (snoc x hs)
  have "static_step (static_run d0 hs) (static_input_step (static_run d0 hs) x)"
    by (cases x) (auto simp: static_input_step_def intro: static_step.intros surjective_pairing)
  then show ?case using snoc by (simp add: static_run_def static_reaches.more)
qed

text \<open>C26: Whatever a detector has been given, as long as its ticks do not run backwards in time:
  at every tick a device is flagged as static only on evidence.  Its address lies in a configured
  pool and is no address of the appliance; an ARP frame from it was heard within the absence time;
  the last lease list that was read does not hold it, although the device had been heard by then;
  every list that did hold it is older than the grace; and the first tick was at least three minutes
  ago.  Every new alert is about such a device; and the list the lease page shows marks exactly the
  flagged devices, so the card warns exactly when the page has a marked row.\<close>

theorem static_alerts_justified:
  assumes "d0 = newStaticInPoolDetector iface pools infraIPs absence life" "sorted (poll_times (hs @ [Poll ls now]))"
    "static_Tick ls now (static_run d0 hs) = (evs, d')"
  shows "(\<forall>x \<in> set (sp_hosts d'). ah_flagged (snd x)
        \<longrightarrow> evidence pools infraIPs (sp_absence d0) (lease_grace life) (hs @ [Poll ls now]) now (fst x))
    \<and> (\<forall>e \<in> set evs. ev_Action e = ''Static device in DHCP pool''
        \<longrightarrow> (\<exists>x \<in> set (sp_hosts d'). ah_flagged (snd x) \<and> e = flagEvent (snd x) (ah_pool (snd x))))
    \<and> {p \<in> set (unleasedPoolHosts d'). ph_Flagged p}
        = (\<lambda>x. as_PoolHost (snd x)) ` {x \<in> set (sp_hosts d'). ah_flagged (snd x)}
    \<and> (ds_Severity (static_Snapshot d') = SevWarn \<longleftrightarrow> list_ex ph_Flagged (unleasedPoolHosts d'))"
proof -
  have inv: "static_inv d'"
    using static_reaches_inv [OF static_reaches_run newStatic_inv] static_Tick_inv [OF _ assms(3)] assms(1) by blast
  note j = Tick_flags_justified [OF assms(3)]
  note ev = flagged_evidence [OF assms(2) assms(3) [unfolded assms(1)], folded assms(1)]
  have l: "sp_haveLeases d' \<and> unleased_host d' x" if "x \<in> set (sp_hosts d')" "ah_flagged (snd x)" for x
    using that j(1) unleased_listed [OF inv, of "fst x" "snd x" now] by (cases x) auto
  have e: "{p \<in> set (unleasedPoolHosts d'). ph_Flagged p}
      = (\<lambda>x. as_PoolHost (snd x)) ` {x \<in> set (sp_hosts d'). ah_flagged (snd x)}"
  proof (intro set_eqI iffI)
    fix p assume "p \<in> {p \<in> set (unleasedPoolHosts d'). ph_Flagged p}"
    then show "p \<in> (\<lambda>x. as_PoolHost (snd x)) ` {x \<in> set (sp_hosts d'). ah_flagged (snd x)}"
      unfolding set_unleasedPoolHosts by (auto simp: as_PoolHost_def split: if_splits)
  next
    fix p assume "p \<in> (\<lambda>x. as_PoolHost (snd x)) ` {x \<in> set (sp_hosts d'). ah_flagged (snd x)}"
    then obtain x where x: "x \<in> set (sp_hosts d')" "ah_flagged (snd x)" "p = as_PoolHost (snd x)" by auto
    from l [OF x(1,2)] x show "p \<in> {p \<in> set (unleasedPoolHosts d'). ph_Flagged p}"
      unfolding set_unleasedPoolHosts by (auto simp: as_PoolHost_def)
  qed
  have s: "ds_Severity (static_Snapshot d') = SevWarn \<longleftrightarrow> (\<exists>x \<in> set (sp_hosts d'). ah_flagged (snd x))"
    by (auto simp: static_Snapshot_def Let_def filter_empty_conv simp flip: set_empty)
  have "list_ex ph_Flagged (unleasedPoolHosts d') \<longleftrightarrow> {p \<in> set (unleasedPoolHosts d'). ph_Flagged p} \<noteq> {}"
    by (auto simp: list_ex_iff)
  then have "list_ex ph_Flagged (unleasedPoolHosts d') \<longleftrightarrow> (\<exists>x \<in> set (sp_hosts d'). ah_flagged (snd x))"
    unfolding e image_is_empty by blast
  with j(2) ev e s show ?thesis by blast
qed

definition ex_arp :: Frame where
  "ex_arp = ex_frame ([0xff, 0xff, 0xff, 0xff, 0xff, 0xff, 2, 0, 0, 0, 0, 9, 0x08, 0x06, 0, 1, 8, 0, 6, 4, 0, 1,
     2, 0, 0, 0, 0, 9, 10, 0, 0, 150, 0, 0, 0, 0, 0, 0, 10, 0, 0, 1])"

definition ex_static0 :: staticInPool where
  "ex_static0 = newStaticInPoolDetector ''eth0'' [\<lparr>pr_Lo = 0x0a000064, pr_Hi = 0x0a0000c8\<rparr>] [0x0a000001] 0 1800"

definition ex_inputs :: "static_input list" where
  "ex_inputs = [Arp ex_arp second, Poll (Some []) second, Arp ex_arp (1200 * second)]"

lemma ex_static_alert:
  "map ev_Target (fst (static_Tick (Some []) (1200 * second) (static_run ex_static0 ex_inputs))) = [''10.0.0.150 (02:00:00:00:00:09)'']
    \<and> list_ex ph_Flagged (unleasedPoolHosts (snd (static_Tick (Some []) (1200 * second) (static_run ex_static0 ex_inputs))))
    \<and> map (\<lambda>x. (fst x, ah_flagged (snd x))) (sp_hosts (snd (static_Tick (Some []) (1200 * second) (static_run ex_static0 ex_inputs))))
        = [(0x0a000096, True)]"
  by code_simp

lemma static_alerts_justified_witness:
  "evidence [\<lparr>pr_Lo = 0x0a000064, pr_Hi = 0x0a0000c8\<rparr>] [0x0a000001] (120 * second) (900 * second)
     (ex_inputs @ [Poll (Some []) (1200 * second)]) (1200 * second) 0x0a000096"
proof -
  obtain evs d' where t: "static_Tick (Some []) (1200 * second) (static_run ex_static0 ex_inputs) = (evs, d')" by fastforce
  have so: "sorted (poll_times (ex_inputs @ [Poll (Some []) (1200 * second)]))" by code_simp
  have g: "lease_grace 1800 = 900 * second" "sp_absence ex_static0 = 120 * second" by code_simp+
  obtain x where "x \<in> set (sp_hosts d')" "ah_flagged (snd x)" "fst x = 0x0a000096"
    using ex_static_alert t by (auto simp: map_eq_Cons_conv)
  then show ?thesis
    using static_alerts_justified [OF ex_static0_def so t] g by auto
qed

end
