(* ===== verification/GreenGoCensus.thy ===== *)
theory GreenGoCensus
  imports GreenGoConfig StaticPool "HOL-Library.Product_Lexorder"
begin

text \<open>
  \<open>src/internal/netmon/detect_greengo.go\<close>: the passive census of Evenution (Green-GO) devices,
  with its two warnings, a device on a link-local address and a device without a lease.  The lease
  closure is the list of addresses it returns at a tick (\<open>None\<close> when it is nil), maps are
  association lists.
\<close>

section \<open>Addresses and families\<close>

definition isEvenutionMAC :: "byte list \<Rightarrow> bool" where
  "isEvenutionMAC mac \<longleftrightarrow> mac ! 0 = 0x00 \<and> mac ! 1 = 0x1f \<and> mac ! 2 = 0x80"

definition ggoFamilyByBase :: "(u32 \<times> string) list" where
  "ggoFamilyByBase =
    [(0x200000, ''BPX''), (0x201000, ''BPX''), (0x202000, ''BPX''), (0x203000, ''BPX''), (0x204000, ''BPX''),
     (0x210000, ''MCD/MCR''), (0x211000, ''Interface X/Q4WR''), (0x212000, ''SW5''), (0x213000, ''WP(X)''),
     (0x214000, ''Bridge X/Dante X''), (0x216000, ''WAA''), (0x217000, ''RDX/SI/Beacon''),
     (0x220000, ''MCX(D)/EXT''), (0x221000, ''SW18GBX''), (0x223000, ''WAA''), (0x224000, ''RDX/SI/Beacon''),
     (0x225000, ''MCX(D)''), (0x226000, ''Beacon''), (0x230000, ''Stride Antenna''), (0x240000, ''SW6'')]"

definition ggoFamily :: "byte list \<Rightarrow> string" where
  "ggoFamily mac =
    (let suffix = push_bit 16 (ucast (mac ! 3)) OR push_bit 8 (ucast (mac ! 4)) OR ucast (mac ! 5) in
     case map_of ggoFamilyByBase (suffix AND 0xfff000) of Some f \<Rightarrow> f | None \<Rightarrow> [])"

definition isLinkLocal :: "u32 \<Rightarrow> bool" where
  "isLinkLocal ip \<longleftrightarrow> ip AND 0xffff0000 = 0xa9fe0000"

section \<open>The detector\<close>

record ggoDevice =
  gd_pres :: presence
  gd_mac :: string
  gd_ip :: u32
  gd_ipStr :: string
  gd_vlan :: int
  gd_family :: string
  gd_present :: bool
  gd_linkLocal :: bool
  gd_flagged :: bool

record greengoDetector =
  gg_iface :: string
  gg_servedVID :: int
  gg_absence :: int
  gg_leaseRefresh :: int
  gg_warmup :: int
  gg_startedAt :: "int option"
  gg_lastRefresh :: int
  gg_leasedSet :: "u32 list"
  gg_haveLeases :: bool
  gg_warming :: bool
  gg_noLeaseAudited :: int
  gg_devices :: "(string \<times> ggoDevice) list"

definition newGreengoDetector :: "string \<Rightarrow> int \<Rightarrow> int \<Rightarrow> greengoDetector" where
  "newGreengoDetector iface absence servedVID =
    \<lparr>gg_iface = iface, gg_servedVID = servedVID,
     gg_absence = (if absence \<le> 0 then defaultSquatterAbsence else absence),
     gg_leaseRefresh = defaultLeaseRefresh, gg_warmup = staticWarmup, gg_startedAt = None, gg_lastRefresh = 0,
     gg_leasedSet = [], gg_haveLeases = False, gg_warming = False, gg_noLeaseAudited = 0, gg_devices = []\<rparr>"

definition see :: "byte list \<Rightarrow> u32 \<Rightarrow> string \<Rightarrow> int \<Rightarrow> int \<Rightarrow> greengoDetector \<Rightarrow> greengoDetector" where
  "see sha ip ipStr vlan now d =
    (let mac = macString sha in
     d\<lparr>gg_devices := touch maxGgoDevices (\<lambda>g. pr_lastSeen (gd_pres g))
       \<lparr>gd_pres = newPresence 0 (gg_absence d), gd_mac = mac, gd_ip = 0, gd_ipStr = [], gd_vlan = 0,
        gd_family = ggoFamily sha, gd_present = False, gd_linkLocal = False, gd_flagged = False\<rparr>
       (\<lambda>g. g\<lparr>gd_ip := ip, gd_ipStr := ipStr, gd_linkLocal := isLinkLocal ip, gd_vlan := vlan,
          gd_pres := sighting now (gd_pres g)\<rparr>)
       mac (gg_devices d)\<rparr>)"

definition consumeARP :: "byte list \<Rightarrow> nat \<Rightarrow> int \<Rightarrow> int \<Rightarrow> greengoDetector \<Rightarrow> greengoDetector" where
  "consumeARP b off vlan now d =
    (if length b < off + 28 then d
     else case macAt b (off + 8) of
       None \<Rightarrow> d
     | Some sha \<Rightarrow>
        if \<not> isEvenutionMAC sha then d
        else let spa = take 4 (drop (off + 14) b) in
          if spa = [0, 0, 0, 0] then d else see sha (ip4ToU32 spa) (ipString spa) vlan now d)"

definition consumeH :: "byte list \<Rightarrow> nat \<Rightarrow> int \<Rightarrow> int \<Rightarrow> greengoDetector \<Rightarrow> greengoDetector" where
  "consumeH b off vlan now d =
    (let sha = take 6 (drop 6 b) in
     if \<not> isEvenutionMAC sha then d
     else case ipv4Info b off of
       None \<Rightarrow> d
     | Some i \<Rightarrow>
        if ip_proto i \<noteq> ipProtoUDP \<or> ip_src i = [0, 0, 0, 0] then d
        else (case udpPorts b (ip_l4 i) of
          None \<Rightarrow> d
        | Some (sport, dport, _) \<Rightarrow>
           if sport \<noteq> bus_port \<and> dport \<noteq> bus_port then d
           else see sha (ip4ToU32 (ip_src i)) (ipString (ip_src i)) vlan now d))"

definition ggo_Consume :: "Frame \<Rightarrow> int \<Rightarrow> greengoDetector \<Rightarrow> greengoDetector" where
  "ggo_Consume f now d =
    (case etherInfo (fr_Data f) of
       None \<Rightarrow> d
     | Some (et, off, vid) \<Rightarrow>
        let vlan = effectiveVID vid f in
        if et = etherTypeARP then consumeARP (fr_Data f) off vlan now d
        else if et = etherTypeIPv4 then consumeH (fr_Data f) off vlan now d
        else d)"

definition ggo_clearEvent :: "ggoDevice \<Rightarrow> Event" where
  "ggo_clearEvent g =
    \<lparr>ev_Action = ''Evenution device link-local cleared'', ev_Target = gd_ipStr g @ '' ('' @ gd_mac g @ '')'',
     ev_Before = ''link-local'', ev_After = ''none'', ev_Severity = SevInfo\<rparr>"

definition ggo_flagEvent :: "ggoDevice \<Rightarrow> Event" where
  "ggo_flagEvent g =
    \<lparr>ev_Action = ''Evenution device on link-local (DHCP not reaching it)'',
     ev_Target = gd_ipStr g @ '' ('' @ gd_mac g @ '')'',
     ev_Before = ''none'', ev_After = ''link-local'', ev_Severity = SevWarn\<rparr>"

definition isNoLease :: "greengoDetector \<Rightarrow> ggoDevice \<Rightarrow> bool" where
  "isNoLease d g \<longleftrightarrow> gd_present g \<and> gd_vlan g = gg_servedVID d \<and> \<not> gd_linkLocal g
     \<and> \<not> gg_warming d \<and> gg_haveLeases d \<and> gd_ip g \<notin> set (gg_leasedSet d)"

definition ggo_refresh :: "string list option \<Rightarrow> int \<Rightarrow> greengoDetector \<Rightarrow> greengoDetector" where
  "ggo_refresh leases now d =
    (case leases of
       None \<Rightarrow> d
     | Some ls \<Rightarrow>
        if gg_haveLeases d \<and> \<not> now - gg_lastRefresh d \<ge> gg_leaseRefresh d then d
        else d\<lparr>gg_leasedSet := List.map_filter parseU32 ls, gg_haveLeases := True, gg_lastRefresh := now\<rparr>)"

definition tick_flag :: "bool \<Rightarrow> ggoDevice \<Rightarrow> ggoDevice \<times> Event list" where
  "tick_flag warming g =
    (let shouldFlag = gd_present g \<and> gd_linkLocal g \<and> \<not> warming in
     if shouldFlag \<and> \<not> gd_flagged g then (g\<lparr>gd_flagged := True\<rparr>, [ggo_flagEvent (g\<lparr>gd_flagged := True\<rparr>)])
     else if \<not> shouldFlag \<and> gd_flagged g then (g\<lparr>gd_flagged := False\<rparr>, [ggo_clearEvent (g\<lparr>gd_flagged := False\<rparr>)])
     else (g, []))"

definition tick_device :: "bool \<Rightarrow> int \<Rightarrow> string \<times> ggoDevice \<Rightarrow> (string \<times> ggoDevice) list \<times> Event list" where
  "tick_device warming now x =
    (let (m, g) = x; (e, p) = transition now (gd_pres g); g1 = g\<lparr>gd_pres := p\<rparr> in
     if e = -1 then ([], if gd_flagged g then [ggo_clearEvent (g1\<lparr>gd_present := False\<rparr>)] else [])
     else let (g2, evs) = tick_flag warming (if e = 1 then g1\<lparr>gd_present := True\<rparr> else g1) in ([(m, g2)], evs))"

definition noLease_rows :: "greengoDetector \<Rightarrow> Event list \<times> greengoDetector" where
  "noLease_rows d =
    (let devs = filter (isNoLease d) (map snd (gg_devices d)); noLease = int (length devs);
         ips = take 3 (map gd_ipStr devs) in
     if noLease > 0 \<and> gg_noLeaseAudited d = 0 then
       (let target = Join ips '', '' @ (if noLease > int (length ips)
              then '' +'' @ netmon_itoa (noLease - int (length ips)) @ '' more'' else []) in
        ([\<lparr>ev_Action = ''Evenution devices without DHCP lease'', ev_Target = target, ev_Before = ''leased'',
           ev_After = netmon_itoa noLease @ '' unleased'', ev_Severity = SevWarn\<rparr>],
         d\<lparr>gg_noLeaseAudited := noLease\<rparr>))
     else if noLease = 0 \<and> gg_noLeaseAudited d > 0 then
       ([\<lparr>ev_Action = ''Evenution no-lease warning cleared'',
          ev_Target = netmon_itoa (gg_noLeaseAudited d) @ '' '' @ plural (gg_noLeaseAudited d) ''device'' ''devices'',
          ev_Before = ''unleased'', ev_After = ''leased'', ev_Severity = SevInfo\<rparr>],
        d\<lparr>gg_noLeaseAudited := 0\<rparr>)
     else ([], d))"

definition ggo_Tick :: "string list option \<Rightarrow> int \<Rightarrow> greengoDetector \<Rightarrow> Event list \<times> greengoDetector" where
  "ggo_Tick leases now d =
    (let started = (case gg_startedAt d of None \<Rightarrow> now | Some t \<Rightarrow> t);
         d1 = ggo_refresh leases now (d\<lparr>gg_startedAt := Some started\<rparr>);
         d2 = d1\<lparr>gg_warming := now - started < gg_warmup d1\<rparr>;
         rs = map (tick_device (gg_warming d2) now) (sort_key fst (gg_devices d2));
         (evs, d3) = noLease_rows (d2\<lparr>gg_devices := concat (map fst rs)\<rparr>)
     in (concat (map snd rs) @ evs, d3))"

section \<open>The card\<close>

definition family_name :: "ggoDevice \<Rightarrow> string" where
  "family_name g = (if gd_family g = [] then ''unclassified'' else gd_family g)"

definition rosterText :: "ggoDevice list \<Rightarrow> string" where
  "rosterText devs0 =
    (let devs = sort_key gd_ip devs0;
         parts = map (\<lambda>g. family_name g @ '' '' @ gd_ipStr g @ '' ('' @ gd_mac g @ '')'') (take 6 devs)
           @ (if length devs > 6 then [''+'' @ netmon_itoa (int (length devs) - 6) @ '' more''] else [])
     in if devs0 = [] then [] else Join parts [CHR 0x0A])"

definition count_families :: "ggoDevice list \<Rightarrow> (string \<times> int) list" where
  "count_families devs = fold (\<lambda>g m. AList.update (family_name g)
     ((case map_of m (family_name g) of Some n \<Rightarrow> n | None \<Rightarrow> 0) + 1) m) devs []"

definition censusText :: "int \<Rightarrow> (string \<times> int) list \<Rightarrow> string" where
  "censusText tot families =
    (let fcs = sort_key (\<lambda>(name, n). (- n, name)) families in
     netmon_itoa tot @ '' Evenution/Green-GO '' @ plural tot ''device'' ''devices'' @ '': ''
       @ Join (map (\<lambda>(name, n). netmon_itoa n @ '' '' @ name) fcs) '', '')"

definition greengoForeignSnapshot :: "DetectorSnapshot \<Rightarrow> ggoDevice list \<Rightarrow> DetectorSnapshot" where
  "greengoForeignSnapshot s foreign =
    (let vidStrs = map netmon_itoa (sort (remdups (map gd_vlan foreign)));
         parts = map (\<lambda>g. gd_ipStr g @ '' ('' @ gd_mac g @ '') on VLAN '' @ netmon_itoa (gd_vlan g)) (sort_key gd_mac foreign);
         n = int (length foreign)
     in s\<lparr>ds_Severity := SevWarn,
        ds_Text := netmon_itoa n @ '' Green-GO '' @ plural n ''device'' ''devices'' @ '' on unserved ''
          @ plural (int (length vidStrs)) ''VLAN'' ''VLANs'' @ '' '' @ Join vidStrs '', '',
        ds_Fields := [(''foreign'', netmon_itoa n), (''vids'', Join vidStrs '', ''), (''census'', Join parts ''; '')]\<rparr>)"

definition ggo_Snapshot :: "greengoDetector \<Rightarrow> DetectorSnapshot" where
  "ggo_Snapshot d =
    (let s = \<lparr>ds_Kind = ''greengo'', ds_Severity = SevOK, ds_Subject = gg_iface d, ds_Text = [], ds_Fields = []\<rparr>;
         devs = filter gd_present (map snd (gg_devices d));
         foreign = filter (\<lambda>g. gd_vlan g \<noteq> gg_servedVID d) devs;
         served = filter (\<lambda>g. gd_vlan g = gg_servedVID d) devs;
         present = int (length served);
         confirmedServed = int (length (filter (\<lambda>g. gg_haveLeases d \<and> \<not> gd_linkLocal g \<and> gd_ip g \<in> set (gg_leasedSet d)) served));
         linkLocal = int (length (filter gd_flagged served));
         noLease = int (length (filter (\<lambda>g. \<not> gd_flagged g \<and> isNoLease d g) served));
         summary = netmon_itoa present @ '' Evenution/Green-GO '' @ plural present ''device'' ''devices'' @ '' detected'';
         census = censusText present (count_families served); roster = rosterText served;
         fields = [(''devices'', netmon_itoa present), (''census'', census), (''roster'', roster)] in
     if foreign \<noteq> [] then greengoForeignSnapshot s foreign
     else if present = 0 then s\<lparr>ds_Severity := SevInfo, ds_Text := ''No Evenution/Green-GO devices seen''\<rparr>
     else if linkLocal > 0 then
       s\<lparr>ds_Severity := SevWarn,
         ds_Text := netmon_itoa linkLocal @ '' '' @ plural linkLocal ''device'' ''devices'' @ '' on link-local (no DHCP)'',
         ds_Fields := fields @ [(''tip'', census), (''link_local'', netmon_itoa linkLocal)]
           @ (if noLease > 0 then [(''no_lease'', netmon_itoa noLease)] else [])\<rparr>
     else if noLease > 0 then
       s\<lparr>ds_Severity := SevWarn,
         ds_Text := netmon_itoa noLease @ '' '' @ plural noLease ''device'' ''devices'' @ '' with no DHCP lease'',
         ds_Fields := fields @ [(''tip'', census), (''no_lease'', netmon_itoa noLease)]\<rparr>
     else if gg_warming d \<and> confirmedServed = present then
       s\<lparr>ds_Severity := SevOK, ds_Text := summary, ds_Fields := fields @ [(''tip'', roster)]\<rparr>
     else if gg_warming d then
       s\<lparr>ds_Severity := SevInfo, ds_Text := summary, ds_Fields := fields @ [(''tip'', roster)]\<rparr>
     else s\<lparr>ds_Severity := SevOK, ds_Text := summary, ds_Fields := fields @ [(''tip'', roster)]\<rparr>)"

section \<open>Runs of the census\<close>

fun ggo_step :: "string list option wire \<Rightarrow> greengoDetector \<Rightarrow> Event list \<times> greengoDetector" where
  "ggo_step (Heard f now) d = ([], ggo_Consume f now d)"
| "ggo_step (Clock leases now) d = ggo_Tick leases now d"
| "ggo_step (Dropping b) d = ([], d)"

text \<open>A step keeps or replaces the audited count; the rows of the devices are not its rows.\<close>

lemma ggo_Consume_frame [simp]: "gg_noLeaseAudited (ggo_Consume f now d) = gg_noLeaseAudited d"
  by (auto simp: ggo_Consume_def consumeARP_def consumeH_def see_def Let_def split: option.split)

lemma refresh_frame [simp]:
  "gg_noLeaseAudited (ggo_refresh ls now d) = gg_noLeaseAudited d" "gg_devices (ggo_refresh ls now d) = gg_devices d"
  "gg_servedVID (ggo_refresh ls now d) = gg_servedVID d"
  by (simp_all add: ggo_refresh_def split: option.split)

lemma device_rows: "e \<in> set (snd (tick_device w now x)) \<Longrightarrow>
    ev_Action e = ''Evenution device link-local cleared'' \<or> ev_Action e = ''Evenution device on link-local (DHCP not reaching it)''"
  by (auto simp: tick_device_def tick_flag_def ggo_clearEvent_def ggo_flagEvent_def Let_def split_beta split: if_splits)

lemma no_device_row: "filter (\<lambda>e. ev_Action e \<in> {''Evenution devices without DHCP lease'', ''Evenution no-lease warning cleared''})
    (concat (map (snd \<circ> tick_device w now) xs)) = []"
  using device_rows by (fastforce simp: filter_empty_conv)

lemma noLease_rows_edge:
  assumes "noLease_rows d = (evs, d')"
  shows "map ev_Action evs = (if 0 < gg_noLeaseAudited d then (if 0 < gg_noLeaseAudited d' then [] else [''Evenution no-lease warning cleared''])
      else (if 0 < gg_noLeaseAudited d' then [''Evenution devices without DHCP lease''] else []))"
    "0 \<le> gg_noLeaseAudited d \<Longrightarrow> 0 \<le> gg_noLeaseAudited d'
       \<and> (0 < gg_noLeaseAudited d' \<longleftrightarrow> list_ex (isNoLease d') (map snd (gg_devices d')))"
    "gg_devices d' = gg_devices d" "gg_warming d' = gg_warming d" "gg_servedVID d' = gg_servedVID d"
    "gg_haveLeases d' = gg_haveLeases d" "gg_leasedSet d' = gg_leasedSet d" "gg_lastRefresh d' = gg_lastRefresh d"
    "gg_leaseRefresh d' = gg_leaseRefresh d" "isNoLease d' = isNoLease d"
proof -
  have e: "list_ex P xs \<longleftrightarrow> filter P xs \<noteq> []" for P :: "ggoDevice \<Rightarrow> bool" and xs
    by (simp add: list_ex_iff filter_empty_conv)
  have i: "isNoLease (d\<lparr>gg_noLeaseAudited := n\<rparr>) = isNoLease d" for n by (simp add: fun_eq_iff isNoLease_def)
  show "map ev_Action evs = (if 0 < gg_noLeaseAudited d then (if 0 < gg_noLeaseAudited d' then [] else [''Evenution no-lease warning cleared''])
      else (if 0 < gg_noLeaseAudited d' then [''Evenution devices without DHCP lease''] else []))"
    "0 \<le> gg_noLeaseAudited d \<Longrightarrow> 0 \<le> gg_noLeaseAudited d'
       \<and> (0 < gg_noLeaseAudited d' \<longleftrightarrow> list_ex (isNoLease d') (map snd (gg_devices d')))"
    "gg_devices d' = gg_devices d" "gg_warming d' = gg_warming d" "gg_servedVID d' = gg_servedVID d"
    "gg_haveLeases d' = gg_haveLeases d" "gg_leasedSet d' = gg_leasedSet d" "gg_lastRefresh d' = gg_lastRefresh d"
    "gg_leaseRefresh d' = gg_leaseRefresh d" "isNoLease d' = isNoLease d"
    using assms unfolding e by (auto simp: noLease_rows_def Let_def i filter_map split: if_splits)
qed

lemma ggo_Tick_shape:
  assumes "ggo_Tick leases now d = (evs, d')"
  obtains d2 e3 where
    "noLease_rows (d2\<lparr>gg_devices := concat (map (fst \<circ> tick_device (gg_warming d2) now) (sort_key fst (gg_devices d)))\<rparr>) = (e3, d')"
    "evs = concat (map (snd \<circ> tick_device (gg_warming d2) now) (sort_key fst (gg_devices d))) @ e3"
    "gg_noLeaseAudited d2 = gg_noLeaseAudited d" "leases \<noteq> None \<longrightarrow> gg_haveLeases d2"
proof -
  define started where "started = (case gg_startedAt d of None \<Rightarrow> now | Some t \<Rightarrow> t)"
  define d1 where "d1 = ggo_refresh leases now (d\<lparr>gg_startedAt := Some started\<rparr>)"
  define d2 where "d2 = d1\<lparr>gg_warming := now - started < gg_warmup d1\<rparr>"
  have "gg_devices d2 = gg_devices d" "gg_noLeaseAudited d2 = gg_noLeaseAudited d" by (simp_all add: d2_def d1_def)
  moreover have "leases \<noteq> None \<longrightarrow> gg_haveLeases d2" by (auto simp: d2_def d1_def ggo_refresh_def)
  moreover have "ggo_Tick leases now d =
      (let rs = map (tick_device (gg_warming d2) now) (sort_key fst (gg_devices d2));
           (evs, d3) = noLease_rows (d2\<lparr>gg_devices := concat (map fst rs)\<rparr>) in (concat (map snd rs) @ evs, d3))"
    unfolding ggo_Tick_def d2_def d1_def started_def Let_def ..
  ultimately show thesis
    using assms that [of d2] by (auto simp: Let_def split_beta prod_eq_iff)
qed

lemma ggo_Tick_edge:
  assumes "ggo_Tick leases now d = (evs, d')"
  shows "map ev_Action (filter (\<lambda>e. ev_Action e \<in> {''Evenution devices without DHCP lease'', ''Evenution no-lease warning cleared''}) evs)
    = (if 0 < gg_noLeaseAudited d then (if 0 < gg_noLeaseAudited d' then [] else [''Evenution no-lease warning cleared''])
      else (if 0 < gg_noLeaseAudited d' then [''Evenution devices without DHCP lease''] else []))"
    "0 \<le> gg_noLeaseAudited d \<Longrightarrow> 0 \<le> gg_noLeaseAudited d'
       \<and> (0 < gg_noLeaseAudited d' \<longleftrightarrow> list_ex (isNoLease d') (map snd (gg_devices d')))"
proof -
  obtain d2 e3 where n: "noLease_rows (d2\<lparr>gg_devices := concat (map (fst \<circ> tick_device (gg_warming d2) now) (sort_key fst (gg_devices d)))\<rparr>) = (e3, d')"
    and t: "evs = concat (map (snd \<circ> tick_device (gg_warming d2) now) (sort_key fst (gg_devices d))) @ e3"
    and a: "gg_noLeaseAudited d2 = gg_noLeaseAudited d"
    using assms by (rule ggo_Tick_shape)
  have "ev_Action e \<in> {''Evenution devices without DHCP lease'', ''Evenution no-lease warning cleared''}" if "e \<in> set e3" for e
    using noLease_rows_edge(1) [OF n] imageI [OF that, of ev_Action] by (auto simp flip: set_map split: if_splits)
  then have "filter (\<lambda>e. ev_Action e \<in> {''Evenution devices without DHCP lease'', ''Evenution no-lease warning cleared''}) e3 = e3"
    by (simp add: filter_id_conv)
  then show "map ev_Action (filter (\<lambda>e. ev_Action e \<in> {''Evenution devices without DHCP lease'', ''Evenution no-lease warning cleared''}) evs)
    = (if 0 < gg_noLeaseAudited d then (if 0 < gg_noLeaseAudited d' then [] else [''Evenution no-lease warning cleared''])
      else (if 0 < gg_noLeaseAudited d' then [''Evenution devices without DHCP lease''] else []))"
    using noLease_rows_edge(1) [OF n] by (simp only: t filter_append no_device_row append_Nil) (simp add: a)
  show "0 \<le> gg_noLeaseAudited d \<Longrightarrow> 0 \<le> gg_noLeaseAudited d'
       \<and> (0 < gg_noLeaseAudited d' \<longleftrightarrow> list_ex (isNoLease d') (map snd (gg_devices d')))"
    using noLease_rows_edge(2) [OF n] a by simp
qed

interpretation unleased: alarm "\<lambda>d. 0 < gg_noLeaseAudited d" ggo_step "''Evenution devices without DHCP lease''"
  "''Evenution no-lease warning cleared''"
proof
  fix i d
  show "map ev_Action (filter (\<lambda>e. ev_Action e \<in> {''Evenution devices without DHCP lease'', ''Evenution no-lease warning cleared''})
      (fst (ggo_step i d)))
    = (if 0 < gg_noLeaseAudited d then if 0 < gg_noLeaseAudited (snd (ggo_step i d)) then [] else [''Evenution no-lease warning cleared'']
       else if 0 < gg_noLeaseAudited (snd (ggo_step i d)) then [''Evenution devices without DHCP lease''] else [])"
    by (cases i) (simp_all only: ggo_step.simps ggo_Tick_edge(1) [OF surjective_pairing], simp_all)
qed simp

section \<open>Properties\<close>

lemma tick_device_flags:
  "(m, g) \<in> set (fst (tick_device w now x)) \<Longrightarrow> gd_flagged g \<longleftrightarrow> gd_present g \<and> gd_linkLocal g \<and> \<not> w"
  by (auto simp: tick_device_def tick_flag_def Let_def split_beta split: if_splits)

text \<open>What a tick leaves: the link-local flags are exact, and the leases held are fresh when the
  lease source answers.\<close>

lemma ggo_Tick_state:
  assumes "ggo_Tick leases now d = (evs, d')"
  shows "\<forall>(m, g) \<in> set (gg_devices d'). gd_flagged g \<longleftrightarrow> gd_present g \<and> gd_linkLocal g \<and> \<not> gg_warming d'"
    "leases \<noteq> None \<Longrightarrow> gg_haveLeases d'"
proof -
  obtain d2 e3 where n: "noLease_rows (d2\<lparr>gg_devices := concat (map (fst \<circ> tick_device (gg_warming d2) now) (sort_key fst (gg_devices d)))\<rparr>) = (e3, d')"
    and h: "leases \<noteq> None \<longrightarrow> gg_haveLeases d2"
    using assms by (rule ggo_Tick_shape)
  note f = noLease_rows_edge(3-10) [OF n, simplified]
  show "\<forall>(m, g) \<in> set (gg_devices d'). gd_flagged g \<longleftrightarrow> gd_present g \<and> gd_linkLocal g \<and> \<not> gg_warming d'"
    unfolding f by (auto simp: tick_device_flags)
  show "leases \<noteq> None \<Longrightarrow> gg_haveLeases d'" using h f by simp
qed

lemma snapshot_severity:
  "ds_Severity (ggo_Snapshot d) =
    (let devs = filter gd_present (map snd (gg_devices d)); served = filter (\<lambda>g. gd_vlan g = gg_servedVID d) devs in
     if list_ex (\<lambda>g. gd_vlan g \<noteq> gg_servedVID d) devs then SevWarn
     else if served = [] then SevInfo
     else if list_ex (\<lambda>g. gd_flagged g \<or> isNoLease d g) served then SevWarn
     else if gg_warming d \<and> \<not> list_all (\<lambda>g. gg_haveLeases d \<and> \<not> gd_linkLocal g \<and> gd_ip g \<in> set (gg_leasedSet d)) served then SevInfo
     else SevOK)"
proof -
  have ex: "list_ex P xs \<longleftrightarrow> filter P xs \<noteq> []" for P :: "ggoDevice \<Rightarrow> bool" and xs
    by (simp add: list_ex_iff filter_empty_conv)
  have all: "list_all P xs \<longleftrightarrow> length (filter P xs) = length xs" for P :: "ggoDevice \<Rightarrow> bool" and xs
    by (metis filter_True filter_id_conv length_filter_less less_irrefl list_all_iff)
  have split: "filter (\<lambda>g. gd_flagged g \<or> isNoLease d g) xs \<noteq> []
      \<longleftrightarrow> 0 < length (filter gd_flagged xs) \<or> 0 < length (filter (\<lambda>g. \<not> gd_flagged g \<and> isNoLease d g) xs)" for xs
    by (auto simp: filter_empty_conv)
  show ?thesis
    unfolding ex all split
    by (simp add: ggo_Snapshot_def Let_def greengoForeignSnapshot_def if_distrib [of ds_Severity] del: filter_filter length_greater_0_conv)
qed

lemma card_severity:
  "ds_Severity (ggo_Snapshot d) = SevWarn \<longleftrightarrow>
     (\<exists>g \<in> snd ` set (gg_devices d). gd_present g \<and> (gd_vlan g \<noteq> gg_servedVID d \<or> gd_flagged g \<or> isNoLease d g))"
  "ds_Severity (ggo_Snapshot d) = SevOK \<Longrightarrow> g \<in> snd ` set (gg_devices d) \<Longrightarrow> gd_present g \<Longrightarrow>
     gd_vlan g = gg_servedVID d \<and> \<not> gd_flagged g \<and> \<not> isNoLease d g
     \<and> (gg_warming d \<longrightarrow> \<not> gd_linkLocal g \<and> gd_ip g \<in> set (gg_leasedSet d))"
  "ds_Severity (ggo_Snapshot d) = SevOK \<Longrightarrow> \<exists>g \<in> snd ` set (gg_devices d). gd_present g"
  by (auto simp: snapshot_severity Let_def list_ex_iff list_all_iff filter_empty_conv split: if_splits)

text \<open>C29: The card and the audit log of the census cannot drift apart: over any run the rows of the
  no-lease warning alternate, and right after a tick the warning is open exactly when some device is
  without a lease, every link-local flag is exact, the card warns exactly when some device is on an
  unserved VLAN, flagged or without a lease, and a green card means that there is a device and that
  every one of them is on the served VLAN, off the link-local range and in the list of leases.\<close>

theorem census_card_matches_log:
  assumes "d = state_after ggo_step is (newGreengoDetector iface absence vid)"
    and "ggo_Tick (Some leases) now d = (evs, d')"
  shows "rows_tell (\<lambda>d. 0 < gg_noLeaseAudited d) ggo_step ''Evenution devices without DHCP lease''
        ''Evenution no-lease warning cleared'' is (newGreengoDetector iface absence vid)
    \<and> (0 < gg_noLeaseAudited d' \<longleftrightarrow> list_ex (isNoLease d') (map snd (gg_devices d')))
    \<and> (\<forall>(m, g) \<in> set (gg_devices d'). gd_flagged g \<longleftrightarrow> gd_present g \<and> gd_linkLocal g \<and> \<not> gg_warming d')
    \<and> (ds_Severity (ggo_Snapshot d') = SevWarn \<longleftrightarrow>
        (\<exists>g \<in> snd ` set (gg_devices d'). gd_present g \<and> (gd_vlan g \<noteq> gg_servedVID d' \<or> gd_flagged g \<or> isNoLease d' g)))
    \<and> (ds_Severity (ggo_Snapshot d') = SevOK \<longrightarrow>
        (\<exists>g \<in> snd ` set (gg_devices d'). gd_present g)
        \<and> (\<forall>g \<in> snd ` set (gg_devices d'). gd_present g \<longrightarrow>
             gd_vlan g = gg_servedVID d' \<and> \<not> gd_linkLocal g \<and> gd_ip g \<in> set (gg_leasedSet d')))"
proof -
  have step: "0 \<le> gg_noLeaseAudited (snd (ggo_step i s))" if "0 \<le> gg_noLeaseAudited s" for i s
    using that ggo_Tick_edge(2) [OF surjective_pairing] by (cases i) auto
  have "0 \<le> gg_noLeaseAudited s \<Longrightarrow> 0 \<le> gg_noLeaseAudited (state_after ggo_step is s)" for s
    by (induction "is" arbitrary: s) (simp_all add: step)
  then have "0 \<le> gg_noLeaseAudited d" by (simp add: assms(1) newGreengoDetector_def)
  then have opened: "0 < gg_noLeaseAudited d' \<longleftrightarrow> list_ex (isNoLease d') (map snd (gg_devices d'))"
    using ggo_Tick_edge(2) [OF assms(2)] by blast
  note st = ggo_Tick_state [OF assms(2)]
  have served: "gd_vlan g = gg_servedVID d' \<and> \<not> gd_linkLocal g \<and> gd_ip g \<in> set (gg_leasedSet d')"
    if "ds_Severity (ggo_Snapshot d') = SevOK" "g \<in> snd ` set (gg_devices d')" "gd_present g" for g
    using card_severity(2) [OF that] st that by (cases "gg_warming d'") (auto simp: isNoLease_def)
  show ?thesis
    using unleased.rows_tell opened st(1) card_severity(1) [of d'] card_severity(3) [of d'] served by blast
qed

definition ex_arp :: Frame where
  "ex_arp = ex_frame (replicate 6 0xff @ [0x00, 0x1f, 0x80, 0x20, 0, 1] @ [0x08, 0x06] @ [0, 1, 8, 0, 6, 4, 0, 1]
     @ [0x00, 0x1f, 0x80, 0x20, 0, 1] @ [10, 0, 0, 9] @ replicate 10 0)"

definition ex_inputs :: "string list option wire list" where
  "ex_inputs = [Heard ex_arp 1, Clock (Some []) 2, Heard ex_arp (199 * second)]"

definition ex_census :: "Event list \<times> greengoDetector" where
  "ex_census = ggo_Tick (Some []) (200 * second) (state_after ggo_step ex_inputs (newGreengoDetector ''eth0'' 0 0))"

lemma census_card_matches_log_witness:
  "map ev_Target (fst ex_census) = [''10.0.0.9''] \<and> 0 < gg_noLeaseAudited (snd ex_census)
     \<and> ds_Severity (ggo_Snapshot (snd ex_census)) = SevWarn"
proof -
  have c: "map ev_Target (fst ex_census) = [''10.0.0.9'']
      \<and> list_ex (isNoLease (snd ex_census)) (map snd (gg_devices (snd ex_census)))"
    by code_simp
  have "ggo_Tick (Some []) (200 * second) (state_after ggo_step ex_inputs (newGreengoDetector ''eth0'' 0 0))
      = (fst ex_census, snd ex_census)" by (simp add: ex_census_def)
  note t = census_card_matches_log [OF refl this]
  have "0 < gg_noLeaseAudited (snd ex_census)" using t c by blast
  moreover have "ds_Severity (ggo_Snapshot (snd ex_census)) = SevWarn"
    using t c unfolding isNoLease_def list_ex_iff by fastforce
  ultimately show ?thesis using c by blast
qed

end
