(* ===== verification/KeaModes.thy ===== *)
theory KeaModes
  imports KeaProfile
begin

text \<open>
  The two Kea configurations that are not a profile's (\<open>internal/kea/profile.go\<close>): the
  onboarding one, which serves plain dynamic leases on eth0 and wlan0, and the holdoff one of a
  DHCP stand-down, which keeps the daemon reachable and serves nothing.
\<close>

record OnboardingInput =
  oi_EthCIDR :: string
  oi_WlanIP :: string
  oi_KeaSecretPath :: string
  oi_Debug :: bool

record HoldoffInput =
  hi_Interfaces :: "string list"
  hi_KeaSecretPath :: string
  hi_Debug :: bool

definition onboard_add :: "string \<Rightarrow> string \<Rightarrow> string list \<times> SubnetConfig list
    \<Rightarrow> render_error + (string list \<times> SubnetConfig list)" where
  "onboard_add iface cidr acc =
    (case onboardingSubnet (int (length (snd acc)) + 1) cidr of
       Inl e \<Rightarrow> Inl e
     | Inr sub \<Rightarrow> Inr (fst acc @ [iface], snd acc @ [sub]))"

definition onboard_eth :: "OnboardingInput \<Rightarrow> render_error + (string list \<times> SubnetConfig list)" where
  "onboard_eth inp = (if oi_EthCIDR inp \<noteq> [] then onboard_add ''eth0'' (oi_EthCIDR inp) ([], []) else Inr ([], []))"

definition onboard_wlan :: "OnboardingInput \<Rightarrow> string list \<times> SubnetConfig list
    \<Rightarrow> render_error + (string list \<times> SubnetConfig list)" where
  "onboard_wlan inp acc =
    (if oi_WlanIP inp \<noteq> [] then onboard_add ''wlan0'' (oi_WlanIP inp @ ''/24'') acc else Inr acc)"

text \<open>The fallback drops the error of its own subnet, which cannot occur:
  \<open>fallback_subnet\<close> below evaluates it.\<close>

definition zero_subnet :: SubnetConfig where
  "zero_subnet = \<lparr>sn_ID = 0, sn_Subnet = [], sn_Pools = [], sn_Gateway = [], sn_DNS = [],
     sn_LeaseLifetime = 0, sn_Options = []\<rparr>"

definition onboard_fallback :: "string list \<times> SubnetConfig list \<Rightarrow> string list \<times> SubnetConfig list" where
  "onboard_fallback acc =
    (if fst acc = []
     then ([''eth0''], [case onboardingSubnet 1 ''10.0.0.1/24'' of Inr sub \<Rightarrow> sub | Inl _ \<Rightarrow> zero_subnet])
     else acc)"

definition onboard_data :: "OnboardingInput \<Rightarrow> string list \<times> SubnetConfig list \<Rightarrow> TemplateData" where
  "onboard_data inp acc =
    (let (valid, renew, rebind) = leaseTimers onboardingLeaseLifetime in
     \<lparr>td_Interfaces = fst acc, td_MariaDBHost = [], td_MariaDBUser = [], td_MariaDBPass = [],
      td_MariaDBName = [], td_HooksDir = [], td_PortPinning = False,
      td_KeaSecretPath = oi_KeaSecretPath inp, td_ClientClasses = [], td_Subnets = snd acc,
      td_ValidLifetime = valid, td_RenewTimer = renew, td_RebindTimer = rebind,
      td_Debug = oi_Debug inp\<rparr>)"

definition RenderOnboarding :: "string \<Rightarrow> OnboardingInput \<Rightarrow> render_error + (keaConfig \<times> string list)" where
  "RenderOnboarding hooksDir inp =
    (case onboard_eth inp of
       Inl e \<Rightarrow> Inl e
     | Inr acc \<Rightarrow>
        (case onboard_wlan inp acc of
           Inl e \<Rightarrow> Inl e
         | Inr acc' \<Rightarrow>
            let acc'' = onboard_fallback acc' in
            Inr (RenderConfig hooksDir (onboard_data inp acc''), fst acc'')))"

definition RenderHoldoff :: "string \<Rightarrow> HoldoffInput \<Rightarrow> keaConfig" where
  "RenderHoldoff hooksDir inp =
    RenderConfig hooksDir
      \<lparr>td_Interfaces = (if hi_Interfaces inp = [] then [''eth0''] else hi_Interfaces inp),
       td_MariaDBHost = [], td_MariaDBUser = [], td_MariaDBPass = [], td_MariaDBName = [],
       td_HooksDir = [], td_PortPinning = False, td_KeaSecretPath = hi_KeaSecretPath inp,
       td_ClientClasses = [], td_Subnets = [], td_ValidLifetime = 0, td_RenewTimer = 0,
       td_RebindTimer = 0, td_Debug = hi_Debug inp\<rparr>"

section \<open>What they serve\<close>

lemma RenderConfig_fields [simp]:
  "kc_Subnet4 (RenderConfig h d) = buildSubnets (td_Subnets d)"
  "kc_Interfaces (RenderConfig h d) = td_Interfaces d"
  "kc_HostsDatabase (RenderConfig h d) = hostsDB d"
  "kc_ValidLifetime (RenderConfig h d) = td_ValidLifetime d"
  by (simp_all add: RenderConfig_def Let_def)

lemma RenderHoldoff_serves_nothing:
  "kc_Subnet4 (RenderHoldoff h inp) = [] \<and> kc_HostsDatabase (RenderHoldoff h inp) = None
   \<and> kc_Interfaces (RenderHoldoff h inp) \<noteq> []
   \<and> map cs_SocketPort (kc_ControlSockets (RenderHoldoff h inp)) = [0, 8004]"
  by (simp add: RenderHoldoff_def buildSubnets_def hostsDB_def)
     (simp add: RenderConfig_def Let_def)

lemma fallback_subnet:
  "onboardingSubnet 1 ''10.0.0.1/24'' = Inr \<lparr>sn_ID = 1, sn_Subnet = ''10.0.0.0/24'',
     sn_Pools = [\<lparr>pc_Range = ''10.0.0.100 - 10.0.0.250'', pc_ClientClass = []\<rparr>],
     sn_Gateway = [], sn_DNS = [], sn_LeaseLifetime = 0, sn_Options = []\<rparr>"
  by code_simp

definition plain_subnet :: "SubnetConfig \<Rightarrow> bool" where
  "plain_subnet s \<longleftrightarrow> sn_Gateway s = [] \<and> sn_DNS s = [] \<and> sn_Options s = [] \<and> sn_LeaseLifetime s = 0
     \<and> length (sn_Pools s) = 1 \<and> list_all (\<lambda>p. pc_ClientClass p = []) (sn_Pools s)"

lemma onboardingSubnet_plain: "onboardingSubnet i c = Inr s \<Longrightarrow> plain_subnet s \<and> sn_ID s = i"
  by (auto simp: onboardingSubnet_def plain_subnet_def Let_def split: option.splits if_splits)

definition onboard_ok :: "string list \<times> SubnetConfig list \<Rightarrow> bool" where
  "onboard_ok acc \<longleftrightarrow> length (fst acc) = length (snd acc) \<and> set (fst acc) \<subseteq> {''eth0'', ''wlan0''}
     \<and> list_all plain_subnet (snd acc) \<and> map sn_ID (snd acc) = map (\<lambda>k. int k + 1) [0 ..< length (snd acc)]"

lemma onboard_add_ok:
  "onboard_add i c acc = Inr acc' \<Longrightarrow> onboard_ok acc \<Longrightarrow> i \<in> {''eth0'', ''wlan0''} \<Longrightarrow> onboard_ok acc'"
  by (auto simp: onboard_add_def onboard_ok_def split: sum.splits dest!: onboardingSubnet_plain)

lemma onboard_fallback_ok: "onboard_ok acc \<Longrightarrow> onboard_ok (onboard_fallback acc) \<and> fst (onboard_fallback acc) \<noteq> []"
  by (auto simp: onboard_fallback_def fallback_subnet onboard_ok_def plain_subnet_def)

lemma RenderOnboarding_acc:
  assumes "RenderOnboarding h inp = Inr (cfg, ifs)"
  obtains acc where "onboard_ok acc" "fst acc \<noteq> []" "cfg = RenderConfig h (onboard_data inp acc)" "ifs = fst acc"
proof -
  obtain a b where a: "onboard_eth inp = Inr a" and b: "onboard_wlan inp a = Inr b"
      and c: "cfg = RenderConfig h (onboard_data inp (onboard_fallback b))" "ifs = fst (onboard_fallback b)"
    using assms by (auto simp: RenderOnboarding_def Let_def split: sum.splits)
  have e: "onboard_ok ([], [])" by (simp add: onboard_ok_def)
  have "onboard_ok a"
    using a onboard_add_ok [OF _ e, of "''eth0''"] e by (auto simp: onboard_eth_def split: if_splits)
  then have "onboard_ok b"
    using b onboard_add_ok [of "''wlan0''" _ a] by (auto simp: onboard_wlan_def split: if_splits)
  from onboard_fallback_ok [OF this] c that show ?thesis by blast
qed

lemma plain_subnet_options: "plain_subnet s \<Longrightarrow> s4_OptionData (build_subnet s) = []"
  by (auto simp: plain_subnet_def build_subnet_def build_options_def Let_def split: prod.splits)

lemma build_subnet_ID: "s4_ID (build_subnet s) = sn_ID s"
  by (simp add: build_subnet_def Let_def split: prod.splits)

lemma RenderOnboarding_no_database: "RenderOnboarding h inp = Inr (cfg, ifs) \<Longrightarrow> kc_HostsDatabase cfg = None"
  by (elim RenderOnboarding_acc) (simp add: onboard_data_def hostsDB_def split: prod.splits)

text \<open>Whatever the inputs are, the onboarding configuration touches no database and hands
  out no router, no name server and no other option on any interface; its subnets are numbered
  1, 2 in the order of the interfaces, there is at least one, and the leases last 90 seconds.\<close>

lemma RenderOnboarding_isolated:
  assumes "RenderOnboarding h inp = Inr (cfg, ifs)"
  shows "kc_HostsDatabase cfg = None \<and> kc_Interfaces cfg = ifs \<and> ifs \<noteq> [] \<and> set ifs \<subseteq> {''eth0'', ''wlan0''}
    \<and> length (kc_Subnet4 cfg) = length ifs \<and> list_all (\<lambda>s. s4_OptionData s = []) (kc_Subnet4 cfg)
    \<and> map s4_ID (kc_Subnet4 cfg) = map (\<lambda>k. int k + 1) [0 ..< length ifs] \<and> kc_ValidLifetime cfg = 90"
proof -
  obtain acc where acc: "onboard_ok acc" "fst acc \<noteq> []" "cfg = RenderConfig h (onboard_data inp acc)" "ifs = fst acc"
    by (rule RenderOnboarding_acc [OF assms])
  have t: "leaseTimers onboardingLeaseLifetime = (90, 45, 78)"
    by code_simp
  show ?thesis
    using acc(1,2) unfolding acc(3,4)
    by (auto simp: onboard_data_def t hostsDB_def buildSubnets_def onboard_ok_def list_all_iff
        plain_subnet_options build_subnet_ID comp_def)
qed

lemma RenderOnboarding_isolated_witness:
  "\<exists>cfg. RenderOnboarding ''/h/'' \<lparr>oi_EthCIDR = ''10.0.0.1/24'', oi_WlanIP = ''172.31.255.1'',
        oi_KeaSecretPath = ''/k'', oi_Debug = False\<rparr> = Inr (cfg, [''eth0'', ''wlan0''])
     \<and> map s4_ID (kc_Subnet4 cfg) = [1, 2]"
proof -
  let ?i = "\<lparr>oi_EthCIDR = ''10.0.0.1/24'', oi_WlanIP = ''172.31.255.1'',
        oi_KeaSecretPath = ''/k'', oi_Debug = False\<rparr>"
  have "(case RenderOnboarding ''/h/'' ?i of Inr (c, i) \<Rightarrow> i = [''eth0'', ''wlan0''] | Inl _ \<Rightarrow> False)"
    by code_simp
  then obtain cfg where c: "RenderOnboarding ''/h/'' ?i = Inr (cfg, [''eth0'', ''wlan0''])"
    by (auto split: sum.splits prod.splits)
  from RenderOnboarding_isolated [OF c] c show ?thesis by (simp add: upt_rec)
qed

end
