(* ===== verification/Remap.thy ===== *)
theory Remap
  imports KeaAddr Identity "HOL-Library.Multiset"
begin

text \<open>
  \<open>src/internal/appliance/remap.go\<close> and \<open>UpdateReservationSubnets\<close> of
  \<open>src/internal/db/mariadb.go\<close>: re-stamping the positional Kea subnet-ids of the host
  reservations.  \<open>planSubnetRemaps\<close> decides which rows move (a fixpoint over the rows that
  have to stay), the executor moves them in two phases through park ids under the unique key of
  Kea's hosts table.  A table is its list of rows; an UPDATE statement that would give two rows one
  key is rejected, as InnoDB does.
\<close>

record HostReservation =
  hr_Identifier :: string
  hr_IdentifierType :: int
  hr_SubnetID :: int
  hr_IPv4Address :: u32
  hr_Hostname :: string

record subnetRemap =
  sr_row :: HostReservation
  sr_newID :: int

definition mk_remap :: "HostReservation \<Rightarrow> int \<Rightarrow> subnetRemap" where
  "mk_remap r i = \<lparr>sr_row = r, sr_newID = i\<rparr>"

definition SubnetMatcherForScopes :: "string list \<Rightarrow> go_ip \<Rightarrow> int option" where
  "SubnetMatcherForScopes cidrs ip =
    (let nets = map (\<lambda>c. map_option snd (ParseCIDR c)) cidrs in
     map_option (\<lambda>i. int i + 1)
       (List.find (\<lambda>i. case nets ! i of Some n \<Rightarrow> IPNet_Contains n ip | None \<Rightarrow> False)
         [0 ..< length nets]))"

definition hostKey :: "string \<Rightarrow> int \<Rightarrow> int \<Rightarrow> string" where
  "hostKey ident ty sub = ident @ ''|'' @ Itoa ty @ ''|'' @ Itoa sub"

definition row_key :: "HostReservation \<Rightarrow> string" where
  "row_key r = hostKey (hr_Identifier r) (hr_IdentifierType r) (hr_SubnetID r)"

definition new_key :: "subnetRemap \<Rightarrow> string" where
  "new_key mv = hostKey (hr_Identifier (sr_row mv)) (hr_IdentifierType (sr_row mv)) (sr_newID mv)"

text \<open>The first loop: movers, orphans and the keys of the rows that stay.\<close>

fun classify_rows :: "(go_ip \<Rightarrow> int option) \<Rightarrow> HostReservation list
    \<Rightarrow> subnetRemap list \<times> HostReservation list \<times> string set" where
  "classify_rows f [] = ([], [], {})"
| "classify_rows f (r # rs) =
     (let (movers, orphans, staying) = classify_rows f rs in
      case f (Uint32ToIP (hr_IPv4Address r)) of
        None \<Rightarrow> (movers, r # orphans, insert (row_key r) staying)
      | Some target \<Rightarrow>
          if target = hr_SubnetID r then (movers, orphans, insert (row_key r) staying)
          else (mk_remap r target # movers, orphans, staying))"

text \<open>One round of the fixpoint over the movers with their skip flags: the claimed keys start
  as the staying keys; a demoted mover's old key joins the staying keys of the next round.\<close>

fun remap_round :: "(subnetRemap \<times> bool) list \<Rightarrow> string set \<Rightarrow> string set
    \<Rightarrow> (subnetRemap \<times> bool) list \<times> string set \<times> bool" where
  "remap_round [] claimed staying = ([], staying, False)"
| "remap_round ((mv, skip) # rest) claimed staying =
     (if skip then
        (let (ms, st, d) = remap_round rest claimed staying in ((mv, True) # ms, st, d))
      else if new_key mv \<in> claimed then
        (let (ms, st, d) = remap_round rest claimed (insert (row_key (sr_row mv)) staying)
         in ((mv, True) # ms, st, True))
      else
        (let (ms, st, d) = remap_round rest (insert (new_key mv) claimed) staying
         in ((mv, False) # ms, st, d)))"

definition unskipped :: "(subnetRemap \<times> bool) list \<Rightarrow> nat" where
  "unskipped ms = length (filter (\<lambda>x. \<not> snd x) ms)"

lemma remap_round_unskipped:
  "remap_round ms claimed staying = (ms', st, d) \<Longrightarrow>
     unskipped ms' \<le> unskipped ms \<and> (d \<longrightarrow> unskipped ms' < unskipped ms)"
proof (induction ms claimed staying arbitrary: ms' st d rule: remap_round.induct)
  case (2 mv skip rest claimed staying)
  then show ?case
    by (fastforce simp: unskipped_def split: if_splits prod.splits)
qed (simp add: unskipped_def)

function remap_fixpoint :: "(subnetRemap \<times> bool) list \<Rightarrow> string set
    \<Rightarrow> (subnetRemap \<times> bool) list" where
  "remap_fixpoint ms staying =
     (let (ms', st, demoted) = remap_round ms staying staying in
      if demoted then remap_fixpoint ms' st else ms')"
  by pat_completeness auto
termination
  by (relation "measure (\<lambda>(ms, st). unskipped ms)")
     (auto dest: remap_round_unskipped [OF sym])

declare remap_fixpoint.simps [simp del]

definition planSubnetRemaps :: "HostReservation list \<Rightarrow> (go_ip \<Rightarrow> int option)
    \<Rightarrow> subnetRemap list \<times> HostReservation list \<times> subnetRemap list" where
  "planSubnetRemaps rows f =
    (let (movers, orphans, staying) = classify_rows f rows;
         final = remap_fixpoint (map (\<lambda>m. (m, False)) movers) staying
     in (map fst (filter (\<lambda>x. \<not> snd x) final), orphans, map fst (filter snd final)))"

section \<open>The executor\<close>

record SubnetIDUpdate =
  su_Identifier :: string
  su_IdentifierType :: int
  su_OldSubnetID :: int
  su_NewSubnetID :: int

definition to_update :: "subnetRemap \<Rightarrow> SubnetIDUpdate" where
  "to_update mv = \<lparr>su_Identifier = hr_Identifier (sr_row mv),
     su_IdentifierType = hr_IdentifierType (sr_row mv), su_OldSubnetID = hr_SubnetID (sr_row mv),
     su_NewSubnetID = sr_newID mv\<rparr>"

definition updateSubnetParkBase :: int where "updateSubnetParkBase = 1048576"

datatype sql_error = DuplicateKey

definition matches :: "string \<Rightarrow> int \<Rightarrow> int \<Rightarrow> HostReservation \<Rightarrow> bool" where
  "matches ident ty sub r \<longleftrightarrow>
     hr_Identifier r = ident \<and> hr_IdentifierType r = ty \<and> hr_SubnetID r = sub"

definition exec_update :: "int \<Rightarrow> string \<Rightarrow> int \<Rightarrow> int \<Rightarrow> HostReservation list
    \<Rightarrow> sql_error + HostReservation list" where
  "exec_update new ident ty old rows =
    (if list_ex (matches ident ty old) rows \<and> new \<noteq> old \<and> list_ex (matches ident ty new) rows
     then Inl DuplicateKey
     else Inr (map (\<lambda>r. if matches ident ty old r then r\<lparr>hr_SubnetID := new\<rparr> else r) rows))"

fun park_phase :: "int \<Rightarrow> SubnetIDUpdate list \<Rightarrow> HostReservation list \<Rightarrow> sql_error + HostReservation list" where
  "park_phase i [] rows = Inr rows"
| "park_phase i (u # us) rows =
     (case exec_update (updateSubnetParkBase + i) (su_Identifier u) (su_IdentifierType u)
        (su_OldSubnetID u) rows of
        Inl e \<Rightarrow> Inl e
      | Inr rows' \<Rightarrow> park_phase (i + 1) us rows')"

fun settle_phase :: "int \<Rightarrow> SubnetIDUpdate list \<Rightarrow> HostReservation list \<Rightarrow> sql_error + HostReservation list" where
  "settle_phase i [] rows = Inr rows"
| "settle_phase i (u # us) rows =
     (case exec_update (su_NewSubnetID u) (su_Identifier u) (su_IdentifierType u)
        (updateSubnetParkBase + i) rows of
        Inl e \<Rightarrow> Inl e
      | Inr rows' \<Rightarrow> settle_phase (i + 1) us rows')"

text \<open>An error rolls the transaction back: the caller sees the error and the table is the
  one before.\<close>

definition UpdateReservationSubnets :: "SubnetIDUpdate list \<Rightarrow> HostReservation list
    \<Rightarrow> sql_error option \<times> HostReservation list" where
  "UpdateReservationSubnets us rows =
    (if us = [] then (None, rows)
     else (case park_phase 0 us rows of
         Inl e \<Rightarrow> (Some e, rows)
       | Inr rows1 \<Rightarrow>
          (case settle_phase 0 us rows1 of
             Inl e \<Rightarrow> (Some e, rows)
           | Inr rows2 \<Rightarrow> (None, rows2))))"

section \<open>Keys\<close>

lemma Itoa_no_bar: "CHR ''|'' \<notin> set (Itoa n)"
  using dec_str_digits [of n "CHR ''|''"] dec_str_digits [of "- n" "CHR ''|''"]
  by (auto simp: Itoa_def is_digit_def)

lemma append_bar_inj:
  assumes "x @ ''|'' @ s = y @ ''|'' @ t" "CHR ''|'' \<notin> set s" "CHR ''|'' \<notin> set t"
  shows "x = y \<and> s = t"
  using assms by (auto simp: append_eq_append_conv2 append_eq_Cons_conv Cons_eq_append_conv)

lemma hostKey_inj: "hostKey i t s = hostKey i' t' s' \<longleftrightarrow> i = i' \<and> t = t' \<and> s = s'"
proof
  assume "hostKey i t s = hostKey i' t' s'"
  then have "(i @ ''|'' @ Itoa t) @ ''|'' @ Itoa s = (i' @ ''|'' @ Itoa t') @ ''|'' @ Itoa s'"
    by (simp add: hostKey_def)
  then have "i @ ''|'' @ Itoa t = i' @ ''|'' @ Itoa t'" "Itoa s = Itoa s'"
    using append_bar_inj Itoa_no_bar by blast+
  then show "i = i' \<and> t = t' \<and> s = s'"
    using append_bar_inj [of i "Itoa t" i' "Itoa t'"] Itoa_no_bar Itoa_inj by blast
qed simp

section \<open>The rounds\<close>

definition skipped_keys :: "(subnetRemap \<times> bool) list \<Rightarrow> string set" where
  "skipped_keys ms = {row_key (sr_row m) | m. (m, True) \<in> set ms}"

definition live :: "(subnetRemap \<times> bool) list \<Rightarrow> subnetRemap list" where
  "live ms = map fst (filter (\<lambda>x. \<not> snd x) ms)"

lemma live_simps [simp]: "live [] = []" "live ((m, True) # ms) = live ms"
  "live ((m, False) # ms) = m # live ms"
  by (simp_all add: live_def)

lemma skipped_keys_simps [simp]: "skipped_keys [] = {}"
  "skipped_keys ((m, True) # ms) = insert (row_key (sr_row m)) (skipped_keys ms)"
  "skipped_keys ((m, False) # ms) = skipped_keys ms"
  by (auto simp: skipped_keys_def)

lemma remap_round_fst: "remap_round ms c st = (ms', st', d) \<Longrightarrow> map fst ms' = map fst ms"
proof (induction ms c st arbitrary: ms' st' d rule: remap_round.induct)
  case (2 mv skip rest claimed staying)
  then show ?case by (fastforce split: if_splits prod.splits)
qed simp

lemma remap_round_staying:
  "remap_round ms c st = (ms', st', d) \<Longrightarrow> skipped_keys ms \<subseteq> st \<Longrightarrow> st' = st \<union> skipped_keys ms'"
proof (induction ms c st arbitrary: ms' st' d rule: remap_round.induct)
  case (2 mv skip rest claimed staying)
  show ?case
  proof (cases skip)
    case True
    then obtain ms1 where "remap_round rest claimed staying = (ms1, st', d)" "ms' = (mv, True) # ms1"
      using "2.prems"(1) by (auto split: prod.splits)
    then show ?thesis using "2.IH"(1) [OF True] "2.prems"(2) True by auto
  next
    case ns: False
    show ?thesis
    proof (cases "new_key mv \<in> claimed")
      case True
      then obtain ms1 d1 where "remap_round rest claimed (insert (row_key (sr_row mv)) staying) = (ms1, st', d1)"
        "ms' = (mv, True) # ms1"
        using "2.prems"(1) ns by (auto split: prod.splits)
      then show ?thesis using "2.IH"(2) [OF ns True] "2.prems"(2) ns by auto
    next
      case False
      then obtain ms1 where "remap_round rest (insert (new_key mv) claimed) staying = (ms1, st', d)"
        "ms' = (mv, False) # ms1"
        using "2.prems"(1) ns by (auto split: prod.splits)
      then show ?thesis using "2.IH"(3) [OF ns False] "2.prems"(2) ns by auto
    qed
  qed
qed simp

lemma remap_round_done:
  "remap_round ms c st = (ms', st', False) \<Longrightarrow>
    ms' = ms \<and> st' = st \<and> distinct (map new_key (live ms)) \<and> new_key ` set (live ms) \<inter> c = {}"
proof (induction ms c st arbitrary: ms' st' rule: remap_round.induct)
  case (2 mv skip rest claimed staying)
  then show ?case by (cases skip) (auto split: if_splits prod.splits)
qed simp

text \<open>Every key a mover wants is held after the round: by a staying row or by a mover that is
  still live.\<close>

lemma remap_round_held:
  "remap_round ms c st = (ms', st', d) \<Longrightarrow> (m, b) \<in> set ms \<Longrightarrow> \<not> b \<Longrightarrow>
     new_key m \<in> c \<union> new_key ` set (live ms')"
proof (induction ms c st arbitrary: ms' st' d rule: remap_round.induct)
  case (2 mv skip rest claimed staying)
  show ?case
  proof (cases skip)
    case True
    then obtain ms1 where "remap_round rest claimed staying = (ms1, st', d)" "ms' = (mv, True) # ms1"
      using "2.prems"(1) by (auto split: prod.splits)
    then show ?thesis using "2.IH"(1) [OF True] "2.prems"(2,3) True by auto
  next
    case ns: False
    show ?thesis
    proof (cases "new_key mv \<in> claimed")
      case True
      then obtain ms1 d1 where "remap_round rest claimed (insert (row_key (sr_row mv)) staying) = (ms1, st', d1)"
        "ms' = (mv, True) # ms1"
        using "2.prems"(1) ns by (auto split: prod.splits)
      then show ?thesis using "2.IH"(2) [OF ns True] "2.prems"(2,3) ns True by auto
    next
      case False
      then obtain ms1 where "remap_round rest (insert (new_key mv) claimed) staying = (ms1, st', d)"
        "ms' = (mv, False) # ms1"
        using "2.prems"(1) ns by (auto split: prod.splits)
      then show ?thesis using "2.IH"(3) [OF ns False] "2.prems"(2,3) ns by auto
    qed
  qed
qed simp

lemma remap_round_mono:
  "remap_round ms c st = (ms', st', d) \<Longrightarrow> (m, True) \<in> set ms \<Longrightarrow> (m, True) \<in> set ms'"
proof (induction ms c st arbitrary: ms' st' d rule: remap_round.induct)
  case (2 mv skip rest claimed staying)
  then show ?case by (fastforce split: if_splits prod.splits)
qed simp

definition held :: "(subnetRemap \<times> bool) list \<Rightarrow> string set \<Rightarrow> bool" where
  "held ms st \<longleftrightarrow> (\<forall>m. (m, True) \<in> set ms \<longrightarrow> new_key m \<in> st \<union> new_key ` set (live ms))"

lemma in_live: "m \<in> set (live ms) \<longleftrightarrow> (m, False) \<in> set ms"
  by (auto simp: live_def image_iff)

lemma remap_round_keeps_held:
  assumes r: "remap_round ms st st = (ms', st', d)" and h: "held ms st" and s: "skipped_keys ms \<subseteq> st"
  shows "held ms' st'"
  unfolding held_def
proof (intro allI impI)
  fix m assume m: "(m, True) \<in> set ms'"
  have st': "st \<subseteq> st'" using remap_round_staying [OF r s] by auto
  have "m \<in> fst ` set ms" using remap_round_fst [OF r] m by (metis fst_conv image_eqI image_set)
  then obtain b where b: "(m, b) \<in> set ms" by auto
  have live: "new_key x \<in> st \<union> new_key ` set (live ms')" if "(x, False) \<in> set ms" for x
    using remap_round_held [OF r that] by simp
  show "new_key m \<in> st' \<union> new_key ` set (live ms')"
  proof (cases b)
    case True
    then have "new_key m \<in> st \<or> (\<exists>x. (x, False) \<in> set ms \<and> new_key m = new_key x)"
      using h b by (fastforce simp: held_def in_live [symmetric])
    then show ?thesis using live st' by fastforce
  next
    case False
    then show ?thesis using live [of m] b st' by auto
  qed
qed

lemma remap_round_skipped_mono:
  "remap_round ms c st = (ms', st', d) \<Longrightarrow> skipped_keys ms \<subseteq> skipped_keys ms'"
  using remap_round_mono by (fastforce simp: skipped_keys_def)

definition settled :: "(subnetRemap \<times> bool) list \<Rightarrow> string set \<Rightarrow> (subnetRemap \<times> bool) list \<Rightarrow> bool" where
  "settled ms st ms' \<longleftrightarrow> map fst ms' = map fst ms \<and> skipped_keys ms \<subseteq> skipped_keys ms'
    \<and> distinct (map new_key (live ms'))
    \<and> new_key ` set (live ms') \<inter> (st \<union> skipped_keys ms') = {} \<and> held ms' (st \<union> skipped_keys ms')"

lemma remap_fixpoint_settled:
  "skipped_keys ms \<subseteq> st \<Longrightarrow> held ms st \<Longrightarrow> settled ms st (remap_fixpoint ms st)"
proof (induction ms st rule: remap_fixpoint.induct)
  case (1 ms st)
  obtain m1 st1 d where r: "remap_round ms st st = (m1, st1, d)" by (cases "remap_round ms st st") auto
  have st1: "st1 = st \<union> skipped_keys m1" using remap_round_staying [OF r] 1(2) by simp
  have sub: "skipped_keys ms \<subseteq> skipped_keys m1" using remap_round_skipped_mono [OF r] .
  show ?case
  proof (cases d)
    case True
    then have e: "remap_fixpoint ms st = remap_fixpoint m1 st1"
      using r by (subst remap_fixpoint.simps) simp
    have "settled m1 st1 (remap_fixpoint m1 st1)"
      using "1.IH" [OF refl r [symmetric] refl True] remap_round_keeps_held [OF r "1.prems"(2,1)] st1 by auto
    moreover have "st1 \<union> skipped_keys (remap_fixpoint m1 st1) = st \<union> skipped_keys (remap_fixpoint m1 st1)"
      using calculation st1 by (auto simp: settled_def)
    ultimately show ?thesis
      using remap_round_fst [OF r] sub unfolding e settled_def by auto
  next
    case False
    then have e: "remap_fixpoint ms st = ms"
      using r remap_round_done [of ms st st m1 st1] by (subst remap_fixpoint.simps) simp
    have "st \<union> skipped_keys ms = st" using "1.prems"(1) by auto
    then show ?thesis
      using remap_round_done [of ms st st m1 st1] r False "1.prems"(2) unfolding e settled_def by simp
  qed
qed

section \<open>The plan\<close>

definition remap_target :: "(go_ip \<Rightarrow> int option) \<Rightarrow> HostReservation \<Rightarrow> int option" where
  "remap_target f r = f (Uint32ToIP (hr_IPv4Address r))"

definition stays :: "(go_ip \<Rightarrow> int option) \<Rightarrow> HostReservation \<Rightarrow> bool" where
  "stays f r \<longleftrightarrow> remap_target f r = None \<or> remap_target f r = Some (hr_SubnetID r)"

lemma classify_rows_spec:
  "classify_rows f rows = (ms, os, st) \<Longrightarrow>
     map sr_row ms = filter (\<lambda>r. \<not> stays f r) rows
     \<and> (\<forall>m \<in> set ms. remap_target f (sr_row m) = Some (sr_newID m))
     \<and> os = filter (\<lambda>r. remap_target f r = None) rows
     \<and> st = row_key ` set (filter (stays f) rows)"
proof (induction rows arbitrary: ms os st)
  case (Cons r rs)
  obtain ms1 os1 st1 where c: "classify_rows f rs = (ms1, os1, st1)" by (cases "classify_rows f rs") auto
  show ?case
    using Cons.prems Cons.IH [OF c] c
    by (cases "remap_target f r") (auto simp: stays_def remap_target_def mk_remap_def split: if_splits)
qed simp

definition apply_moves :: "subnetRemap list \<Rightarrow> HostReservation list \<Rightarrow> HostReservation list" where
  "apply_moves moves rows = map (\<lambda>r. case List.find (\<lambda>m. sr_row m = r) moves of
     Some m \<Rightarrow> r\<lparr>hr_SubnetID := sr_newID m\<rparr> | None \<Rightarrow> r) rows"

lemma row_key_update: "row_key (r\<lparr>hr_SubnetID := sr_newID m\<rparr>) = hostKey (hr_Identifier r) (hr_IdentifierType r) (sr_newID m)"
  by (simp add: row_key_def)

lemma mset_live: "mset (map fst ms) = mset (live ms) + mset (map fst (filter snd ms))"
  by (induction ms) (auto simp: live_def)

text \<open>What the plan guarantees, in the form the executor needs it.\<close>

definition plan_ok :: "(go_ip \<Rightarrow> int option) \<Rightarrow> HostReservation list \<Rightarrow> subnetRemap list
    \<Rightarrow> HostReservation list \<Rightarrow> subnetRemap list \<Rightarrow> bool" where
  "plan_ok f rows moves orphans skipped \<longleftrightarrow>
     orphans = filter (\<lambda>r. remap_target f r = None) rows
     \<and> mset (map sr_row moves) + mset (map sr_row skipped) = mset (filter (\<lambda>r. \<not> stays f r) rows)
     \<and> (\<forall>m \<in> set moves \<union> set skipped. remap_target f (sr_row m) = Some (sr_newID m))
     \<and> distinct (map new_key moves)
     \<and> new_key ` set moves \<inter> (row_key ` set (filter (stays f) rows) \<union> (row_key \<circ> sr_row) ` set skipped) = {}
     \<and> new_key ` set skipped \<subseteq> new_key ` set moves \<union> row_key ` set (filter (stays f) rows)
          \<union> (row_key \<circ> sr_row) ` set skipped"

lemma planSubnetRemaps_ok:
  assumes "planSubnetRemaps rows f = (moves, orphans, skipped)"
  shows "plan_ok f rows moves orphans skipped"
proof -
  obtain ms st where c: "classify_rows f rows = (ms, orphans, st)"
    using assms by (cases "classify_rows f rows") (auto simp: planSubnetRemaps_def Let_def)
  define fin where "fin = remap_fixpoint (map (\<lambda>m. (m, False)) ms) st"
  have mv: "moves = live fin" "skipped = map fst (filter snd fin)"
    using assms c by (simp_all add: planSubnetRemaps_def fin_def live_def Let_def)
  have "settled (map (\<lambda>m. (m, False)) ms) st fin"
    unfolding fin_def by (rule remap_fixpoint_settled) (auto simp: skipped_keys_def held_def)
  then have s: "map fst fin = ms" "distinct (map new_key moves)"
    "new_key ` set moves \<inter> (st \<union> skipped_keys fin) = {}" "held fin (st \<union> skipped_keys fin)"
    by (simp_all add: settled_def mv comp_def)
  have sk: "skipped_keys fin = (row_key \<circ> sr_row) ` set skipped"
    by (force simp: skipped_keys_def mv image_iff)
  have "new_key ` set skipped \<subseteq> new_key ` set moves \<union> st \<union> (row_key \<circ> sr_row) ` set skipped"
    using s(4) unfolding held_def sk mv(1) [symmetric] by (auto simp: mv(2))
  moreover have "mset ms = mset moves + mset skipped"
    using mset_live [of fin] s(1) by (simp add: mv)
  ultimately show ?thesis
    using classify_rows_spec [OF c] s(2,3) unfolding plan_ok_def sk
    by (metis (no_types, lifting) image_mset_union mset_map set_mset_mset set_mset_union)
qed

section \<open>The two phases under the unique key\<close>

definition same_dev :: "HostReservation \<Rightarrow> HostReservation \<Rightarrow> bool" where
  "same_dev r s \<longleftrightarrow> hr_Identifier r = hr_Identifier s \<and> hr_IdentifierType r = hr_IdentifierType s"

definition place :: "(HostReservation \<Rightarrow> int) \<Rightarrow> HostReservation list \<Rightarrow> HostReservation list" where
  "place p rows = map (\<lambda>r. r\<lparr>hr_SubnetID := p r\<rparr>) rows"

definition keys_unique :: "(HostReservation \<Rightarrow> int) \<Rightarrow> HostReservation list \<Rightarrow> bool" where
  "keys_unique p rows \<longleftrightarrow> (\<forall>r \<in> set rows. \<forall>s \<in> set rows. same_dev r s \<and> r \<noteq> s \<longrightarrow> p r \<noteq> p s)"

definition free_for :: "(HostReservation \<Rightarrow> int) \<Rightarrow> HostReservation list \<Rightarrow> HostReservation \<Rightarrow> int \<Rightarrow> bool" where
  "free_for p rows r0 new \<longleftrightarrow> (\<forall>r \<in> set rows. same_dev r r0 \<longrightarrow> p r \<noteq> new)"

lemma exec_place:
  assumes "keys_unique p rows" "r0 \<in> set rows" "free_for p rows r0 new"
  shows "exec_update new (hr_Identifier r0) (hr_IdentifierType r0) (p r0) (place p rows)
      = Inr (place (p(r0 := new)) rows)"
    and "keys_unique (p(r0 := new)) rows"
proof -
  have "\<not> list_ex (matches (hr_Identifier r0) (hr_IdentifierType r0) new) (place p rows)"
    using assms(3) by (auto simp: list_ex_iff place_def matches_def free_for_def same_dev_def)
  moreover have "matches (hr_Identifier r0) (hr_IdentifierType r0) (p r0) (r\<lparr>hr_SubnetID := p r\<rparr>)
      \<longleftrightarrow> r = r0" if "r \<in> set rows" for r
    using assms(1,2) that by (auto simp: matches_def keys_unique_def same_dev_def)
  ultimately show "exec_update new (hr_Identifier r0) (hr_IdentifierType r0) (p r0) (place p rows)
      = Inr (place (p(r0 := new)) rows)"
    by (auto simp: exec_update_def place_def)
  show "keys_unique (p(r0 := new)) rows"
    using assms(1,3) by (auto simp: keys_unique_def free_for_def same_dev_def)
qed

fun parked :: "int \<Rightarrow> subnetRemap list \<Rightarrow> (HostReservation \<Rightarrow> int) \<Rightarrow> HostReservation \<Rightarrow> int" where
  "parked i [] p = p"
| "parked i (m # ms) p = parked (i + 1) ms (p(sr_row m := updateSubnetParkBase + i))"

fun settled_at :: "subnetRemap list \<Rightarrow> (HostReservation \<Rightarrow> int) \<Rightarrow> HostReservation \<Rightarrow> int" where
  "settled_at [] p = p"
| "settled_at (m # ms) p = settled_at ms (p(sr_row m := sr_newID m))"

lemma parked_other: "r \<notin> sr_row ` set ms \<Longrightarrow> parked i ms p r = p r"
  by (induction ms arbitrary: i p) auto

lemma parked_ge: "r \<in> sr_row ` set ms \<Longrightarrow> updateSubnetParkBase + i \<le> parked i ms p r"
proof (induction ms arbitrary: i p)
  case (Cons m ms)
  show ?case
  proof (cases "r \<in> sr_row ` set ms")
    case True
    then have "updateSubnetParkBase + (i + 1) \<le> parked (i + 1) ms (p(sr_row m := updateSubnetParkBase + i)) r"
      by (rule Cons.IH)
    then show ?thesis by simp
  next
    case False
    then show ?thesis using Cons.prems by (simp add: parked_other)
  qed
qed simp

lemma settled_other: "r \<notin> sr_row ` set ms \<Longrightarrow> settled_at ms p r = p r"
  by (induction ms arbitrary: p) auto

lemma settled_in:
  "distinct (map sr_row ms) \<Longrightarrow> m \<in> set ms \<Longrightarrow> settled_at ms p (sr_row m) = sr_newID m"
  by (induction ms arbitrary: p) (auto simp: settled_other)

lemma to_update_sel [simp]:
  "su_Identifier (to_update m) = hr_Identifier (sr_row m)"
  "su_IdentifierType (to_update m) = hr_IdentifierType (sr_row m)"
  "su_OldSubnetID (to_update m) = hr_SubnetID (sr_row m)" "su_NewSubnetID (to_update m) = sr_newID m"
  by (simp_all add: to_update_def)

lemma park_phase_ok:
  assumes "keys_unique p rows" "\<forall>r \<in> set rows. p r < updateSubnetParkBase + i"
    "distinct (map sr_row ms)" "sr_row ` set ms \<subseteq> set rows"
    "\<forall>m \<in> set ms. p (sr_row m) = hr_SubnetID (sr_row m)"
  shows "park_phase i (map to_update ms) (place p rows) = Inr (place (parked i ms p) rows)
    \<and> keys_unique (parked i ms p) rows"
  using assms
proof (induction ms arbitrary: i p)
  case (Cons m ms)
  let ?p = "p(sr_row m := updateSubnetParkBase + i)"
  have free: "free_for p rows (sr_row m) (updateSubnetParkBase + i)"
    using Cons.prems(2) by (auto simp: free_for_def)
  have mem: "sr_row m \<in> set rows" using Cons.prems(4) by simp
  note e = exec_place [OF Cons.prems(1) mem free]
  have "park_phase (i + 1) (map to_update ms) (place ?p rows) = Inr (place (parked (i + 1) ms ?p) rows)
    \<and> keys_unique (parked (i + 1) ms ?p) rows"
    using Cons.prems e(2) by (intro Cons.IH) (fastforce simp: image_iff)+
  then show ?case using e(1) Cons.prems(5) by simp
qed simp

lemma settle_phase_ok:
  assumes "keys_unique p rows" "distinct (map sr_row ms)" "sr_row ` set ms \<subseteq> set rows"
    "\<forall>j < length ms. p (sr_row (ms ! j)) = updateSubnetParkBase + i + int j"
    "\<forall>m \<in> set ms. free_for p rows (sr_row m) (sr_newID m)" "distinct (map new_key ms)"
  shows "settle_phase i (map to_update ms) (place p rows) = Inr (place (settled_at ms p) rows)"
  using assms
proof (induction ms arbitrary: i p)
  case (Cons m ms)
  let ?p = "p(sr_row m := sr_newID m)"
  have mem: "sr_row m \<in> set rows" and free: "free_for p rows (sr_row m) (sr_newID m)"
    using Cons.prems(3,5) by simp_all
  note e = exec_place [OF Cons.prems(1) mem free]
  have park: "p (sr_row m) = updateSubnetParkBase + i" using Cons.prems(4) by force
  have d: "distinct (map sr_row ms)" "sr_row m \<notin> sr_row ` set ms" "sr_row ` set ms \<subseteq> set rows"
    "distinct (map new_key ms)" "new_key m \<notin> new_key ` set ms"
    using Cons.prems(2,3,6) by auto
  have fr: "\<forall>n \<in> set ms. free_for ?p rows (sr_row n) (sr_newID n)"
  proof
    fix n assume n: "n \<in> set ms"
    have "sr_newID m \<noteq> sr_newID n" if "same_dev (sr_row m) (sr_row n)"
    proof
      assume "sr_newID m = sr_newID n"
      then have "new_key m = new_key n" using that by (simp add: new_key_def same_dev_def)
      then show False using d(5) n by blast
    qed
    then show "free_for ?p rows (sr_row n) (sr_newID n)"
      using Cons.prems(5) n by (auto simp: free_for_def)
  qed
  have pk: "\<forall>j < length ms. ?p (sr_row (ms ! j)) = updateSubnetParkBase + (i + 1) + int j"
  proof (intro allI impI)
    fix j assume j: "j < length ms"
    have "sr_row (ms ! j) \<noteq> sr_row m" using d(2) nth_mem [OF j] by (metis imageI)
    moreover have "p (sr_row ((m # ms) ! Suc j)) = updateSubnetParkBase + i + int (Suc j)"
      using Cons.prems(4) j by (metis Suc_less_eq length_Cons)
    ultimately show "?p (sr_row (ms ! j)) = updateSubnetParkBase + (i + 1) + int j" by simp
  qed
  have "settle_phase (i + 1) (map to_update ms) (place ?p rows) = Inr (place (settled_at ms ?p) rows)"
    by (rule Cons.IH [OF e(2) d(1,3) pk fr d(4)])
  then show ?case using e(1) park by simp
qed simp

lemma parked_nth:
  "distinct (map sr_row ms) \<Longrightarrow> j < length ms \<Longrightarrow> parked i ms p (sr_row (ms ! j)) = updateSubnetParkBase + i + int j"
proof (induction ms arbitrary: i p j)
  case (Cons m ms)
  show ?case
  proof (cases j)
    case 0
    then show ?thesis using Cons.prems by (simp add: parked_other)
  next
    case (Suc k)
    then show ?thesis using Cons.IH [of k "i + 1"] Cons.prems by simp
  qed
qed simp


section \<open>Properties\<close>

lemma plan_ok_rows:
  assumes "plan_ok f rows moves orphans skipped" "distinct rows"
  shows "distinct (map sr_row moves)" "sr_row ` set moves \<subseteq> set rows"
    "sr_row ` set skipped \<subseteq> set rows" "sr_row ` set moves \<inter> sr_row ` set skipped = {}"
    "r \<in> set rows \<Longrightarrow> r \<notin> sr_row ` set moves \<Longrightarrow> stays f r \<or> r \<in> sr_row ` set skipped"
    "r \<in> sr_row ` set moves \<Longrightarrow> \<not> stays f r"
proof -
  have m: "mset (map sr_row moves @ map sr_row skipped) = mset (filter (\<lambda>r. \<not> stays f r) rows)"
    using assms(1) by (simp add: plan_ok_def)
  then have d: "distinct (map sr_row moves @ map sr_row skipped)"
    using assms(2) by (metis distinct_filter mset_eq_imp_distinct_iff)
  have s: "sr_row ` set moves \<union> sr_row ` set skipped = {r \<in> set rows. \<not> stays f r}"
    using mset_eq_setD [OF m] by auto
  show "distinct (map sr_row moves)" "sr_row ` set moves \<subseteq> set rows"
    "sr_row ` set skipped \<subseteq> set rows" "sr_row ` set moves \<inter> sr_row ` set skipped = {}"
    using d s by auto
  show "r \<in> set rows \<Longrightarrow> r \<notin> sr_row ` set moves \<Longrightarrow> stays f r \<or> r \<in> sr_row ` set skipped"
    "r \<in> sr_row ` set moves \<Longrightarrow> \<not> stays f r"
    using s by auto
qed

lemma distinct_keys_unique:
  "distinct (map row_key rows) \<Longrightarrow> keys_unique hr_SubnetID rows"
  unfolding keys_unique_def same_dev_def distinct_map inj_on_def row_key_def
  by (metis hostKey_inj)

lemma place_id: "place hr_SubnetID rows = rows"
  by (simp add: place_def map_idI)

lemma apply_moves_place:
  assumes "distinct (map sr_row moves)"
    and p: "\<forall>r \<in> set rows. r \<notin> sr_row ` set moves \<longrightarrow> p r = hr_SubnetID r"
  shows "apply_moves moves rows = place (settled_at moves p) rows"
proof -
  have "(case List.find (\<lambda>m. sr_row m = r) moves of
      Some m \<Rightarrow> r\<lparr>hr_SubnetID := sr_newID m\<rparr> | None \<Rightarrow> r) = r\<lparr>hr_SubnetID := settled_at moves p r\<rparr>"
    if "r \<in> set rows" for r
  proof (cases "List.find (\<lambda>m. sr_row m = r) moves")
    case None
    then have "r \<notin> sr_row ` set moves" by (auto simp: find_None_iff)
    then show ?thesis using None that p by (simp add: settled_other)
  next
    case (Some m)
    then have "m \<in> set moves" "sr_row m = r" by (auto simp: find_Some_iff)
    then show ?thesis using Some settled_in [OF assms(1), of m p] by simp
  qed
  then show ?thesis by (simp add: apply_moves_def place_def)
qed

lemma free_target:
  assumes "plan_ok f rows moves orphans skipped" "distinct rows" "m \<in> set moves"
    "r \<in> set rows" "r \<notin> sr_row ` set moves" "same_dev r (sr_row m)"
  shows "hr_SubnetID r \<noteq> sr_newID m"
proof
  assume "hr_SubnetID r = sr_newID m"
  then have "new_key m = row_key r" using assms(6) by (simp add: new_key_def row_key_def same_dev_def)
  moreover have "row_key r \<in> row_key ` set (filter (stays f) rows) \<union> (row_key \<circ> sr_row) ` set skipped"
    using plan_ok_rows(5) [OF assms(1,2,4,5)] assms(4) by auto
  ultimately show False using assms(1,3) unfolding plan_ok_def by (metis (no_types, lifting) IntI emptyE image_eqI)
qed


lemma moved_keys_unique:
  assumes "plan_ok f rows moves orphans skipped" "distinct (map row_key rows)"
  shows "keys_unique (settled_at moves hr_SubnetID) rows"
proof -
  have dr: "distinct rows" using assms(2) by (simp add: distinct_map)
  note pr = plan_ok_rows [OF assms(1) dr]
  have new: "settled_at moves hr_SubnetID (sr_row m) = sr_newID m" if "m \<in> set moves" for m
    using settled_in [OF pr(1) that] .
  have old: "settled_at moves hr_SubnetID r = hr_SubnetID r" if "r \<notin> sr_row ` set moves" for r
    using settled_other [OF that] .
  have dn: "distinct (map new_key moves)" using assms(1) by (simp add: plan_ok_def)
  have both: "sr_newID m \<noteq> sr_newID n"
    if "m \<in> set moves" "n \<in> set moves" "m \<noteq> n" "same_dev (sr_row m) (sr_row n)" for m n
    using dn that by (auto simp: distinct_map inj_on_def new_key_def same_dev_def)
  have sym: "same_dev r s \<longleftrightarrow> same_dev s r" for r s by (auto simp: same_dev_def)
  show ?thesis
    unfolding keys_unique_def
  proof (intro ballI impI)
    fix r s assume r: "r \<in> set rows" and s: "s \<in> set rows" and rs: "same_dev r s \<and> r \<noteq> s"
    consider m n where "m \<in> set moves" "n \<in> set moves" "r = sr_row m" "s = sr_row n"
      | m where "m \<in> set moves" "r = sr_row m" "s \<notin> sr_row ` set moves"
      | n where "n \<in> set moves" "s = sr_row n" "r \<notin> sr_row ` set moves"
      | "r \<notin> sr_row ` set moves" "s \<notin> sr_row ` set moves" by blast
    then show "settled_at moves hr_SubnetID r \<noteq> settled_at moves hr_SubnetID s"
    proof cases
      case (1 m n)
      then show ?thesis using both [of m n] rs new by auto
    next
      case (2 m)
      then show ?thesis using free_target [OF assms(1) dr 2(1) s 2(3)] rs sym new old by auto
    next
      case (3 n)
      then show ?thesis using free_target [OF assms(1) dr 3(1) r 3(3)] rs new old by auto
    next
      case 4
      then show ?thesis
        using distinct_keys_unique [OF assms(2)] r s rs old by (auto simp: keys_unique_def)
    qed
  qed
qed

lemma keys_unique_distinct:
  assumes "keys_unique p rows" "distinct rows"
  shows "distinct (map row_key (place p rows))"
proof -
  have "inj_on (\<lambda>r. row_key (r\<lparr>hr_SubnetID := p r\<rparr>)) (set rows)"
    using assms(1) by (auto simp: inj_on_def row_key_def hostKey_inj keys_unique_def same_dev_def)
  then show ?thesis using assms(2) by (simp add: place_def distinct_map comp_def)
qed

text \<open>C15: On a hosts table with unique keys, the subnet remap plan partitions the rows: the
  orphans are exactly the rows outside every scope, every row whose IP maps to another subnet-id is
  either moved there or skipped, and moving all movers at once leaves the keys unique; a mover is
  skipped only if in the resulting table the key it wants is held by another row.\<close>

theorem planSubnetRemaps_sound:
  assumes "planSubnetRemaps rows f = (moves, orphans, skipped)" "distinct (map row_key rows)"
  shows "orphans = filter (\<lambda>r. remap_target f r = None) rows
    \<and> mset (map sr_row moves) + mset (map sr_row skipped) = mset (filter (\<lambda>r. \<not> stays f r) rows)
    \<and> list_all (\<lambda>m. remap_target f (sr_row m) = Some (sr_newID m)) (moves @ skipped)
    \<and> distinct (map row_key (apply_moves moves rows))
    \<and> new_key ` set skipped \<subseteq> row_key ` set (apply_moves moves rows)"
proof -
  have ok: "plan_ok f rows moves orphans skipped" by (rule planSubnetRemaps_ok [OF assms(1)])
  have dr: "distinct rows" using assms(2) by (simp add: distinct_map)
  note pr = plan_ok_rows [OF ok dr]
  have ap: "apply_moves moves rows = place (settled_at moves hr_SubnetID) rows"
    using pr(1) by (intro apply_moves_place) auto
  have d: "distinct (map row_key (apply_moves moves rows))"
    unfolding ap by (rule keys_unique_distinct [OF moved_keys_unique [OF ok assms(2)] dr])
  have keys: "row_key ` set (apply_moves moves rows)
    = (\<lambda>r. hostKey (hr_Identifier r) (hr_IdentifierType r) (settled_at moves hr_SubnetID r)) ` set rows"
    unfolding ap place_def set_map image_image by (simp add: row_key_def)
  have mv: "new_key ` set moves \<subseteq> row_key ` set (apply_moves moves rows)"
  proof (rule image_subsetI)
    fix m assume m: "m \<in> set moves"
    then have "sr_row m \<in> set rows" using pr(2) by blast
    then show "new_key m \<in> row_key ` set (apply_moves moves rows)"
      unfolding keys using settled_in [OF pr(1) m, of hr_SubnetID]
      by (intro image_eqI [of _ _ "sr_row m"]) (simp_all add: new_key_def)
  qed
  have other: "row_key r \<in> row_key ` set (apply_moves moves rows)"
    if "r \<in> set rows" "r \<notin> sr_row ` set moves" for r
    unfolding keys using that
    by (intro image_eqI [of _ _ r]) (simp_all add: row_key_def settled_other)
  have st: "row_key ` set (filter (stays f) rows) \<subseteq> row_key ` set (apply_moves moves rows)"
  proof (rule image_subsetI)
    fix r assume "r \<in> set (filter (stays f) rows)"
    then show "row_key r \<in> row_key ` set (apply_moves moves rows)"
      using other [of r] pr(6) [of r] by auto
  qed
  have sk: "(row_key \<circ> sr_row) ` set skipped \<subseteq> row_key ` set (apply_moves moves rows)"
  proof (rule image_subsetI)
    fix m assume "m \<in> set skipped"
    then have "sr_row m \<in> set rows" "sr_row m \<notin> sr_row ` set moves" using pr(3,4) by blast+
    then show "(row_key \<circ> sr_row) m \<in> row_key ` set (apply_moves moves rows)"
      using other by simp
  qed
  note parts = ok [unfolded plan_ok_def]
  have "new_key ` set skipped \<subseteq> row_key ` set (apply_moves moves rows)"
    using parts mv st sk by (meson Un_least order_trans)
  moreover have "list_all (\<lambda>m. remap_target f (sr_row m) = Some (sr_newID m)) (moves @ skipped)"
    using parts by (simp add: list_all_iff)
  ultimately show ?thesis using parts d by (intro conjI) simp_all
qed

text \<open>C9: Executing a plan in two phases through the park ids never hits the unique key and
  has exactly the effect of moving all rows at once, provided the subnet-ids in the table and the
  planned ones are below the park base.\<close>

theorem UpdateReservationSubnets_refines:
  assumes "planSubnetRemaps rows f = (moves, orphans, skipped)" "distinct (map row_key rows)"
    "\<forall>r \<in> set rows. hr_SubnetID r < updateSubnetParkBase"
    "\<forall>m \<in> set moves. sr_newID m < updateSubnetParkBase"
  shows "UpdateReservationSubnets (map to_update moves) rows = (None, apply_moves moves rows)"
proof -
  have ok: "plan_ok f rows moves orphans skipped" by (rule planSubnetRemaps_ok [OF assms(1)])
  have dr: "distinct rows" using assms(2) by (simp add: distinct_map)
  note pr = plan_ok_rows [OF ok dr]
  let ?p = "parked 0 moves hr_SubnetID"
  have ph1: "park_phase 0 (map to_update moves) rows = Inr (place ?p rows)" "keys_unique ?p rows"
    using park_phase_ok [OF distinct_keys_unique [OF assms(2)] _ pr(1,2), of 0] assms(3)
    by (simp_all add: place_id)
  have "free_for ?p rows (sr_row m) (sr_newID m)" if "m \<in> set moves" for m
    unfolding free_for_def
  proof (intro ballI impI)
    fix r assume r: "r \<in> set rows" "same_dev r (sr_row m)"
    show "?p r \<noteq> sr_newID m"
    proof (cases "r \<in> sr_row ` set moves")
      case True
      then show ?thesis using parked_ge [OF True, of 0 hr_SubnetID] assms(4) that by force
    next
      case False
      then show ?thesis using free_target [OF ok dr that r(1) False r(2)] by (simp add: parked_other)
    qed
  qed
  then have ph2: "settle_phase 0 (map to_update moves) (place ?p rows) = Inr (place (settled_at moves ?p) rows)"
    using ok pr(1,2) ph1(2) by (intro settle_phase_ok) (auto simp: plan_ok_def parked_nth)
  have "apply_moves moves rows = place (settled_at moves ?p) rows"
    using pr(1) by (intro apply_moves_place) (auto simp: parked_other)
  then show ?thesis
    using ph1(1) ph2 by (cases "moves = []") (simp_all add: UpdateReservationSubnets_def apply_moves_def)
qed


definition ex_row :: "string \<Rightarrow> int \<Rightarrow> u32 \<Rightarrow> HostReservation" where
  "ex_row i s a = \<lparr>hr_Identifier = i, hr_IdentifierType = 4, hr_SubnetID = s, hr_IPv4Address = a,
     hr_Hostname = []\<rparr>"

text \<open>One device pinned in two subnets whose scopes were reordered: both rows move.\<close>

definition ex_rows :: "HostReservation list" where
  "ex_rows = [ex_row ''a'' 1 0x0a010005, ex_row ''a'' 2 0x0a000005, ex_row ''b'' 1 0xc0000001]"

definition ex_moves :: "subnetRemap list" where
  "ex_moves = [mk_remap (ex_row ''a'' 1 0x0a010005) 2, mk_remap (ex_row ''a'' 2 0x0a000005) 1]"

definition ex_matcher :: "go_ip \<Rightarrow> int option" where
  "ex_matcher = SubnetMatcherForScopes [''10.0.0.0/24'', ''10.1.0.0/24'', ''bad'']"

lemma ex_plan: "planSubnetRemaps ex_rows ex_matcher = (ex_moves, [ex_row ''b'' 1 0xc0000001], [])"
  by code_simp

lemma ex_rows_keys: "distinct (map row_key ex_rows)"
  by (simp add: ex_rows_def ex_row_def row_key_def hostKey_inj)

lemma planSubnetRemaps_sound_witness:
  "distinct (map row_key (apply_moves ex_moves ex_rows)) \<and> length ex_moves = 2"
  using planSubnetRemaps_sound [OF ex_plan ex_rows_keys] by (simp add: ex_moves_def)

lemma UpdateReservationSubnets_refines_witness:
  "UpdateReservationSubnets (map to_update ex_moves) ex_rows = (None, apply_moves ex_moves ex_rows)"
  by (rule UpdateReservationSubnets_refines [OF ex_plan ex_rows_keys])
     (simp_all add: ex_rows_def ex_row_def ex_moves_def mk_remap_def updateSubnetParkBase_def)

end
