(* ===== verification/Rebalance.thy ===== *)
theory Rebalance
  imports ScopePlan "HOL-Library.Sublist"
begin

text \<open>
  \<open>src/internal/appliance/rebalance.go\<close>: the choice of the leases to release so that a
  device that sits in another class's pool moves into its own.  \<open>occ\<close> is the per-pool
  occupancy the loop keeps, updated move by move.
\<close>

record ActiveLease =
  al_IPAddress :: string
  al_HWAddress :: string
  al_ClientID :: string

record rebalanceMove =
  rm_IP :: string
  rm_HW :: string
  rm_FromClass :: string
  rm_ToClass :: string

record poolBound =
  pb_class :: string
  pb_lo :: u32
  pb_hi :: u32

fun poolIndex :: "poolBound list \<Rightarrow> u32 \<Rightarrow> nat option" where
  "poolIndex [] u = None"
| "poolIndex (p # ps) u =
     (if pb_lo p \<le> u \<and> u \<le> pb_hi p then Some 0 else map_option Suc (poolIndex ps u))"

fun classIndex :: "poolBound list \<Rightarrow> string \<Rightarrow> nat option" where
  "classIndex [] c = None"
| "classIndex (p # ps) c = (if pb_class p = c then Some 0 else map_option Suc (classIndex ps c))"

definition pool_bounds :: "PoolPlacement list \<Rightarrow> poolBound list" where
  "pool_bounds pls = concat (map (\<lambda>p.
     if pp_Kind p = PoolReserve \<or> pp_Range p = [] \<or> pp_Class p = [] then []
     else (case ParsePoolRange (pp_Range p) of
         Some (l, h) \<Rightarrow> [\<lparr>pb_class = pp_Class p, pb_lo = l, pb_hi = h\<rparr>] | None \<Rightarrow> [])) pls)"

definition lease_ip :: "ActiveLease \<Rightarrow> go_ip" where
  "lease_ip l = To4 (ParseIP (al_IPAddress l))"

definition in_scope :: "ipnet \<Rightarrow> ActiveLease \<Rightarrow> bool" where
  "in_scope n l \<longleftrightarrow> lease_ip l \<noteq> [] \<and> IPNet_Contains n (lease_ip l)"

definition count_occ :: "poolBound list \<Rightarrow> ActiveLease list \<Rightarrow> int list" where
  "count_occ pools ls = foldl (\<lambda>occ l. case poolIndex pools (IPToUint32 (lease_ip l)) of
      Some i \<Rightarrow> occ[i := occ ! i + 1] | None \<Rightarrow> occ) (replicate (length pools) 0) ls"

text \<open>One lease of the second loop: the updated occupancy and the move, if any.\<close>

definition rebalance_one :: "poolBound list \<Rightarrow> string set \<Rightarrow> ActiveLease \<Rightarrow> int list
    \<Rightarrow> int list \<times> rebalanceMove option" where
  "rebalance_one pools fixed l occ =
    (if al_IPAddress l \<in> fixed then (occ, None)
     else if lease_ip l = [] then (occ, None)
     else
       (let u = IPToUint32 (lease_ip l); cl = ClassifyMAC (al_HWAddress l) in
        case (classIndex pools cl, poolIndex pools u) of
          (Some own, Some cur) \<Rightarrow>
            if cur = own then (occ, None)
            else if occ ! own \<ge> CapacityOf (pb_lo (pools ! own)) (pb_hi (pools ! own)) then (occ, None)
            else (let occ1 = occ[own := occ ! own + 1] in
                  (occ1[cur := occ1 ! cur - 1],
                   Some \<lparr>rm_IP = al_IPAddress l, rm_HW = al_HWAddress l,
                     rm_FromClass = pb_class (pools ! cur), rm_ToClass = cl\<rparr>))
        | _ \<Rightarrow> (occ, None)))"

fun rebalance_loop :: "poolBound list \<Rightarrow> string set \<Rightarrow> ActiveLease list \<Rightarrow> int list
    \<Rightarrow> int list \<times> rebalanceMove list" where
  "rebalance_loop pools fixed [] occ = (occ, [])"
| "rebalance_loop pools fixed (l # ls) occ =
     (let (occ1, m) = rebalance_one pools fixed l occ;
          (occ2, ms) = rebalance_loop pools fixed ls occ1
      in (occ2, (case m of None \<Rightarrow> ms | Some x \<Rightarrow> x # ms)))"

definition rebalance_scope :: "ActiveLease list \<Rightarrow> string set \<Rightarrow> ScopeConfig \<Rightarrow> rebalanceMove list" where
  "rebalance_scope leases fixed sc =
    (case ParseCIDR (sc_CIDR sc) of
       None \<Rightarrow> []
     | Some (ip, n) \<Rightarrow>
        (case LayoutPools (sc_CIDR sc) (ToSpecs (sc_Plan sc)) of
           Inl e \<Rightarrow> []
         | Inr placements \<Rightarrow>
            let pools = pool_bounds placements; ls = filter (in_scope n) leases
            in snd (rebalance_loop pools fixed ls (count_occ pools ls))))"

definition rebalanceTargets :: "ScopeConfig list \<Rightarrow> ActiveLease list \<Rightarrow> string set \<Rightarrow> rebalanceMove list" where
  "rebalanceTargets scopes leases fixed = concat (map (rebalance_scope leases fixed) scopes)"

section \<open>Pinned and reserved leases\<close>

text \<open>\<open>fixedLeaseIPs\<close> over the reserved MACs and the pinned port keys already read from
  the database.\<close>

definition fixedLeaseIPs :: "string set \<Rightarrow> string set \<Rightarrow> ActiveLease list \<Rightarrow> string set" where
  "fixedLeaseIPs resMACs pinnedKeys leases =
    al_IPAddress ` {l \<in> set leases. NormalizeMAC (al_HWAddress l) \<in> resMACs
      \<or> (pinnedKeys \<noteq> {} \<and> (case DecodePortIdentity (al_ClientID l) of
           Some p \<Rightarrow> pi_Key p \<in> pinnedKeys | None \<Rightarrow> False))}"

section \<open>Occupancy\<close>

lemma poolIndex_Some: "poolIndex ps u = Some i \<Longrightarrow> i < length ps \<and> pb_lo (ps ! i) \<le> u \<and> u \<le> pb_hi (ps ! i)"
  by (induction ps arbitrary: i) (auto split: if_splits)

lemma classIndex_Some: "classIndex ps c = Some i \<Longrightarrow> i < length ps \<and> pb_class (ps ! i) = c"
  by (induction ps arbitrary: i) (auto split: if_splits)

definition lease_pool :: "poolBound list \<Rightarrow> ActiveLease \<Rightarrow> nat option" where
  "lease_pool pools l = poolIndex pools (IPToUint32 (lease_ip l))"

definition occupancy :: "poolBound list \<Rightarrow> ActiveLease list \<Rightarrow> nat \<Rightarrow> int" where
  "occupancy pools ls i = int (length (filter (\<lambda>l. lease_pool pools l = Some i) ls))"

lemma count_occ_fold:
  assumes "length occ = length pools" "i < length pools"
  shows "foldl (\<lambda>occ l. case poolIndex pools (IPToUint32 (lease_ip l)) of
      Some i \<Rightarrow> occ[i := occ ! i + 1] | None \<Rightarrow> occ) occ ls ! i = occ ! i + occupancy pools ls i
    \<and> length (foldl (\<lambda>occ l. case poolIndex pools (IPToUint32 (lease_ip l)) of
      Some i \<Rightarrow> occ[i := occ ! i + 1] | None \<Rightarrow> occ) occ ls) = length pools"
  using assms
proof (induction ls arbitrary: occ)
  case (Cons l ls)
  show ?case
  proof (cases "poolIndex pools (IPToUint32 (lease_ip l))")
    case None
    then show ?thesis using Cons by (simp add: occupancy_def lease_pool_def)
  next
    case (Some j)
    then have "j < length pools" using poolIndex_Some by blast
    then show ?thesis
      using Some Cons.IH [of "occ[j := occ ! j + 1]"] Cons.prems
      by (cases "i = j") (simp_all add: occupancy_def lease_pool_def)
  qed
qed (simp add: occupancy_def)

lemma length_count_occ: "length (count_occ pools ls) = length pools"
proof (cases "pools = []")
  case True
  have "foldl (\<lambda>occ l. case poolIndex [] (IPToUint32 (lease_ip l)) of
      Some i \<Rightarrow> occ[i := occ ! i + 1] | None \<Rightarrow> occ) ([] :: int list) ls = []"
    by (induction ls) auto
  then show ?thesis using True by (simp add: count_occ_def)
next
  case False
  then show ?thesis using count_occ_fold [of "replicate (length pools) 0" pools 0 ls] by (simp add: count_occ_def)
qed

lemma count_occ_nth: "i < length pools \<Longrightarrow> count_occ pools ls ! i = occupancy pools ls i"
  using count_occ_fold [of "replicate (length pools) 0" pools i ls] by (simp add: count_occ_def)

section \<open>One move and the loop\<close>

definition cap :: "poolBound list \<Rightarrow> nat \<Rightarrow> int" where
  "cap pools i = CapacityOf (pb_lo (pools ! i)) (pb_hi (pools ! i))"

definition move_from :: "poolBound list \<Rightarrow> rebalanceMove \<Rightarrow> nat option" where
  "move_from pools m = poolIndex pools (IPToUint32 (To4 (ParseIP (rm_IP m))))"

definition into :: "poolBound list \<Rightarrow> rebalanceMove list \<Rightarrow> nat \<Rightarrow> int" where
  "into pools ms i = int (length (filter (\<lambda>m. classIndex pools (rm_ToClass m) = Some i) ms))"

definition out_of :: "poolBound list \<Rightarrow> rebalanceMove list \<Rightarrow> nat \<Rightarrow> int" where
  "out_of pools ms i = int (length (filter (\<lambda>m. move_from pools m = Some i) ms))"

text \<open>A legitimate move: an unpinned lease in a pool that is not the pool of its device's
  class, which exists.\<close>

definition move_ok :: "poolBound list \<Rightarrow> string set \<Rightarrow> ActiveLease list \<Rightarrow> rebalanceMove \<Rightarrow> bool" where
  "move_ok pools fixed ls m \<longleftrightarrow> (\<exists>l \<in> set ls. \<exists>own cur. rm_IP m = al_IPAddress l \<and> rm_HW m = al_HWAddress l
     \<and> al_IPAddress l \<notin> fixed \<and> rm_ToClass m = ClassifyMAC (al_HWAddress l)
     \<and> classIndex pools (rm_ToClass m) = Some own \<and> lease_pool pools l = Some cur \<and> cur \<noteq> own
     \<and> rm_FromClass m = pb_class (pools ! cur))"

lemma rebalance_one_cases:
  assumes "rebalance_one pools fixed l occ = (occ', mo)"
  obtains "mo = None" "occ' = occ"
  | m own cur where "mo = Some m" "move_ok pools fixed [l] m" "classIndex pools (rm_ToClass m) = Some own"
      "move_from pools m = Some cur" "cur \<noteq> own" "occ ! own < cap pools own"
      "occ' = (occ[own := occ ! own + 1])[cur := occ[own := occ ! own + 1] ! cur - 1]"
proof (cases mo)
  case None
  then have "occ' = occ" using assms
    by (auto simp: rebalance_one_def Let_def split: if_splits option.splits)
  then show ?thesis using that None by blast
next
  case (Some m)
  obtain own cur where "classIndex pools (ClassifyMAC (al_HWAddress l)) = Some own"
    "poolIndex pools (IPToUint32 (lease_ip l)) = Some cur"
    "cur \<noteq> own" "\<not> occ ! own \<ge> cap pools own" "al_IPAddress l \<notin> fixed"
    "occ' = (occ[own := occ ! own + 1])[cur := occ[own := occ ! own + 1] ! cur - 1]"
    "m = \<lparr>rm_IP = al_IPAddress l, rm_HW = al_HWAddress l,
       rm_FromClass = pb_class (pools ! cur), rm_ToClass = ClassifyMAC (al_HWAddress l)\<rparr>"
    using assms Some
    by (auto simp: rebalance_one_def Let_def cap_def split: if_splits option.splits)
  then show ?thesis
    using that(2) [of m own cur] Some
    by (auto simp: move_ok_def lease_pool_def move_from_def lease_ip_def)
qed

lemma rebalance_loop_ok:
  assumes "rebalance_loop pools fixed ls occ = (occ', ms)" "length occ = length pools" "i < length pools"
  shows "occ' ! i = occ ! i + into pools ms i - out_of pools ms i \<and> occ' ! i \<le> max (occ ! i) (cap pools i)"
  using assms
proof (induction ls arbitrary: occ ms)
  case (Cons l ls)
  obtain occ1 mo ms1 where one: "rebalance_one pools fixed l occ = (occ1, mo)"
    and rest: "rebalance_loop pools fixed ls occ1 = (occ', ms1)"
    and ms: "ms = (case mo of None \<Rightarrow> ms1 | Some x \<Rightarrow> x # ms1)"
    using Cons.prems(1) by (auto split: prod.splits)
  from one show ?case
  proof (cases rule: rebalance_one_cases)
    case 1
    then show ?thesis using Cons.IH [OF rest] Cons.prems(2,3) ms by simp
  next
    case (2 m own cur)
    have b: "own < length occ" "cur < length occ"
      using 2(3,4) classIndex_Some poolIndex_Some Cons.prems(2) by (fastforce simp: move_from_def)+
    have IH: "occ' ! i = occ1 ! i + into pools ms1 i - out_of pools ms1 i"
      "occ' ! i \<le> max (occ1 ! i) (cap pools i)"
      using Cons.IH [OF rest] Cons.prems(2,3) 2(7) by simp_all
    have n: "occ1 ! i = occ ! i + (if i = own then 1 else 0) - (if i = cur then 1 else 0)"
      using 2(5,7) b Cons.prems(2,3) by (auto simp: nth_list_update)
    have io: "into pools ms i = into pools ms1 i + (if i = own then 1 else 0)"
      "out_of pools ms i = out_of pools ms1 i + (if i = cur then 1 else 0)"
      using 2(1,3,4) ms by (auto simp: into_def out_of_def)
    show ?thesis using IH n io 2(6) by (auto split: if_splits)
  qed
qed (simp add: into_def out_of_def)

lemma rebalance_loop_moves:
  "rebalance_loop pools fixed ls occ = (occ', ms) \<Longrightarrow> list_all (move_ok pools fixed ls) ms
     \<and> subseq (map rm_IP ms) (map al_IPAddress ls)"
proof (induction ls arbitrary: occ ms)
  case (Cons l ls)
  obtain occ1 mo ms1 where one: "rebalance_one pools fixed l occ = (occ1, mo)"
    and rest: "rebalance_loop pools fixed ls occ1 = (occ', ms1)"
    and ms: "ms = (case mo of None \<Rightarrow> ms1 | Some x \<Rightarrow> x # ms1)"
    using Cons.prems(1) by (auto split: prod.splits)
  have w: "move_ok pools fixed ls m \<Longrightarrow> move_ok pools fixed (l # ls) m" for m
    by (auto simp: move_ok_def)
  have IH: "list_all (move_ok pools fixed (l # ls)) ms1" "subseq (map rm_IP ms1) (map al_IPAddress ls)"
    using Cons.IH [OF rest] w by (auto simp: list_all_iff)
  from one show ?case
  proof (cases rule: rebalance_one_cases)
    case 1
    then show ?thesis using IH ms by (simp add: list_emb.list_emb_Cons)
  next
    case (2 m own cur)
    then have "move_ok pools fixed (l # ls) m" "rm_IP m = al_IPAddress l" by (auto simp: move_ok_def)
    then show ?thesis using IH ms 2(1) by simp
  qed
qed simp

section \<open>Properties\<close>

text \<open>C16: Within one scope the rebalancer releases only leases that are not pinned or reserved,
  whose device class has a pool there and that sit in another pool; it releases no lease twice; and,
  counting departures, no pool ends up with more leases than its capacity unless it already had
  them, so a migration never overfills its destination.\<close>

theorem rebalance_never_overfills:
  assumes "ParseCIDR (sc_CIDR sc) = Some (ip, n)"
    "LayoutPools (sc_CIDR sc) (ToSpecs (sc_Plan sc)) = Inr placements"
  shows "(let pools = pool_bounds placements; ls = filter (in_scope n) leases;
      ms = rebalance_scope leases fixed sc in
    list_all (move_ok pools fixed ls) ms \<and> subseq (map rm_IP ms) (map al_IPAddress ls)
    \<and> list_all (\<lambda>i. occupancy pools ls i + into pools ms i - out_of pools ms i
          \<le> max (occupancy pools ls i) (cap pools i)) [0 ..< length pools])"
proof -
  let ?pools = "pool_bounds placements" let ?ls = "filter (in_scope n) leases"
  obtain occ' ms where l: "rebalance_loop ?pools fixed ?ls (count_occ ?pools ?ls) = (occ', ms)"
    by (cases "rebalance_loop ?pools fixed ?ls (count_occ ?pools ?ls)") auto
  have ms: "rebalance_scope leases fixed sc = ms"
    using assms l by (simp add: rebalance_scope_def)
  have "occupancy ?pools ?ls i + into ?pools ms i - out_of ?pools ms i
      \<le> max (occupancy ?pools ?ls i) (cap ?pools i)" if "i < length ?pools" for i
    using rebalance_loop_ok [OF l length_count_occ that] by (simp add: count_occ_nth [OF that])
  then show ?thesis
    using rebalance_loop_moves [OF l] by (simp add: Let_def ms list_all_iff)
qed


definition ex_scope :: ScopeConfig where
  "ex_scope = \<lparr>sc_Name = [], sc_Preset = ''greengo'', sc_VlanID = 0, sc_CIDR = ''10.0.0.0/28'',
     sc_Counts = zero_counts, sc_Uplink = \<lparr>up_Enabled = False, up_SSID = [], up_Password = []\<rparr>,
     sc_Plan = [zero_entry\<lparr>pe_Kind := PoolKindFixed, pe_Class := ''GGO-BPX'', pe_Sizing := ''explicit'', pe_Count := 1\<rparr>,
                elastic_entry ''OTHERS'' [] [] 1],
     sc_Services = \<lparr>sv_Gateway = [], sv_DNS = [], sv_LocalDNS = False, sv_LeaseLifetime = 0, sv_Options = []\<rparr>\<rparr>"

definition ex_lease :: "string \<Rightarrow> string \<Rightarrow> ActiveLease" where
  "ex_lease i h = \<lparr>al_IPAddress = i, al_HWAddress = h, al_ClientID = []\<rparr>"

definition ex_leases :: "ActiveLease list" where
  "ex_leases = [ex_lease ''10.0.0.5'' ''00:1f:80:20:00:01'', ex_lease ''10.0.0.6'' ''00:1f:80:20:00:02'',
     ex_lease ''10.0.0.7'' ''aa:bb:cc:00:00:01'']"

definition ex_net :: ipnet where
  "ex_net = \<lparr>net_ip = [10, 0, 0, 0], net_mask = [255, 255, 255, 240]\<rparr>"

lemma ex_parse: "ParseCIDR (sc_CIDR ex_scope) = Some ([0, 0, 0, 0, 0, 0, 0, 0, 0, 0, 0xff, 0xff, 10, 0, 0, 0], ex_net)"
  by code_simp

definition ex_places :: "PoolPlacement list" where
  "ex_places = [\<lparr>pp_Class = ''GGO-BPX'', pp_Kind = PoolFixed, pp_Range = ''10.0.0.2 - 10.0.0.2''\<rparr>,
      \<lparr>pp_Class = ''OTHERS'', pp_Kind = PoolElastic, pp_Range = ''10.0.0.3 - 10.0.0.14''\<rparr>]"

lemma ex_layout: "LayoutPools (sc_CIDR ex_scope) (ToSpecs (sc_Plan ex_scope)) = Inr ex_places"
  by code_simp

lemma rebalance_never_overfills_witness:
  "map rm_IP (rebalance_scope ex_leases {} ex_scope) = [''10.0.0.5'']
   \<and> subseq (map rm_IP (rebalance_scope ex_leases {} ex_scope)) (map al_IPAddress ex_leases)"
proof -
  have "filter (in_scope ex_net) ex_leases = ex_leases" by code_simp
  moreover have "map rm_IP (rebalance_scope ex_leases {} ex_scope) = [''10.0.0.5'']" by code_simp
  ultimately show ?thesis
    using rebalance_never_overfills [OF ex_parse ex_layout, of ex_leases "{}"] by (simp add: Let_def)
qed

end
