(* ===== verification/Appliance.thy ===== *)
theory Appliance
  imports KeaModes Remap Rebalance "HOL-Library.State_Monad"
begin

text \<open>
  The appliance as the reconciler sees it: the control-plane store (\<open>app_state\<close>,
  \<open>profiles\<close>, \<open>scopes\<close>), the host rows, the flags of the \<open>Reconciler\<close>
  object, and the log of every call that leaves the process (SQL statement, nmcli/hostapd/iptables
  command, Kea command, monitor start or stop).  A call is answered by the environment, which sees
  the whole log, so it may fail at any point and differently on a retry.  The code is written in
  the state monad over this state; a locale states when such a program keeps an invariant.
\<close>

section \<open>Calls\<close>

datatype monitor = Netmon | Arp | Ggoscan | TrunkProbe | RogueProbe

datatype op =
    DbRead string
  | DbWrite "(string \<times> string) list"
  | DbActiveProfile
  | DbScopes int
  | DbSweepStashes
  | DbTx string
  | Audit string string string
  | DeleteApplianceConnections
  | SetInterfaceStatic string string
  | SetVlanStatic string int string
  | SetInterfaceManaged string bool
  | InterfaceByName string
  | StartSoftAP string string
  | StopSoftAP
  | SetIPForwarding bool
  | ApplyMasquerade string bool
  | ClearPortForwards
  | IsWifiUplinkActive
  | SetWifiUplink string string
  | DisconnectWifiUplink
  | RestartService string
  | MonStart monitor
  | MonStop monitor
  | DnsStop
  | DnsServe "string list"
  | DnsBind string
  | TestConfig keaConfig
  | WriteConf keaConfig
  | ReadConf
  | SnapshotConf string
  | ReadSnapshot
  | UpdateRunning
  | ReloadConfig
  | KeaReachable
  | KeaInstalled
  | KeaPing
  | PassExpired
  | WipeLeases
  | KeaGetLeases
  | KeaDeleteLease string
  | MariaReservations
  | MariaUpdate "SubnetIDUpdate list"
  | MariaHWReservations
  | MariaPins
  | AnnounceUplink bool string
  | KickUpdate
  | Spawn string

type_synonym trace = "(op \<times> bool) list"

section \<open>State\<close>

record Profile =
  pf_id :: int
  pf_name :: string
  pf_active :: bool

text \<open>A JSON column is NULL or empty, text that does not decode, or text that decodes to a
  value.\<close>

datatype 'a column = Null | Malformed | Stored 'a

record scope_row =
  rw_profile :: int
  rw_preset :: string
  rw_vlan :: "int option"
  rw_cidr :: string
  rw_pool_spec :: "DeviceCounts column"
  rw_uplink :: "UplinkConfig column"
  rw_pool_plan :: "PoolPlan column"
  rw_services :: "ScopeServices column"
  rw_name :: "string option"

record GlobalDHCPOptions =
  gd_DNS :: string
  gd_Options :: "ScopeOption list"

record uplinkAudit =
  ua_known :: bool
  ua_healthy :: bool

record Box =
  bx_app :: "string \<Rightarrow> string option"
  bx_profiles :: "Profile list"
  bx_scopes :: "scope_row list"
  bx_hosts :: "HostReservation list option"
  bx_leases :: "ActiveLease list"
  bx_applying :: bool
  bx_rescueArmed :: bool
  bx_uplink :: uplinkAudit
  bx_trace :: trace

text \<open>What the program is started with: the configuration, the MariaDB fields its DSN parses
  to, the hooks directory and the live Kea configuration found on disk, the monitors that are not nil, the JSON decoder of the
  global option record, and the outcome of every call (\<open>None\<close> is success).\<close>

record Env =
  ev_KeaSecretPath :: string
  ev_LeaseLifetime :: int
  ev_maria :: "string \<times> string \<times> string \<times> string"
  ev_hooksDir :: string
  ev_conf0 :: "keaConfig option"
  ev_monitors :: "monitor list"
  ev_unmarshal :: "string \<Rightarrow> GlobalDHCPOptions option"
  ev_outcome :: "trace \<Rightarrow> op \<Rightarrow> string option"

type_synonym 'a go = "(Box, 'a) state"

section \<open>Primitive steps\<close>

definition call :: "Env \<Rightarrow> op \<Rightarrow> string option go" where
  "call E q = State (\<lambda>b. let r = ev_outcome E (bx_trace b) q
     in (r, b\<lparr>bx_trace := bx_trace b @ [(q, r = None)]\<rparr>))"

definition act :: "Env \<Rightarrow> op \<Rightarrow> unit go" where
  "act E q = do { _ \<leftarrow> call E q; State_Monad.return () }"

definition ask :: "Env \<Rightarrow> op \<Rightarrow> bool go" where
  "ask E q = do { r \<leftarrow> call E q; State_Monad.return (r = None) }"

definition if_do :: "bool \<Rightarrow> unit go \<Rightarrow> unit go" where
  "if_do c m = (if c then m else State_Monad.return ())"

fun acts :: "Env \<Rightarrow> op list \<Rightarrow> unit go" where
  "acts E [] = State_Monad.return ()"
| "acts E (q # qs) = do { act E q; acts E qs }"

section \<open>The store\<close>

definition LifecycleStateKey :: string where "LifecycleStateKey = ''lifecycle_state''"
definition StateFactory :: string where "StateFactory = ''FACTORY''"
definition StateOnboarding :: string where "StateOnboarding = ''ONBOARDING''"
definition StateConfiguring :: string where "StateConfiguring = ''CONFIGURING''"
definition StateActive :: string where "StateActive = ''ACTIVE''"

definition GetState :: "Env \<Rightarrow> string \<Rightarrow> (string \<times> string option) go" where
  "GetState E k = do {
     r \<leftarrow> call E (DbRead k);
     b \<leftarrow> State_Monad.get;
     State_Monad.return (if r = None then (case bx_app b k of None \<Rightarrow> [] | Some v \<Rightarrow> v) else [], r) }"

text \<open>Most callers drop the read error: \<open>v, _ := GetState(key)\<close>.\<close>

definition state_value :: "Env \<Rightarrow> string \<Rightarrow> string go" where
  "state_value E k = do { r \<leftarrow> GetState E k; State_Monad.return (fst r) }"

definition SetState :: "Env \<Rightarrow> string \<Rightarrow> string \<Rightarrow> string option go" where
  "SetState E k v = do {
     r \<leftarrow> call E (DbWrite [(k, v)]);
     State_Monad.update (\<lambda>b. if r = None then b\<lparr>bx_app := (bx_app b)(k \<mapsto> v)\<rparr> else b);
     State_Monad.return r }"

text \<open>All the pairs or none: one transaction.\<close>

definition SetStates :: "Env \<Rightarrow> (string \<times> string) list \<Rightarrow> string option go" where
  "SetStates E kvs =
    (if kvs = [] then State_Monad.return None
     else do {
       r \<leftarrow> call E (DbWrite kvs);
       State_Monad.update (\<lambda>b. if r = None then b\<lparr>bx_app := bx_app b ++ map_of (rev kvs)\<rparr> else b);
       State_Monad.return r })"

section \<open>Settings with defaults\<close>

definition UplinkStateKeys :: "string list" where
  "UplinkStateKeys = [''uplink_enabled'', ''uplink_ssid'', ''uplink_pass'']"

definition UplinkState :: "bool \<Rightarrow> string \<Rightarrow> string \<Rightarrow> (string \<times> string) list" where
  "UplinkState enabled ssid pass =
    [(''uplink_enabled'', if enabled then ''1'' else ''0''), (''uplink_ssid'', ssid), (''uplink_pass'', pass)]"

definition defaultOnboardingCIDR :: string where "defaultOnboardingCIDR = ''10.0.0.1/24''"

definition OnboardingCIDR :: "Env \<Rightarrow> string go" where
  "OnboardingCIDR E = do {
     v \<leftarrow> state_value E ''onboarding_ip'';
     State_Monad.return (if v \<noteq> [] then v else defaultOnboardingCIDR) }"

definition SoftAPSettings :: "Env \<Rightarrow> (string \<times> string) go" where
  "SoftAPSettings E = do {
     ssid \<leftarrow> state_value E ''softap_ssid'';
     pass \<leftarrow> state_value E ''softap_pass'';
     State_Monad.return (if ssid = [] then ''GGO-DHCP-Onboarding'' else ssid, pass) }"

definition UplinkSettings :: "Env \<Rightarrow> (bool \<times> string \<times> string) go" where
  "UplinkSettings E = do {
     e \<leftarrow> state_value E ''uplink_enabled'';
     ssid \<leftarrow> state_value E ''uplink_ssid'';
     pass \<leftarrow> state_value E ''uplink_pass'';
     State_Monad.return (e = ''1'', ssid, pass) }"

definition LeaseLifetime :: "Env \<Rightarrow> int go" where
  "LeaseLifetime E = do {
     v \<leftarrow> state_value E ''lease_lifetime'';
     State_Monad.return (case (if v = [] then None else Atoi v) of
        Some n \<Rightarrow> if n > 0 then n else ev_LeaseLifetime E | None \<Rightarrow> ev_LeaseLifetime E) }"

definition GlobalDHCPOptionsFor :: "Env \<Rightarrow> GlobalDHCPOptions go" where
  "GlobalDHCPOptionsFor E = do {
     v \<leftarrow> state_value E ''global_dhcp_options'';
     if v \<noteq> []
     then State_Monad.return (case ev_unmarshal E v of Some g \<Rightarrow> g | None \<Rightarrow> \<lparr>gd_DNS = [], gd_Options = []\<rparr>)
     else do {
       d \<leftarrow> state_value E ''uplink_dns'';
       State_Monad.return \<lparr>gd_DNS = (if d \<noteq> [] \<and> d \<noteq> ''disabled'' then d else []), gd_Options = []\<rparr> } }"

definition option_kvs :: "ScopeOption list \<Rightarrow> OptionKV list" where
  "option_kvs os = map (\<lambda>o'. \<lparr>ok_Name = so_Name o', ok_Data = so_Data o'\<rparr>) os"

definition keaOptions :: "GlobalDHCPOptions \<Rightarrow> OptionKV list" where
  "keaOptions g = option_kvs (gd_Options g)"

definition DHCPStandDownKey :: string where "DHCPStandDownKey = ''dhcp_standdown''"

definition DHCPStoodDown :: "Env \<Rightarrow> bool go" where
  "DHCPStoodDown E = do { v \<leftarrow> state_value E DHCPStandDownKey; State_Monad.return (v = ''1'') }"

section \<open>Scopes\<close>

definition column_or :: "'a \<Rightarrow> 'a column \<Rightarrow> 'a" where
  "column_or d c = (case c of Stored x \<Rightarrow> x | _ \<Rightarrow> d)"

definition zero_services :: ScopeServices where
  "zero_services = \<lparr>sv_Gateway = [], sv_DNS = [], sv_LocalDNS = False, sv_LeaseLifetime = 0, sv_Options = []\<rparr>"

definition zero_uplink :: UplinkConfig where
  "zero_uplink = \<lparr>up_Enabled = False, up_SSID = [], up_Password = []\<rparr>"

definition load_row :: "scope_row \<Rightarrow> ScopeConfig" where
  "load_row r =
    (let sc = \<lparr>sc_Name = (case rw_name r of None \<Rightarrow> [] | Some n \<Rightarrow> n), sc_Preset = rw_preset r,
       sc_VlanID = (case rw_vlan r of None \<Rightarrow> 0 | Some v \<Rightarrow> v), sc_CIDR = rw_cidr r,
       sc_Counts = column_or zero_counts (rw_pool_spec r), sc_Uplink = column_or zero_uplink (rw_uplink r),
       sc_Plan = column_or [] (rw_pool_plan r), sc_Services = column_or zero_services (rw_services r)\<rparr>
     in if sc_Plan sc = [] then sc\<lparr>sc_Plan := SeedDefaultPlan sc\<rparr> else sc)"

definition active_profile :: "Profile list \<Rightarrow> int option" where
  "active_profile ps = map_option pf_id (List.find pf_active ps)"

definition scopes_of :: "int \<Rightarrow> scope_row list \<Rightarrow> ScopeConfig list" where
  "scopes_of pid rows = map load_row (filter (\<lambda>r. rw_profile r = pid) rows)"

definition load_scopes_of :: "Env \<Rightarrow> int \<Rightarrow> (string + ScopeConfig list) go" where
  "load_scopes_of E pid = do {
     r \<leftarrow> call E (DbScopes pid);
     b \<leftarrow> State_Monad.get;
     State_Monad.return (case r of Some m \<Rightarrow> Inl m | None \<Rightarrow> Inr (scopes_of pid (bx_scopes b))) }"

definition LoadScopeConfigs :: "Env \<Rightarrow> int \<Rightarrow> (string + ScopeConfig list) go" where
  "LoadScopeConfigs E profileID =
    (if profileID = 0 then do {
       r \<leftarrow> call E DbActiveProfile;
       b \<leftarrow> State_Monad.get;
       case r of Some m \<Rightarrow> State_Monad.return (Inl m)
       | None \<Rightarrow> (case active_profile (bx_profiles b) of
             None \<Rightarrow> State_Monad.return (Inr [])
           | Some pid \<Rightarrow> load_scopes_of E pid) }
     else load_scopes_of E profileID)"

definition ToRenderInput :: "ScopeConfig \<Rightarrow> ScopeInput" where
  "ToRenderInput sc =
    \<lparr>si_VlanID = sc_VlanID sc, si_CIDR = sc_CIDR sc, si_PoolPlan = ToSpecs (sc_Plan sc),
     si_Uplink = up_Enabled (sc_Uplink sc), si_Gateway = sv_Gateway (sc_Services sc),
     si_DNS = sv_DNS (sc_Services sc), si_LocalDNS = sv_LocalDNS (sc_Services sc),
     si_LeaseLifetime = sv_LeaseLifetime (sc_Services sc),
     si_Options = option_kvs (sv_Options (sc_Services sc))\<rparr>"

text \<open>The uplink of the active profile's first enabled scope, else of its first scope.\<close>

definition scope_uplink :: "ScopeConfig list \<Rightarrow> UplinkConfig option" where
  "scope_uplink scs =
    (case scs of [] \<Rightarrow> None
     | sc # _ \<Rightarrow> (case List.find (\<lambda>s. up_Enabled (sc_Uplink s)) scs of
          Some s \<Rightarrow> Some (sc_Uplink s) | None \<Rightarrow> Some (sc_Uplink sc)))"

definition activeProfileUplink :: "Env \<Rightarrow> (int \<times> UplinkConfig option) go" where
  "activeProfileUplink E = do {
     r \<leftarrow> call E DbActiveProfile;
     b \<leftarrow> State_Monad.get;
     case (if r = None then active_profile (bx_profiles b) else None) of
       None \<Rightarrow> State_Monad.return (0, None)
     | Some pid \<Rightarrow> do {
         scs \<leftarrow> LoadScopeConfigs E pid;
         State_Monad.return (pid, case scs of Inl _ \<Rightarrow> None | Inr l \<Rightarrow> scope_uplink l) } }"

definition MigrateUplinkToBoxLevel :: "Env \<Rightarrow> unit go" where
  "MigrateUplinkToBoxLevel E = do {
     ssid \<leftarrow> state_value E ''uplink_ssid'';
     if ssid \<noteq> [] then State_Monad.return ()
     else do {
       en \<leftarrow> state_value E ''uplink_enabled'';
       if en \<noteq> [] then State_Monad.return ()
       else do {
         r \<leftarrow> activeProfileUplink E;
         case snd r of
           None \<Rightarrow> State_Monad.return ()
         | Some cfg \<Rightarrow>
             if up_SSID cfg = [] then State_Monad.return ()
             else do { _ \<leftarrow> SetStates E (UplinkState (up_Enabled cfg) (up_SSID cfg) (up_Password cfg));
                       State_Monad.return () } } } }"

section \<open>Invariants of programs\<close>

text \<open>\<open>yields I m V\<close>: from a state in \<open>I\<close>, the program \<open>m\<close> ends in
  \<open>I\<close> with a result in \<open>V\<close>.\<close>

definition yields :: "(Box \<Rightarrow> bool) \<Rightarrow> 'a go \<Rightarrow> ('a \<Rightarrow> bool) \<Rightarrow> bool" where
  "yields I m V \<longleftrightarrow> (\<forall>b. I b \<longrightarrow> V (fst (run_state m b)) \<and> I (snd (run_state m b)))"

abbreviation keeps :: "(Box \<Rightarrow> bool) \<Rightarrow> 'a go \<Rightarrow> bool" where
  "keeps I m \<equiv> yields I m (\<lambda>_. True)"

named_theorems keep

lemma yieldsI: "(\<And>b. I b \<Longrightarrow> V (fst (run_state m b)) \<and> I (snd (run_state m b))) \<Longrightarrow> yields I m V"
  by (simp add: yields_def)

lemma yieldsD: "yields I m V \<Longrightarrow> I b \<Longrightarrow> run_state m b = (r, b') \<Longrightarrow> V r \<and> I b'"
  by (auto simp: yields_def dest!: spec [of _ b])

lemma yields_weaken: "yields I m V \<Longrightarrow> (\<And>r. V r \<Longrightarrow> W r) \<Longrightarrow> yields I m W"
  by (simp add: yields_def)

lemma keeps_of: "yields I m V \<Longrightarrow> keeps I m"
  by (simp add: yields_def)

lemma yields_return [keep]: "V x \<Longrightarrow> yields I (State_Monad.return x) V"
  by (simp add: yields_def)

lemma yields_bind:
  "yields I m V \<Longrightarrow> (\<And>r. V r \<Longrightarrow> yields I (f r) W) \<Longrightarrow> yields I (State_Monad.bind m f) W"
  by (fastforce simp: yields_def split: prod.splits)

lemma keeps_bind [keep]:
  "keeps I m \<Longrightarrow> (\<And>r. yields I (f r) W) \<Longrightarrow> yields I (State_Monad.bind m f) W"
  by (erule yields_bind) simp

lemma keeps_get [keep]: "keeps I State_Monad.get"
  by (simp add: yields_def)

lemma yields_if [keep]: "(c \<Longrightarrow> yields I m V) \<Longrightarrow> (\<not> c \<Longrightarrow> yields I n V) \<Longrightarrow> yields I (if c then m else n) V"
  by simp

lemma yields_option [keep]:
  "(x = None \<Longrightarrow> yields I m V) \<Longrightarrow> (\<And>y. x = Some y \<Longrightarrow> yields I (f y) V)
    \<Longrightarrow> yields I (case x of None \<Rightarrow> m | Some y \<Rightarrow> f y) V"
  by (cases x) auto

lemma yields_sum [keep]:
  "(\<And>y. x = Inl y \<Longrightarrow> yields I (g y) V) \<Longrightarrow> (\<And>y. x = Inr y \<Longrightarrow> yields I (f y) V)
    \<Longrightarrow> yields I (case x of Inl y \<Rightarrow> g y | Inr y \<Rightarrow> f y) V"
  by (cases x) auto

lemma yields_prod [keep]: "(\<And>y z. x = (y, z) \<Longrightarrow> yields I (f y z) V) \<Longrightarrow> yields I (case x of (y, z) \<Rightarrow> f y z) V"
  by (cases x) auto

lemma yields_traverse [keep]: "(\<And>x. x \<in> set xs \<Longrightarrow> keeps I (f x)) \<Longrightarrow> keeps I (State_Monad.traverse_list f xs)"
  by (induction xs) (auto intro!: keep)

text \<open>The contract: an invariant that the log may grow by any call in \<open>ok\<close>.  Then every
  program made of such calls keeps it.\<close>

locale pass_contract =
  fixes I :: "Box \<Rightarrow> bool" and ok :: "op \<Rightarrow> bool"
  assumes logged: "ok q \<Longrightarrow> I b \<Longrightarrow> I (b\<lparr>bx_trace := bx_trace b @ [(q, r)]\<rparr>)"
begin

lemma keeps_call: "ok q \<Longrightarrow> keeps I (call E q)"
  by (simp add: yields_def call_def Let_def logged)

lemma keeps_act: "ok q \<Longrightarrow> keeps I (act E q)"
  by (auto simp: act_def intro!: keep keeps_call)

lemma keeps_ask: "ok q \<Longrightarrow> keeps I (ask E q)"
  by (auto simp: ask_def intro!: keep keeps_call)

lemma keeps_acts: "list_all ok qs \<Longrightarrow> keeps I (acts E qs)"
  by (induction qs) (auto intro!: keep keeps_act)

lemma keeps_GetState: "ok (DbRead k) \<Longrightarrow> keeps I (GetState E k)"
  by (auto simp: GetState_def intro!: keep keeps_call)

lemma keeps_state_value: "ok (DbRead k) \<Longrightarrow> keeps I (state_value E k)"
  by (auto simp: state_value_def intro!: keep keeps_GetState)

lemma keeps_settings:
  assumes "\<And>k. ok (DbRead k)"
  shows "keeps I (OnboardingCIDR E)" "keeps I (SoftAPSettings E)" "keeps I (UplinkSettings E)"
    "keeps I (LeaseLifetime E)" "keeps I (GlobalDHCPOptionsFor E)" "keeps I (DHCPStoodDown E)"
  unfolding OnboardingCIDR_def SoftAPSettings_def UplinkSettings_def LeaseLifetime_def
    GlobalDHCPOptionsFor_def DHCPStoodDown_def
  by (intro keep keeps_state_value assms TrueI)+

lemma keeps_LoadScopeConfigs:
  assumes "ok DbActiveProfile" "\<And>p. ok (DbScopes p)"
  shows "keeps I (LoadScopeConfigs E pid)"
  unfolding LoadScopeConfigs_def load_scopes_of_def
  by (intro keep keeps_call assms TrueI)+

end

end
