(* ===== verification/Reconciler.thy ===== *)
theory Reconciler
  imports Appliance
begin

text \<open>
  \<open>src/internal/appliance/reconciler.go\<close> with \<open>standdown.go\<close>,
  \<open>recover.go\<close> and the teardown of \<open>monitor.go\<close>: the single authority that makes
  the network and Kea match the persisted lifecycle state.  Each function is the sequence of calls
  of its source, in its order; its result is the list of errors that \<open>errors.Join\<close> joins,
  so nil is the empty list.
\<close>

datatype ReconcileMode = ModeConverge | ModeApply

datatype pass_error =
    ErrLoadScopes string
  | ErrNoScopes
  | ErrScopeCIDR string
  | ErrEthStatic string
  | ErrVlanStatic int string
  | ErrSoftAP string
  | ErrRender render_error
  | ErrRenderNoScopes
  | ErrKeaValidation string
  | ErrKeaWrite string
  | ErrKeaReload string
  | ErrKeaRestart string string
  | ErrKeaUnreachable string
  | ErrForwardOn string
  | ErrMasqueradeOn string

definition softAPWlanIP :: string where "softAPWlanIP = ''172.31.255.1''"
definition keaServiceName :: string where "keaServiceName = ''isc-kea-dhcp4-server''"
definition resumeApplyAttempts :: nat where "resumeApplyAttempts = 5"

definition err_of :: "(string \<Rightarrow> pass_error) \<Rightarrow> string option \<Rightarrow> pass_error list" where
  "err_of c r = (case r of None \<Rightarrow> [] | Some m \<Rightarrow> [c m])"

section \<open>The mutation guard\<close>

definition ArmRescue :: "unit go" where
  "ArmRescue = State_Monad.update (\<lambda>b. b\<lparr>bx_rescueArmed := True\<rparr>)"

definition BeginReconcile :: "bool go" where
  "BeginReconcile = State (\<lambda>b. (\<not> bx_applying b, b\<lparr>bx_applying := True\<rparr>))"

definition EndReconcile :: "unit go" where
  "EndReconcile = State_Monad.update (\<lambda>b. b\<lparr>bx_applying := False\<rparr>)"

definition take_rescue :: "bool go" where
  "take_rescue = State (\<lambda>b. (bx_rescueArmed b, b\<lparr>bx_rescueArmed := False\<rparr>))"

section \<open>Kea\<close>

fun waitKeaReachable :: "Env \<Rightarrow> nat \<Rightarrow> string option \<Rightarrow> string option go" where
  "waitKeaReachable E 0 err = State_Monad.return err"
| "waitKeaReachable E (Suc n) err = do {
     r \<leftarrow> call E KeaPing;
     case r of None \<Rightarrow> State_Monad.return None
     | Some m \<Rightarrow> do {
         expired \<leftarrow> ask E PassExpired;
         if expired then State_Monad.return (Some m) else waitKeaReachable E n (Some m) } }"

definition restart_kea :: "Env \<Rightarrow> string \<Rightarrow> pass_error list go" where
  "restart_kea E reload_err = do {
     r \<leftarrow> call E (RestartService keaServiceName);
     case r of Some m \<Rightarrow> State_Monad.return [ErrKeaRestart m reload_err]
     | None \<Rightarrow> do {
         p \<leftarrow> waitKeaReachable E 5 None;
         State_Monad.return (err_of ErrKeaUnreachable p) } }"

definition reload_failed :: "Env \<Rightarrow> string \<Rightarrow> pass_error list go" where
  "reload_failed E m = do {
     reachable \<leftarrow> ask E KeaReachable;
     if reachable then State_Monad.return [ErrKeaReload m]
     else do {
       installed \<leftarrow> ask E KeaInstalled;
       if installed then restart_kea E m else State_Monad.return [ErrKeaReload m] } }"

definition WriteAndReloadKea :: "Env \<Rightarrow> keaConfig \<Rightarrow> pass_error list go" where
  "WriteAndReloadKea E c = do {
     r \<leftarrow> call E (TestConfig c);
     case r of Some m \<Rightarrow> State_Monad.return [ErrKeaValidation m]
     | None \<Rightarrow> do {
         r \<leftarrow> call E (WriteConf c);
         case r of Some m \<Rightarrow> State_Monad.return [ErrKeaWrite m]
         | None \<Rightarrow> do {
             r \<leftarrow> call E ReloadConfig;
             case r of None \<Rightarrow> State_Monad.return [] | Some m \<Rightarrow> reload_failed E m } } }"

definition BaseRenderInput :: "Env \<Rightarrow> ProfileRenderInput go" where
  "BaseRenderInput E = do {
     g \<leftarrow> GlobalDHCPOptionsFor E;
     State_Monad.return (case ev_maria E of (host, user, pass, name) \<Rightarrow>
       \<lparr>pr_Scopes = [], pr_MariaDBHost = host, pr_MariaDBUser = user, pr_MariaDBPass = pass,
        pr_MariaDBName = name, pr_KeaSecretPath = ev_KeaSecretPath E, pr_GlobalDNS = gd_DNS g,
        pr_GlobalOptions = keaOptions g, pr_LeaseLifetime = 0, pr_Debug = False,
        pr_IfaceWildcard = False\<rparr>) }"

definition gated_input :: "bool \<Rightarrow> ScopeConfig \<Rightarrow> ScopeInput" where
  "gated_input boxUplink sc =
    (let ri = ToRenderInput sc in ri\<lparr>si_Uplink := si_Uplink ri \<and> boxUplink\<rparr>)"

definition RenderKeaForScopes :: "Env \<Rightarrow> ScopeConfig list \<Rightarrow> (pass_error + keaConfig) go" where
  "RenderKeaForScopes E scopes =
    (if scopes = [] then State_Monad.return (Inl ErrRenderNoScopes)
     else do {
       inp \<leftarrow> BaseRenderInput E;
       life \<leftarrow> LeaseLifetime E;
       up \<leftarrow> UplinkSettings E;
       State_Monad.return (case RenderProfile (ev_hooksDir E)
           (inp\<lparr>pr_LeaseLifetime := life, pr_Scopes := map (gated_input (fst up)) scopes\<rparr>) of
         Inl e \<Rightarrow> Inl (ErrRender e) | Inr (c, _) \<Rightarrow> Inr c) })"

definition scope_device :: "ScopeConfig \<Rightarrow> string" where
  "scope_device sc = (if sc_VlanID sc \<noteq> 0 then ''eth0.'' @ Itoa (sc_VlanID sc) else ''eth0'')"

fun seen_filter :: "string list \<Rightarrow> string list \<Rightarrow> string list" where
  "seen_filter seen [] = []"
| "seen_filter seen (x # xs) =
     (if x \<in> set seen then seen_filter seen xs else x # seen_filter (x # seen) xs)"

definition renderHoldoffConfig :: "Env \<Rightarrow> ScopeConfig list \<Rightarrow> keaConfig" where
  "renderHoldoffConfig E scopes =
    RenderHoldoff (ev_hooksDir E) \<lparr>hi_Interfaces = seen_filter [] (map scope_device scopes),
      hi_KeaSecretPath = ev_KeaSecretPath E, hi_Debug = False\<rparr>"

definition KeaConfigForState :: "Env \<Rightarrow> ScopeConfig list \<Rightarrow> (pass_error + keaConfig) go" where
  "KeaConfigForState E scopes = do {
     down \<leftarrow> DHCPStoodDown E;
     if down then State_Monad.return (Inr (renderHoldoffConfig E scopes))
     else RenderKeaForScopes E scopes }"

text \<open>The content of the live configuration file: the last configuration written since the
  start of the process, else the one found then.\<close>

definition live_conf :: "Env \<Rightarrow> trace \<Rightarrow> keaConfig option" where
  "live_conf E t = foldl (\<lambda>c x. case x of (WriteConf d, True) \<Rightarrow> Some d | _ \<Rightarrow> c) (ev_conf0 E) t"

text \<open>The snapshot of a missing file is the empty path; the index row is best effort.\<close>

definition SnapshotKeaConf :: "Env \<Rightarrow> string \<Rightarrow> (string + keaConfig option) go" where
  "SnapshotKeaConf E reason = do {
     b \<leftarrow> State_Monad.get;
     case live_conf E (bx_trace b) of
       None \<Rightarrow> State_Monad.return (Inr None)
     | Some c \<Rightarrow> do {
         r \<leftarrow> call E ReadConf;
         case r of Some m \<Rightarrow> State_Monad.return (Inl m)
         | None \<Rightarrow> do {
             r \<leftarrow> call E (SnapshotConf reason);
             State_Monad.return (case r of Some m \<Rightarrow> Inl m | None \<Rightarrow> Inr (Some c)) } } }"

section \<open>Monitors, uplink and NAT\<close>

definition stop_monitors :: "Env \<Rightarrow> monitor list \<Rightarrow> op list" where
  "stop_monitors E ms = map MonStop (filter (\<lambda>m. m \<in> set (ev_monitors E)) ms)"

definition StopActive :: "Env \<Rightarrow> unit go" where
  "StopActive E = acts E (stop_monitors E [Netmon, Arp, Ggoscan])"

definition StopOnboarding :: "Env \<Rightarrow> unit go" where
  "StopOnboarding E = acts E (stop_monitors E [TrunkProbe, RogueProbe])"

definition StopActiveMonitors :: "Env \<Rightarrow> unit go" where
  "StopActiveMonitors E = do { StopActive E; act E DnsStop }"

definition applyNAT :: "Env \<Rightarrow> bool \<Rightarrow> pass_error list go" where
  "applyNAT E hasUplink =
    (if hasUplink then do {
       f \<leftarrow> call E (SetIPForwarding True);
       m \<leftarrow> call E (ApplyMasquerade ''wlan0'' True);
       act E ClearPortForwards;
       State_Monad.return (err_of ErrForwardOn f @ err_of ErrMasqueradeOn m) }
     else do {
       acts E [SetIPForwarding False, ApplyMasquerade ''wlan0'' False, ClearPortForwards];
       State_Monad.return [] })"

definition observe :: "bool \<Rightarrow> uplinkAudit \<Rightarrow> bool \<times> uplinkAudit" where
  "observe healthy u =
    (if ua_known u \<and> ua_healthy u = healthy then (False, u)
     else (True, u\<lparr>ua_known := True, ua_healthy := healthy\<rparr>))"

definition observe_uplink :: "bool \<Rightarrow> bool go" where
  "observe_uplink healthy = State (\<lambda>b. let (c, u) = observe healthy (bx_uplink b) in (c, b\<lparr>bx_uplink := u\<rparr>))"

definition connectUplink :: "Env \<Rightarrow> string \<Rightarrow> string \<Rightarrow> unit go" where
  "connectUplink E ssid pwd = do {
     r \<leftarrow> call E (SetWifiUplink ssid pwd);
     case r of
       Some m \<Rightarrow> do {
         changed \<leftarrow> observe_uplink False;
         if_do changed (act E (Audit ''UPLINK_DOWN'' ssid ''WARNING''));
         act E (AnnounceUplink True (''Wi-Fi uplink: '' @ m)) }
     | None \<Rightarrow> do {
         st \<leftarrow> state_value E LifecycleStateKey;
         if st \<noteq> StateActive \<and> st \<noteq> StateConfiguring then do {
           act E DisconnectWifiUplink;
           _ \<leftarrow> observe_uplink False;
           act E (AnnounceUplink False []) }
         else do {
           changed \<leftarrow> observe_uplink True;
           if_do changed (act E (Audit ''UPLINK_UP'' ssid ''OK''));
           act E KickUpdate;
           act E (AnnounceUplink False []) } } }"

section \<open>Host rows and leases\<close>

definition remap_audit :: "ReconcileMode \<Rightarrow> nat \<Rightarrow> nat \<Rightarrow> nat \<Rightarrow> op list" where
  "remap_audit mode applied skipped orphans =
    (if applied > 0 \<or> skipped > 0
     then [Audit ''RESERVATION_REMAP'' (Itoa (int applied) @ '' remapped, '' @ Itoa (int skipped) @ '' skipped'')
             (if skipped > 0 then ''WARNING'' else ''SUCCESS'')] else [])
    @ (if orphans > 0 \<and> mode = ModeApply
       then [Audit ''RESERVATION_ORPHANED'' (Itoa (int orphans) @ '' reservation(s) outside every scope'') ''WARNING'']
       else [])"

definition apply_updates :: "Env \<Rightarrow> SubnetIDUpdate list \<Rightarrow> bool go" where
  "apply_updates E us = do {
     r \<leftarrow> call E (MariaUpdate us);
     b \<leftarrow> State_Monad.get;
     case (if r = None then bx_hosts b else None) of
       None \<Rightarrow> State_Monad.return False
     | Some rows \<Rightarrow>
         (case UpdateReservationSubnets us rows of
            (Some _, _) \<Rightarrow> State_Monad.return False
          | (None, rows') \<Rightarrow> do {
              State_Monad.update (\<lambda>b. b\<lparr>bx_hosts := Some rows'\<rparr>);
              State_Monad.return True }) }"

definition RemapReservationSubnets :: "Env \<Rightarrow> ScopeConfig list \<Rightarrow> ReconcileMode \<Rightarrow> unit go" where
  "RemapReservationSubnets E scopes mode = do {
     b \<leftarrow> State_Monad.get;
     case bx_hosts b of
       None \<Rightarrow> State_Monad.return ()
     | Some rows \<Rightarrow> do {
         r \<leftarrow> call E MariaReservations;
         case r of Some _ \<Rightarrow> State_Monad.return ()
         | None \<Rightarrow>
            (case planSubnetRemaps rows (SubnetMatcherForScopes (map sc_CIDR scopes)) of
              (moves, orphans, skipped) \<Rightarrow>
               if moves = [] then acts E (remap_audit mode 0 (length skipped) (length orphans))
               else do {
                 done' \<leftarrow> apply_updates E (map to_update moves);
                 if_do done' (acts E (remap_audit mode (length moves) (length skipped) (length orphans))) }) } }"

definition host_rows :: "Env \<Rightarrow> op \<Rightarrow> HostReservation list option go" where
  "host_rows E q = do {
     r \<leftarrow> call E q;
     b \<leftarrow> State_Monad.get;
     State_Monad.return (if r = None then bx_hosts b else None) }"

definition fixed_leases :: "Env \<Rightarrow> ActiveLease list \<Rightarrow> string set go" where
  "fixed_leases E leases = do {
     b \<leftarrow> State_Monad.get;
     if bx_hosts b = None then State_Monad.return {}
     else do {
       hw \<leftarrow> host_rows E MariaHWReservations;
       pins \<leftarrow> host_rows E MariaPins;
       State_Monad.return (fixedLeaseIPs
         (case hw of None \<Rightarrow> {}
          | Some rs \<Rightarrow> (\<lambda>r. NormalizeMAC (colonHex (hr_Identifier r))) `
              set (filter (\<lambda>r. hr_IdentifierType r = 0) rs))
         (case pins of None \<Rightarrow> {}
          | Some rs \<Rightarrow> (\<lambda>r. BytesToPortIdentity (hr_Identifier r)) `
              set (filter (\<lambda>r. hr_IdentifierType r = 4) rs))
         leases) } }"

definition release_lease :: "Env \<Rightarrow> rebalanceMove \<Rightarrow> unit go" where
  "release_lease E m = do {
     r \<leftarrow> call E (KeaDeleteLease (rm_IP m));
     if_do (r = None) (act E (Audit ''LEASE_REBALANCE''
       (rm_IP m @ '' ('' @ rm_HW m @ ''): '' @ rm_FromClass m @ '' pool -> '' @ rm_ToClass m @ '' pool'') ''SUCCESS'')) }"

definition rebalanceLeases :: "Env \<Rightarrow> ScopeConfig list \<Rightarrow> unit go" where
  "rebalanceLeases E scopes = do {
     r \<leftarrow> call E KeaGetLeases;
     b \<leftarrow> State_Monad.get;
     case r of Some _ \<Rightarrow> State_Monad.return ()
     | None \<Rightarrow> do {
         fixed \<leftarrow> fixed_leases E (bx_leases b);
         _ \<leftarrow> State_Monad.traverse_list (release_lease E) (rebalanceTargets scopes (bx_leases b) fixed);
         State_Monad.return () } }"

section \<open>The two passes\<close>

definition onboard_serve :: "Env \<Rightarrow> ReconcileMode \<Rightarrow> string \<Rightarrow> string \<Rightarrow> pass_error list go" where
  "onboard_serve E mode cidr wlanIP =
    (case RenderOnboarding (ev_hooksDir E) \<lparr>oi_EthCIDR = cidr, oi_WlanIP = wlanIP,
         oi_KeaSecretPath = ev_KeaSecretPath E, oi_Debug = False\<rparr> of
       Inl e \<Rightarrow> State_Monad.return [ErrRender e]
     | Inr (c, _) \<Rightarrow> do {
         errs \<leftarrow> WriteAndReloadKea E c;
         if_do (errs = [] \<and> mode = ModeApply) (act E WipeLeases);
         State_Monad.return errs })"

definition start_probes :: "Env \<Rightarrow> op list" where
  "start_probes E = map MonStart (filter (\<lambda>m. m \<in> set (ev_monitors E)) [TrunkProbe, RogueProbe])"

definition reconcileOnboarding :: "Env \<Rightarrow> ReconcileMode \<Rightarrow> pass_error list go" where
  "reconcileOnboarding E mode = do {
     cidr \<leftarrow> OnboardingCIDR E;
     ap \<leftarrow> SoftAPSettings E;
     if_do (mode = ModeApply) (act E DeleteApplianceConnections);
     e1 \<leftarrow> call E (SetInterfaceStatic ''eth0'' cidr);
     act E (SetInterfaceManaged ''wlan0'' False);
     e2 \<leftarrow> call E (StartSoftAP (fst ap) (snd ap));
     StopActiveMonitors E;
     acts E (start_probes E);
     acts E [SetIPForwarding False, ApplyMasquerade ''wlan0'' False, ClearPortForwards];
     wlan \<leftarrow> ask E (InterfaceByName ''wlan0'');
     e3 \<leftarrow> onboard_serve E mode cidr (if wlan then softAPWlanIP else []);
     State_Monad.return (err_of ErrEthStatic e1 @ err_of ErrSoftAP e2 @ e3) }"

definition scope_static :: "ScopeConfig \<Rightarrow> ipnet \<Rightarrow> string" where
  "scope_static sc n = ip_String (IncIP (net_ip n) 1) @ ''/'' @ Itoa (int (mask_ones (net_mask n)))"

definition bring_up_scope :: "Env \<Rightarrow> ScopeConfig \<Rightarrow> (pass_error list \<times> bool) go" where
  "bring_up_scope E sc =
    (case ParseCIDR (sc_CIDR sc) of
       None \<Rightarrow> State_Monad.return ([ErrScopeCIDR (sc_CIDR sc)], False)
     | Some (_, n) \<Rightarrow> do {
         errs \<leftarrow> (if sc_VlanID sc = 0 then do {
                   r \<leftarrow> call E (SetInterfaceStatic ''eth0'' (scope_static sc n));
                   State_Monad.return (err_of ErrEthStatic r) }
                 else do {
                   r \<leftarrow> call E (SetVlanStatic ''eth0'' (sc_VlanID sc) (scope_static sc n));
                   State_Monad.return (err_of (ErrVlanStatic (sc_VlanID sc)) r) });
         State_Monad.return (errs, up_Enabled (sc_Uplink sc)) })"

definition serve_scopes :: "Env \<Rightarrow> ScopeConfig list \<Rightarrow> pass_error list go" where
  "serve_scopes E scopes = do {
     cfg \<leftarrow> KeaConfigForState E scopes;
     case cfg of Inl e \<Rightarrow> State_Monad.return [e] | Inr c \<Rightarrow> WriteAndReloadKea E c }"

definition uplink_step :: "Env \<Rightarrow> bool \<Rightarrow> unit go" where
  "uplink_step E hasUplink =
    (if hasUplink then do {
       up \<leftarrow> ask E IsWifiUplinkActive;
       if_do (\<not> up) (act E (Spawn ''uplink-connect'')) }
     else act E DisconnectWifiUplink)"

definition rebalance_step :: "Env \<Rightarrow> ScopeConfig list \<Rightarrow> bool \<Rightarrow> unit go" where
  "rebalance_step E scopes reloadOK =
    (if reloadOK then do {
       down \<leftarrow> DHCPStoodDown E;
       if_do (\<not> down) (rebalanceLeases E scopes) }
     else State_Monad.return ())"

definition served_nets :: "ScopeConfig list \<Rightarrow> (string \<times> string) list" where
  "served_nets scopes = concat (map (\<lambda>sc. case ParseCIDR (sc_CIDR sc) of
     Some (_, n) \<Rightarrow> [(ip_String (IncIP (net_ip n) 1), sc_CIDR sc)] | None \<Rightarrow> []) scopes)"

definition bind_dns :: "Env \<Rightarrow> string \<Rightarrow> string list go" where
  "bind_dns E ip = do {
     r \<leftarrow> call E (DnsBind ip);
     State_Monad.return (if r = None then [] else [ip]) }"

definition dns_step :: "Env \<Rightarrow> ScopeConfig list \<Rightarrow> unit go" where
  "dns_step E scopes = do {
     act E (DnsServe (map snd (served_nets scopes)));
     act E DnsStop;
     failed \<leftarrow> State_Monad.traverse_list (bind_dns E) (map fst (served_nets scopes));
     acts E (map (\<lambda>ip. Audit ''DNS_BIND_FAILED'' ip ''WARNING'') (concat failed));
     act E (Spawn ''dns-zone-prime'') }"

definition active_pass :: "Env \<Rightarrow> ReconcileMode \<Rightarrow> ScopeConfig list \<Rightarrow> pass_error list go" where
  "active_pass E mode scopes = do {
     RemapReservationSubnets E scopes mode;
     if_do (mode = ModeApply) (act E DeleteApplianceConnections);
     ups \<leftarrow> State_Monad.traverse_list (bring_up_scope E) scopes;
     up \<leftarrow> UplinkSettings E;
     let hasUplink = fst up \<and> list_ex snd ups \<and> fst (snd up) \<noteq> [];
     act E StopSoftAP;
     act E (SetInterfaceManaged ''wlan0'' True);
     kerrs \<leftarrow> serve_scopes E scopes;
     nerrs \<leftarrow> applyNAT E hasUplink;
     uplink_step E hasUplink;
     rebalance_step E scopes (kerrs = []);
     acts E [MonStart Netmon, MonStart Arp, MonStart Ggoscan];
     dns_step E scopes;
     State_Monad.return (concat (map fst ups) @ kerrs @ nerrs) }"

definition reconcileActive :: "Env \<Rightarrow> ReconcileMode \<Rightarrow> int \<Rightarrow> pass_error list go" where
  "reconcileActive E mode profileID = do {
     StopOnboarding E;
     r \<leftarrow> LoadScopeConfigs E profileID;
     case r of
       Inl m \<Rightarrow> State_Monad.return [ErrLoadScopes m]
     | Inr scopes \<Rightarrow>
         if scopes = [] then State_Monad.return [ErrNoScopes] else active_pass E mode scopes }"

section \<open>The dispatch\<close>

definition stash_name :: "string \<Rightarrow> bool" where
  "stash_name n \<longleftrightarrow> list_ex (\<lambda>k. has_prefix (drop k n) ''.stash-'' \<and>
     (case drop (k + 7) n of c # _ \<Rightarrow> is_digit c | [] \<Rightarrow> False)) [0 ..< length n]"

text \<open>Deleting a profile row deletes its scope rows (the foreign key cascades).\<close>

definition drop_profiles :: "(Profile \<Rightarrow> bool) \<Rightarrow> Box \<Rightarrow> Box" where
  "drop_profiles P b = b\<lparr>bx_profiles := filter (\<lambda>p. \<not> P p) (bx_profiles b),
     bx_scopes := filter (\<lambda>r. rw_profile r \<notin> pf_id ` {p \<in> set (bx_profiles b). P p}) (bx_scopes b)\<rparr>"

definition SweepOrphanedStashes :: "Env \<Rightarrow> string option go" where
  "SweepOrphanedStashes E = do {
     r \<leftarrow> call E DbSweepStashes;
     State_Monad.update (\<lambda>b. if r = None
       then drop_profiles (\<lambda>p. \<not> pf_active p \<and> stash_name (pf_name p)) b else b);
     State_Monad.return r }"

definition interruptedMidApply :: "string \<Rightarrow> ReconcileMode \<Rightarrow> bool" where
  "interruptedMidApply st mode \<longleftrightarrow> st = StateConfiguring \<and> mode = ModeConverge"

definition rescueToOnboarding :: "Env \<Rightarrow> pass_error list go" where
  "rescueToOnboarding E = do {
     act E (Audit ''RESCUE_ONBOARDING'' ''lifecycle'' ''WARNING'');
     _ \<leftarrow> SetState E LifecycleStateKey StateOnboarding;
     reconcileOnboarding E ModeApply }"

fun resume_attempts :: "Env \<Rightarrow> int \<Rightarrow> nat \<Rightarrow> pass_error list \<Rightarrow> pass_error list go" where
  "resume_attempts E pid 0 err = State_Monad.return err"
| "resume_attempts E pid (Suc n) err = do {
     errs \<leftarrow> reconcileActive E ModeApply pid;
     if errs = [] then State_Monad.return [] else resume_attempts E pid n errs }"

definition resumeInterruptedApply :: "Env \<Rightarrow> int \<Rightarrow> pass_error list go" where
  "resumeInterruptedApply E pid = do {
     errs \<leftarrow> resume_attempts E pid resumeApplyAttempts [];
     if errs \<noteq> [] then do {
       _ \<leftarrow> SetState E LifecycleStateKey StateOnboarding;
       reconcileOnboarding E ModeApply }
     else do {
       _ \<leftarrow> SetState E LifecycleStateKey StateActive;
       _ \<leftarrow> SweepOrphanedStashes E;
       State_Monad.return [] } }"

definition dispatch_active :: "Env \<Rightarrow> ReconcileMode \<Rightarrow> int \<Rightarrow> string \<Rightarrow> bool \<Rightarrow> pass_error list go" where
  "dispatch_active E mode pid st rescueOpen = do {
     errs \<leftarrow> reconcileActive E mode pid;
     if rescueOpen \<and> mode = ModeConverge \<and> st = StateActive then
       (if ErrNoScopes \<in> set errs then rescueToOnboarding E
        else if errs = [] then do { _ \<leftarrow> SweepOrphanedStashes E; State_Monad.return errs }
        else State_Monad.return errs)
     else State_Monad.return errs }"

definition ReconcileApplianceState :: "Env \<Rightarrow> ReconcileMode \<Rightarrow> int \<Rightarrow> pass_error list go" where
  "ReconcileApplianceState E mode pid = do {
     v \<leftarrow> state_value E LifecycleStateKey;
     let st = (if v = [] then StateFactory else v);
     rescueOpen \<leftarrow> take_rescue;
     if interruptedMidApply st mode then resumeInterruptedApply E pid
     else if st = StateActive \<or> st = StateConfiguring then dispatch_active E mode pid st rescueOpen
     else reconcileOnboarding E mode }"

section \<open>Background reconciles\<close>

text \<open>A task ends normally (\<open>Inr\<close>) or panics (\<open>Inl\<close>); a deferred release runs in
  both cases, before the recovery.\<close>

definition RunRecoveredAudited :: "Env \<Rightarrow> string \<Rightarrow> (string + unit) go \<Rightarrow> unit go" where
  "RunRecoveredAudited E name task = do {
     r \<leftarrow> task;
     case r of Inl p \<Rightarrow> act E (Audit ''PANIC_RECOVERED'' name ''ERROR'') | Inr _ \<Rightarrow> State_Monad.return () }"

definition held_reconcile :: "Env \<Rightarrow> string \<Rightarrow> ReconcileMode \<Rightarrow> int \<Rightarrow> unit go" where
  "held_reconcile E label mode pid = do {
     errs \<leftarrow> ReconcileApplianceState E mode pid;
     if_do (errs \<noteq> []) (act E (Audit ''RECONCILE_FAILED'' label ''WARNING''));
     EndReconcile }"

definition recovery_converge :: "Env \<Rightarrow> string \<Rightarrow> unit go" where
  "recovery_converge E name = do {
     got \<leftarrow> BeginReconcile;
     if got then held_reconcile E (name @ ''-recovery'') ModeConverge 0 else State_Monad.return () }"

definition RunRecoveredReconcile :: "Env \<Rightarrow> string \<Rightarrow> (string + unit) go \<Rightarrow> unit go" where
  "RunRecoveredReconcile E name task = do {
     r \<leftarrow> task;
     case r of Inr _ \<Rightarrow> State_Monad.return ()
     | Inl p \<Rightarrow> do {
         act E (Audit ''PANIC_RECOVERED'' name ''ERROR'');
         recovery_converge E name } }"

section \<open>Invariants of the passes\<close>

text \<open>The calls that change what Kea serves; every other call is plain.\<close>

fun kea_op :: "op \<Rightarrow> bool" where
  "kea_op (TestConfig _) = True"
| "kea_op (WriteConf _) = True"
| "kea_op ReloadConfig = True"
| "kea_op (RestartService _) = True"
| "kea_op WipeLeases = True"
| "kea_op (KeaDeleteLease _) = True"
| "kea_op _ = False"

locale pass_frame = pass_contract +
  assumes plain_ok: "\<not> kea_op q \<Longrightarrow> ok q"
    and hosts: "I b \<Longrightarrow> I (b\<lparr>bx_hosts := h\<rparr>)"
begin

lemma plain_calls [keep]:
  "\<not> kea_op q \<Longrightarrow> keeps I (call E q)" "\<not> kea_op q \<Longrightarrow> keeps I (act E q)" "\<not> kea_op q \<Longrightarrow> keeps I (ask E q)"
  "list_all (\<lambda>q. \<not> kea_op q) qs \<Longrightarrow> keeps I (acts E qs)"
  by (auto intro!: keeps_call keeps_act keeps_ask keeps_acts plain_ok elim!: list.pred_mono_strong)

lemma settings [keep]:
  "keeps I (OnboardingCIDR E)" "keeps I (SoftAPSettings E)" "keeps I (UplinkSettings E)"
  "keeps I (LeaseLifetime E)" "keeps I (GlobalDHCPOptionsFor E)" "keeps I (DHCPStoodDown E)"
  "keeps I (LoadScopeConfigs E pid)" "keeps I (state_value E k)"
  by (auto intro!: keeps_settings keeps_LoadScopeConfigs keeps_state_value plain_ok)

lemma keeps_if_do [keep]: "(c \<Longrightarrow> keeps I m) \<Longrightarrow> keeps I (if_do c m)"
  by (auto simp: if_do_def intro!: keep)

lemma keeps_set_hosts [keep]: "keeps I (State_Monad.update (\<lambda>b. b\<lparr>bx_hosts := h\<rparr>))"
  by (auto simp: State_Monad.update_def yields_def hosts)

lemma plain_lists [simp]:
  "list_all (\<lambda>q. \<not> kea_op q) (stop_monitors E ms)" "list_all (\<lambda>q. \<not> kea_op q) (start_probes E)"
  "list_all (\<lambda>q. \<not> kea_op q) (remap_audit mode n k j)"
  "list_all (\<lambda>q. \<not> kea_op q) (map (\<lambda>x. Audit a (f x) c) xs)"
  by (auto simp: stop_monitors_def start_probes_def remap_audit_def list_all_iff)

lemma keeps_teardown [keep]: "keeps I (StopActive E)" "keeps I (StopOnboarding E)" "keeps I (StopActiveMonitors E)"
  by (auto simp: StopActive_def StopOnboarding_def StopActiveMonitors_def intro!: keep)

lemma keeps_nat [keep]: "keeps I (applyNAT E h)" "keeps I (uplink_step E h)"
  by (auto simp: applyNAT_def uplink_step_def intro!: keep)

lemma keeps_remap [keep]: "keeps I (RemapReservationSubnets E scopes mode)"
  unfolding RemapReservationSubnets_def apply_updates_def
  by (auto intro!: keep)

lemma keeps_bring_up [keep]: "keeps I (bring_up_scope E sc)"
  unfolding bring_up_scope_def by (auto intro!: keep)

lemma keeps_dns [keep]: "keeps I (dns_step E scopes)"
  unfolding dns_step_def bind_dns_def by (auto intro!: keep)

lemma keeps_config [keep]: "keeps I (KeaConfigForState E scopes)"
  unfolding KeaConfigForState_def RenderKeaForScopes_def BaseRenderInput_def by (auto intro!: keep)

lemma keeps_rebalance:
  assumes "\<And>ip. ok (KeaDeleteLease ip)"
  shows "keeps I (rebalanceLeases E scopes)"
  unfolding rebalanceLeases_def fixed_leases_def host_rows_def release_lease_def
  by (auto intro!: keep keeps_call plain_ok assms)

lemma keeps_onboarding:
  assumes "\<And>c. kc_HostsDatabase c = None \<Longrightarrow> keeps I (WriteAndReloadKea E c)" "mode = ModeApply \<Longrightarrow> ok WipeLeases"
  shows "keeps I (reconcileOnboarding E mode)"
proof -
  have "keeps I (onboard_serve E mode cidr w)" for cidr w
    unfolding onboard_serve_def
    by (auto intro!: keep assms keeps_act dest: RenderOnboarding_no_database)
  then show ?thesis unfolding reconcileOnboarding_def by (auto intro!: keep)
qed

lemma keeps_active:
  assumes "\<And>scopes. keeps I (serve_scopes E scopes)" "\<And>scopes r. keeps I (rebalance_step E scopes r)"
  shows "keeps I (reconcileActive E mode pid)"
proof -
  have "keeps I (active_pass E mode scopes)" for scopes
    unfolding active_pass_def Let_def by (auto intro!: keep assms)
  then show ?thesis unfolding reconcileActive_def by (auto intro!: keep)
qed

lemma keeps_wait [keep]: "keeps I (waitKeaReachable E n err)"
  by (induction n arbitrary: err) (auto intro!: keep)

lemma keeps_write_and_reload:
  assumes "ok (TestConfig c)" "ok (WriteConf c)" "ok ReloadConfig" "ok (RestartService keaServiceName)"
  shows "keeps I (WriteAndReloadKea E c)"
  unfolding WriteAndReloadKea_def reload_failed_def restart_kea_def
  by (intro keep keeps_call assms TrueI) simp_all

lemma keeps_passes:
  assumes "\<And>q. ok q"
  shows "keeps I (reconcileActive E mode pid)" "keeps I (reconcileOnboarding E mode)"
proof -
  have w: "keeps I (WriteAndReloadKea E c)" for c by (intro keeps_write_and_reload assms)
  have "keeps I (serve_scopes E scopes)" for scopes
    unfolding serve_scopes_def by (intro keep w TrueI)
  moreover have "keeps I (rebalance_step E scopes r)" for scopes r
    unfolding rebalance_step_def by (intro keep keeps_rebalance assms TrueI)
  ultimately show "keeps I (reconcileActive E mode pid)" by (intro keeps_active)
  show "keeps I (reconcileOnboarding E mode)" by (intro keeps_onboarding w assms)
qed

end

section \<open>A pass changes no control state\<close>

definition same_control :: "Box \<Rightarrow> Box \<Rightarrow> bool" where
  "same_control b0 b \<longleftrightarrow> bx_app b = bx_app b0 \<and> bx_profiles b = bx_profiles b0 \<and> bx_scopes b = bx_scopes b0
     \<and> bx_leases b = bx_leases b0 \<and> bx_applying b = bx_applying b0 \<and> bx_rescueArmed b = bx_rescueArmed b0
     \<and> bx_uplink b = bx_uplink b0"

interpretation control: pass_frame "same_control b0" "\<lambda>_. True" for b0
  by unfold_locales (auto simp: same_control_def)

lemma control_refl: "same_control b b"
  by (simp add: same_control_def)

lemma control_active:
  assumes "run_state (reconcileActive E mode pid) b = (r, b')"
  shows "same_control b b'"
  using yieldsD [OF control.keeps_passes(1) control_refl assms] by simp

lemma control_onboarding:
  assumes "run_state (reconcileOnboarding E mode) b = (r, b')"
  shows "same_control b b'"
  using yieldsD [OF control.keeps_passes(2) control_refl assms] by simp

end
