(* ===== verification/Lifecycle.thy ===== *)
theory Lifecycle
  imports Reconciler
begin

text \<open>
  What the lifecycle state machine promises: who may write the lifecycle state, how an
  interrupted apply ends, what an onboarding pass leaves behind, what a stood-down box does, and
  that no configuration reaches Kea's file unchecked.
\<close>

lemma run_call [simp]:
  "run_state (call E q) b = (ev_outcome E (bx_trace b) q,
     b\<lparr>bx_trace := bx_trace b @ [(q, ev_outcome E (bx_trace b) q = None)]\<rparr>)"
  by (simp add: call_def Let_def)

lemma run_act [simp]:
  "run_state (act E q) b = ((), b\<lparr>bx_trace := bx_trace b @ [(q, ev_outcome E (bx_trace b) q = None)]\<rparr>)"
  by (simp add: act_def)

lemma run_ask [simp]:
  "run_state (ask E q) b = (ev_outcome E (bx_trace b) q = None,
     b\<lparr>bx_trace := bx_trace b @ [(q, ev_outcome E (bx_trace b) q = None)]\<rparr>)"
  by (simp add: ask_def)

lemma run_update [simp]: "run_state (State_Monad.update f) b = ((), f b)"
  by (simp add: State_Monad.update_def)

lemma run_state_value [simp]:
  "run_state (state_value E k) b =
    (if ev_outcome E (bx_trace b) (DbRead k) = None then (case bx_app b k of None \<Rightarrow> [] | Some v \<Rightarrow> v) else [],
     b\<lparr>bx_trace := bx_trace b @ [(DbRead k, ev_outcome E (bx_trace b) (DbRead k) = None)]\<rparr>)"
  by (simp add: state_value_def GetState_def)

lemma run_SetState [simp]:
  "run_state (SetState E k v) b =
    (let r = ev_outcome E (bx_trace b) (DbWrite [(k, v)]);
         b' = b\<lparr>bx_trace := bx_trace b @ [(DbWrite [(k, v)], r = None)]\<rparr>
     in (r, if r = None then b'\<lparr>bx_app := (bx_app b)(k \<mapsto> v)\<rparr> else b'))"
  by (simp add: SetState_def Let_def)

lemma run_take_rescue [simp]: "run_state take_rescue b = (bx_rescueArmed b, b\<lparr>bx_rescueArmed := False\<rparr>)"
  by (simp add: take_rescue_def)

lemma state_names [simp]:
  "StateFactory \<noteq> StateActive" "StateFactory \<noteq> StateConfiguring" "StateActive \<noteq> StateConfiguring"
  "StateOnboarding \<noteq> StateActive" "StateOnboarding \<noteq> StateConfiguring" "StateConfiguring \<noteq> StateActive"
  "StateFactory \<noteq> []" "StateActive \<noteq> []" "StateConfiguring \<noteq> []" "StateOnboarding \<noteq> []" "[] \<noteq> StateConfiguring"
  by (simp_all add: StateFactory_def StateActive_def StateConfiguring_def StateOnboarding_def)

section \<open>Who writes the lifecycle\<close>

lemma control_dispatch:
  assumes "run_state (dispatch_active E mode pid st rescue) b = (r, b')" "\<not> (rescue \<and> mode = ModeConverge \<and> st = StateActive)"
  shows "same_control b b'"
  using assms by (auto simp: dispatch_active_def dest: control_active split: prod.splits if_splits)

text \<open>The state the pass dispatches on and the box it starts from.\<close>

definition lifecycle_seen :: "Env \<Rightarrow> Box \<Rightarrow> string" where
  "lifecycle_seen E b =
    (let v = (if ev_outcome E (bx_trace b) (DbRead LifecycleStateKey) = None
        then (case bx_app b LifecycleStateKey of None \<Rightarrow> [] | Some v \<Rightarrow> v) else [])
     in if v = [] then StateFactory else v)"

definition pass_start :: "Env \<Rightarrow> Box \<Rightarrow> Box" where
  "pass_start E b = b\<lparr>bx_trace := bx_trace b @ [(DbRead LifecycleStateKey,
      ev_outcome E (bx_trace b) (DbRead LifecycleStateKey) = None)], bx_rescueArmed := False\<rparr>"

lemma run_Reconcile:
  "run_state (ReconcileApplianceState E mode pid) b =
    run_state (if interruptedMidApply (lifecycle_seen E b) mode then resumeInterruptedApply E pid
      else if lifecycle_seen E b = StateActive \<or> lifecycle_seen E b = StateConfiguring
      then dispatch_active E mode pid (lifecycle_seen E b) (bx_rescueArmed b)
      else reconcileOnboarding E mode) (pass_start E b)"
  unfolding ReconcileApplianceState_def run_state_bind run_state_value
  by (simp add: lifecycle_seen_def pass_start_def Let_def del: run_state_value)

lemma pass_start_control [simp]:
  "bx_app (pass_start E b) = bx_app b" "bx_profiles (pass_start E b) = bx_profiles b"
  "bx_scopes (pass_start E b) = bx_scopes b" "bx_applying (pass_start E b) = bx_applying b"
  "\<not> bx_rescueArmed (pass_start E b)" "bx_uplink (pass_start E b) = bx_uplink b"
  by (simp_all add: pass_start_def)

lemma lifecycle_seen_configuring:
  "lifecycle_seen E b = StateConfiguring \<Longrightarrow> bx_app b LifecycleStateKey = Some StateConfiguring"
  by (auto simp: lifecycle_seen_def Let_def split: if_splits option.splits)

lemma reconcile_control:
  assumes "run_state (ReconcileApplianceState E mode pid) b = (errs, b')"
    "mode = ModeApply \<or> (\<not> bx_rescueArmed b \<and> bx_app b LifecycleStateKey \<noteq> Some StateConfiguring)"
  shows "same_control (pass_start E b) b'"
proof -
  have ni: "\<not> interruptedMidApply (lifecycle_seen E b) mode"
    using assms(2) by (auto simp: interruptedMidApply_def dest: lifecycle_seen_configuring)
  have nr: "\<not> (bx_rescueArmed b \<and> mode = ModeConverge \<and> lifecycle_seen E b = StateActive)"
    using assms(2) by auto
  show ?thesis
    using assms(1) unfolding run_Reconcile if_not_P [OF ni]
    by (simp add: control_dispatch [OF _ nr] control_onboarding split: if_splits)
qed

text \<open>C11: Only two kinds of pass may change the persisted store, a converge that finds
  CONFIGURING (an interrupted apply) and a converge while the rescue window is open (the first one
  after the start of the process).  Every other pass, that is an apply, or a later converge of a
  box that is not CONFIGURING, leaves the lifecycle state, the settings, the profiles and the
  scopes as they were, whatever fails on the way; when it ends the rescue window is closed, and
  the mutation guard is as it was.\<close>

theorem lifecycle_written_only_when:
  assumes "run_state (ReconcileApplianceState E mode pid) b = (errs, b')"
    "mode = ModeApply \<or> (\<not> bx_rescueArmed b \<and> bx_app b LifecycleStateKey \<noteq> Some StateConfiguring)"
  shows "bx_app b' = bx_app b \<and> bx_profiles b' = bx_profiles b \<and> bx_scopes b' = bx_scopes b
    \<and> \<not> bx_rescueArmed b' \<and> bx_applying b' = bx_applying b \<and> bx_uplink b' = bx_uplink b"
  using reconcile_control [OF assms] by (simp add: same_control_def)

section \<open>An interrupted apply\<close>

lemma resume_attempts_control:
  "run_state (resume_attempts E pid n err) b = (r, b') \<Longrightarrow> same_control b b'"
proof (induction n arbitrary: err b)
  case 0 then show ?case by (simp add: control_refl)
next
  case (Suc n)
  obtain r1 b1 where 1: "run_state (reconcileActive E ModeApply pid) b = (r1, b1)" by fastforce
  with Suc.prems have 2: "run_state (if r1 = [] then State_Monad.return [] else resume_attempts E pid n r1) b1 = (r, b')"
    by simp
  have "same_control b1 b'"
    using 2 Suc.IH by (auto simp: control_refl split: if_splits)
  with control_active [OF 1] show ?case by (auto simp: same_control_def)
qed

section \<open>The calls of an onboarding pass\<close>

definition calls :: "Box \<Rightarrow> op list" where
  "calls b = map fst (bx_trace b)"

lemma calls_upd [simp]:
  "calls (b\<lparr>bx_trace := bx_trace b @ xs\<rparr>) = calls b @ map fst xs"
  "calls (b\<lparr>bx_app := ap\<rparr>) = calls b" "calls (b\<lparr>bx_rescueArmed := r\<rparr>) = calls b"
  by (simp_all add: calls_def)

lemma calls_acts [simp]: "calls (snd (run_state (acts E qs) b)) = calls b @ qs"
  by (induction qs arbitrary: b) (simp_all add: split_beta)

lemma calls_prim [simp]:
  "calls (snd (run_state (call E q) b)) = calls b @ [q]" "calls (snd (run_state (act E q) b)) = calls b @ [q]"
  "calls (snd (run_state (ask E q) b)) = calls b @ [q]" "calls (snd (run_state (state_value E k) b)) = calls b @ [DbRead k]"
  "calls (snd (run_state (if_do c (act E q)) b)) = calls b @ (if c then [q] else [])"
  by (simp_all add: if_do_def)

lemma snd_bind [simp]:
  "snd (run_state (State_Monad.bind m f) b) = snd (run_state (f (fst (run_state m b))) (snd (run_state m b)))"
  by (simp add: split_beta)

lemma calls_onboarding_settings [simp]:
  "calls (snd (run_state (OnboardingCIDR E) b)) = calls b @ [DbRead ''onboarding_ip'']"
  "calls (snd (run_state (SoftAPSettings E) b)) = calls b @ [DbRead ''softap_ssid'', DbRead ''softap_pass'']"
  by (simp_all add: OnboardingCIDR_def SoftAPSettings_def del: run_state_value run_state_bind)

lemma calls_StopActiveMonitors [simp]:
  "calls (snd (run_state (StopActiveMonitors E) b)) = calls b @ stop_monitors E [Netmon, Arp, Ggoscan] @ [DnsStop]"
  by (simp add: StopActiveMonitors_def StopActive_def del: run_state_bind)

text \<open>The calls that load a configuration without a database into Kea; a lease wipe only in an
  apply.\<close>

definition onboard_kea_op :: "ReconcileMode \<Rightarrow> op \<Rightarrow> bool" where
  "onboard_kea_op mode q = (case q of TestConfig c \<Rightarrow> kc_HostsDatabase c = None
     | WriteConf c \<Rightarrow> kc_HostsDatabase c = None | ReloadConfig \<Rightarrow> True | RestartService s \<Rightarrow> s = keaServiceName
     | WipeLeases \<Rightarrow> mode = ModeApply | KeaReachable \<Rightarrow> True | KeaInstalled \<Rightarrow> True | KeaPing \<Rightarrow> True
     | PassExpired \<Rightarrow> True | _ \<Rightarrow> False)"

definition calls_since :: "Box \<Rightarrow> (op \<Rightarrow> bool) \<Rightarrow> Box \<Rightarrow> bool" where
  "calls_since b0 P b \<longleftrightarrow> (\<exists>t. calls b = calls b0 @ t \<and> list_all P t)"

interpretation since: pass_contract "calls_since b0 P" P for b0 P
  by unfold_locales (auto simp: calls_since_def)

lemma calls_since_refl: "calls_since b P b"
  by (simp add: calls_since_def)

lemma since_wait: "P KeaPing \<Longrightarrow> P PassExpired \<Longrightarrow> keeps (calls_since b0 P) (waitKeaReachable E n err)"
  by (induction n arbitrary: err) (simp_all, (intro keep since.keeps_call since.keeps_ask TrueI; simp)+)

lemma onboard_serve_calls: "calls_since b (onboard_kea_op mode) (snd (run_state (onboard_serve E mode cidr w) b))"
proof -
  let ?I = "calls_since b (onboard_kea_op mode)"
  have w: "keeps ?I (WriteAndReloadKea E c)" if "kc_HostsDatabase c = None" for c
    unfolding WriteAndReloadKea_def reload_failed_def restart_kea_def
    by (intro keep since.keeps_call since.keeps_ask since_wait TrueI; simp add: onboard_kea_op_def that)
  have "keeps ?I (onboard_serve E mode cidr w)"
    unfolding onboard_serve_def if_do_def
    by (intro keep w since.keeps_act TrueI)
       (auto simp: onboard_kea_op_def dest: RenderOnboarding_no_database)
  then show ?thesis by (auto simp: yields_def calls_since_refl)
qed

text \<open>An onboarding pass, whatever fails in it, makes exactly these calls in this order: it
  re-addresses eth0, takes wlan0 from NetworkManager and raises the SoftAP, stops every ACTIVE
  observer and the DNS listeners, starts the onboarding probes, turns forwarding, masquerade and
  port forwards off, and only then loads a Kea configuration that uses no database; it wipes the
  leases only in an apply and brings up no VLAN, no uplink and no DNS.\<close>

theorem onboarding_pass_calls:
  assumes "run_state (reconcileOnboarding E mode) b = (errs, b')"
  shows "\<exists>cidr ssid pass t. calls b' = calls b
    @ [DbRead ''onboarding_ip'', DbRead ''softap_ssid'', DbRead ''softap_pass'']
    @ (if mode = ModeApply then [DeleteApplianceConnections] else [])
    @ [SetInterfaceStatic ''eth0'' cidr, SetInterfaceManaged ''wlan0'' False, StartSoftAP ssid pass]
    @ stop_monitors E [Netmon, Arp, Ggoscan] @ [DnsStop] @ start_probes E
    @ [SetIPForwarding False, ApplyMasquerade ''wlan0'' False, ClearPortForwards, InterfaceByName ''wlan0'']
    @ t \<and> list_all (onboard_kea_op mode) t"
proof -
  have b': "b' = snd (run_state (reconcileOnboarding E mode) b)" using assms by simp
  obtain T where T: "\<And>cidr w s. calls (snd (run_state (onboard_serve E mode cidr w) s)) = calls s @ T cidr w s"
      "\<And>cidr w s. list_all (onboard_kea_op mode) (T cidr w s)"
    using onboard_serve_calls [of _ mode E] unfolding calls_since_def by metis
  show ?thesis
    unfolding b' reconcileOnboarding_def
    by (simp add: T del: run_state_bind run_call run_act run_ask acts.simps split del: if_split)
qed

section \<open>How an interrupted apply ends\<close>

text \<open>The log only grows; \<open>P\<close> holds of every call made since \<open>b0\<close>.\<close>

definition log_since :: "Box \<Rightarrow> (op \<Rightarrow> bool) \<Rightarrow> Box \<Rightarrow> bool" where
  "log_since b0 P b \<longleftrightarrow> (\<exists>t. bx_trace b = bx_trace b0 @ t \<and> list_all (\<lambda>x. P (fst x)) t)"

interpretation logs: pass_contract "log_since b0 P" P for b0 P
  by unfold_locales (auto simp: log_since_def)

interpretation grows: pass_frame "log_since b0 (\<lambda>_. True)" "\<lambda>_. True" for b0
  by unfold_locales (auto simp: log_since_def)

lemma log_since_refl: "log_since b P b"
  by (simp add: log_since_def)

lemma log_grows: "keeps (log_since b (\<lambda>_. True)) m \<Longrightarrow> run_state m b = (r, b') \<Longrightarrow> \<exists>t. bx_trace b' = bx_trace b @ t"
  by (drule yieldsD [OF _ log_since_refl]) (auto simp: log_since_def)

lemma logs_wait: "P KeaPing \<Longrightarrow> P PassExpired \<Longrightarrow> keeps (log_since b0 P) (waitKeaReachable E n err)"
  by (induction n arbitrary: err) (simp_all, (intro keep logs.keeps_call logs.keeps_ask TrueI; simp)+)

definition after_softap :: "Env \<Rightarrow> ReconcileMode \<Rightarrow> string \<Rightarrow> string option \<Rightarrow> string option \<Rightarrow> pass_error list go" where
  "after_softap E mode cidr e1 e2 = do {
     StopActiveMonitors E;
     acts E (start_probes E);
     acts E [SetIPForwarding False, ApplyMasquerade ''wlan0'' False, ClearPortForwards];
     wlan \<leftarrow> ask E (InterfaceByName ''wlan0'');
     e3 \<leftarrow> onboard_serve E mode cidr (if wlan then softAPWlanIP else []);
     State_Monad.return (err_of ErrEthStatic e1 @ err_of ErrSoftAP e2 @ e3) }"

definition keeps_softap :: "op \<Rightarrow> bool" where
  "keeps_softap q = (case q of StopSoftAP \<Rightarrow> False | _ \<Rightarrow> True)"

lemma after_softap_keeps:
  "yields (log_since b0 keeps_softap) (after_softap E mode cidr e1 e2)
     (\<lambda>errs. case e2 of None \<Rightarrow> True | Some m \<Rightarrow> ErrSoftAP m \<in> set errs)"
proof -
  let ?I = "log_since b0 keeps_softap"
  have w: "keeps ?I (WriteAndReloadKea E c)" for c
    unfolding WriteAndReloadKea_def reload_failed_def restart_kea_def
    by (intro keep logs.keeps_call logs.keeps_ask logs_wait TrueI; simp add: keeps_softap_def)
  have o: "keeps ?I (onboard_serve E mode cidr v)" for v
    unfolding onboard_serve_def if_do_def
    by (intro keep w logs.keeps_act TrueI) (auto simp: keeps_softap_def)
  have l: "list_all keeps_softap (stop_monitors E ms)" "list_all keeps_softap (start_probes E)" for ms
    by (auto simp: stop_monitors_def start_probes_def keeps_softap_def list_all_iff)
  show ?thesis
    unfolding after_softap_def StopActiveMonitors_def StopActive_def
    by (intro keep o logs.keeps_acts logs.keeps_act logs.keeps_ask l TrueI)
      (auto simp: keeps_softap_def err_of_def split: option.splits)
qed

text \<open>The onboarding pass starts the SoftAP and does not stop it again; a start that fails is
  one of the errors the pass returns.\<close>

lemma onboarding_starts_softap:
  assumes "run_state (reconcileOnboarding E mode) b = (errs, b')"
  obtains t1 ssid pass ok t2 where
    "bx_trace b' = bx_trace b @ t1 @ (StartSoftAP ssid pass, ok) # t2"
    "list_all (\<lambda>x. keeps_softap (fst x)) t2" "ok \<or> (\<exists>m. ErrSoftAP m \<in> set errs)"
proof -
  obtain cidr b1 where 1: "run_state (OnboardingCIDR E) b = (cidr, b1)" by fastforce
  obtain ap b2 where 2: "run_state (SoftAPSettings E) b1 = (ap, b2)" by fastforce
  obtain u b3 where 3: "run_state (if_do (mode = ModeApply) (act E DeleteApplianceConnections)) b2 = (u, b3)" by (rule prod.exhaust)
  obtain e1 b4 where 4: "run_state (call E (SetInterfaceStatic ''eth0'' cidr)) b3 = (e1, b4)" by fastforce
  obtain v b5 where 5: "run_state (act E (SetInterfaceManaged ''wlan0'' False)) b4 = (v, b5)" by (rule prod.exhaust)
  define q where "q = StartSoftAP (fst ap) (snd ap)"
  define r where "r = ev_outcome E (bx_trace b5) q"
  define b6 where "b6 = b5\<lparr>bx_trace := bx_trace b5 @ [(q, r = None)]\<rparr>"
  have 6: "run_state (call E q) b5 = (r, b6)" by (simp add: r_def b6_def)
  have run: "run_state (after_softap E mode cidr e1 r) b6 = (errs, b')"
    using assms 6 unfolding reconcileOnboarding_def after_softap_def [symmetric]
    by (simp add: 1 2 3 4 5 q_def del: run_call run_act if_do_def)
  obtain s1 s2 s3 s4 s5 where "bx_trace b1 = bx_trace b @ s1" "bx_trace b2 = bx_trace b1 @ s2"
    "bx_trace b3 = bx_trace b2 @ s3" "bx_trace b4 = bx_trace b3 @ s4" "bx_trace b5 = bx_trace b4 @ s5"
    using log_grows [OF grows.settings(1) 1] log_grows [OF grows.settings(2) 2]
      log_grows [OF grows.keeps_if_do [OF logs.keeps_act [OF TrueI]] 3]
      log_grows [OF logs.keeps_call [OF TrueI] 4] log_grows [OF logs.keeps_act [OF TrueI] 5] by blast
  then have "bx_trace b6 = bx_trace b @ (s1 @ s2 @ s3 @ s4 @ s5) @ [(StartSoftAP (fst ap) (snd ap), r = None)]"
    by (simp add: b6_def q_def)
  moreover obtain t2 where "bx_trace b' = bx_trace b6 @ t2" "list_all (\<lambda>x. keeps_softap (fst x)) t2"
    "case r of None \<Rightarrow> True | Some m \<Rightarrow> ErrSoftAP m \<in> set errs"
    using yieldsD [OF after_softap_keeps log_since_refl run] by (auto simp: log_since_def)
  ultimately show ?thesis using that [of "s1 @ s2 @ s3 @ s4 @ s5" "fst ap" "snd ap" "r = None" t2]
    by (auto split: option.splits)
qed

text \<open>The active passes of a resume, in order: it stops at the first that succeeds.\<close>

fun attempt_results :: "Env \<Rightarrow> int \<Rightarrow> nat \<Rightarrow> Box \<Rightarrow> pass_error list list" where
  "attempt_results E pid 0 b = []"
| "attempt_results E pid (Suc n) b =
     (case run_state (reconcileActive E ModeApply pid) b of
        (errs, b') \<Rightarrow> errs # (if errs = [] then [] else attempt_results E pid n b'))"

lemma attempt_results_Nil [simp]: "attempt_results E pid n b = [] \<longleftrightarrow> n = 0"
  by (cases n) (auto split: prod.splits)

lemma resume_attempts_results:
  "fst (run_state (resume_attempts E pid n err) b) = (if n = 0 then err else last (attempt_results E pid n b))"
  by (induction n arbitrary: b err) (auto split: prod.splits)

lemma attempt_results_length:
  "length (attempt_results E pid n b) \<le> n
   \<and> ([] \<notin> set (attempt_results E pid n b) \<longrightarrow> length (attempt_results E pid n b) = n)"
  by (induction n arbitrary: b) (auto split: prod.splits)

lemma attempt_results_last:
  "[] \<in> set (attempt_results E pid n b) \<Longrightarrow> last (attempt_results E pid n b) = []"
  by (induction n arbitrary: b) (auto split: prod.splits if_splits)

lemma sweep_app: "run_state (SweepOrphanedStashes E) b = (r, b') \<Longrightarrow> bx_app b' = bx_app b \<and>
    (r = None \<longrightarrow> (\<forall>p \<in> set (bx_profiles b'). \<not> pf_active p \<longrightarrow> \<not> stash_name (pf_name p)))"
  by (auto simp: SweepOrphanedStashes_def drop_profiles_def)

lemma grows_resume: "keeps (log_since b0 (\<lambda>_. True)) (resume_attempts E pid n err)"
  by (induction n arbitrary: err) (auto intro!: keep grows.keeps_passes(1))

text \<open>C3: A box found in CONFIGURING by a converge never stays there while its lifecycle state
  can be read and written.  The active pass is tried at most five times; if one attempt succeeds
  the box ends ACTIVE with no error.  If all five fail it ends in ONBOARDING: in this pass, after
  ONBOARDING was written, the SoftAP is started and nothing stops it again, and a start that fails
  is one of the errors the pass returns.\<close>

theorem interrupted_apply_ends:
  assumes "run_state (ReconcileApplianceState E ModeConverge pid) b = (errs, b')"
    "bx_app b LifecycleStateKey = Some StateConfiguring"
    "\<forall>t. ev_outcome E t (DbRead LifecycleStateKey) = None"
    "\<forall>t v. ev_outcome E t (DbWrite [(LifecycleStateKey, v)]) = None"
  shows "\<exists>tries. tries = attempt_results E pid 5 (pass_start E b) \<and> length tries \<le> 5
    \<and> (if [] \<in> set tries
       then bx_app b' LifecycleStateKey = Some StateActive \<and> errs = []
       else length tries = 5 \<and> bx_app b' LifecycleStateKey = Some StateOnboarding
         \<and> (\<exists>t1 ssid pass ok t2. bx_trace b' = bx_trace b @ t1 @ (StartSoftAP ssid pass, ok) # t2
              \<and> (DbWrite [(LifecycleStateKey, StateOnboarding)], True) \<in> set t1
              \<and> list_all (\<lambda>x. keeps_softap (fst x)) t2 \<and> (ok \<or> (\<exists>m. ErrSoftAP m \<in> set errs))))"
proof -
  let ?tries = "attempt_results E pid 5 (pass_start E b)"
  have seen: "lifecycle_seen E b = StateConfiguring"
    using assms(2,3) by (simp add: lifecycle_seen_def)
  have run: "run_state (resumeInterruptedApply E pid) (pass_start E b) = (errs, b')"
    using assms(1) unfolding run_Reconcile seen by (simp add: interruptedMidApply_def)
  obtain r b1 where 1: "run_state (resume_attempts E pid resumeApplyAttempts []) (pass_start E b) = (r, b1)"
    by fastforce
  have r: "r = last ?tries"
    using resume_attempts_results [of E pid 5 "[]" "pass_start E b"] 1 by (simp add: resumeApplyAttempts_def)
  have ne: "?tries \<noteq> []" by (simp add: eval_nat_numeral split: prod.splits)
  have len: "length ?tries \<le> 5" "[] \<notin> set ?tries \<Longrightarrow> length ?tries = 5"
    using attempt_results_length [of E pid 5 "pass_start E b"] by auto
  show ?thesis
  proof (cases "[] \<in> set ?tries")
    case True
    then have "r = []" using r attempt_results_last by metis
    then obtain s b2 where 2: "run_state (SweepOrphanedStashes E)
        (b1\<lparr>bx_trace := bx_trace b1 @ [(DbWrite [(LifecycleStateKey, StateActive)], True)],
            bx_app := (bx_app b1)(LifecycleStateKey \<mapsto> StateActive)\<rparr>) = (s, b2)" and e: "errs = []" "b' = b2"
      using run 1 assms(4) by (auto simp: resumeInterruptedApply_def Let_def split: prod.splits)
    have "bx_app b' LifecycleStateKey = Some StateActive"
      using sweep_app [OF 2] e by simp
    then show ?thesis using True len e by auto
  next
    case False
    then have "r \<noteq> []" using r ne by (metis last_in_set)
    then have 2: "run_state (reconcileOnboarding E ModeApply)
        (b1\<lparr>bx_trace := bx_trace b1 @ [(DbWrite [(LifecycleStateKey, StateOnboarding)], True)],
            bx_app := (bx_app b1)(LifecycleStateKey \<mapsto> StateOnboarding)\<rparr>) = (errs, b')"
      using run 1 assms(4) by (simp add: resumeInterruptedApply_def Let_def)
    have "bx_app b' LifecycleStateKey = Some StateOnboarding"
      using control_onboarding [OF 2] by (simp add: same_control_def)
    moreover obtain t1 ssid pass ok t2 where
      "bx_trace b' = bx_trace b1 @ (DbWrite [(LifecycleStateKey, StateOnboarding)], True) # t1 @ (StartSoftAP ssid pass, ok) # t2"
      "list_all (\<lambda>x. keeps_softap (fst x)) t2" "ok \<or> (\<exists>m. ErrSoftAP m \<in> set errs)"
      by (rule onboarding_starts_softap [OF 2]) (simp add: that)
    moreover obtain s where "bx_trace b1 = bx_trace (pass_start E b) @ s"
      using log_grows [OF grows_resume 1] by blast
    ultimately have "bx_trace b' = bx_trace b @ ((DbRead LifecycleStateKey,
          ev_outcome E (bx_trace b) (DbRead LifecycleStateKey) = None) # s
        @ (DbWrite [(LifecycleStateKey, StateOnboarding)], True) # t1) @ (StartSoftAP ssid pass, ok) # t2"
      by (simp add: pass_start_def)
    then have "\<exists>t1 ssid pass ok t2. bx_trace b' = bx_trace b @ t1 @ (StartSoftAP ssid pass, ok) # t2
        \<and> (DbWrite [(LifecycleStateKey, StateOnboarding)], True) \<in> set t1
        \<and> list_all (\<lambda>x. keeps_softap (fst x)) t2 \<and> (ok \<or> (\<exists>m. ErrSoftAP m \<in> set errs))"
      using \<open>list_all (\<lambda>x. keeps_softap (fst x)) t2\<close> \<open>ok \<or> (\<exists>m. ErrSoftAP m \<in> set errs)\<close>
      by (intro exI conjI) (assumption | simp)+
    then show ?thesis
      using False len \<open>bx_app b' LifecycleStateKey = Some StateOnboarding\<close> by auto
  qed
qed

section \<open>A stood-down box\<close>

text \<open>What a stood-down box may still call: it loads only configurations without a subnet and
  releases no lease.\<close>

definition dark_op :: "op \<Rightarrow> bool" where
  "dark_op q = (case q of WriteConf c \<Rightarrow> kc_Subnet4 c = [] | TestConfig c \<Rightarrow> kc_Subnet4 c = []
     | KeaDeleteLease _ \<Rightarrow> False | WipeLeases \<Rightarrow> False | _ \<Rightarrow> True)"

definition dark :: "Box \<Rightarrow> Box \<Rightarrow> bool" where
  "dark b0 b \<longleftrightarrow> bx_app b DHCPStandDownKey = Some ''1'' \<and> calls_since b0 dark_op b"

lemma dark_op_plain: "\<not> kea_op q \<Longrightarrow> dark_op q"
  by (cases q) (simp_all add: dark_op_def)

interpretation dark: pass_frame "dark b0" dark_op for b0
  by unfold_locales (auto simp: dark_def calls_since_def dark_op_plain calls_def)

lemma stood_down_read:
  assumes "\<forall>t. ev_outcome E t (DbRead DHCPStandDownKey) = None"
  shows "yields (dark b0) (DHCPStoodDown E) (\<lambda>down. down)"
  using assms dark.settings(6) [of b0 E] by (auto simp: yields_def DHCPStoodDown_def dark_def)

lemma holdoff_dark: "kc_Subnet4 (renderHoldoffConfig E scopes) = []"
  by (simp add: renderHoldoffConfig_def RenderHoldoff_def buildSubnets_def)

text \<open>C4: While the stand-down flag is persisted and can be read (a read that fails is read as
  "not stood down", see \<open>failed_flag_read_serves\<close>), an ACTIVE pass, in whatever mode
  and however its other calls turn out, only ever tests and writes configurations that serve no
  subnet, and it releases no lease; the flag stays set.\<close>

theorem stood_down_serves_nothing:
  assumes "run_state (reconcileActive E mode pid) b = (errs, b')"
    "bx_app b DHCPStandDownKey = Some ''1''"
    "\<forall>t. ev_outcome E t (DbRead DHCPStandDownKey) = None"
  shows "\<exists>t. calls b' = calls b @ t \<and> list_all dark_op t \<and> bx_app b' DHCPStandDownKey = Some ''1''"
proof -
  have k: "yields (dark b) (KeaConfigForState E scopes)
      (\<lambda>r. r = Inr (renderHoldoffConfig E scopes))" for scopes
    unfolding KeaConfigForState_def
    by (rule yields_bind [OF stood_down_read [OF assms(3)]]) (simp add: yields_return)
  have w: "keeps (dark b) (WriteAndReloadKea E (renderHoldoffConfig E scopes))" for scopes
    by (intro dark.keeps_write_and_reload) (simp_all add: dark_op_def holdoff_dark)
  have "keeps (dark b) (serve_scopes E scopes)" for scopes
    unfolding serve_scopes_def by (rule yields_bind [OF k]) (simp add: w)
  moreover have "keeps (dark b) (rebalance_step E scopes r)" for scopes r
    unfolding rebalance_step_def if_do_def
    by (intro yields_if yields_return TrueI yields_bind [OF stood_down_read [OF assms(3)]]) simp_all
  ultimately have "keeps (dark b) (reconcileActive E mode pid)" by (rule dark.keeps_active)
  moreover have "dark b b" using assms(2) by (simp add: dark_def calls_since_refl)
  ultimately show ?thesis using yieldsD [OF _ _ assms(1)] by (force simp: dark_def calls_since_def)
qed

text \<open>The error of the read is dropped: when it fails, the configuration that serves is
  rendered although the flag is set.\<close>

lemma failed_flag_read_serves:
  assumes "ev_outcome E (bx_trace b) (DbRead DHCPStandDownKey) \<noteq> None"
  shows "run_state (KeaConfigForState E scopes) b = run_state (RenderKeaForScopes E scopes)
    (b\<lparr>bx_trace := bx_trace b @ [(DbRead DHCPStandDownKey, False)]\<rparr>)"
  using assms by (simp add: KeaConfigForState_def DHCPStoodDown_def state_value_def GetState_def call_def Let_def
      run_state_bind del: run_state_value not_None_eq)

section \<open>No configuration reaches the file untested\<close>

definition conf_checked :: "trace \<Rightarrow> bool" where
  "conf_checked t \<longleftrightarrow> list_all (\<lambda>i. case fst (t ! i) of
     WriteConf c \<Rightarrow> 0 < i \<and> t ! (i - 1) = (TestConfig c, True) | _ \<Rightarrow> True) [0 ..< length t]"

fun not_write :: "op \<Rightarrow> bool" where
  "not_write (WriteConf _) = False"
| "not_write _ = True"

lemma conf_checked_snoc:
  "conf_checked (t @ [(q, r)]) \<longleftrightarrow> conf_checked t
     \<and> (case q of WriteConf c \<Rightarrow> t \<noteq> [] \<and> last t = (TestConfig c, True) | _ \<Rightarrow> True)"
proof -
  have 1: "list_all (\<lambda>i. case fst ((t @ [(q, r)]) ! i) of
      WriteConf c \<Rightarrow> 0 < i \<and> (t @ [(q, r)]) ! (i - 1) = (TestConfig c, True) | _ \<Rightarrow> True) [0 ..< length t]
    = conf_checked t"
    unfolding conf_checked_def by (rule list_all_cong) (auto simp: nth_append split: op.split)
  show ?thesis
    using 1 by (subst conf_checked_def) (auto simp: nth_append last_conv_nth split: op.split)
qed

interpretation checked: pass_frame "\<lambda>b. conf_checked (bx_trace b)" not_write
proof unfold_locales
  fix q b r assume "not_write q" "conf_checked (bx_trace b)"
  then show "conf_checked (bx_trace (b\<lparr>bx_trace := bx_trace b @ [(q, r)]\<rparr>))"
    by (cases q) (simp_all add: conf_checked_snoc)
next
  fix q assume "\<not> kea_op q" then show "not_write q" by (cases q) simp_all
qed simp

lemma checked_write: "keeps (\<lambda>b :: Box. conf_checked (bx_trace b)) (WriteAndReloadKea E c)"
proof -
  let ?I = "\<lambda>b :: Box. conf_checked (bx_trace b)"
  have rest: "keeps ?I (case r of Some m \<Rightarrow> State_Monad.return [ErrKeaWrite m]
      | None \<Rightarrow> do { r \<leftarrow> call E ReloadConfig;
          case r of None \<Rightarrow> State_Monad.return [] | Some m \<Rightarrow> reload_failed E m })" for r
    unfolding reload_failed_def restart_kea_def
    by (intro keep checked.keeps_call checked.keeps_ask TrueI; simp)
  show ?thesis
  proof (rule yieldsI)
    fix b :: Box assume b: "conf_checked (bx_trace b)"
    let ?b1 = "b\<lparr>bx_trace := bx_trace b @ [(TestConfig c, ev_outcome E (bx_trace b) (TestConfig c) = None)]\<rparr>"
    let ?r2 = "ev_outcome E (bx_trace ?b1) (WriteConf c)"
    let ?b2 = "?b1\<lparr>bx_trace := bx_trace ?b1 @ [(WriteConf c, ?r2 = None)]\<rparr>"
    show "True \<and> conf_checked (bx_trace (snd (run_state (WriteAndReloadKea E c) b)))"
    proof (cases "ev_outcome E (bx_trace b) (TestConfig c)")
      case (Some m)
      then show ?thesis using b by (simp add: WriteAndReloadKea_def conf_checked_snoc)
    next
      case None
      then have "conf_checked (bx_trace ?b2)" using b by (simp add: conf_checked_snoc del: append_assoc)
      moreover have "snd (run_state (WriteAndReloadKea E c) b) = snd (run_state (case ?r2 of
          Some m \<Rightarrow> State_Monad.return [ErrKeaWrite m]
        | None \<Rightarrow> do { r \<leftarrow> call E ReloadConfig;
          case r of None \<Rightarrow> State_Monad.return [] | Some m \<Rightarrow> reload_failed E m }) ?b2)"
        using None by (simp add: WriteAndReloadKea_def)
      ultimately show ?thesis using rest [of ?r2] unfolding yields_def by simp
    qed
  qed
qed

lemma checked_passes:
  "keeps (\<lambda>b. conf_checked (bx_trace b)) (reconcileActive E mode pid)"
  "keeps (\<lambda>b. conf_checked (bx_trace b)) (reconcileOnboarding E mode)"
proof -
  let ?I = "\<lambda>b :: Box. conf_checked (bx_trace b)"
  have "keeps ?I (serve_scopes E scopes)" for scopes
    unfolding serve_scopes_def by (intro keep checked_write TrueI)
  moreover have "keeps ?I (rebalance_step E scopes r)" for scopes r
    unfolding rebalance_step_def if_do_def
    by (intro keep checked.keeps_rebalance TrueI) simp_all
  ultimately show "keeps ?I (reconcileActive E mode pid)" by (rule checked.keeps_active)
  show "keeps ?I (reconcileOnboarding E mode)"
    by (rule checked.keeps_onboarding) (simp_all add: checked_write)
qed

lemma checked_store:
  "keeps (\<lambda>b. conf_checked (bx_trace b)) (SetState E k v)"
  "keeps (\<lambda>b. conf_checked (bx_trace b)) (SweepOrphanedStashes E)"
  "keeps (\<lambda>b. conf_checked (bx_trace b)) take_rescue"
  by (auto simp: yields_def conf_checked_snoc SweepOrphanedStashes_def drop_profiles_def Let_def)

lemma checked_resume: "keeps (\<lambda>b. conf_checked (bx_trace b)) (resume_attempts E pid n err)"
  by (induction n arbitrary: err) (simp_all, (intro keep checked_passes TrueI | assumption)+)

lemma checked_reconcile: "keeps (\<lambda>b. conf_checked (bx_trace b)) (ReconcileApplianceState E mode pid)"
  unfolding ReconcileApplianceState_def resumeInterruptedApply_def dispatch_active_def rescueToOnboarding_def Let_def
  by (intro keep checked_passes checked_store checked_resume checked.settings checked.keeps_act TrueI) simp_all

text \<open>C10: Along every run of the reconciler, whatever the box, the mode and the outcome of the
  calls are, each write of Kea's live configuration file is immediately preceded by a successful
  test (\<open>kea-dhcp4 -t\<close>) of the very same configuration.\<close>

theorem live_conf_always_tested:
  assumes "run_state (ReconcileApplianceState E mode pid) b = (errs, b')" "conf_checked (bx_trace b)"
  shows "conf_checked (bx_trace b')"
  using yieldsD [OF checked_reconcile assms(2,1)] by simp

section \<open>Nothing to serve\<close>

definition profile_scopes :: "Box \<Rightarrow> int \<Rightarrow> ScopeConfig list" where
  "profile_scopes b pid =
    (case (if pid = 0 then active_profile (bx_profiles b) else Some pid) of
       None \<Rightarrow> [] | Some p \<Rightarrow> scopes_of p (bx_scopes b))"

definition scope_query :: "op \<Rightarrow> bool" where
  "scope_query q = (case q of DbActiveProfile \<Rightarrow> True | DbScopes _ \<Rightarrow> True | _ \<Rightarrow> False)"

text \<open>C24: When the reads of the active profile and of its scopes succeed, an ACTIVE pass over
  a profile without scopes (or with no active profile) reports exactly the no-scopes error and
  touches nothing but the onboarding probes: no interface, no SoftAP, no NAT and no Kea call is
  made.  (A read that fails is reported as its own error.)\<close>

theorem nothing_to_serve_is_an_error:
  assumes "run_state (reconcileActive E mode pid) b = (errs, b')" "profile_scopes b pid = []"
    "\<forall>t q. scope_query q \<longrightarrow> ev_outcome E t q = None"
  shows "errs = [ErrNoScopes]
    \<and> (\<exists>t. calls b' = calls b @ stop_monitors E [TrunkProbe, RogueProbe] @ t \<and> list_all scope_query t)"
proof -
  let ?b = "snd (run_state (StopOnboarding E) b)"
  have "same_control b ?b"
    using control.keeps_teardown(2) [of b E] control_refl by (auto simp: yields_def)
  then have s: "bx_profiles ?b = bx_profiles b" "bx_scopes ?b = bx_scopes b" by (simp_all add: same_control_def)
  have c: "calls ?b = calls b @ stop_monitors E [TrunkProbe, RogueProbe]" by (simp add: StopOnboarding_def)
  have o: "ev_outcome E t DbActiveProfile = None" "ev_outcome E t (DbScopes p) = None" for t p
    using assms(3) by (simp_all add: scope_query_def)
  have e: "errs = fst (run_state (reconcileActive E mode pid) b)" "b' = snd (run_state (reconcileActive E mode pid) b)"
    using assms(1) by simp_all
  show ?thesis
    using assms(2) s c o unfolding e reconcileActive_def LoadScopeConfigs_def load_scopes_of_def profile_scopes_def
    by (auto simp: split_beta scope_query_def split: option.splits if_splits)
qed

section \<open>The uplink rows of the audit log\<close>

fun observe_all :: "uplinkAudit \<Rightarrow> bool list \<Rightarrow> bool list" where
  "observe_all u [] = []"
| "observe_all u (h # hs) = (case observe h u of (c, u') \<Rightarrow> (if c then [h] else []) @ observe_all u' hs)"

lemma observe_all_known:
  "ua_known u \<Longrightarrow> remdups_adj (ua_healthy u # hs) = ua_healthy u # observe_all u hs"
proof (induction hs arbitrary: u)
  case Nil then show ?case by simp
next
  case (Cons h hs)
  show ?case
  proof (cases "h = ua_healthy u")
    case True then show ?thesis using Cons by (simp add: observe_def)
  next
    case False
    let ?u = "u\<lparr>ua_known := True, ua_healthy := h\<rparr>"
    have "remdups_adj (h # hs) = h # observe_all ?u hs" using Cons.IH [of ?u] by simp
    then show ?thesis using False Cons.prems by (auto simp: observe_def)
  qed
qed

text \<open>Starting from the unknown state, the uplink outcomes that are audited are the observed
  ones with consecutive repetitions removed: one row per real transition, the first outcome always
  included, and two rows in a row never say the same.\<close>

theorem uplink_rows_are_transitions:
  "observe_all \<lparr>ua_known = False, ua_healthy = h0\<rparr> hs = remdups_adj hs"
proof (cases hs)
  case Nil then show ?thesis by simp
next
  case (Cons h t)
  have "remdups_adj (h # t) = h # observe_all \<lparr>ua_known = True, ua_healthy = h\<rparr> t"
    using observe_all_known [of "\<lparr>ua_known = True, ua_healthy = h\<rparr>" t] by simp
  then show ?thesis using Cons by (simp add: observe_def)
qed

text \<open>The error of the lifecycle read is dropped: when it fails, the pass is the onboarding
  pass, whatever the box was doing.\<close>

lemma failed_read_onboards:
  assumes "ev_outcome E (bx_trace b) (DbRead LifecycleStateKey) \<noteq> None"
  shows "\<exists>b1. run_state (ReconcileApplianceState E mode pid) b = run_state (reconcileOnboarding E mode) b1
    \<and> bx_app b1 = bx_app b"
  using assms
  by (auto simp: ReconcileApplianceState_def state_value_def GetState_def interruptedMidApply_def
      split: option.splits)

section \<open>A concrete box\<close>

definition ex_env :: Env where
  "ex_env = \<lparr>ev_KeaSecretPath = ''/etc/kea/gui-secret'', ev_LeaseLifetime = 1800, ev_maria = ([], [], [], []),
     ev_hooksDir = ''/usr/lib/kea/hooks'', ev_conf0 = None, ev_monitors = [Netmon, Arp, TrunkProbe],
     ev_unmarshal = (\<lambda>_. None), ev_outcome = (\<lambda>_ _. None)\<rparr>"

definition ex_scope_row :: scope_row where
  "ex_scope_row = \<lparr>rw_profile = 7, rw_preset = ''flat'', rw_vlan = None, rw_cidr = ''10.1.0.0/24'',
     rw_pool_spec = Null, rw_uplink = Null,
     rw_pool_plan = Null,
     rw_services = Malformed, rw_name = None\<rparr>"

definition ex_box :: "string \<Rightarrow> string \<Rightarrow> scope_row list \<Rightarrow> Box" where
  "ex_box st down rows = \<lparr>bx_app = [LifecycleStateKey \<mapsto> st, DHCPStandDownKey \<mapsto> down],
     bx_profiles = [\<lparr>pf_id = 7, pf_name = ''Show'', pf_active = True\<rparr>], bx_scopes = rows,
     bx_hosts = None, bx_leases = [], bx_applying = True, bx_rescueArmed = False,
     bx_uplink = \<lparr>ua_known = False, ua_healthy = False\<rparr>, bx_trace = []\<rparr>"

lemma ex_tries: "attempt_results ex_env 0 5 (pass_start ex_env (ex_box StateConfiguring [] [ex_scope_row])) = [[]]"
  by code_simp

lemma ex_reads [simp]: "ev_outcome ex_env t q = None"
  by (simp add: ex_env_def)

lemma lifecycle_written_only_when_witness:
  "\<exists>errs b'. run_state (ReconcileApplianceState ex_env ModeApply 0) (ex_box StateActive [] [ex_scope_row]) = (errs, b')
     \<and> bx_app b' LifecycleStateKey = Some StateActive \<and> bx_applying b'"
proof -
  obtain errs b' where r: "run_state (ReconcileApplianceState ex_env ModeApply 0) (ex_box StateActive [] [ex_scope_row]) = (errs, b')"
    by (rule prod.exhaust)
  have "LifecycleStateKey \<noteq> DHCPStandDownKey" by (simp add: LifecycleStateKey_def DHCPStandDownKey_def)
  then show ?thesis using lifecycle_written_only_when [OF r] r by (auto simp: ex_box_def)
qed

lemma onboarding_pass_calls_witness:
  "\<exists>errs b' t. run_state (reconcileOnboarding ex_env ModeConverge) (ex_box StateOnboarding [] []) = (errs, b')
     \<and> take 5 (calls b') = [DbRead ''onboarding_ip'', DbRead ''softap_ssid'', DbRead ''softap_pass'',
          SetInterfaceStatic ''eth0'' t, SetInterfaceManaged ''wlan0'' False]"
proof -
  obtain errs b' where r: "run_state (reconcileOnboarding ex_env ModeConverge) (ex_box StateOnboarding [] []) = (errs, b')"
    by (rule prod.exhaust)
  have "calls (ex_box StateOnboarding [] []) = []" by (simp add: calls_def ex_box_def)
  then show ?thesis using onboarding_pass_calls [OF r] r by auto
qed

lemma interrupted_apply_ends_witness:
  "\<exists>b'. run_state (ReconcileApplianceState ex_env ModeConverge 0) (ex_box StateConfiguring [] [ex_scope_row]) = ([], b')
     \<and> bx_app b' LifecycleStateKey = Some StateActive"
proof -
  obtain errs b' where r: "run_state (ReconcileApplianceState ex_env ModeConverge 0) (ex_box StateConfiguring [] [ex_scope_row]) = (errs, b')"
    by (rule prod.exhaust)
  have "bx_app (ex_box StateConfiguring [] [ex_scope_row]) LifecycleStateKey = Some StateConfiguring"
    by (simp add: ex_box_def LifecycleStateKey_def DHCPStandDownKey_def)
  from interrupted_apply_ends [OF r this] r show ?thesis by (auto simp: ex_tries)
qed

lemma stood_down_serves_nothing_witness:
  "\<exists>errs b'. run_state (reconcileActive ex_env ModeApply 0) (ex_box StateActive ''1'' [ex_scope_row]) = (errs, b')
     \<and> list_all dark_op (calls b')"
proof -
  obtain errs b' where r: "run_state (reconcileActive ex_env ModeApply 0) (ex_box StateActive ''1'' [ex_scope_row]) = (errs, b')"
    by (rule prod.exhaust)
  have "calls (ex_box StateActive ''1'' [ex_scope_row]) = []" "bx_app (ex_box StateActive ''1'' [ex_scope_row]) DHCPStandDownKey = Some ''1''"
    by (simp_all add: calls_def ex_box_def)
  then show ?thesis using stood_down_serves_nothing [OF r] r by auto
qed

lemma live_conf_always_tested_witness:
  "\<exists>errs b'. run_state (ReconcileApplianceState ex_env ModeApply 0) (ex_box StateActive [] [ex_scope_row]) = (errs, b')
     \<and> conf_checked (bx_trace b')"
proof -
  obtain errs b' where r: "run_state (ReconcileApplianceState ex_env ModeApply 0) (ex_box StateActive [] [ex_scope_row]) = (errs, b')"
    by (rule prod.exhaust)
  have "conf_checked (bx_trace (ex_box StateActive [] [ex_scope_row]))" by (simp add: ex_box_def conf_checked_def)
  from live_conf_always_tested [OF r this] r show ?thesis by blast
qed

lemma nothing_to_serve_is_an_error_witness:
  "\<exists>b'. run_state (reconcileActive ex_env ModeConverge 0) (ex_box StateActive [] []) = ([ErrNoScopes], b')
     \<and> calls b' = [MonStop TrunkProbe, DbActiveProfile, DbScopes 7]"
proof -
  obtain errs b' where r: "run_state (reconcileActive ex_env ModeConverge 0) (ex_box StateActive [] []) = (errs, b')"
    by (rule prod.exhaust)
  have "profile_scopes (ex_box StateActive [] []) 0 = []"
    by (simp add: profile_scopes_def ex_box_def active_profile_def scopes_of_def)
  then have "errs = [ErrNoScopes]" using nothing_to_serve_is_an_error [OF r] by simp
  moreover have "calls (snd (run_state (reconcileActive ex_env ModeConverge 0) (ex_box StateActive [] [])))
      = [MonStop TrunkProbe, DbActiveProfile, DbScopes 7]" by code_simp
  ultimately show ?thesis using r by simp
qed

end
