(* ===== verification/StandDown.thy ===== *)
theory StandDown
  imports Lifecycle StaticPool
begin

text \<open>
  \<open>src/internal/web/standdown.go\<close>: what the operator is shown about a foreign DHCP server,
  the stand-down flag, and the background job that makes Kea follow the flag and corrects it when
  Kea does not.  The snapshots the alert rows are built from are those of the monitor's detectors
  (\<open>src/internal/netmon/snapshot.go\<close>).  Publishing to the live hub, flash messages and
  redirects are left out.
\<close>

section \<open>The snapshot store\<close>

record Snapshot =
  sn_Iface :: string
  sn_Available :: bool
  sn_Note :: string
  sn_Detectors :: "DetectorSnapshot list"
  sn_UnleasedPoolHosts :: "PoolHost list"

type_synonym store = "(string \<times> Snapshot) list"

definition store_Update :: "string \<Rightarrow> Snapshot \<Rightarrow> store \<Rightarrow> store" where
  "store_Update iface s st = AList.update iface s st"

definition store_Remove :: "string \<Rightarrow> store \<Rightarrow> store" where
  "store_Remove iface st = AList.delete iface st"

definition SnapshotAll :: "store \<Rightarrow> Snapshot list" where
  "SnapshotAll st = sort_key sn_Iface (map snd st)"

section \<open>What the operator is shown\<close>

record rogueSighting =
  rg_Server :: string
  rg_MAC :: string
  rg_Iface :: string
  rg_Count :: int
  rg_Sustained :: bool

definition field :: "DetectorSnapshot \<Rightarrow> string \<Rightarrow> string" where
  "field d k = (case map_of (ds_Fields d) k of None \<Rightarrow> [] | Some v \<Rightarrow> v)"

definition sighting_of :: "string \<Rightarrow> DetectorSnapshot \<Rightarrow> rogueSighting" where
  "sighting_of iface d =
    \<lparr>rg_Server = field d ''server'', rg_MAC = field d ''mac'', rg_Iface = iface,
     rg_Count = (case Atoi (field d ''count'') of Some c \<Rightarrow> if c > 1 then c else 1 | None \<Rightarrow> 1),
     rg_Sustained = (field d ''sustained'' = ''1'')\<rparr>"

definition activeRogues :: "Snapshot list option \<Rightarrow> rogueSighting list" where
  "activeRogues nm = (case nm of None \<Rightarrow> []
    | Some snaps \<Rightarrow> concat (map (\<lambda>s. map (sighting_of (sn_Iface s))
        (filter (\<lambda>d. ds_Kind d = ''rogue_dhcp'' \<and> ds_Severity d = SevError) (sn_Detectors s))) snaps))"

fun totalRogues :: "rogueSighting list \<Rightarrow> int" where
  "totalRogues [] = 0"
| "totalRogues (r # rs) = (if rg_Count r < 1 then 1 else rg_Count r) + totalRogues rs"

definition anyRogueSustained :: "rogueSighting list \<Rightarrow> bool" where
  "anyRogueSustained rs = list_ex rg_Sustained rs"

definition web_plural :: "int \<Rightarrow> string \<Rightarrow> string" where
  "web_plural n unit = Itoa n @ '' '' @ unit @ (if n \<noteq> 1 then ''s'' else [])"

definition leaseExpiryPhrase :: "int \<Rightarrow> string" where
  "leaseExpiryPhrase secs =
    (if secs \<le> 0 then []
     else if secs < 60 then ''about '' @ web_plural secs ''second''
     else if secs < 3600 then ''about '' @ web_plural (secs div 60) ''minute''
     else ''about '' @ web_plural (secs div 3600) ''hour'')"

definition standDownBannerDetail :: "string \<Rightarrow> string" where
  "standDownBannerDetail leaseHint =
    ''This appliance is not handing out or renewing DHCP leases. The rogue server is not stopped, and devices will lose their address as each current lease expires''
    @ (if leaseHint \<noteq> [] then '' ('' @ leaseHint @ '')'' else [])
    @ ''. Resume once the rogue server is disconnected.''"

definition rogueAlertTitle :: "rogueSighting list \<Rightarrow> string" where
  "rogueAlertTitle rs =
    (if totalRogues rs > 1 then Itoa (totalRogues rs) @ '' rogue DHCP servers detected''
     else ''Rogue DHCP server detected'')"

definition rogue_name :: "rogueSighting \<Rightarrow> string" where
  "rogue_name r = rg_Server r @ (if rg_MAC r \<noteq> [] then '' ('' @ rg_MAC r @ '')'' else [])"

definition rogueAlertDetail :: "rogueSighting list \<Rightarrow> string" where
  "rogueAlertDetail rs =
    (case rs of [] \<Rightarrow> []
     | first # _ \<Rightarrow>
        rogue_name first @ (if rg_Iface first \<noteq> [] then '' on '' @ rg_Iface first else [])
        @ (if totalRogues rs - 1 > 0 then '' and '' @ Itoa (totalRogues rs - 1) @ '' more'' else [])
        @ '' is answering DHCP - devices may lease from the wrong server. Standing our DHCP down pauses this appliance's serving; it does not remove the rogue.'')"

definition rogueAuditDetail :: "rogueSighting list \<Rightarrow> string" where
  "rogueAuditDetail rs =
    (if rs = [] then ''no rogue server currently visible''
     else Join (map rogue_name rs) '', ''
       @ (if totalRogues rs > int (length rs) then '' ('' @ Itoa (totalRogues rs) @ '' servers total)'' else []))"

record AlertRow =
  al_Severity :: string
  al_Title :: string
  al_Detail :: string
  al_Action :: string
  al_LeaseHint :: string

definition buildRogueRows :: "bool \<Rightarrow> rogueSighting list \<Rightarrow> string \<Rightarrow> AlertRow list" where
  "buildRogueRows stoodDown rogues leaseHint =
    (if stoodDown then
       [\<lparr>al_Severity = ''warn'', al_Title = ''DHCP stood down by operator'',
         al_Detail = standDownBannerDetail leaseHint, al_Action = ''resume'', al_LeaseHint = leaseHint\<rparr>]
     else if \<not> anyRogueSustained rogues then []
     else [\<lparr>al_Severity = ''err'', al_Title = rogueAlertTitle rogues,
         al_Detail = rogueAlertDetail rogues, al_Action = ''standdown'', al_LeaseHint = leaseHint\<rparr>])"

definition rogueAlertRows :: "Env \<Rightarrow> Snapshot list option \<Rightarrow> AlertRow list go" where
  "rogueAlertRows E nm = do {
     down \<leftarrow> DHCPStoodDown E;
     life \<leftarrow> LeaseLifetime E;
     State_Monad.return (buildRogueRows down (activeRogues nm) (leaseExpiryPhrase life)) }"

section \<open>The flag and the job\<close>

definition setStandDown :: "Env \<Rightarrow> bool \<Rightarrow> string \<Rightarrow> string option go" where
  "setStandDown E down rogueDetail = do {
     r \<leftarrow> SetState E DHCPStandDownKey (if down then ''1'' else ''0'');
     case r of Some m \<Rightarrow> State_Monad.return (Some m)
     | None \<Rightarrow> do {
         act E (if down then Audit ''ROGUE_STANDDOWN'' rogueDetail ''WARNING'' else Audit ''ROGUE_RESUME'' [] ''OK'');
         State_Monad.return None } }"

definition applyDHCPServingState :: "Env \<Rightarrow> pass_error list go" where
  "applyDHCPServingState E = do {
     loaded \<leftarrow> LoadScopeConfigs E 0;
     case loaded of
       Inl m \<Rightarrow> State_Monad.return [ErrLoadScopes m]
     | Inr scopes \<Rightarrow>
         if scopes = [] then State_Monad.return [ErrNoScopes]
         else do {
           cfg \<leftarrow> KeaConfigForState E scopes;
           case cfg of
             Inl e \<Rightarrow> State_Monad.return [e]
           | Inr c \<Rightarrow> WriteAndReloadKea E c } }"

definition scheduleServingReloadHeld :: "Env \<Rightarrow> string \<Rightarrow> bool \<Rightarrow> unit go" where
  "scheduleServingReloadHeld E job resuming = do {
     errs \<leftarrow> applyDHCPServingState E;
     if_do (errs \<noteq> []) (do {
       act E (Audit ''RECONCILE_FAILED'' job ''WARNING'');
       _ \<leftarrow> SetState E DHCPStandDownKey (if resuming then ''1'' else ''0'');
       State_Monad.return () });
     EndReconcile }"

text \<open>A request is refused, fails, or is answered while the job it started still runs.\<close>

datatype reply = Conflict | ServerError string | Started string bool

definition handleStandDown :: "Env \<Rightarrow> Snapshot list option \<Rightarrow> reply go" where
  "handleStandDown E nm = do {
     got \<leftarrow> BeginReconcile;
     if \<not> got then State_Monad.return Conflict
     else do {
       r \<leftarrow> setStandDown E True (rogueAuditDetail (activeRogues nm));
       case r of
         Some m \<Rightarrow> do { EndReconcile; State_Monad.return (ServerError m) }
       | None \<Rightarrow> State_Monad.return (Started ''rogue-standdown'' False) } }"

definition handleResumeDHCP :: "Env \<Rightarrow> reply go" where
  "handleResumeDHCP E = do {
     got \<leftarrow> BeginReconcile;
     if \<not> got then State_Monad.return Conflict
     else do {
       r \<leftarrow> setStandDown E False [];
       case r of
         Some m \<Rightarrow> do { EndReconcile; State_Monad.return (ServerError m) }
       | None \<Rightarrow> State_Monad.return (Started ''rogue-resume'' True) } }"

section \<open>The alert rows and the detectors\<close>

lemma rogue_snapshot_sustained:
  assumes "ds_Severity (rogue_Snapshot d) = SevError" "field (rogue_Snapshot d) ''sustained'' = ''1''"
  shows "\<exists>x \<in> set (rd_servers d). rs_present (snd x) \<and> sustainedFor rogueSustainedAfter (rs_pres (snd x))"
  using assms
  by (simp add: rogue_Snapshot_def Let_def field_def list_ex_iff split: if_splits)

lemma active_sighting:
  assumes "r \<in> set (activeRogues (Some snaps))"
  obtains s d where "s \<in> set snaps" "d \<in> set (sn_Detectors s)" "ds_Kind d = ''rogue_dhcp''"
    "ds_Severity d = SevError" "r = sighting_of (sn_Iface s) d"
  using assms by (auto simp: activeRogues_def)

text \<open>What the watch of one interface was started with and has been given since.\<close>

record rogueWatch =
  rw_iface :: string
  rw_mac :: "byte list"
  rw_macKnown :: bool
  rw_servedVID :: int
  rw_absence :: int
  rw_inputs :: "rogue_input list"

definition watched :: "rogueWatch \<Rightarrow> rogueDHCP" where
  "watched w = rogue_run (newRogueDHCPDetector (rw_iface w) (rw_mac w) (rw_macKnown w) (rw_servedVID w) (rw_absence w))
     (rw_inputs w)"

text \<open>C25: The stand-down control is offered only while the box serves, and only because on one
  of the monitored interfaces, whose own MAC is known, two OFFERs or ACKs of one server, in frames
  that came from another MAC than the interface's, were heard at least 30 seconds apart: neither one
  forged OFFER nor the appliance's own replies raise it.\<close>

theorem standdown_control_needs_sustained_rogue:
  assumes "\<forall>s \<in> set snaps. \<forall>x \<in> set (sn_Detectors s). ds_Kind x = ''rogue_dhcp'' \<longrightarrow> x = rogue_Snapshot (watched (watch s))"
    "row \<in> set (buildRogueRows down (activeRogues (Some snaps)) hint)" "al_Action row = ''standdown''"
  shows "\<not> down \<and> (\<exists>s \<in> set snaps. \<exists>sid f1 t1 f2 t2. rw_macKnown (watch s)
    \<and> Heard f1 t1 \<in> set (rw_inputs (watch s)) \<and> Heard f2 t2 \<in> set (rw_inputs (watch s))
    \<and> server_answer (rw_servedVID (watch s)) (rw_mac (watch s)) sid f1
    \<and> server_answer (rw_servedVID (watch s)) (rw_mac (watch s)) sid f2 \<and> 30 * second \<le> t2 - t1)"
proof -
  have down: "\<not> down" and any: "anyRogueSustained (activeRogues (Some snaps))"
    using assms(2,3) by (auto simp: buildRogueRows_def split: if_splits)
  from any obtain r where "r \<in> set (activeRogues (Some snaps))" and sus: "rg_Sustained r"
    by (auto simp: anyRogueSustained_def list_ex_iff)
  then obtain s x where s: "s \<in> set snaps" "x \<in> set (sn_Detectors s)" "ds_Kind x = ''rogue_dhcp''"
      "ds_Severity x = SevError" "r = sighting_of (sn_Iface s) x"
    by (elim active_sighting)
  with assms(1) have d: "x = rogue_Snapshot (watched (watch s))" by blast
  obtain y where y: "y \<in> set (rd_servers (watched (watch s)))" "sustainedFor rogueSustainedAfter (rs_pres (snd y))"
    using rogue_snapshot_sustained [of "watched (watch s)"] s sus d by (auto simp: sighting_of_def)
  show ?thesis
    by (rule sustained_heard [OF y [unfolded watched_def]]) (use down s(1) in \<open>unfold rogueSustainedAfter_def, blast\<close>)
qed

definition ex_watch :: rogueWatch where
  "ex_watch = \<lparr>rw_iface = ''eth0'', rw_mac = [2, 0, 0, 0, 0, 1], rw_macKnown = True, rw_servedVID = 0, rw_absence = 0,
     rw_inputs = [Heard (ex_frame (ex_offer [2, 0, 0, 0, 0, 9])) 1, Clock 5,
       Heard (ex_frame (ex_offer [2, 0, 0, 0, 0, 9])) (40 * second)]\<rparr>"

lemma standdown_control_needs_sustained_rogue_witness:
  "\<exists>sid f1 t1 f2 t2. Heard f1 t1 \<in> set (rw_inputs ex_watch) \<and> Heard f2 t2 \<in> set (rw_inputs ex_watch)
    \<and> server_answer 0 [2, 0, 0, 0, 0, 1] sid f1 \<and> server_answer 0 [2, 0, 0, 0, 0, 1] sid f2
    \<and> 30 * second \<le> t2 - t1"
proof -
  let ?s = "\<lparr>sn_Iface = ''eth0'', sn_Available = True, sn_Note = [], sn_Detectors = [rogue_Snapshot (watched ex_watch)], sn_UnleasedPoolHosts = []\<rparr>"
  have 1: "\<forall>s \<in> set [?s]. \<forall>x \<in> set (sn_Detectors s). ds_Kind x = ''rogue_dhcp'' \<longrightarrow> x = rogue_Snapshot (watched ((\<lambda>_. ex_watch) s))"
    by simp
  have "map al_Action (buildRogueRows False (activeRogues (Some [?s])) []) = [''standdown'']"
    by code_simp
  then obtain row where "row \<in> set (buildRogueRows False (activeRogues (Some [?s])) [])" "al_Action row = ''standdown''"
    by (auto simp: map_eq_Cons_conv)
  from standdown_control_needs_sustained_rogue [OF 1 this] have
    "\<exists>sid f1 t1 f2 t2. rw_macKnown ex_watch \<and> Heard f1 t1 \<in> set (rw_inputs ex_watch) \<and> Heard f2 t2 \<in> set (rw_inputs ex_watch)
      \<and> server_answer (rw_servedVID ex_watch) (rw_mac ex_watch) sid f1
      \<and> server_answer (rw_servedVID ex_watch) (rw_mac ex_watch) sid f2 \<and> 30 * second \<le> t2 - t1" by simp
  then show ?thesis by (simp add: ex_watch_def)
qed

section \<open>What Kea runs\<close>

text \<open>The configuration the daemon was last given: the file at its (re)start, or at a reload it
  accepted.  The first is the one found on disk.  This is a reading of
  Kea's log of calls, with two assumptions about Kea: a reload that is reported as failed or timed out
  leaves the running configuration as it was, and a write of the file is not torn.\<close>

definition kea_step :: "keaConfig option \<times> keaConfig option \<Rightarrow> op \<times> bool \<Rightarrow> keaConfig option \<times> keaConfig option" where
  "kea_step s x =
    (case x of
       (WriteConf c, True) \<Rightarrow> (Some c, snd s)
     | (ReloadConfig, True) \<Rightarrow> (fst s, fst s)
     | (RestartService n, True) \<Rightarrow> if n = keaServiceName then (fst s, fst s) else s
     | _ \<Rightarrow> s)"

definition kea_at :: "Env \<Rightarrow> Box \<Rightarrow> keaConfig option \<times> keaConfig option" where
  "kea_at E b = foldl kea_step (ev_conf0 E, ev_conf0 E) (bx_trace b)"

definition serving :: "Env \<Rightarrow> Box \<Rightarrow> bool" where
  "serving E b = (case snd (kea_at E b) of None \<Rightarrow> False | Some c \<Rightarrow> kc_Subnet4 c \<noteq> [])"

lemma kea_step_plain: "\<not> kea_op q \<Longrightarrow> kea_step s (q, r) = s"
  by (cases q) (auto simp: kea_step_def)

interpretation still: pass_frame "\<lambda>b. kea_at E b = k" "\<lambda>q. \<not> kea_op q" for E k
  by unfold_locales (auto simp: kea_at_def kea_step_plain)

lemma WriteAndReloadKea_runs:
  assumes "run_state (WriteAndReloadKea E c) b = (errs, b')" "\<forall>t. ev_outcome E t KeaPing = None"
  shows "snd (kea_at E b') = (if errs = [] then Some c else snd (kea_at E b))"
proof -
  have w: "run_state (waitKeaReachable E 5 None) x = (None, snd (run_state (call E KeaPing) x))" for x
    using assms(2) by (simp add: numeral_eq_Suc split_beta)
  have e: "errs = fst (run_state (WriteAndReloadKea E c) b)" "b' = snd (run_state (WriteAndReloadKea E c) b)"
    using assms(1) by simp_all
  show ?thesis
    unfolding e WriteAndReloadKea_def reload_failed_def restart_kea_def ask_def
    by (auto simp: split_beta w err_of_def kea_at_def kea_step_def split: option.splits)
qed

lemma RenderProfile_subnets: "RenderProfile h inp = Inr (c, ifs) \<Longrightarrow> length (kc_Subnet4 c) = length (pr_Scopes inp)"
  by (auto simp: RenderProfile_def Let_def buildSubnets_def split: sum.splits prod.splits dest: render_scopes_nth)

lemma KeaConfigForState_serves:
  assumes "run_state (KeaConfigForState E scopes) b = (Inr c, b')" "scopes \<noteq> []"
    "\<forall>t. ev_outcome E t (DbRead DHCPStandDownKey) = None"
  shows "kc_Subnet4 c \<noteq> [] \<longleftrightarrow> bx_app b DHCPStandDownKey \<noteq> Some ''1''"
proof -
  obtain down b1 where d: "run_state (DHCPStoodDown E) b = (down, b1)" by fastforce
  have down: "down \<longleftrightarrow> bx_app b DHCPStandDownKey = Some ''1''"
    using d assms(3) by (auto simp: DHCPStoodDown_def state_value_def GetState_def split_beta split: option.splits)
  show ?thesis
  proof (cases down)
    case True
    then show ?thesis using assms(1) d down by (auto simp: KeaConfigForState_def holdoff_dark)
  next
    case False
    then show ?thesis
      using assms(1,2) d down
      by (auto simp: KeaConfigForState_def RenderKeaForScopes_def split_beta split: sum.splits prod.splits if_splits
          dest!: RenderProfile_subnets)
  qed
qed

lemma applyDHCPServingState_runs:
  assumes "run_state (applyDHCPServingState E) b = (errs, b')" "\<forall>t. ev_outcome E t KeaPing = None"
    "\<forall>t. ev_outcome E t (DbRead DHCPStandDownKey) = None"
  shows "same_control b b'"
    "if errs = [] then serving E b' \<longleftrightarrow> bx_app b DHCPStandDownKey \<noteq> Some ''1'' else serving E b' \<longleftrightarrow> serving E b"
proof -
  have w: "keeps (same_control b) (WriteAndReloadKea E c)" for c by (intro control.keeps_write_and_reload TrueI)
  have "keeps (same_control b) (applyDHCPServingState E)"
    unfolding applyDHCPServingState_def by (intro keep w TrueI)
  then show "same_control b b'" using yieldsD [of "same_control b", OF _ control_refl assms(1)] by blast
  obtain l b1 where l: "run_state (LoadScopeConfigs E 0) b = (l, b1)" by fastforce
  have k1: "kea_at E b1 = kea_at E b" and c1: "same_control b b1"
    using yieldsD [OF still.settings(7) refl l] yieldsD [OF control.settings(7) control_refl l] by simp_all
  show "if errs = [] then serving E b' \<longleftrightarrow> bx_app b DHCPStandDownKey \<noteq> Some ''1'' else serving E b' \<longleftrightarrow> serving E b"
  proof (cases "\<exists>scopes. l = Inr scopes \<and> scopes \<noteq> []")
    case False
    then show ?thesis using assms(1) l k1
      by (auto simp: applyDHCPServingState_def serving_def split: sum.splits if_splits)
  next
    case True
    then obtain scopes where sc: "l = Inr scopes" "scopes \<noteq> []" by blast
    obtain cfg b2 where c: "run_state (KeaConfigForState E scopes) b1 = (cfg, b2)" by fastforce
    have k2: "kea_at E b2 = kea_at E b" using yieldsD [OF still.keeps_config refl c] k1 by simp
    show ?thesis
    proof (cases cfg)
      case (Inl e)
      then show ?thesis using assms(1) l sc c k2 by (auto simp: applyDHCPServingState_def serving_def)
    next
      case (Inr conf)
      then have "run_state (WriteAndReloadKea E conf) b2 = (errs, b')"
        using assms(1) l sc c by (simp add: applyDHCPServingState_def)
      from WriteAndReloadKea_runs [OF this assms(2)] k2
        KeaConfigForState_serves [OF c [unfolded Inr] sc(2) assms(3)] c1
      show ?thesis by (auto simp: serving_def same_control_def)
    qed
  qed
qed

lemma serving_job_outcome:
  assumes "run_state (scheduleServingReloadHeld E job resuming) b = ((), b')" "\<forall>t. ev_outcome E t KeaPing = None"
    "\<forall>t. ev_outcome E t (DbRead DHCPStandDownKey) = None"
    "\<forall>t v. ev_outcome E t (DbWrite [(DHCPStandDownKey, v)]) = None"
    "serving E b \<longleftrightarrow> \<not> resuming"
  shows "serving E b' \<longleftrightarrow> bx_app b' DHCPStandDownKey \<noteq> Some ''1''"
proof -
  obtain errs b1 where a: "run_state (applyDHCPServingState E) b = (errs, b1)" by fastforce
  note r = applyDHCPServingState_runs [OF a assms(2,3)]
  show ?thesis
  proof (cases "errs = []")
    case True
    then show ?thesis using assms(1) a r
      by (auto simp: scheduleServingReloadHeld_def if_do_def EndReconcile_def State_Monad.update_def serving_def kea_at_def same_control_def)
  next
    case False
    then show ?thesis using assms(1,4,5) a r
      by (auto simp: scheduleServingReloadHeld_def if_do_def EndReconcile_def State_Monad.update_def run_SetState
          serving_def kea_at_def kea_step_def)
  qed
qed

section \<open>Where the flag and Kea part\<close>

text \<open>A resume whose reload finds a dead socket: the restart succeeds, so Kea serves the profile,
  but it does not answer its control socket in time.  The job re-arms the flag.\<close>

definition ex_slow_kea :: Env where
  "ex_slow_kea = ex_env\<lparr>ev_outcome := (\<lambda>_ q. if q \<in> {ReloadConfig, KeaReachable, KeaPing} then Some ''no socket'' else None)\<rparr>"

lemma resume_rearms_over_serving_box:
  "let b = snd (run_state (scheduleServingReloadHeld ex_slow_kea ''rogue-resume'' True)
      (ex_box StateActive ''0'' [ex_scope_row]))
   in serving ex_slow_kea b \<and> bx_app b DHCPStandDownKey = Some ''1''"
  by code_simp

text \<open>A second stand-down request on a box that is already stood down: when its reload fails, the
  flag is cleared although Kea still runs the empty configuration.\<close>

definition ex_bad_test :: Env where
  "ex_bad_test = ex_env\<lparr>ev_conf0 := Some (renderHoldoffConfig ex_env []),
     ev_outcome := (\<lambda>_ q. case q of TestConfig _ \<Rightarrow> Some ''refused'' | _ \<Rightarrow> None)\<rparr>"

lemma repeated_standdown_clears_flag:
  "let b0 = (ex_box StateActive ''1'' [ex_scope_row])\<lparr>bx_applying := False\<rparr>;
       b1 = snd (run_state (handleStandDown ex_bad_test None) b0);
       b2 = snd (run_state (scheduleServingReloadHeld ex_bad_test ''rogue-standdown'' False) b1)
   in \<not> serving ex_bad_test b0 \<and> \<not> serving ex_bad_test b2 \<and> bx_app b2 DHCPStandDownKey = Some ''0''"
  by code_simp

end
