(* ===== verification/Monitor.thy ===== *)
theory Monitor
  imports GreenGoCensus StandDown
begin

text \<open>
  \<open>src/internal/netmon/monitor.go\<close>: the monitor of one interface (its detectors, its frame
  clock, the isolation of a faulty detector, the serve loop with its fault budget) and the manager
  of all monitors.  A clock reading, a drop counter, a lease list or a panic is an input of the step
  that meets it; what a monitor sends to the audit log and to the snapshot store is its output.
  Sockets, tickers, thread priorities and multicast joins are left out.
\<close>

section \<open>Detectors\<close>

definition baseBackoff :: int where "baseBackoff = 500000000"
definition maxBackoff :: int where "maxBackoff = 30 * second"
definition defaultFaultBudget :: int where "defaultFaultBudget = 5"

datatype Detector =
    DIGMP igmpDetector | DLLDP lldpDetector | DRogue rogueDHCP | DDup duplicateIP | DPTP ptpDetector
  | DStorm stormDetector | DIdle idleDetector | DStatic staticInPool | DCensus greengoDetector
  | DConfig greengoHDetector | DVLAN vlanDetector

text \<open>What the operating system and Kea answer during a tick.\<close>

record sysState =
  sy_leases :: "string list option"
  sy_linkUp :: bool
  sy_rx :: "u64 option"

fun det_Consume :: "Frame \<Rightarrow> int \<Rightarrow> Detector \<Rightarrow> Detector" where
  "det_Consume f now (DIGMP d) = DIGMP (igmp_Consume f now d)"
| "det_Consume f now (DLLDP d) = DLLDP (lldp_Consume f d)"
| "det_Consume f now (DRogue d) = DRogue (rogue_Consume f now d)"
| "det_Consume f now (DDup d) = DDup (dup_Consume f now d)"
| "det_Consume f now (DPTP d) = DPTP (ptp_Consume f now d)"
| "det_Consume f now (DStorm d) = DStorm (storm_Consume f now d)"
| "det_Consume f now (DIdle d) = DIdle d"
| "det_Consume f now (DStatic d) = DStatic (static_Consume f now d)"
| "det_Consume f now (DCensus d) = DCensus (ggo_Consume f now d)"
| "det_Consume f now (DConfig d) = DConfig (ggoh_Consume f now d)"
| "det_Consume f now (DVLAN d) = DVLAN (vlan_Consume f now d)"

fun det_Tick :: "(u64 \<Rightarrow> int \<Rightarrow> int) \<Rightarrow> sysState \<Rightarrow> int \<Rightarrow> Detector \<Rightarrow> Event list \<times> Detector" where
  "det_Tick rate sy now (DIGMP d) = map_prod id DIGMP (igmp_Tick now d)"
| "det_Tick rate sy now (DLLDP d) = map_prod id DLLDP (lldp_Tick (sy_linkUp sy) d)"
| "det_Tick rate sy now (DRogue d) = map_prod id DRogue (rogue_Tick now d)"
| "det_Tick rate sy now (DDup d) = map_prod id DDup (dup_Tick now d)"
| "det_Tick rate sy now (DPTP d) = map_prod id DPTP (ptp_Tick now d)"
| "det_Tick rate sy now (DStorm d) = map_prod id DStorm (storm_Tick rate (Some (sy_rx sy)) now d)"
| "det_Tick rate sy now (DIdle d) = map_prod id DIdle (idle_Tick (Some (sy_rx sy)) now d)"
| "det_Tick rate sy now (DStatic d) = map_prod id DStatic (static_Tick (sy_leases sy) now d)"
| "det_Tick rate sy now (DCensus d) = map_prod id DCensus (ggo_Tick (sy_leases sy) now d)"
| "det_Tick rate sy now (DConfig d) = map_prod id DConfig (ggoh_Tick now d)"
| "det_Tick rate sy now (DVLAN d) = map_prod id DVLAN (vlan_Tick (sy_linkUp sy) now d)"

fun det_Snapshot :: "Detector \<Rightarrow> DetectorSnapshot" where
  "det_Snapshot (DIGMP d) = igmp_Snapshot d"
| "det_Snapshot (DLLDP d) = lldp_Snapshot d"
| "det_Snapshot (DRogue d) = rogue_Snapshot d"
| "det_Snapshot (DDup d) = dup_Snapshot d"
| "det_Snapshot (DPTP d) = ptp_Snapshot d"
| "det_Snapshot (DStorm d) = storm_Snapshot d"
| "det_Snapshot (DIdle d) = idle_Snapshot d"
| "det_Snapshot (DStatic d) = static_Snapshot d"
| "det_Snapshot (DCensus d) = ggo_Snapshot d"
| "det_Snapshot (DConfig d) = ggoh_Snapshot d"
| "det_Snapshot (DVLAN d) = vlan_Snapshot d"

section \<open>What is watched\<close>

record Spec =
  ms_Iface :: string
  ms_Greengo :: bool
  ms_InterfaceIPs :: "byte list list"
  ms_InterfaceMAC :: "byte list"
  ms_InterfaceMACSet :: bool
  ms_Pools :: "PoolRange list"
  ms_ConfiguredVIDs :: "int list"
  ms_LeaseLifetime :: int
  ms_WatchVLANs :: bool
  ms_RawTrunkOnly :: bool

record Thresholds =
  th_IGMPAbsence :: int
  th_StormPPS :: int

text \<open>\<open>strings.LastIndexByte(iface, '.')\<close> and the number behind it.\<close>

definition vidFromIface :: "string \<Rightarrow> int" where
  "vidFromIface iface =
    (if CHR ''.'' \<in> set iface
     then (case Atoi (rev (takeWhile (\<lambda>c. c \<noteq> CHR ''.'') (rev iface))) of Some v \<Rightarrow> v | None \<Rightarrow> 0)
     else 0)"

definition newDetectors :: "Spec \<Rightarrow> Thresholds \<Rightarrow> Detector list" where
  "newDetectors spec th =
    (if ms_RawTrunkOnly spec then [DVLAN (newVLANDetector (ms_Iface spec) (ms_ConfiguredVIDs spec))]
     else let infra = map ip4ToU32 (ms_InterfaceIPs spec); vid = vidFromIface (ms_Iface spec) in
       [DIGMP (newIGMPDetector (ms_Iface spec) (th_IGMPAbsence th)),
        DLLDP (newLLDPDetector (ms_Iface spec)),
        DRogue (newRogueDHCPDetector (ms_Iface spec) (ms_InterfaceMAC spec) (ms_InterfaceMACSet spec) vid 0),
        DDup (newDuplicateIPDetector (ms_Iface spec) vid 0),
        DPTP (newPTPDetector (ms_Iface spec) 0),
        DStorm (newStormDetector (ms_Iface spec) (th_StormPPS th)),
        DIdle (newIdleDetector (ms_Iface spec)),
        DStatic (newStaticInPoolDetector (ms_Iface spec) (ms_Pools spec) infra 0 (ms_LeaseLifetime spec))]
       @ (if ms_Greengo spec
          then [DCensus (newGreengoDetector (ms_Iface spec) 0 vid), DConfig (newGreengoHDetector (ms_Iface spec) 0 vid)]
          else [])
       @ (if ms_WatchVLANs spec then [DVLAN (newVLANDetector (ms_Iface spec) (ms_ConfiguredVIDs spec))] else []))"

section \<open>One monitor\<close>

record detectorSlot =
  sl_d :: Detector
  sl_kind :: string
  sl_counterFed :: bool
  sl_degraded :: bool

record Monitor =
  mo_spec :: Spec
  mo_detectors :: "detectorSlot list"
  mo_frameClockOffset :: int
  mo_lastTickNow :: int
  mo_prevBlind :: bool
  mo_haveTick :: bool

definition safeKind :: "Detector \<Rightarrow> string" where
  "safeKind d = (let got = ds_Kind (det_Snapshot d) in if got \<noteq> [] then got else ''detector'')"

definition counterFed :: "Detector \<Rightarrow> bool" where
  "counterFed d = (case d of DStorm _ \<Rightarrow> True | DIdle _ \<Rightarrow> True | _ \<Rightarrow> False)"

definition newMonitor :: "Spec \<Rightarrow> Detector list \<Rightarrow> Monitor" where
  "newMonitor spec detectors =
    \<lparr>mo_spec = spec,
     mo_detectors = map (\<lambda>d. \<lparr>sl_d = d, sl_kind = safeKind d, sl_counterFed = counterFed d, sl_degraded = False\<rparr>) detectors,
     mo_frameClockOffset = 0, mo_lastTickNow = 0, mo_prevBlind = False, mo_haveTick = False\<rparr>"

definition frameNow :: "int \<Rightarrow> Monitor \<Rightarrow> int" where
  "frameNow clock m = clock - mo_frameClockOffset m"

definition resetTickBaseline :: "Monitor \<Rightarrow> Monitor" where
  "resetTickBaseline m = m\<lparr>mo_prevBlind := False, mo_haveTick := False\<rparr>"

text \<open>\<open>bad\<close> says that this call panics; the detector is then never called again.\<close>

definition consumeOne :: "bool \<Rightarrow> Frame \<Rightarrow> int \<Rightarrow> detectorSlot \<Rightarrow> detectorSlot" where
  "consumeOne bad f now s = (if bad then s\<lparr>sl_degraded := True\<rparr> else s\<lparr>sl_d := det_Consume f now (sl_d s)\<rparr>)"

definition handleFrame :: "(nat \<Rightarrow> bool) \<Rightarrow> Frame \<Rightarrow> int \<Rightarrow> int \<Rightarrow> Monitor \<Rightarrow> Monitor" where
  "handleFrame bad f clock1 clock2 m =
    m\<lparr>mo_detectors := map (\<lambda>(i, s). if sl_degraded s then s
        else consumeOne (bad i) f (if sl_counterFed s then clock2 else frameNow clock1 m) s)
      (enumerate 0 (mo_detectors m))\<rparr>"

fun set_frames_dropped :: "bool \<Rightarrow> Detector \<Rightarrow> Detector" where
  "set_frames_dropped blind (DStorm d) = DStorm (setFramesDropped blind d)"
| "set_frames_dropped blind d = d"

definition tickOne :: "(u64 \<Rightarrow> int \<Rightarrow> int) \<Rightarrow> bool \<Rightarrow> sysState \<Rightarrow> int \<Rightarrow> detectorSlot \<Rightarrow> Event list \<times> detectorSlot" where
  "tickOne rate bad sy now s =
    (if bad then ([], s\<lparr>sl_degraded := True\<rparr>)
     else let (evs, d) = det_Tick rate sy now (sl_d s) in (evs, s\<lparr>sl_d := d\<rparr>))"

definition unavailable :: "string \<Rightarrow> DetectorSnapshot" where
  "unavailable kind = \<lparr>ds_Kind = kind, ds_Severity = SevInfo, ds_Subject = [],
     ds_Text = ''detector unavailable (internal fault)'', ds_Fields = []\<rparr>"

definition snapshotOne :: "bool \<Rightarrow> detectorSlot \<Rightarrow> DetectorSnapshot \<times> detectorSlot" where
  "snapshotOne bad s =
    (if sl_degraded s then (unavailable (sl_kind s), s)
     else if bad then (unavailable (sl_kind s), s\<lparr>sl_degraded := True\<rparr>)
     else (det_Snapshot (sl_d s), s))"

text \<open>The pool hosts of the last static-in-pool detector that is not degraded.\<close>

definition unleased_hosts :: "detectorSlot list \<Rightarrow> PoolHost list" where
  "unleased_hosts ss = fold (\<lambda>s hosts. case sl_d s of DStatic d \<Rightarrow> if sl_degraded s then hosts else unleasedPoolHosts d | _ \<Rightarrow> hosts) ss []"

definition publishSnapshot :: "(nat \<Rightarrow> bool) \<Rightarrow> bool \<Rightarrow> Monitor \<Rightarrow> Snapshot \<times> Monitor" where
  "publishSnapshot bad available m =
    (let rs = map (\<lambda>(i, s). snapshotOne (bad i) s) (enumerate 0 (mo_detectors m)) in
     (\<lparr>sn_Iface = ms_Iface (mo_spec m), sn_Available = available,
       sn_Note = (if available then [] else ''monitoring idle - no capture socket (dev mode or no privilege)''),
       sn_Detectors = map fst rs, sn_UnleasedPoolHosts = unleased_hosts (map snd rs)\<rparr>,
      m\<lparr>mo_detectors := map snd rs\<rparr>))"

record tickInput =
  ti_now :: int
  ti_now2 :: int
  ti_drops :: "(u32 \<times> u32) option"
  ti_sys :: sysState
  ti_badTick :: "nat \<Rightarrow> bool"
  ti_badSnap :: "nat \<Rightarrow> bool"

definition is_blind :: "tickInput \<Rightarrow> bool" where
  "is_blind t = (let (tpDrops, chanDrops) = (case ti_drops t of Some x \<Rightarrow> x | None \<Rightarrow> (0, 0)) in tpDrops > 0 \<or> chanDrops > 0)"

definition advance_offset :: "int \<Rightarrow> Monitor \<Rightarrow> Monitor" where
  "advance_offset now m =
    (if mo_haveTick m \<and> mo_prevBlind m
     then m\<lparr>mo_frameClockOffset := mo_frameClockOffset m + (now - mo_lastTickNow m)\<rparr> else m)"

definition tick_slot :: "(u64 \<Rightarrow> int \<Rightarrow> int) \<Rightarrow> tickInput \<Rightarrow> Monitor \<Rightarrow> nat \<times> detectorSlot \<Rightarrow> Event list \<times> detectorSlot" where
  "tick_slot rate t m x =
    (let (i, s) = x in
     if sl_degraded s then ([], s)
     else tickOne rate (ti_badTick t i) (ti_sys t) (if sl_counterFed s then ti_now t else frameNow (ti_now2 t) m)
            (s\<lparr>sl_d := set_frames_dropped (is_blind t) (sl_d s)\<rparr>))"

definition onTick :: "(u64 \<Rightarrow> int \<Rightarrow> int) \<Rightarrow> tickInput \<Rightarrow> bool \<Rightarrow> Monitor \<Rightarrow> (Event list \<times> Snapshot) \<times> Monitor" where
  "onTick rate t available m0 =
    (let m = advance_offset (ti_now t) m0;
         rs = map (tick_slot rate t m) (enumerate 0 (mo_detectors m));
         (snap, m2) = publishSnapshot (ti_badSnap t) available (m\<lparr>mo_detectors := map snd rs\<rparr>)
     in ((concat (map fst rs), snap),
         m2\<lparr>mo_prevBlind := is_blind t, mo_lastTickNow := ti_now t, mo_haveTick := True\<rparr>))"

section \<open>Serving\<close>

datatype cap_event =
    CapFrame "nat \<Rightarrow> bool" Frame int int
  | CapTick tickInput
  | CapClosed bool
  | CapPanic

datatype capture = OpenFails string | StopDuringOpen | Opened bool "cap_event list"

datatype mon_out = Sunk Event | Published Snapshot

definition errSnifferClosed :: string where "errSnifferClosed = ''netmon: capture socket closed''"

text \<open>The select loop.  The list ends when the quit channel is chosen; \<open>CapClosed quit\<close> is the
  closed frame channel with \<open>quit\<close> telling whether \<open>Stop\<close> closed it.\<close>

fun serve :: "(u64 \<Rightarrow> int \<Rightarrow> int) \<Rightarrow> bool \<Rightarrow> cap_event list \<Rightarrow> Monitor \<Rightarrow> mon_out list \<times> (bool \<times> string option) \<times> Monitor" where
  "serve rate available [] m = ([], (False, None), m)"
| "serve rate available (CapClosed quit # evs) m = ([], (False, if quit then None else Some errSnifferClosed), m)"
| "serve rate available (CapPanic # evs) m = ([], (True, None), m)"
| "serve rate available (CapFrame bad f c1 c2 # evs) m = serve rate available evs (handleFrame bad f c1 c2 m)"
| "serve rate available (CapTick t # evs) m =
     (let ((es, snap), m1) = onTick rate t available m;
          (out, res, m2) = serve rate available evs m1
      in (map Sunk es @ [Published snap] @ out, res, m2))"

definition serveOnce :: "(u64 \<Rightarrow> int \<Rightarrow> int) \<Rightarrow> capture \<Rightarrow> Monitor \<Rightarrow> mon_out list \<times> (bool \<times> string option) \<times> Monitor" where
  "serveOnce rate c m =
    (case c of
       OpenFails e \<Rightarrow> ([], (False, Some e), m)
     | StopDuringOpen \<Rightarrow> ([], (False, None), m)
     | Opened available evs \<Rightarrow> serve rate available evs (resetTickBaseline m))"

definition markPermanentlyDegraded :: "Monitor \<Rightarrow> mon_out list" where
  "markPermanentlyDegraded m =
    [Published \<lparr>sn_Iface = ms_Iface (mo_spec m), sn_Available = False, sn_Note = ''monitoring unavailable - repeated fault'',
       sn_Detectors = [], sn_UnleasedPoolHosts = []\<rparr>,
     Sunk \<lparr>ev_Action = ''MONITOR_DEGRADED'', ev_Target = ms_Iface (mo_spec m), ev_Before = [], ev_After = [],
       ev_Severity = SevError\<rparr>]"

datatype fate = Stopped | GivenUp

text \<open>The restart loop: each entry is the capture of one iteration and whether \<open>Stop\<close>
  interrupts the backoff after it; the list ends when the check at the top of the loop sees
  \<open>quit\<close>.  The result is the output, the backoffs slept, and how the goroutine ended.\<close>

fun run_monitor :: "(u64 \<Rightarrow> int \<Rightarrow> int) \<Rightarrow> int \<Rightarrow> int \<Rightarrow> (capture \<times> bool) list \<Rightarrow> Monitor \<Rightarrow> mon_out list \<times> int list \<times> fate" where
  "run_monitor rate budget backoff [] m = ([], [], Stopped)"
| "run_monitor rate budget backoff ((c, quit) # cs) m =
    (let (out, (panicked, err), m1) = serveOnce rate c m in
     if \<not> panicked \<and> err = None then (out, [], Stopped)
     else if budget - 1 \<le> 0 then (out @ markPermanentlyDegraded m1, [], GivenUp)
     else if quit then (out, [backoff], Stopped)
     else let (out2, sleeps, fate) =
         run_monitor rate (budget - 1) (if backoff * 2 > maxBackoff then maxBackoff else backoff * 2) cs m1
       in (out @ out2, backoff # sleeps, fate))"

section \<open>The manager\<close>

record MonitorManager =
  mm_monitors :: "(string \<times> Monitor) list"
  mm_store :: store

definition newManager :: MonitorManager where
  "newManager = \<lparr>mm_monitors = [], mm_store = []\<rparr>"

definition Running :: "MonitorManager \<Rightarrow> string list" where
  "Running mm = sort (map fst (mm_monitors mm))"

definition mm_SnapshotAll :: "MonitorManager \<Rightarrow> Snapshot list" where
  "mm_SnapshotAll mm = SnapshotAll (mm_store mm)"

definition mm_Stop :: "MonitorManager \<Rightarrow> MonitorManager" where
  "mm_Stop mm = \<lparr>mm_monitors = [], mm_store = fold (\<lambda>(iface, mon). store_Remove iface) (mm_monitors mm) (mm_store mm)\<rparr>"

definition mm_enabled :: "(string \<Rightarrow> string) option \<Rightarrow> bool" where
  "mm_enabled getState =
    (case getState of
       None \<Rightarrow> True
     | Some g \<Rightarrow> ToLower (TrimSpace (g ''netmon_enabled'')) \<notin> {''0'', ''false'', ''off'', ''no''})"

definition positive_setting :: "string \<Rightarrow> int option" where
  "positive_setting v = (if v = [] then None
     else case Atoi (TrimSpace v) of Some n \<Rightarrow> if n > 0 then Some n else None | None \<Rightarrow> None)"

definition loadThresholds :: "(string \<Rightarrow> string) option \<Rightarrow> Thresholds" where
  "loadThresholds getState =
    (case getState of
       None \<Rightarrow> \<lparr>th_IGMPAbsence = defaultIGMPAbsence, th_StormPPS = defaultStormPPS\<rparr>
     | Some g \<Rightarrow>
        \<lparr>th_IGMPAbsence = (case positive_setting (g ''netmon_igmp_timeout'') of
            Some n \<Rightarrow> i64 (n * second) | None \<Rightarrow> defaultIGMPAbsence),
         th_StormPPS = (case positive_setting (g ''netmon_storm_pps'') of Some n \<Rightarrow> n | None \<Rightarrow> defaultStormPPS)\<rparr>)"

definition validIface :: "string \<Rightarrow> bool" where
  "validIface iface =
    (if iface = ''eth0'' then True
     else if has_prefix iface ''eth0.'' then Atoi (drop 5 iface) \<noteq> None
     else False)"

definition start_one :: "Thresholds \<Rightarrow> Spec \<Rightarrow> MonitorManager \<Rightarrow> MonitorManager" where
  "start_one th spec mm =
    (if \<not> validIface (ms_Iface spec) then mm
     else mm\<lparr>mm_monitors := AList.update (ms_Iface spec) (newMonitor spec (newDetectors spec th)) (mm_monitors mm)\<rparr>)"

definition mm_Start :: "(string \<Rightarrow> string) option \<Rightarrow> Spec list \<Rightarrow> MonitorManager \<Rightarrow> MonitorManager" where
  "mm_Start getState specs mm0 =
    (let mm = mm_Stop mm0 in
     if \<not> mm_enabled getState then mm
     else fold (start_one (loadThresholds getState)) specs mm)"

definition sysfsLinkReader :: "string option \<Rightarrow> bool" where
  "sysfsLinkReader file = (case file of None \<Rightarrow> True | Some b \<Rightarrow> TrimSpace b = ''1'')"

definition sysfsRxReader :: "string option \<Rightarrow> u64 option" where
  "sysfsRxReader file =
    (case file of
       None \<Rightarrow> None
     | Some b \<Rightarrow> let s = TrimSpace b in
        if s = [] \<or> \<not> list_all is_digit s \<or> dec_value s \<ge> 2 ^ 64 then None else Some (word_of_int (dec_value s)))"

lemma set_alist_update: "set (AList.update k v m) \<subseteq> insert (k, v) (set m)"
  by (induction m) auto

end
