(* ===== verification/FrameClock.thy ===== *)
theory FrameClock
  imports Monitor
begin

text \<open>
  The frame clock of the monitor: a tick after a blind interval raises no false loss, because the
  detectors that judge absence see the time of the tick before, and whatever they heard since is
  newer than that.
\<close>

section \<open>Presence at a frozen clock\<close>

definition pres_ok :: "presence \<Rightarrow> bool" where
  "pres_ok p \<longleftrightarrow> 0 \<le> pr_absenceAfter p"

definition pres_fresh :: "int \<Rightarrow> presence \<Rightarrow> bool" where
  "pres_fresh t p \<longleftrightarrow> pres_ok p \<and> (pr_present p \<longrightarrow> pr_seen p \<and> t - pr_lastSeen p \<le> pr_absenceAfter p)"

lemma pres_new [simp]: "pres_ok (newPresence c a) \<longleftrightarrow> 0 \<le> a" "pres_fresh t (newPresence c a) \<longleftrightarrow> 0 \<le> a"
  by (simp_all add: pres_ok_def pres_fresh_def newPresence_def)

lemma pres_sighting [simp]: "pres_ok (sighting now p) \<longleftrightarrow> pres_ok p"
  by (simp add: pres_ok_def sighting_def Let_def)

lemma pres_fresh_ok: "pres_fresh t p \<Longrightarrow> pres_ok p"
  by (simp add: pres_fresh_def)

lemma fresh_sighting: "pres_fresh t p \<Longrightarrow> t \<le> now \<Longrightarrow> pres_fresh t (sighting now p)"
  by (auto simp: pres_fresh_def pres_ok_def sighting_def Let_def)

lemma fresh_transition: "pres_ok p \<Longrightarrow> pres_fresh now (snd (transition now p))"
  by (auto simp: pres_fresh_def pres_ok_def transition_def)

lemma fresh_not_lost: "pres_fresh now p \<Longrightarrow> fst (transition now p) \<noteq> - 1"
  by (auto simp: pres_fresh_def transition_def)

lemma touch_set:
  assumes "(k', v) \<in> set (touch n at new f k m)"
  shows "(k', v) \<in> set m \<or> (k' = k \<and> (v = f new \<or> (\<exists>w. (k, w) \<in> set m \<and> v = f w)))"
  using assms set_alist_update evict_subset [of at m]
  by (fastforce simp: touch_def dest: map_of_SomeD split: option.splits if_splits)

section \<open>Detectors at a frozen clock\<close>

text \<open>The presence states of a detector that report a loss, with the absence limit of new ones.\<close>

fun presences :: "Detector \<Rightarrow> presence set" where
  "presences (DIGMP d) = {ig_pres d}"
| "presences (DRogue d) = (\<lambda>x. rs_pres (snd x)) ` set (rd_servers d)"
| "presences (DDup d) = (\<lambda>x. ce_pres (snd x)) ` set (di_conflicts d)"
| "presences (DPTP d) = (\<Union>x \<in> set (pt_domains d). (\<lambda>g. pg_pres (snd g)) ` set (pd_gms (snd x)))"
| "presences _ = {}"

fun limits_ok :: "Detector \<Rightarrow> bool" where
  "limits_ok (DRogue d) = (0 \<le> rd_absence d)"
| "limits_ok (DDup d) = (0 \<le> di_absence d)"
| "limits_ok (DPTP d) = (0 \<le> pt_absence d \<and> (\<forall>x \<in> set (pt_domains d). distinct (map fst (pd_gms (snd x)))))"
| "limits_ok _ = True"

definition det_ok :: "Detector \<Rightarrow> bool" where
  "det_ok d \<longleftrightarrow> limits_ok d \<and> (\<forall>p \<in> presences d. pres_ok p)"

definition det_fresh :: "int \<Rightarrow> Detector \<Rightarrow> bool" where
  "det_fresh t d \<longleftrightarrow> limits_ok d \<and> (\<forall>p \<in> presences d. pres_fresh t p)"

definition loss_rows :: "string set" where
  "loss_rows = {''IGMP querier lost'', ''Rogue DHCP server gone'', ''Address conflict cleared'', ''PTP grandmaster lost''}"

text \<open>The rows a detector that judges no absence never writes: those, and the monitor's own.\<close>

definition kept_rows :: "string set" where
  "kept_rows = insert ''MONITOR_DEGRADED'' loss_rows"

text \<open>A property of presences that a sighting keeps and a new presence has is kept by a frame.\<close>

lemma distinct_touch: "distinct (map fst m) \<Longrightarrow> distinct (map fst (touch n at new f k m))"
  by (simp add: touch_def evictStalest_def distinct_update distinct_delete split: option.split)

lemma igmp_Consume_cases: "ig_pres (igmp_Consume f now d) = ig_pres d \<or> ig_pres (igmp_Consume f now d) = sighting now (ig_pres d)"
  by (simp add: igmp_Consume_def Let_def split: option.split)

lemma rogue_Consume_cases: "rogue_Consume f now d = d \<or> (\<exists>sid mac. rogue_Consume f now d = rogue_seen d sid mac now)"
  by (simp add: rogue_Consume_def Let_def split: option.split) blast

lemma dup_Consume_cases: "dup_Consume f now d = d \<or> (\<exists>fresh k. dup_Consume f now d =
    d\<lparr>di_conflicts := touch maxDupIPConflicts (\<lambda>c. pr_lastSeen (ce_pres c)) fresh
       (\<lambda>c. c\<lparr>ce_declines := ce_declines c + 1, ce_pres := sighting now (ce_pres c)\<rparr>) k (di_conflicts d)\<rparr>
    \<and> ce_pres fresh = newPresence 0 (di_absence d))"
proof (cases "dup_Consume f now d = d")
  case False
  then obtain a b c where s: "served_udp (di_servedVID d) f = Some (a, b, c)"
    by (auto simp: dup_Consume_def split: option.splits prod.splits)
  show ?thesis using False
    by (intro disjI2 exI [of _ "op_requestedIP (parseDHCPOptions (drop (c + dhcpOptsOff) (fr_Data f)))"]
        exI [of _ "\<lparr>ce_pres = newPresence 0 (di_absence d),
          ce_ip = ipString (op_requestedIP (parseDHCPOptions (drop (c + dhcpOptsOff) (fr_Data f)))), ce_declines = 0, ce_present = False\<rparr>"])
      (auto simp: dup_Consume_def s Let_def split: if_splits)
qed simp

definition domain_of :: "ptpDetector \<Rightarrow> byte \<Rightarrow> ptpDomain" where
  "domain_of d b = (case map_of (pt_domains d) b of Some z \<Rightarrow> z | None \<Rightarrow> new_domain)"

lemma ptp_Consume_cases: "ptp_Consume f now d = d \<or> (\<exists>b ptp i fresh. ptp_Consume f now d =
    d\<lparr>pt_domains := AList.update b ((domain_of d b)\<lparr>pd_gms := touch maxPTPGMs (\<lambda>g. pr_lastSeen (pg_pres g)) fresh (announce ptp now) i
        (pd_gms (domain_of d b))\<rparr>) (pt_domains d)\<rparr>
    \<and> pg_pres fresh = newPresence 0 (pt_absence d))"
proof (cases "ptp_Consume f now d = d")
  case False
  then obtain ptp where "ptp_Consume f now d =
    d\<lparr>pt_domains := AList.update (ptp ! 4) ((domain_of d (ptp ! 4))\<lparr>pd_gms := touch maxPTPGMs (\<lambda>g. pr_lastSeen (pg_pres g))
        \<lparr>pg_pres = newPresence 0 (pt_absence d), pg_identity = hex64 (be64 ptp 53), pg_priority1 = 0,
              pg_priority2 = 0, pg_clockClass = 0, pg_present = False\<rparr> (announce ptp now) (be64 ptp 53)
        (pd_gms (domain_of d (ptp ! 4)))\<rparr>) (pt_domains d)\<rparr>"
    unfolding ptp_Consume_def Let_def domain_of_def by (cases "ptpPayload (fr_Data f)") (auto split: if_splits)
  then show ?thesis by (metis ptpGM.select_convs(1))
qed simp

lemma touch_all:
  assumes "\<forall>x \<in> set m. Q (snd x)" "Q (f new)" "\<And>v. Q v \<Longrightarrow> Q (f v)"
  shows "\<forall>x \<in> set (touch n at new f k m). Q (snd x)"
  using touch_set [of _ _ n at new f k m] assms by fastforce

lemma Consume_presences:
  assumes new: "\<And>a. 0 \<le> a \<Longrightarrow> P (newPresence 0 a)" and see: "\<And>p. P p \<Longrightarrow> P (sighting now p)"
    and d: "limits_ok d" "\<forall>p \<in> presences d. P p"
  shows "limits_ok (det_Consume f now d) \<and> (\<forall>p \<in> presences (det_Consume f now d). P p)"
proof (cases d)
  case (DIGMP x)
  then show ?thesis using d see igmp_Consume_cases [of f now x] by auto
next
  case (DRogue x)
  have r: "\<forall>y \<in> set (rd_servers (rogue_seen x sid mac now)). P (rs_pres (snd y))" for sid mac
    unfolding rogue_seen_def rogueDHCP.select_convs rogueDHCP.update_convs
    using touch_all [of "rd_servers x" "\<lambda>s. P (rs_pres s)" "\<lambda>s. s\<lparr>rs_mac := (case mac of Some m \<Rightarrow> macString m | None \<Rightarrow> rs_mac s),
      rs_pres := sighting now (rs_pres s)\<rparr>" "\<lparr>rs_pres = newPresence 0 (rd_absence x), rs_ip = ipString sid, rs_mac = [], rs_present = False\<rparr>"
      maxRogueServers "\<lambda>s. pr_lastSeen (rs_pres s)" sid] d new see DRogue by simp
  have l: "rd_absence (rogue_seen x sid mac now) = rd_absence x" for sid mac by (simp add: rogue_seen_def)
  show ?thesis using rogue_Consume_cases [of f now x]
  proof (elim disjE exE)
    show "rogue_Consume f now x = rogue_seen x sid mac now \<Longrightarrow> ?thesis" for sid mac
      using d DRogue l r [of sid mac] by simp
  qed (use d DRogue in simp)
next
  case (DDup x)
  show ?thesis
  proof (cases "dup_Consume f now x = x")
    case False
    then obtain fresh k where x': "dup_Consume f now x =
      x\<lparr>di_conflicts := touch maxDupIPConflicts (\<lambda>c. pr_lastSeen (ce_pres c)) fresh
         (\<lambda>c. c\<lparr>ce_declines := ce_declines c + 1, ce_pres := sighting now (ce_pres c)\<rparr>) k (di_conflicts x)\<rparr>"
      "ce_pres fresh = newPresence 0 (di_absence x)" using dup_Consume_cases [of f now x] by blast
    have "\<forall>y \<in> set (di_conflicts (dup_Consume f now x)). P (ce_pres (snd y))"
      using touch_all [of "di_conflicts x" "\<lambda>c. P (ce_pres c)" "\<lambda>c. c\<lparr>ce_declines := ce_declines c + 1, ce_pres := sighting now (ce_pres c)\<rparr>"
        fresh maxDupIPConflicts "\<lambda>c. pr_lastSeen (ce_pres c)" k] d new see DDup x' by simp
    then show ?thesis using d DDup x' by auto
  qed (use d DDup in simp)
next
  case (DPTP x)
  show ?thesis
  proof (cases "ptp_Consume f now x = x")
    case False
    then obtain b ptp i fresh where x': "ptp_Consume f now x =
      x\<lparr>pt_domains := AList.update b ((domain_of x b)\<lparr>pd_gms := touch maxPTPGMs (\<lambda>g. pr_lastSeen (pg_pres g)) fresh (announce ptp now) i
          (pd_gms (domain_of x b))\<rparr>) (pt_domains x)\<rparr>"
      "pg_pres fresh = newPresence 0 (pt_absence x)" using ptp_Consume_cases [of f now x] by blast
    let ?gms = "touch maxPTPGMs (\<lambda>g. pr_lastSeen (pg_pres g)) fresh (announce ptp now) i (pd_gms (domain_of x b))"
    have o: "distinct (map fst (pd_gms (domain_of x b)))" "\<forall>g \<in> set (pd_gms (domain_of x b)). P (pg_pres (snd g))"
    proof -
      have "distinct (map fst (pd_gms (domain_of x b))) \<and> (\<forall>g \<in> set (pd_gms (domain_of x b)). P (pg_pres (snd g)))"
      proof (cases "map_of (pt_domains x) b")
        case (Some z)
        then have "(b, z) \<in> set (pt_domains x)" by (rule map_of_SomeD)
        then show ?thesis using d DPTP Some by (force simp: domain_of_def)
      qed (simp add: domain_of_def new_domain_def)
      then show "distinct (map fst (pd_gms (domain_of x b)))" "\<forall>g \<in> set (pd_gms (domain_of x b)). P (pg_pres (snd g))"
        by simp_all
    qed
    have "\<forall>g \<in> set ?gms. P (pg_pres (snd g))"
      using touch_all [of "pd_gms (domain_of x b)" "\<lambda>g. P (pg_pres g)" "announce ptp now" fresh maxPTPGMs
        "\<lambda>g. pr_lastSeen (pg_pres g)" i] o(2) new see d DPTP x'(2) by (simp add: announce_def)
    moreover have "distinct (map fst ?gms)" using o(1) by (rule distinct_touch)
    moreover have "set (pt_domains (ptp_Consume f now x)) \<subseteq> insert (b, (domain_of x b)\<lparr>pd_gms := ?gms\<rparr>) (set (pt_domains x))"
      unfolding x'(1) using set_alist_update by simp
    ultimately show ?thesis using d DPTP x'(1) by fastforce
  qed (use d DPTP in simp)
qed (use d in \<open>simp_all\<close>)

lemma Consume_ok: "det_ok d \<Longrightarrow> det_ok (det_Consume f now d)"
  unfolding det_ok_def by (rule Consume_presences) auto

lemma Consume_fresh: "det_fresh t d \<Longrightarrow> t \<le> now \<Longrightarrow> det_fresh t (det_Consume f now d)"
  unfolding det_fresh_def by (rule Consume_presences) (auto intro: fresh_sighting)

lemma igmp_Tick_fresh:
  "pres_ok (ig_pres d) \<Longrightarrow> pres_fresh now (ig_pres (snd (igmp_Tick now d)))"
  using fresh_transition [of "ig_pres d" now] by (auto simp: igmp_Tick_def Let_def split_beta)

lemma rogue_Tick_fresh:
  assumes "\<forall>x \<in> set (rd_servers d). pres_ok (rs_pres (snd x))"
  shows "\<forall>x \<in> set (rd_servers (snd (rogue_Tick now d))). pres_fresh now (rs_pres (snd x))"
proof -
  have "pres_fresh now (rs_pres (snd y))" if "y \<in> set (fst (rogue_tick_one i now x))" "x \<in> set (rd_servers d)" for y x i
    using that assms fresh_transition [of "rs_pres (snd x)" now]
    by (auto simp: rogue_tick_one_def Let_def split_beta split: if_splits)
  then show ?thesis by (auto simp: rogue_Tick_def Let_def)
qed

lemma dup_Tick_fresh:
  assumes "\<forall>x \<in> set (di_conflicts d). pres_ok (ce_pres (snd x))"
  shows "\<forall>x \<in> set (di_conflicts (snd (dup_Tick now d))). pres_fresh now (ce_pres (snd x))"
proof -
  have "pres_fresh now (ce_pres (snd y))" if "y \<in> set (fst (dup_tick_one i now x))" "x \<in> set (di_conflicts d)" for y x i
    using that assms fresh_transition [of "ce_pres (snd x)" now]
    by (auto simp: dup_tick_one_def Let_def split_beta split: if_splits)
  then show ?thesis by (auto simp: dup_Tick_def Let_def)
qed

text \<open>The grandmasters of a domain are handled one by one: those done are fresh, the others sound.\<close>

definition gms_done :: "int \<Rightarrow> u64 set \<Rightarrow> (u64 \<times> ptpGM) list \<Rightarrow> bool" where
  "gms_done now D gms \<longleftrightarrow> distinct (map fst gms)
     \<and> (\<forall>x \<in> set gms. if fst x \<in> D then pres_fresh now (pg_pres (snd x)) else pres_ok (pg_pres (snd x)))"

lemma set_update_distinct:
  "distinct (map fst m) \<Longrightarrow> set (AList.update i h m) = insert (i, h) {x \<in> set m. fst x \<noteq> i}"
  by (induction m) (auto simp: image_iff)

lemma gms_done_update:
  "gms_done now D gms \<Longrightarrow> pres_fresh now (pg_pres h) \<Longrightarrow> gms_done now (insert i D) (AList.update i h gms)"
  by (auto simp: gms_done_def distinct_update set_update_distinct)

lemma gms_done_delete: "gms_done now D gms \<Longrightarrow> gms_done now (insert i D) (AList.delete i gms)"
  unfolding gms_done_def using distinct_delete [of gms i] by (auto simp: AList.delete_eq)

lemma ptp_tick_gm_done:
  assumes "gms_done now D (pd_gms pd)"
  shows "gms_done now (insert i D) (pd_gms (snd (ptp_tick_gm iface b now i (evs, pd))))"
    "fst ` set (pd_gms (snd (ptp_tick_gm iface b now i (evs, pd)))) \<subseteq> fst ` set (pd_gms pd)"
proof -
  have "gms_done now (insert i D) (pd_gms (snd (ptp_tick_gm iface b now i (evs, pd))))
    \<and> fst ` set (pd_gms (snd (ptp_tick_gm iface b now i (evs, pd)))) \<subseteq> fst ` set (pd_gms pd)"
  proof (cases "map_of (pd_gms pd) i")
    case None
    then have "i \<notin> fst ` set (pd_gms pd)" by (simp add: map_of_eq_None_iff)
    then show ?thesis using assms None by (auto simp: ptp_tick_gm_def gms_done_def)
  next
    case (Some g)
    note m = map_of_SomeD [OF Some]
    have "pres_ok (pg_pres g)"
      using assms m pres_fresh_ok by (fastforce simp: gms_done_def split: if_splits)
    then have g: "pres_fresh now (snd (transition now (pg_pres g)))" by (rule fresh_transition)
    have k: "i \<in> fst ` set (pd_gms pd)" using m by (auto simp: image_iff intro: bexI [of _ "(i, g)"])
    obtain e p where tr: "transition now (pg_pres g) = (e, p)" by fastforce
    consider h where "pg_pres h = snd (transition now (pg_pres g))"
        "pd_gms (snd (ptp_tick_gm iface b now i (evs, pd))) = AList.update i h (pd_gms pd)"
      | "pd_gms (snd (ptp_tick_gm iface b now i (evs, pd))) = AList.delete i (pd_gms pd)"
    proof (cases "e = - 1")
      case True
      then show ?thesis using that(2) by (simp add: ptp_tick_gm_def Some tr Let_def)
    next
      case False
      then show ?thesis
        using that(1) [of "if e = 1 then g\<lparr>pg_pres := p, pg_present := True\<rparr> else g\<lparr>pg_pres := p\<rparr>"]
        by (cases "e = 1") (simp_all add: ptp_tick_gm_def Some tr Let_def)
    qed
    then show ?thesis
    proof cases
      case 1
      then show ?thesis using gms_done_update [OF assms, of h i] g k by (auto simp: dom_update)
    next
      case 2
      then show ?thesis using gms_done_delete [OF assms, of i] by (auto simp: AList.delete_eq)
    qed
  qed
  then show "gms_done now (insert i D) (pd_gms (snd (ptp_tick_gm iface b now i (evs, pd))))"
    "fst ` set (pd_gms (snd (ptp_tick_gm iface b now i (evs, pd)))) \<subseteq> fst ` set (pd_gms pd)" by blast+
qed

lemma ptp_fold_done:
  "gms_done now D (pd_gms (snd acc)) \<Longrightarrow>
     gms_done now (D \<union> set ids) (pd_gms (snd (fold (ptp_tick_gm iface b now) ids acc)))
     \<and> fst ` set (pd_gms (snd (fold (ptp_tick_gm iface b now) ids acc))) \<subseteq> fst ` set (pd_gms (snd acc))"
proof (induction ids arbitrary: D acc)
  case (Cons i ids)
  note s = ptp_tick_gm_done [OF Cons.prems, where iface = iface and b = b and i = i and evs = "fst acc", simplified]
  show ?case using Cons.IH [OF s(1)] subset_trans [OF _ s(2)] by simp
qed simp

lemma ptp_domain_fresh:
  assumes "gms_done now {} (pd_gms (snd x))"
  shows "distinct (map fst (pd_gms (snd (snd (ptp_tick_domain iface now x)))))
    \<and> (\<forall>g \<in> set (pd_gms (snd (snd (ptp_tick_domain iface now x)))). pres_fresh now (pg_pres (snd g)))"
proof -
  let ?gms = "pd_gms (snd (fold (ptp_tick_gm iface (fst x) now) (map fst (pd_gms (snd x))) ([], snd x)))"
  have "gms_done now (fst ` set (pd_gms (snd x))) ?gms" "fst ` set ?gms \<subseteq> fst ` set (pd_gms (snd x))"
    using ptp_fold_done [of now "{}" "([], snd x)" "map fst (pd_gms (snd x))" iface "fst x"] assms by simp_all
  then have "distinct (map fst ?gms) \<and> (\<forall>g \<in> set ?gms. pres_fresh now (pg_pres (snd g)))"
    unfolding gms_done_def by (meson image_subset_iff)
  then show ?thesis by (simp add: ptp_tick_domain_def Let_def split_beta)
qed

lemma ptp_Tick_fresh:
  assumes "det_ok (DPTP d)" shows "det_fresh now (DPTP (snd (ptp_Tick now d)))"
proof -
  have "gms_done now {} (pd_gms (snd x))" if "x \<in> set (pt_domains d)" for x
    using assms that by (auto simp: det_ok_def gms_done_def)
  then have "distinct (map fst (pd_gms (snd (snd (ptp_tick_domain (pt_iface d) now x)))))
    \<and> (\<forall>g \<in> set (pd_gms (snd (snd (ptp_tick_domain (pt_iface d) now x)))). pres_fresh now (pg_pres (snd g)))"
    if "x \<in> set (pt_domains d)" for x
    using that ptp_domain_fresh by blast
  then show ?thesis using assms by (simp add: det_fresh_def det_ok_def ptp_Tick_def Let_def)
qed

lemma Tick_fresh:
  assumes "det_ok d" shows "det_fresh now (snd (det_Tick rate sy now d))"
proof (cases d)
  case (DPTP x)
  then show ?thesis using ptp_Tick_fresh assms by simp
next
  case (DRogue x)
  then show ?thesis using rogue_Tick_fresh [of x now] assms
    by (auto simp: det_ok_def det_fresh_def rogue_Tick_def Let_def)
next
  case (DDup x)
  then show ?thesis using dup_Tick_fresh [of x now] assms
    by (auto simp: det_ok_def det_fresh_def dup_Tick_def Let_def)
qed (use assms igmp_Tick_fresh in \<open>simp_all add: det_ok_def det_fresh_def\<close>)

lemma fresh_ok: "det_fresh t d \<Longrightarrow> det_ok d"
  by (auto simp: det_fresh_def det_ok_def intro: pres_fresh_ok)

section \<open>Rows at a frozen clock\<close>

definition gm_quiet :: "int \<Rightarrow> Event list \<times> ptpDomain \<Rightarrow> bool" where
  "gm_quiet now acc \<longleftrightarrow> (\<forall>x \<in> set (pd_gms (snd acc)). pres_fresh now (pg_pres (snd x)))
     \<and> (\<forall>e \<in> set (fst acc). ev_Action e \<notin> loss_rows)"

lemma gm_quiet_update:
  assumes "gm_quiet now (evs, pd)" "pres_fresh now (pg_pres h)" "\<forall>e \<in> set new. ev_Action e \<notin> loss_rows"
    and "pd_gms pd' = AList.update i h (pd_gms pd)"
  shows "gm_quiet now (evs @ new, pd')"
  using assms set_alist_update [of i h "pd_gms pd"] by (auto simp: gm_quiet_def)

lemma ptp_tick_gm_quiet:
  assumes "gm_quiet now acc" shows "gm_quiet now (ptp_tick_gm iface b now i acc)"
proof -
  obtain evs pd where acc: "acc = (evs, pd)" by (cases acc)
  show ?thesis
  proof (cases "map_of (pd_gms pd) i")
    case None
    then show ?thesis using assms by (simp add: ptp_tick_gm_def acc)
  next
    case (Some g)
    obtain e p where tr: "transition now (pg_pres g) = (e, p)" by fastforce
    have g: "pres_fresh now (pg_pres g)" using assms map_of_SomeD [OF Some] by (auto simp: gm_quiet_def acc)
    have e: "e \<noteq> - 1" using tr fresh_not_lost [OF g] by simp
    have p: "pres_fresh now p" using tr fresh_transition [OF pres_fresh_ok [OF g], of now] by simp
    show ?thesis
    proof (cases "e = 1")
      case True
      then show ?thesis
        using p assms by (simp add: ptp_tick_gm_def acc Some tr) (rule gm_quiet_update; simp add: loss_rows_def)
    next
      case False
      then show ?thesis
        using p e assms gm_quiet_update [of now evs pd "g\<lparr>pg_pres := p\<rparr>" "[]" "pd\<lparr>pd_gms := AList.update i (g\<lparr>pg_pres := p\<rparr>) (pd_gms pd)\<rparr>" i]
        by (simp add: ptp_tick_gm_def acc Some tr)
    qed
  qed
qed

lemma ptp_fold_quiet: "gm_quiet now acc \<Longrightarrow> gm_quiet now (fold (ptp_tick_gm iface b now) ids acc)"
  by (induction ids arbitrary: acc) (simp_all add: ptp_tick_gm_quiet)

lemma ptp_Tick_quiet:
  assumes "det_fresh now (DPTP d)" "e \<in> set (fst (ptp_Tick now d))"
  shows "ev_Action e \<notin> loss_rows"
proof -
  obtain x where x: "x \<in> set (pt_domains d)" "e \<in> set (fst (ptp_tick_domain (pt_iface d) now x))"
    using assms(2) by (auto simp: ptp_Tick_def Let_def)
  have "gm_quiet now ([], snd x)" using assms(1) x(1) by (simp add: det_fresh_def gm_quiet_def)
  from ptp_fold_quiet [OF this] x(2) show ?thesis
    by (auto simp: ptp_tick_domain_def Let_def split_beta gm_quiet_def)
qed

lemma igmp_Tick_quiet:
  "pres_fresh now (ig_pres i) \<Longrightarrow> e \<in> set (fst (igmp_Tick now i)) \<Longrightarrow> ev_Action e \<notin> loss_rows"
  using fresh_not_lost [of now "ig_pres i"] by (auto simp: igmp_Tick_def Let_def split_beta loss_rows_def split: if_splits)

lemma rogue_Tick_quiet:
  assumes "\<forall>x \<in> set (rd_servers r). pres_fresh now (rs_pres (snd x))" "e \<in> set (fst (rogue_Tick now r))"
  shows "ev_Action e \<notin> loss_rows"
proof -
  obtain x where x: "x \<in> set (rd_servers r)" "e \<in> set (snd (rogue_tick_one (rd_iface r) now x))"
    using assms(2) by (auto simp: rogue_Tick_def Let_def)
  then show ?thesis using fresh_not_lost [of now "rs_pres (snd x)"] assms(1)
    by (auto simp: rogue_tick_one_def Let_def split_beta loss_rows_def split: if_splits)
qed

lemma dup_Tick_quiet:
  assumes "\<forall>x \<in> set (di_conflicts c). pres_fresh now (ce_pres (snd x))" "e \<in> set (fst (dup_Tick now c))"
  shows "ev_Action e \<notin> loss_rows"
proof -
  obtain x where x: "x \<in> set (di_conflicts c)" "e \<in> set (snd (dup_tick_one (di_iface c) now x))"
    using assms(2) by (auto simp: dup_Tick_def Let_def)
  then show ?thesis using fresh_not_lost [of now "ce_pres (snd x)"] assms(1)
    by (auto simp: dup_tick_one_def Let_def split_beta loss_rows_def split: if_splits)
qed

text \<open>The rows of the other detectors are no loss rows at any time.\<close>

lemma vlan_fold_quiet: "\<forall>e \<in> set (fst acc). ev_Action e \<notin> kept_rows \<Longrightarrow>
    \<forall>e \<in> set (fst (fold (vlan_tick_one now) vs acc)). ev_Action e \<notin> kept_rows"
proof (induction vs arbitrary: acc)
  case (Cons v vs)
  have "\<forall>e \<in> set (fst (vlan_tick_one now v acc)). ev_Action e \<notin> kept_rows"
    using Cons.prems by (auto simp: vlan_tick_one_def Let_def split_beta kept_rows_def loss_rows_def)
  then show ?case using Cons.IH by simp
qed simp

lemma other_Tick_quiet:
  "e \<in> set (fst (lldp_Tick up l)) \<Longrightarrow> ev_Action e \<notin> kept_rows"
  "e \<in> set (fst (vlan_Tick up now v)) \<Longrightarrow> ev_Action e \<notin> kept_rows"
  "e \<in> set (fst (idle_Tick rx now i)) \<Longrightarrow> ev_Action e \<notin> kept_rows"
  "e \<in> set (fst (ggoh_Tick now h)) \<Longrightarrow> ev_Action e \<notin> kept_rows"
  using vlan_fold_quiet [of "([], v)" now "sortedSeen v"]
  by (auto simp: lldp_Tick_def vlan_Tick_def idle_Tick_def ggoh_Tick_def Let_def split_beta kept_rows_def loss_rows_def split: if_splits option.splits)

lemma storm_Tick_quiet: "e \<in> set (fst (storm_Tick rate rx now d)) \<Longrightarrow> ev_Action e \<notin> kept_rows"
  using volume_rows(1) [OF surjective_pairing, of rate rx now d] churn_rows(1) [OF surjective_pairing, of now]
  by (auto simp: storm_Tick_def storm_volume_def stp_churn_def Let_def split_beta kept_rows_def loss_rows_def split: if_splits)

lemma static_Tick_quiet: "e \<in> set (fst (static_Tick ls now d)) \<Longrightarrow> ev_Action e \<notin> kept_rows"
proof -
  have "ev_Action e \<notin> kept_rows" if "e \<in> set (snd (tick_host d1 w now x))" for d1 w x
    using that by (auto simp: tick_host_def host_status_def clearEvent_def flagEvent_def Let_def split_beta kept_rows_def loss_rows_def
        split: if_splits option.splits)
  then show "e \<in> set (fst (static_Tick ls now d)) \<Longrightarrow> ev_Action e \<notin> kept_rows"
    by (auto simp: static_Tick_def Let_def)
qed

lemma census_Tick_quiet: "e \<in> set (fst (ggo_Tick ls now d)) \<Longrightarrow> ev_Action e \<notin> kept_rows"
proof -
  assume e: "e \<in> set (fst (ggo_Tick ls now d))"
  obtain d2 e3 where n: "noLease_rows (d2\<lparr>gg_devices := concat (map (fst \<circ> tick_device (gg_warming d2) now) (sort_key fst (gg_devices d)))\<rparr>)
        = (e3, snd (ggo_Tick ls now d))"
    and t: "fst (ggo_Tick ls now d) = concat (map (snd \<circ> tick_device (gg_warming d2) now) (sort_key fst (gg_devices d))) @ e3"
    by (rule ggo_Tick_shape [OF surjective_pairing]) blast
  have rows: "ev_Action r \<in> {''Evenution devices without DHCP lease'', ''Evenution no-lease warning cleared''}" if "r \<in> set e3" for r
    using noLease_rows_edge(1) [OF n] imageI [OF that, of ev_Action] by (auto simp flip: set_map split: if_splits)
  show "ev_Action e \<notin> kept_rows"
    using e t rows [of e] by (auto simp: kept_rows_def loss_rows_def dest!: device_rows)
qed

lemma kept_loss: "r \<notin> kept_rows \<Longrightarrow> r \<notin> loss_rows"
  by (simp add: kept_rows_def)

lemma Tick_quiet:
  assumes "det_fresh now d" "e \<in> set (fst (det_Tick rate sy now d))"
  shows "ev_Action e \<notin> loss_rows"
proof (cases d)
  case (DPTP x)
  then show ?thesis using assms ptp_Tick_quiet by simp
qed (use assms in \<open>auto simp: det_fresh_def dest: igmp_Tick_quiet rogue_Tick_quiet dup_Tick_quiet
    other_Tick_quiet [THEN kept_loss] storm_Tick_quiet [THEN kept_loss] static_Tick_quiet [THEN kept_loss]
    census_Tick_quiet [THEN kept_loss]\<close>)

text \<open>No detector writes the row that says its monitor was given up.\<close>

lemma ptp_gm_rows:
  "\<forall>e \<in> set (fst acc). ev_Action e \<noteq> ''MONITOR_DEGRADED'' \<Longrightarrow>
     \<forall>e \<in> set (fst (fold (ptp_tick_gm iface b now) ids acc)). ev_Action e \<noteq> ''MONITOR_DEGRADED''"
proof (induction ids arbitrary: acc)
  case (Cons i ids)
  have "\<forall>e \<in> set (fst (ptp_tick_gm iface b now i acc)). ev_Action e \<noteq> ''MONITOR_DEGRADED''"
    using Cons.prems by (auto simp: ptp_tick_gm_def Let_def split_beta split: option.splits if_splits)
  then show ?case using Cons.IH by simp
qed simp

lemma no_degraded_row:
  assumes "e \<in> set (fst (det_Tick rate sy now d))"
  shows "ev_Action e \<noteq> ''MONITOR_DEGRADED''"
proof (cases d)
  case (DPTP x)
  then obtain y where "y \<in> set (pt_domains x)" "e \<in> set (fst (ptp_tick_domain (pt_iface x) now y))"
    using assms by (auto simp: ptp_Tick_def Let_def)
  then show ?thesis using ptp_gm_rows [of "([], snd y)"]
    by (auto simp: ptp_tick_domain_def Let_def split_beta)
next
  case (DIGMP x)
  then show ?thesis using assms by (auto simp: igmp_Tick_def Let_def split_beta split: if_splits)
next
  case (DRogue x)
  then show ?thesis using assms by (auto simp: rogue_Tick_def rogue_tick_one_def Let_def split_beta split: if_splits)
next
  case (DDup x)
  then show ?thesis using assms by (auto simp: dup_Tick_def dup_tick_one_def Let_def split_beta split: if_splits)
qed (use assms in \<open>auto simp: kept_rows_def dest: other_Tick_quiet storm_Tick_quiet static_Tick_quiet census_Tick_quiet\<close>)

section \<open>Monitors\<close>

text \<open>The slots of a monitor keep their clock, and their detectors keep sound limits.\<close>

definition slot_ok :: "detectorSlot \<Rightarrow> bool" where
  "slot_ok s \<longleftrightarrow> sl_counterFed s = counterFed (sl_d s) \<and> det_ok (sl_d s)"

definition slot_fresh :: "int \<Rightarrow> detectorSlot \<Rightarrow> bool" where
  "slot_fresh t s \<longleftrightarrow> slot_ok s \<and> (\<not> sl_degraded s \<longrightarrow> det_fresh t (sl_d s))"

definition mon_ok :: "Monitor \<Rightarrow> bool" where
  "mon_ok m \<longleftrightarrow> list_all slot_ok (mo_detectors m)"

definition mon_fresh :: "int \<Rightarrow> Monitor \<Rightarrow> bool" where
  "mon_fresh t m \<longleftrightarrow> list_all (slot_fresh t) (mo_detectors m)"

lemma counterFed_steps [simp]:
  "counterFed (det_Consume f now d) = counterFed d" "counterFed (snd (det_Tick rate sy now d)) = counterFed d"
  "counterFed (set_frames_dropped b d) = counterFed d"
  by (cases d; simp add: counterFed_def)+

lemma frames_dropped_ok [simp]:
  "det_ok (set_frames_dropped b d) = det_ok d" "det_fresh t (set_frames_dropped b d) = det_fresh t d"
  by (cases d; simp add: det_ok_def det_fresh_def)+

text \<open>A counter-fed detector holds no presence, so it is fresh at every time.\<close>

lemma counterFed_fresh: "counterFed d \<Longrightarrow> det_fresh t d"
  by (cases d) (simp_all add: counterFed_def det_fresh_def)

lemma new_detectors_ok: "d \<in> set (newDetectors spec th) \<Longrightarrow> det_ok d"
  by (auto simp: newDetectors_def Let_def det_ok_def newIGMPDetector_def newRogueDHCPDetector_def newDuplicateIPDetector_def
      newPTPDetector_def defaultIGMPAbsence_def defaultRogueAbsence_def defaultDeclineAbsence_def defaultPTPAbsence_def second_def
      split: if_splits)

lemma newMonitor_ok: "mon_ok (newMonitor spec (newDetectors spec th))"
  using new_detectors_ok by (auto simp: mon_ok_def newMonitor_def list_all_iff slot_ok_def)

lemma consume_slot_ok: "slot_ok s \<Longrightarrow> slot_ok (consumeOne bad f now s)"
  by (simp add: slot_ok_def consumeOne_def Consume_ok)

lemma consume_slot_fresh:
  "slot_fresh t s \<Longrightarrow> \<not> sl_degraded s \<Longrightarrow> (\<not> sl_counterFed s \<Longrightarrow> t \<le> now) \<Longrightarrow> slot_fresh t (consumeOne bad f now s)"
  using consume_slot_ok [of s bad f now]
  by (cases "sl_counterFed s") (auto simp: slot_fresh_def slot_ok_def consumeOne_def Consume_fresh counterFed_fresh)

lemma map_enumerate_all:
  "(\<And>i x. P x \<Longrightarrow> Q (f (i, x))) \<Longrightarrow> list_all P xs \<Longrightarrow> list_all Q (map f (enumerate n xs))"
  by (induction xs arbitrary: n) simp_all

lemma handleFrame_ok: "mon_ok m \<Longrightarrow> mon_ok (handleFrame bad f c1 c2 m)"
  unfolding mon_ok_def handleFrame_def by simp (rule map_enumerate_all [where P = slot_ok]; simp add: consume_slot_ok)

lemma handleFrame_fresh:
  "mon_fresh t m \<Longrightarrow> t \<le> frameNow c1 m \<Longrightarrow> mon_fresh t (handleFrame bad f c1 c2 m)"
  unfolding mon_fresh_def handleFrame_def
  by simp (rule map_enumerate_all [where P = "slot_fresh t"]; simp add: consume_slot_fresh)

lemma tick_slot_fresh:
  assumes "slot_ok s"
  shows "slot_fresh (frameNow (ti_now2 t) m) (snd (tick_slot rate t m (i, s)))"
proof (cases "sl_degraded s \<or> ti_badTick t i")
  case True
  then show ?thesis using assms by (auto simp: tick_slot_def tickOne_def slot_fresh_def slot_ok_def)
next
  case False
  let ?d = "set_frames_dropped (is_blind t) (sl_d s)"
  have "det_fresh now (snd (det_Tick rate (ti_sys t) now ?d))" for now
    using assms by (intro Tick_fresh) (simp add: slot_ok_def)
  moreover have "det_ok (snd (det_Tick rate (ti_sys t) now ?d))" for now
    using calculation fresh_ok by blast
  ultimately show ?thesis
    using False assms counterFed_fresh [of "snd (det_Tick rate (ti_sys t) (ti_now t) ?d)"]
    by (auto simp: tick_slot_def tickOne_def slot_fresh_def slot_ok_def split_beta)
qed

lemma tick_slot_quiet:
  assumes "slot_fresh (frameNow (ti_now2 t) m) s" "e \<in> set (fst (tick_slot rate t m (i, s)))"
  shows "ev_Action e \<notin> loss_rows"
proof -
  let ?d = "set_frames_dropped (is_blind t) (sl_d s)" and ?now = "if sl_counterFed s then ti_now t else frameNow (ti_now2 t) m"
  have n: "\<not> sl_degraded s" "e \<in> set (fst (det_Tick rate (ti_sys t) ?now ?d))"
    using assms(2) by (auto simp: tick_slot_def tickOne_def Let_def split_beta split: if_splits)
  have "det_fresh ?now ?d"
    using assms(1) n(1) by (auto simp: slot_fresh_def slot_ok_def counterFed_fresh)
  then show ?thesis using n(2) by (rule Tick_quiet)
qed

lemma snapshot_slot_fresh: "slot_fresh t s \<Longrightarrow> slot_fresh t (snd (snapshotOne bad s))"
  by (auto simp: snapshotOne_def slot_fresh_def slot_ok_def)

lemma snapshots_fresh: "mon_fresh t m \<Longrightarrow> mon_fresh t (snd (publishSnapshot bad av m))"
  unfolding mon_fresh_def publishSnapshot_def Let_def
  by (simp add: comp_def) (rule map_enumerate_all [where P = "slot_fresh t"]; simp add: snapshot_slot_fresh)

lemma fresh_mon_ok: "mon_fresh t m \<Longrightarrow> mon_ok m"
  by (auto simp: mon_fresh_def mon_ok_def list_all_iff slot_fresh_def)

lemma advance_slots [simp]: "mo_detectors (advance_offset now m) = mo_detectors m"
  by (simp add: advance_offset_def)

text \<open>A tick leaves every presence judged at the frame time of the tick, and the frame clock's
  offset as the tick set it.\<close>

lemma publishSnapshot_keeps:
  "sn_Iface (fst (publishSnapshot bad av m)) = ms_Iface (mo_spec m)" "mo_spec (snd (publishSnapshot bad av m)) = mo_spec m"
  "mo_frameClockOffset (snd (publishSnapshot bad av m)) = mo_frameClockOffset m"
  by (simp_all add: publishSnapshot_def Let_def)

definition ticked :: "(u64 \<Rightarrow> int \<Rightarrow> int) \<Rightarrow> tickInput \<Rightarrow> Monitor \<Rightarrow> Monitor" where
  "ticked rate t m = (advance_offset (ti_now t) m)\<lparr>mo_detectors :=
     map (\<lambda>x. snd (tick_slot rate t (advance_offset (ti_now t) m) x)) (enumerate 0 (mo_detectors m))\<rparr>"

lemma onTick_shape:
  "onTick rate t av m =
     ((concat (map (\<lambda>x. fst (tick_slot rate t (advance_offset (ti_now t) m) x)) (enumerate 0 (mo_detectors m))),
       fst (publishSnapshot (ti_badSnap t) av (ticked rate t m))),
      (snd (publishSnapshot (ti_badSnap t) av (ticked rate t m)))
        \<lparr>mo_prevBlind := is_blind t, mo_lastTickNow := ti_now t, mo_haveTick := True\<rparr>)"
  by (simp add: onTick_def Let_def split_beta ticked_def comp_def)

lemma ticked_keeps [simp]:
  "mo_spec (ticked rate t m) = mo_spec m"
  "mo_frameClockOffset (ticked rate t m) = mo_frameClockOffset (advance_offset (ti_now t) m)"
  by (simp_all add: ticked_def advance_offset_def)

lemma ticked_fresh:
  assumes "mon_ok m" shows "mon_fresh (frameNow (ti_now2 t) (advance_offset (ti_now t) m)) (ticked rate t m)"
proof -
  have "list_all (slot_fresh (frameNow (ti_now2 t) (advance_offset (ti_now t) m)))
      (map (\<lambda>x. snd (tick_slot rate t (advance_offset (ti_now t) m) x)) (enumerate 0 (mo_detectors m)))"
    by (rule map_enumerate_all [where P = slot_ok]) (use assms tick_slot_fresh in \<open>simp_all add: mon_ok_def\<close>)
  then show ?thesis by (simp add: mon_fresh_def ticked_def)
qed

lemma onTick_fresh:
  assumes "mon_ok m" "onTick rate t av m = (out, m')"
  shows "mon_fresh (frameNow (ti_now2 t) (advance_offset (ti_now t) m)) m'"
    "mo_frameClockOffset m' = mo_frameClockOffset (advance_offset (ti_now t) m)"
    "mo_prevBlind m' = is_blind t" "mo_lastTickNow m' = ti_now t" "mo_haveTick m'" "mo_spec m' = mo_spec m"
    "sn_Iface (snd out) = ms_Iface (mo_spec m)"
proof -
  have m': "m' = (snd (publishSnapshot (ti_badSnap t) av (ticked rate t m)))
        \<lparr>mo_prevBlind := is_blind t, mo_lastTickNow := ti_now t, mo_haveTick := True\<rparr>"
    and out: "snd out = fst (publishSnapshot (ti_badSnap t) av (ticked rate t m))"
    using assms(2) by (auto simp: onTick_shape)
  show "mon_fresh (frameNow (ti_now2 t) (advance_offset (ti_now t) m)) m'"
    using snapshots_fresh [OF ticked_fresh [OF assms(1)]] by (simp add: m' mon_fresh_def)
  show "mo_frameClockOffset m' = mo_frameClockOffset (advance_offset (ti_now t) m)"
    "mo_prevBlind m' = is_blind t" "mo_lastTickNow m' = ti_now t" "mo_haveTick m'" "mo_spec m' = mo_spec m"
    "sn_Iface (snd out) = ms_Iface (mo_spec m)"
    by (simp_all add: m' out publishSnapshot_keeps)
qed

lemma onTick_quiet:
  assumes "mon_fresh (frameNow (ti_now2 t) (advance_offset (ti_now t) m)) m" "onTick rate t av m = ((evs, snap), m')"
  shows "\<forall>e \<in> set evs. ev_Action e \<notin> loss_rows"
proof
  fix e assume "e \<in> set evs"
  then obtain i s where "(i, s) \<in> set (enumerate 0 (mo_detectors m))"
    and e: "e \<in> set (fst (tick_slot rate t (advance_offset (ti_now t) m) (i, s)))"
    using assms(2) by (auto simp: onTick_shape)
  then have "s \<in> set (mo_detectors m)" by (auto simp: enumerate_eq_zip dest: set_zip_rightD)
  then have "slot_fresh (frameNow (ti_now2 t) (advance_offset (ti_now t) m)) s"
    using assms(1) by (auto simp: mon_fresh_def list_all_iff)
  then show "ev_Action e \<notin> loss_rows" using e by (rule tick_slot_quiet)
qed

text \<open>The states a monitor can be in: what the serve loop does to it, in any order.\<close>

inductive mon_reaches :: "(u64 \<Rightarrow> int \<Rightarrow> int) \<Rightarrow> Monitor \<Rightarrow> Monitor \<Rightarrow> bool" for rate m0 where
  start: "mon_reaches rate m0 m0"
| restart: "mon_reaches rate m0 m \<Longrightarrow> mon_reaches rate m0 (resetTickBaseline m)"
| frame: "mon_reaches rate m0 m \<Longrightarrow> mon_reaches rate m0 (handleFrame bad f c1 c2 m)"
| tick: "mon_reaches rate m0 m \<Longrightarrow> onTick rate t av m = (out, m') \<Longrightarrow> mon_reaches rate m0 m'"

lemma mon_reaches_ok: "mon_reaches rate m0 m \<Longrightarrow> mon_ok m0 \<Longrightarrow> mon_ok m"
proof (induction rule: mon_reaches.induct)
  case (restart m)
  then show ?case by (simp add: mon_ok_def resetTickBaseline_def)
next
  case (tick m t av out m')
  then show ?case using onTick_fresh(1) [of m rate t av out m'] fresh_mon_ok by auto
qed (simp_all add: handleFrame_ok)

text \<open>The frames between two ticks: each with its faults and the two clock readings it was given.\<close>

fun handleFrames :: "((nat \<Rightarrow> bool) \<times> Frame \<times> int \<times> int) list \<Rightarrow> Monitor \<Rightarrow> Monitor" where
  "handleFrames [] m = m"
| "handleFrames ((bad, f, c1, c2) # fs) m = handleFrames fs (handleFrame bad f c1 c2 m)"

lemma handleFrame_frame [simp]:
  "mo_frameClockOffset (handleFrame bad f c1 c2 m) = mo_frameClockOffset m" "mo_prevBlind (handleFrame bad f c1 c2 m) = mo_prevBlind m"
  "mo_lastTickNow (handleFrame bad f c1 c2 m) = mo_lastTickNow m" "mo_haveTick (handleFrame bad f c1 c2 m) = mo_haveTick m"
  "frameNow c (handleFrame bad f c1 c2 m) = frameNow c m"
  by (simp_all add: handleFrame_def frameNow_def)

lemma handleFrames_keep:
  "mo_frameClockOffset (handleFrames fs m) = mo_frameClockOffset m \<and> mo_prevBlind (handleFrames fs m) = mo_prevBlind m
   \<and> mo_lastTickNow (handleFrames fs m) = mo_lastTickNow m \<and> mo_haveTick (handleFrames fs m) = mo_haveTick m"
  by (induction fs m rule: handleFrames.induct) simp_all

lemma handleFrames_fresh:
  "mon_fresh t m \<Longrightarrow> list_all (\<lambda>(bad, f, c1, c2). t \<le> frameNow c1 m) fs \<Longrightarrow> mon_fresh t (handleFrames fs m)"
  by (induction fs m rule: handleFrames.induct) (simp_all add: handleFrame_fresh)

section \<open>Properties of one monitor\<close>

text \<open>A presence held at one time of the frame clock is lost at a later one only when its limit
  lies between the two.\<close>

definition lapses :: "int \<Rightarrow> int \<Rightarrow> Monitor \<Rightarrow> bool" where
  "lapses t t' m \<longleftrightarrow> (\<exists>s \<in> set (mo_detectors m). \<not> sl_degraded s \<and> (\<exists>p \<in> presences (sl_d s).
     pr_present p \<and> t - pr_lastSeen p \<le> pr_absenceAfter p \<and> pr_absenceAfter p < t' - pr_lastSeen p))"

lemma fresh_unless_lapses: "mon_fresh t m \<Longrightarrow> \<not> lapses t t' m \<Longrightarrow> mon_fresh t' m"
  by (fastforce simp: mon_fresh_def lapses_def list_all_iff slot_fresh_def det_fresh_def pres_fresh_def)

lemma lapses_later: "lapses t t' m \<Longrightarrow> t < t'"
  by (auto simp: lapses_def)

text \<open>C30: A blind interval does not age a presence. Each tick reads the clock twice, for itself
  (\<open>ti_now\<close>) and for the frame clock (\<open>ti_now2\<close>). When a tick finds that frames were dropped, the frame
  clock of the next tick differs from that of this one by the difference between the two ticks' delays from
  the first reading to the second, and by nothing else, however long the interval was. A querier,
  grandmaster, rogue server or address conflict is reported as gone at that next tick only if it was within
  its absence limit on the frame clock of the tick before and that difference carries it past the limit; when
  the second delay is no longer than the first, none is reported, whatever frames came in between and
  whichever detectors fault. Assumed: frames in between are read no earlier than the second reading of the
  first tick (Go's clock is monotonic). The interval ending at the tick that finds the drops is not covered:
  it counts as silence.\<close>

theorem no_loss_while_blind:
  assumes "mon_reaches rate (newMonitor spec (newDetectors spec th)) m"
    and "onTick rate t1 av m = (out1, m1)" "is_blind t1"
    and "list_all (\<lambda>(bad, f, c1, c2). ti_now2 t1 \<le> c1) fs"
    and "onTick rate t2 av (handleFrames fs m1) = ((evs, snap), m2)"
  shows "frameNow (ti_now2 t2) m2 =
           frameNow (ti_now2 t1) m1 + ((ti_now2 t2 - ti_now t2) - (ti_now2 t1 - ti_now t1))
    \<and> ((\<exists>e \<in> set evs. ev_Action e \<in> loss_rows)
         \<longrightarrow> lapses (frameNow (ti_now2 t1) m1) (frameNow (ti_now2 t2) m2) (handleFrames fs m1))
    \<and> (ti_now2 t2 - ti_now t2 \<le> ti_now2 t1 - ti_now t1 \<longrightarrow> (\<forall>e \<in> set evs. ev_Action e \<notin> loss_rows))"
proof -
  have ok: "mon_ok m" using mon_reaches_ok [OF assms(1) newMonitor_ok] .
  note f1 = onTick_fresh [OF ok assms(2)]
  let ?m = "handleFrames fs m1"
  have "mon_fresh (frameNow (ti_now2 t1) m1) m1" using f1(1,2) by (simp add: frameNow_def)
  then have fr2: "mon_fresh (frameNow (ti_now2 t1) m1) ?m"
    by (rule handleFrames_fresh) (use assms(4) in \<open>auto simp: frameNow_def list_all_iff\<close>)
  have now: "frameNow (ti_now2 t2) m2 = frameNow (ti_now2 t2) (advance_offset (ti_now t2) ?m)"
    using onTick_fresh(2) [OF fresh_mon_ok [OF fr2] assms(5)] by (simp add: frameNow_def)
  have eq: "frameNow (ti_now2 t2) m2 =
      frameNow (ti_now2 t1) m1 + ((ti_now2 t2 - ti_now t2) - (ti_now2 t1 - ti_now t1))"
    using handleFrames_keep [of fs m1] f1 assms(3) unfolding now by (simp add: advance_offset_def frameNow_def)
  have quiet: "lapses (frameNow (ti_now2 t1) m1) (frameNow (ti_now2 t2) m2) ?m \<or> (\<forall>e \<in> set evs. ev_Action e \<notin> loss_rows)"
    using onTick_quiet [OF _ assms(5)] fresh_unless_lapses [OF fr2] unfolding now by blast
  then show ?thesis using eq lapses_later by (fastforce simp: eq)
qed

definition ex_spec_eth0 :: Spec where
  "ex_spec_eth0 = \<lparr>ms_Iface = ''eth0'', ms_Greengo = True, ms_InterfaceIPs = [[10, 0, 0, 1]], ms_InterfaceMAC = [2, 0, 0, 0, 0, 1],
     ms_InterfaceMACSet = True, ms_Pools = [], ms_ConfiguredVIDs = [], ms_LeaseLifetime = 1800, ms_WatchVLANs = True,
     ms_RawTrunkOnly = False\<rparr>"

definition ex_query :: Frame where
  "ex_query = ex_frame ([0x01, 0, 0x5e, 0, 0, 1, 2, 0, 0, 0, 0, 9, 0x08, 0x00]
     @ [0x45, 0, 0, 28, 0, 0, 0, 0, 1, 2, 0, 0, 10, 0, 0, 9, 224, 0, 0, 1] @ [0x11, 100, 0, 0, 0, 0, 0, 0])"

definition ex_tick :: "int \<Rightarrow> (u32 \<times> u32) option \<Rightarrow> tickInput" where
  "ex_tick now drops = \<lparr>ti_now = now * second, ti_now2 = now * second, ti_drops = drops,
     ti_sys = \<lparr>sy_leases = Some [], sy_linkUp = True, sy_rx = None\<rparr>, ti_badTick = (\<lambda>_. False), ti_badSnap = (\<lambda>_. False)\<rparr>"

definition ex_th :: Thresholds where
  "ex_th = \<lparr>th_IGMPAbsence = defaultIGMPAbsence, th_StormPPS = defaultStormPPS\<rparr>"

text \<open>A monitor that has heard a querier and has ticked once.\<close>

definition ex_mon :: Monitor where
  "ex_mon = snd (onTick (\<lambda>_ _. 0) (ex_tick 2 (Some (0, 0))) True
     (handleFrame (\<lambda>_. False) ex_query second second (newMonitor ex_spec_eth0 (newDetectors ex_spec_eth0 ex_th))))"

lemma ex_mon_reaches: "mon_reaches (\<lambda>_ _. 0) (newMonitor ex_spec_eth0 (newDetectors ex_spec_eth0 ex_th)) ex_mon"
  unfolding ex_mon_def
  by (rule mon_reaches.tick [OF mon_reaches.frame [OF mon_reaches.start] prod.collapse [symmetric]])

lemma no_loss_while_blind_witness:
  "list_all (\<lambda>e. ev_Action e \<notin> loss_rows)
     (fst (fst (onTick (\<lambda>_ _. 0) (ex_tick 1000 None) True (snd (onTick (\<lambda>_ _. 0) (ex_tick 4 (Some (1, 0))) True ex_mon)))))
   \<and> (case sl_d (hd (mo_detectors ex_mon)) of DIGMP d \<Rightarrow> pr_present (ig_pres d) | _ \<Rightarrow> False)"
proof -
  obtain out1 m1 where t1: "onTick (\<lambda>_ _. 0) (ex_tick 4 (Some (1, 0))) True ex_mon = (out1, m1)" by fastforce
  obtain evs snap m2 where t2: "onTick (\<lambda>_ _. 0) (ex_tick 1000 None) True (handleFrames [] m1) = ((evs, snap), m2)"
    by (metis surj_pair)
  have "is_blind (ex_tick 4 (Some (1, 0)))" by (simp add: is_blind_def ex_tick_def)
  from no_loss_while_blind [OF ex_mon_reaches t1 this _ t2]
  have "\<forall>e \<in> set evs. ev_Action e \<notin> loss_rows" by (simp add: ex_tick_def)
  moreover have "case sl_d (hd (mo_detectors ex_mon)) of DIGMP d \<Rightarrow> pr_present (ig_pres d) | _ \<Rightarrow> False" by code_simp
  ultimately show ?thesis using t1 t2 by (simp add: list_all_iff)
qed

text \<open>The tick that finds the drops is not covered: its own interval still counts as time in which
  nothing was heard.\<close>

lemma first_blind_tick_reports_loss:
  "map ev_Action (fst (fst (onTick (\<lambda>_ _. 0) (ex_tick 400 (Some (1, 0))) True ex_mon))) = [''IGMP querier lost'']"
  by code_simp

end
