(* ===== verification/MonitorSafety.thy ===== *)
theory MonitorSafety
  imports FrameClock
begin

text \<open>
  A faulty detector is alone with its fault; the restart loop of a monitor ends within its fault
  budget; and the manager watches served interfaces only, with a snapshot for nothing else.
\<close>

section \<open>Fault isolation\<close>

datatype mon_input = InFrame "nat \<Rightarrow> bool" Frame int int | InTick tickInput

fun mon_step :: "(u64 \<Rightarrow> int \<Rightarrow> int) \<Rightarrow> bool \<Rightarrow> mon_input \<Rightarrow> Monitor \<Rightarrow> Snapshot list \<times> Monitor" where
  "mon_step rate av (InFrame bad f c1 c2) m = ([], handleFrame bad f c1 c2 m)"
| "mon_step rate av (InTick t) m = (let ((evs, snap), m') = onTick rate t av m in ([snap], m'))"

fun mon_run :: "(u64 \<Rightarrow> int \<Rightarrow> int) \<Rightarrow> bool \<Rightarrow> mon_input list \<Rightarrow> Monitor \<Rightarrow> Snapshot list \<times> Monitor" where
  "mon_run rate av [] m = ([], m)"
| "mon_run rate av (x # xs) m =
     (let (s1, m1) = mon_step rate av x m; (s2, m2) = mon_run rate av xs m1 in (s1 @ s2, m2))"

text \<open>The same input with no fault, and the absence of faults in one slot.\<close>

fun no_faults :: "mon_input \<Rightarrow> mon_input" where
  "no_faults (InFrame bad f c1 c2) = InFrame (\<lambda>_. False) f c1 c2"
| "no_faults (InTick t) = InTick (t\<lparr>ti_badTick := \<lambda>_. False, ti_badSnap := \<lambda>_. False\<rparr>)"

fun sound_at :: "nat \<Rightarrow> mon_input \<Rightarrow> bool" where
  "sound_at i (InFrame bad f c1 c2) = (\<not> bad i)"
| "sound_at i (InTick t) = (\<not> ti_badTick t i \<and> \<not> ti_badSnap t i)"

text \<open>Two monitors that agree on a slot and on their clocks.\<close>

definition agree :: "nat \<Rightarrow> Monitor \<Rightarrow> Monitor \<Rightarrow> bool" where
  "agree i m n \<longleftrightarrow> i < length (mo_detectors m) \<and> length (mo_detectors n) = length (mo_detectors m)
     \<and> mo_detectors m ! i = mo_detectors n ! i
     \<and> mo_frameClockOffset m = mo_frameClockOffset n \<and> mo_lastTickNow m = mo_lastTickNow n
     \<and> mo_prevBlind m = mo_prevBlind n \<and> mo_haveTick m = mo_haveTick n"

definition advanced :: "int \<Rightarrow> Monitor \<Rightarrow> int" where
  "advanced now m = (if mo_haveTick m \<and> mo_prevBlind m then mo_frameClockOffset m + (now - mo_lastTickNow m) else mo_frameClockOffset m)"

lemma frameNow_advance: "frameNow c (advance_offset now m) = c - advanced now m"
  by (simp add: frameNow_def advance_offset_def advanced_def)

text \<open>What a tick does to one slot, and what it leaves elsewhere.\<close>

definition slot_after :: "(u64 \<Rightarrow> int \<Rightarrow> int) \<Rightarrow> tickInput \<Rightarrow> int \<Rightarrow> nat \<Rightarrow> detectorSlot \<Rightarrow> DetectorSnapshot \<times> detectorSlot" where
  "slot_after rate t off i s = snapshotOne (ti_badSnap t i)
     (if sl_degraded s then s
      else snd (tickOne rate (ti_badTick t i) (ti_sys t) (if sl_counterFed s then ti_now t else ti_now2 t - off)
        (s\<lparr>sl_d := set_frames_dropped (is_blind t) (sl_d s)\<rparr>)))"

lemma map_enumerate_twice:
  "map g (enumerate n (map f (enumerate n xs))) = map (\<lambda>(i, x). g (i, f (i, x))) (enumerate n xs)"
  by (induction xs arbitrary: n) simp_all

lemma nth_map_enumerate: "i < length xs \<Longrightarrow> map f (enumerate 0 xs) ! i = f (i, xs ! i)"
  by (simp add: nth_enumerate_eq)

lemma tick_slot_after:
  "snapshotOne (ti_badSnap t i) (snd (tick_slot rate t (advance_offset (ti_now t) m) (i, s)))
     = slot_after rate t (advanced (ti_now t) m) i s"
  by (simp add: tick_slot_def slot_after_def frameNow_advance)

lemma onTick_slots:
  assumes "onTick rate t av m = ((evs, snap), m')"
  shows "sn_Detectors snap = map (\<lambda>(i, s). fst (slot_after rate t (advanced (ti_now t) m) i s)) (enumerate 0 (mo_detectors m))"
    "mo_detectors m' = map (\<lambda>(i, s). snd (slot_after rate t (advanced (ti_now t) m) i s)) (enumerate 0 (mo_detectors m))"
    "mo_frameClockOffset m' = advanced (ti_now t) m" "mo_lastTickNow m' = ti_now t" "mo_prevBlind m' = is_blind t"
    "mo_haveTick m'" "sn_Iface snap = ms_Iface (mo_spec m)" "mo_spec m' = mo_spec m" "sn_Note snap \<noteq> ''monitoring unavailable - repeated fault''"
proof -
  let ?a = "advance_offset (ti_now t) m"
  let ?p = "publishSnapshot (ti_badSnap t) av (?a\<lparr>mo_detectors := map snd (map (tick_slot rate t ?a) (enumerate 0 (mo_detectors m)))\<rparr>)"
  have s: "snap = fst ?p" "m' = (snd ?p)\<lparr>mo_prevBlind := is_blind t, mo_lastTickNow := ti_now t, mo_haveTick := True\<rparr>"
    using assms by (simp_all add: onTick_def Let_def split_beta advance_offset_def) auto
  have e: "map (\<lambda>(i, s). snapshotOne (ti_badSnap t i) s) (enumerate 0 (map snd (map (tick_slot rate t ?a) (enumerate 0 (mo_detectors m)))))
      = map (\<lambda>(i, s). slot_after rate t (advanced (ti_now t) m) i s) (enumerate 0 (mo_detectors m))"
    by (simp only: map_map map_enumerate_twice comp_def) (simp add: tick_slot_after)
  show "sn_Detectors snap = map (\<lambda>(i, s). fst (slot_after rate t (advanced (ti_now t) m) i s)) (enumerate 0 (mo_detectors m))"
    unfolding s publishSnapshot_def Let_def using arg_cong [OF e, of "map fst"] by (simp add: comp_def split_beta)
  show "mo_detectors m' = map (\<lambda>(i, s). snd (slot_after rate t (advanced (ti_now t) m) i s)) (enumerate 0 (mo_detectors m))"
    unfolding s publishSnapshot_def Let_def using arg_cong [OF e, of "map snd"] by (simp add: comp_def split_beta)
  show "mo_frameClockOffset m' = advanced (ti_now t) m" "mo_lastTickNow m' = ti_now t" "mo_prevBlind m' = is_blind t"
    "mo_haveTick m'" "sn_Iface snap = ms_Iface (mo_spec m)" "mo_spec m' = mo_spec m" "sn_Note snap \<noteq> ''monitoring unavailable - repeated fault''"
    by (simp_all add: s publishSnapshot_def Let_def advanced_def advance_offset_def)
qed

lemma mon_step_agree:
  assumes "agree i m n" "sound_at i x"
  shows "agree i (snd (mon_step rate av x m)) (snd (mon_step rate av (no_faults x) n))
    \<and> map (\<lambda>s. sn_Detectors s ! i) (fst (mon_step rate av x m)) = map (\<lambda>s. sn_Detectors s ! i) (fst (mon_step rate av (no_faults x) n))"
proof (cases x)
  case (InFrame bad f c1 c2)
  then show ?thesis
    using assms by (auto simp: agree_def handleFrame_def nth_enumerate_eq frameNow_def consumeOne_def)
next
  case (InTick t)
  let ?t = "t\<lparr>ti_badTick := \<lambda>_. False, ti_badSnap := \<lambda>_. False\<rparr>"
  obtain evs snap m' where m: "onTick rate t av m = ((evs, snap), m')" by (metis surj_pair)
  obtain evs2 snap2 n' where n: "onTick rate ?t av n = ((evs2, snap2), n')" by (metis surj_pair)
  have "slot_after rate t (advanced (ti_now t) m) i (mo_detectors m ! i) = slot_after rate ?t (advanced (ti_now t) n) i (mo_detectors n ! i)"
    using assms InTick by (simp add: agree_def slot_after_def advanced_def is_blind_def)
  moreover have "advanced (ti_now t) m = advanced (ti_now t) n" "is_blind ?t = is_blind t"
    using assms(1) by (simp_all add: agree_def advanced_def is_blind_def)
  moreover have "i < length (mo_detectors m)" "length (mo_detectors n) = length (mo_detectors m)"
    using assms(1) by (simp_all add: agree_def)
  ultimately show ?thesis
    using onTick_slots [OF m] onTick_slots [OF n] by (simp add: InTick m n agree_def nth_enumerate_eq)
qed

lemma mon_run_agree:
  "agree i m n \<Longrightarrow> list_all (sound_at i) xs \<Longrightarrow>
     agree i (snd (mon_run rate av xs m)) (snd (mon_run rate av (map no_faults xs) n))
     \<and> map (\<lambda>s. sn_Detectors s ! i) (fst (mon_run rate av xs m)) = map (\<lambda>s. sn_Detectors s ! i) (fst (mon_run rate av (map no_faults xs) n))"
proof (induction xs arbitrary: m n)
  case (Cons x xs)
  have "agree i (snd (mon_step rate av x m)) (snd (mon_step rate av (no_faults x) n))
    \<and> map (\<lambda>s. sn_Detectors s ! i) (fst (mon_step rate av x m)) = map (\<lambda>s. sn_Detectors s ! i) (fst (mon_step rate av (no_faults x) n))"
    using mon_step_agree Cons.prems by simp
  then show ?case using Cons.IH Cons.prems(2) by (simp add: Let_def split_beta)
qed simp

section \<open>The fault budget\<close>

text \<open>The two outputs that say a monitor was given up: the note of its card, and the audit row.\<close>

definition gave_up :: "mon_out \<Rightarrow> bool" where
  "gave_up out = (case out of Published s \<Rightarrow> sn_Note s = ''monitoring unavailable - repeated fault''
                            | Sunk e \<Rightarrow> ev_Action e = ''MONITOR_DEGRADED'')"

definition last_words :: "string \<Rightarrow> mon_out list" where
  "last_words iface =
    [Published \<lparr>sn_Iface = iface, sn_Available = False, sn_Note = ''monitoring unavailable - repeated fault'',
       sn_Detectors = [], sn_UnleasedPoolHosts = []\<rparr>,
     Sunk \<lparr>ev_Action = ''MONITOR_DEGRADED'', ev_Target = iface, ev_Before = [], ev_After = [], ev_Severity = SevError\<rparr>]"

definition own_output :: "string \<Rightarrow> mon_out \<Rightarrow> bool" where
  "own_output iface out = (case out of Published s \<Rightarrow> sn_Iface s = iface | Sunk e \<Rightarrow> True)"

lemma output_simps [simp]:
  "gave_up (Published s) = (sn_Note s = ''monitoring unavailable - repeated fault'')" "gave_up (Sunk e) = (ev_Action e = ''MONITOR_DEGRADED'')"
  "own_output i (Published s) = (sn_Iface s = i)" "own_output i (Sunk e)"
  "list_all (own_output i) (map Sunk es)"
  by (simp_all add: own_output_def gave_up_def filter_empty_conv list_all_iff)

lemma handleFrame_spec [simp]: "mo_spec (handleFrame bad f c1 c2 m) = mo_spec m" "mo_spec (resetTickBaseline m) = mo_spec m"
  by (simp_all add: handleFrame_def resetTickBaseline_def)

lemma onTick_rows:
  assumes "onTick rate t av m = ((evs, snap), m')"
  shows "filter gave_up (map Sunk evs) = []"
proof -
  have "ev_Action e \<noteq> ''MONITOR_DEGRADED''" if e: "e \<in> set (fst (tick_slot rate t n x))" for e n x
    using e no_degraded_row by (cases x) (auto simp: tick_slot_def tickOne_def Let_def split_beta split: if_splits)
  then show ?thesis using assms by (auto simp: onTick_shape filter_empty_conv)
qed

lemma serve_output:
  "serve rate av evs m = (out, res, m') \<Longrightarrow> mo_spec m' = mo_spec m \<and> list_all (own_output (ms_Iface (mo_spec m))) out \<and> filter gave_up out = []"
proof (induction evs arbitrary: m out)
  case (Cons ev evs)
  show ?case
  proof (cases ev)
    case (CapFrame bad f c1 c2)
    then show ?thesis using Cons.IH [of "handleFrame bad f c1 c2 m" out] Cons.prems by simp
  next
    case (CapTick t)
    obtain es snap m1 where t: "onTick rate t av m = ((es, snap), m1)" by (metis surj_pair)
    obtain out2 where s: "serve rate av evs m1 = (out2, res, m')" "out = map Sunk es @ [Published snap] @ out2"
      using Cons.prems by (auto simp: CapTick t split: prod.splits)
    show ?thesis
      using Cons.IH [OF s(1)] onTick_slots(7-9) [OF t] onTick_rows [OF t] by (simp add: s(2))
  qed (use Cons.prems in auto)
qed auto

lemma serveOnce_output:
  "serveOnce rate c m = (out, res, m') \<Longrightarrow> mo_spec m' = mo_spec m \<and> list_all (own_output (ms_Iface (mo_spec m))) out \<and> filter gave_up out = []"
  using serve_output [of rate _ _ "resetTickBaseline m" out res m']
  by (cases c) (auto simp: serveOnce_def)

lemma degraded_output:
  "list_all (own_output (ms_Iface (mo_spec m))) (markPermanentlyDegraded m)"
  "markPermanentlyDegraded m = last_words (ms_Iface (mo_spec m))"
  by (simp_all add: markPermanentlyDegraded_def last_words_def)

text \<open>The backoffs a budget allows.\<close>

fun backoffs :: "nat \<Rightarrow> int \<Rightarrow> int list" where
  "backoffs 0 b = []"
| "backoffs (Suc n) b = b # backoffs n (if b * 2 > maxBackoff then maxBackoff else b * 2)"

lemma run_monitor_bounded:
  "run_monitor rate (int (Suc n)) b cs m = (out, sleeps, fate) \<Longrightarrow>
     run_monitor rate (int (Suc n)) b (take (Suc n) cs) m = (out, sleeps, fate)
     \<and> sleeps = take (length sleeps) (backoffs n b) \<and> length sleeps \<le> n \<and> (fate = GivenUp \<longrightarrow> length sleeps = n)
     \<and> list_all (own_output (ms_Iface (mo_spec m))) out
     \<and> (\<exists>pre. out = pre @ (if fate = GivenUp then last_words (ms_Iface (mo_spec m)) else []) \<and> filter gave_up pre = [])"
proof (induction n arbitrary: b cs m out sleeps fate)
  case 0
  show ?case
  proof (cases cs)
    case (Cons x cs')
    obtain c quit where x: "x = (c, quit)" by (cases x)
    obtain o1 p e m1 where s: "serveOnce rate c m = (o1, (p, e), m1)" by (metis surj_pair)
    show ?thesis
      using "0.prems" serveOnce_output [OF s] degraded_output [of m1] by (auto simp: Cons x s split: if_splits)
  qed (use "0.prems" in auto)
next
  case (Suc n)
  show ?case
  proof (cases cs)
    case (Cons x cs')
    obtain c quit where x: "x = (c, quit)" by (cases x)
    obtain o1 p e m1 where s: "serveOnce rate c m = (o1, (p, e), m1)" by (metis surj_pair)
    let ?b = "if b * 2 > maxBackoff then maxBackoff else b * 2"
    obtain o2 s2 f2 where r: "run_monitor rate (int (Suc n)) ?b cs' m1 = (o2, s2, f2)" by (metis surj_pair)
    have "int (Suc (Suc n)) - 1 = int (Suc n)" by simp
    then show ?thesis
      using Suc.prems serveOnce_output [OF s] Suc.IH [OF r] r
      by (auto simp: Cons x s Let_def split: if_splits)
  qed (use Suc.prems in auto)
qed

section \<open>The manager\<close>

text \<open>What happens to a manager: a start, a stop, or a running monitor publishes a snapshot.\<close>

inductive mm_reaches :: "(u64 \<Rightarrow> int \<Rightarrow> int) \<Rightarrow> MonitorManager \<Rightarrow> bool" for rate where
  init: "mm_reaches rate newManager"
| begins: "mm_reaches rate mm \<Longrightarrow> mm_reaches rate (mm_Start getState specs mm)"
| stops: "mm_reaches rate mm \<Longrightarrow> mm_reaches rate (mm_Stop mm)"
| publishes: "mm_reaches rate mm \<Longrightarrow> (iface, mon) \<in> set (mm_monitors mm) \<Longrightarrow>
    run_monitor rate defaultFaultBudget baseBackoff cs mon = (out, sleeps, fate) \<Longrightarrow> Published snap \<in> set out \<Longrightarrow>
    mm_reaches rate (mm\<lparr>mm_store := store_Update (ms_Iface (mo_spec mon)) snap (mm_store mm)\<rparr>)"

definition watched :: "string \<times> Monitor \<Rightarrow> bool" where
  "watched x \<longleftrightarrow> validIface (fst x) \<and> ms_Iface (mo_spec (snd x)) = fst x"

definition mm_inv :: "MonitorManager \<Rightarrow> bool" where
  "mm_inv mm \<longleftrightarrow> (\<forall>x \<in> set (mm_monitors mm). watched x)
     \<and> (\<forall>x \<in> set (mm_store mm). sn_Iface (snd x) = fst x \<and> fst x \<in> fst ` set (mm_monitors mm))"

lemma fold_remove: "set (fold (\<lambda>(i, mon). store_Remove i) ms st) = {x \<in> set st. fst x \<notin> fst ` set ms}"
  by (induction ms arbitrary: st) (auto simp: store_Remove_def AList.delete_eq)

lemma mm_Stop_empty: "mm_inv mm \<Longrightarrow> mm_monitors (mm_Stop mm) = [] \<and> mm_store (mm_Stop mm) = []"
proof -
  assume "mm_inv mm"
  then have "set (fold (\<lambda>(i, mon). store_Remove i) (mm_monitors mm) (mm_store mm)) = {}"
    unfolding fold_remove mm_inv_def by blast
  then show ?thesis by (simp add: mm_Stop_def)
qed

lemma start_one_inv:
  assumes "\<forall>x \<in> set (mm_monitors mm). watched x"
  shows "\<forall>x \<in> set (mm_monitors (start_one th spec mm)). watched x" "mm_store (start_one th spec mm) = mm_store mm"
proof -
  let ?mon = "newMonitor spec (newDetectors spec th)"
  have "watched (ms_Iface spec, ?mon)" if "validIface (ms_Iface spec)" using that by (simp add: watched_def newMonitor_def)
  then show "\<forall>x \<in> set (mm_monitors (start_one th spec mm)). watched x"
    using assms set_alist_update [of "ms_Iface spec" ?mon "mm_monitors mm"] by (simp add: start_one_def) blast
  show "mm_store (start_one th spec mm) = mm_store mm" by (simp add: start_one_def)
qed

lemma start_all_inv:
  "\<forall>x \<in> set (mm_monitors mm). watched x \<Longrightarrow>
     (\<forall>x \<in> set (mm_monitors (fold (start_one th) specs mm)). watched x) \<and> mm_store (fold (start_one th) specs mm) = mm_store mm"
proof (induction specs arbitrary: mm)
  case (Cons spec specs)
  from Cons.IH [OF start_one_inv(1) [OF Cons.prems]] start_one_inv(2) [OF Cons.prems] show ?case by simp
qed simp

lemma mm_Start_inv:
  assumes "mm_inv mm" shows "mm_inv (mm_Start getState specs mm)"
proof (cases "mm_enabled getState")
  case True
  note e = mm_Stop_empty [OF assms]
  have "mm_Start getState specs mm = fold (start_one (loadThresholds getState)) specs (mm_Stop mm)"
    using True by (simp add: mm_Start_def Let_def)
  moreover have "\<forall>x \<in> set (mm_monitors (mm_Stop mm)). watched x" using e by simp
  ultimately show ?thesis
    using start_all_inv [of "mm_Stop mm" "loadThresholds getState" specs] e by (simp add: mm_inv_def)
next
  case False
  then show ?thesis using mm_Stop_empty [OF assms] by (simp add: mm_Start_def Let_def mm_inv_def)
qed

lemma mm_publish_inv:
  assumes "mm_inv mm" "(iface, mon) \<in> set (mm_monitors mm)"
    "run_monitor rate defaultFaultBudget baseBackoff cs mon = (out, sleeps, fate)" "Published snap \<in> set out"
  shows "mm_inv (mm\<lparr>mm_store := store_Update (ms_Iface (mo_spec mon)) snap (mm_store mm)\<rparr>)"
proof -
  have "run_monitor rate (int (Suc 4)) baseBackoff cs mon = (out, sleeps, fate)"
    using assms(3) by (simp add: defaultFaultBudget_def)
  from run_monitor_bounded [OF this] have o: "list_all (own_output (ms_Iface (mo_spec mon))) out" by (elim conjE)
  have "own_output (ms_Iface (mo_spec mon)) (Published snap)" by (rule bspec [OF o [unfolded list_all_iff] assms(4)])
  moreover have "watched (iface, mon)" using assms(1) assms(2) by (simp add: mm_inv_def)
  ultimately have i: "sn_Iface snap = iface" "ms_Iface (mo_spec mon) = iface" by (simp_all add: watched_def)
  have m: "iface \<in> fst ` set (mm_monitors mm)" using imageI [OF assms(2), of fst] by simp
  have "sn_Iface (snd x) = fst x \<and> fst x \<in> fst ` set (mm_monitors mm)"
    if "x \<in> set (AList.update iface snap (mm_store mm))" for x
  proof -
    have "x = (iface, snap) \<or> x \<in> set (mm_store mm)" using subsetD [OF set_alist_update that] by simp
    then show ?thesis
    proof
      assume "x = (iface, snap)"
      then show ?thesis using i m by simp
    qed (use assms(1) in \<open>simp add: mm_inv_def\<close>)
  qed
  then show ?thesis using assms(1) i by (simp add: mm_inv_def store_Update_def)
qed

lemma mm_reaches_inv: "mm_reaches rate mm \<Longrightarrow> mm_inv mm"
proof (induction rule: mm_reaches.induct)
  case init
  show ?case by (simp add: mm_inv_def newManager_def)
next
  case (begins mm getState specs)
  show ?case by (rule mm_Start_inv [OF begins.IH])
next
  case (stops mm)
  show ?case using mm_Stop_empty [OF stops.IH] by (simp add: mm_inv_def)
next
  case (publishes mm iface mon cs out sleeps fate snap)
  show ?case by (rule mm_publish_inv [OF publishes.IH publishes.hyps(2-4)])
qed

section \<open>Properties\<close>

text \<open>C31: A fault stays where it is: whatever detectors panic in whatever frames and ticks, a slot
  whose own calls do not panic ends in the state, and publishes the cards, that it has in the same run
  without any fault; the other detectors' watch is neither lost nor changed.\<close>

theorem fault_isolation:
  assumes "i < length (mo_detectors m)" "list_all (sound_at i) xs"
  shows "mo_detectors (snd (mon_run rate av xs m)) ! i = mo_detectors (snd (mon_run rate av (map no_faults xs) m)) ! i
    \<and> map (\<lambda>s. sn_Detectors s ! i) (fst (mon_run rate av xs m)) = map (\<lambda>s. sn_Detectors s ! i) (fst (mon_run rate av (map no_faults xs) m))"
proof -
  have "agree i m m" using assms(1) by (simp add: agree_def)
  from mon_run_agree [OF this assms(2)] show ?thesis by (simp add: agree_def)
qed


text \<open>Only served interfaces are watched: after any starts, stops and publications, every monitor
  runs on eth0 or one of its VLANs and never on the uplink, every stored snapshot belongs to a running
  monitor, and a start with the monitor switched off leaves nothing running and nothing stored.\<close>

theorem never_monitors_uplink:
  assumes "mm_reaches rate mm"
  shows "list_all (\<lambda>iface. iface = ''eth0'' \<or> has_prefix iface ''eth0.'') (Running mm) \<and> ''wlan0'' \<notin> set (Running mm)
    \<and> sn_Iface ` set (mm_SnapshotAll mm) \<subseteq> set (Running mm)
    \<and> (mm_enabled getState \<or> Running (mm_Start getState specs mm) = [] \<and> mm_SnapshotAll (mm_Start getState specs mm) = [])"
proof -
  note inv = mm_reaches_inv [OF assms]
  have v: "validIface iface \<Longrightarrow> (iface = ''eth0'' \<or> has_prefix iface ''eth0.'') \<and> iface \<noteq> ''wlan0''" for iface
    by (auto simp: validIface_def has_prefix_def split: if_splits)
  have "\<forall>iface \<in> set (Running mm). validIface iface" using inv by (auto simp: Running_def mm_inv_def watched_def)
  then have r: "list_all (\<lambda>iface. iface = ''eth0'' \<or> has_prefix iface ''eth0.'') (Running mm)" "''wlan0'' \<notin> set (Running mm)"
    using v by (auto simp: list_all_iff)
  have s: "sn_Iface ` set (mm_SnapshotAll mm) \<subseteq> set (Running mm)"
  proof -
    have "sn_Iface (snd x) \<in> fst ` set (mm_monitors mm)" if "x \<in> set (mm_store mm)" for x
      using inv that by (simp add: mm_inv_def)
    then have "sn_Iface ` snd ` set (mm_store mm) \<subseteq> fst ` set (mm_monitors mm)" by (simp add: image_subset_iff)
    then show ?thesis by (simp add: mm_SnapshotAll_def SnapshotAll_def Running_def)
  qed
  have "mm_monitors (mm_Start getState specs mm) = [] \<and> mm_store (mm_Start getState specs mm) = []" if "\<not> mm_enabled getState"
    using mm_Stop_empty [OF inv] that by (simp add: mm_Start_def Let_def)
  then show ?thesis using r s by (auto simp: Running_def mm_SnapshotAll_def SnapshotAll_def)
qed

section \<open>Examples\<close>

definition ex_watch :: "string \<Rightarrow> Spec" where
  "ex_watch iface = \<lparr>ms_Iface = iface, ms_Greengo = False, ms_InterfaceIPs = [], ms_InterfaceMAC = [2, 0, 0, 0, 0, 1],
     ms_InterfaceMACSet = True, ms_Pools = [], ms_ConfiguredVIDs = [], ms_LeaseLifetime = 1800, ms_WatchVLANs = False,
     ms_RawTrunkOnly = True\<rparr>"

definition ex_two :: Monitor where
  "ex_two = newMonitor (ex_watch ''eth0'') [DIdle (newIdleDetector ''eth0''), DLLDP (newLLDPDetector ''eth0'')]"

definition ex_fault :: mon_input where
  "ex_fault = InTick \<lparr>ti_now = second, ti_now2 = second, ti_drops = None,
     ti_sys = \<lparr>sy_leases = None, sy_linkUp = True, sy_rx = None\<rparr>, ti_badTick = (\<lambda>i. i = 0), ti_badSnap = (\<lambda>_. False)\<rparr>"

lemma fault_isolation_witness:
  "map sl_degraded (mo_detectors (snd (mon_run (\<lambda>_ _. 0) True [ex_fault] ex_two))) = [True, False]
   \<and> mo_detectors (snd (mon_run (\<lambda>_ _. 0) True [ex_fault] ex_two)) ! 1
     = mo_detectors (snd (mon_run (\<lambda>_ _. 0) True (map no_faults [ex_fault]) ex_two)) ! 1"
proof -
  have "map sl_degraded (mo_detectors (snd (mon_run (\<lambda>_ _. 0) True [ex_fault] ex_two))) = [True, False]" by code_simp
  moreover have "1 < length (mo_detectors ex_two)" "list_all (sound_at 1) [ex_fault]"
    by (simp_all add: ex_two_def newMonitor_def ex_fault_def)
  ultimately show ?thesis using fault_isolation [of 1 ex_two "[ex_fault]"] by blast
qed


lemma never_monitors_uplink_witness:
  "let mm = mm_Start None [ex_watch ''wlan0'', ex_watch ''eth0.10''] newManager
   in Running mm = [''eth0.10''] \<and> ''wlan0'' \<notin> set (Running mm)
     \<and> Running (mm_Start (Some (\<lambda>_. ''off'')) [ex_watch ''eth0''] mm) = []"
proof -
  let ?mm = "mm_Start None [ex_watch ''wlan0'', ex_watch ''eth0.10''] newManager"
  have "mm_reaches (\<lambda>_ _. 0) ?mm" by (intro mm_reaches.begins mm_reaches.init)
  note t = never_monitors_uplink [OF this, of "Some (\<lambda>_. ''off'')" "[ex_watch ''eth0'']"]
  have "Running ?mm = [''eth0.10'']" "\<not> mm_enabled (Some (\<lambda>_. ''off''))" by code_simp+
  then show ?thesis using t by (simp add: Let_def)
qed

end
