(* ===== verification/ProfileApply.thy ===== *)
theory ProfileApply
  imports Lifecycle
begin

text \<open>
  \<open>src/internal/web/profile_apply.go\<close> and \<open>profile_switch.go\<close>: the
  synchronous half of an apply or a switch (validate, claim the guard, snapshot, one transaction)
  and the asynchronous half (reconcile, then ACTIVE or the roll-back).  A transaction is its list
  of statements, each of which the database may refuse.
\<close>

section \<open>Validation\<close>

datatype topology_error =
    VLANOutOfRange int
  | TwoUntagged
  | VLANTwice int
  | BadScopeCIDR string
  | ScopesOverlap ipnet ipnet

definition validVLANID :: "int \<Rightarrow> bool" where
  "validVLANID v \<longleftrightarrow> 0 \<le> v \<and> v \<le> 4094"

definition nets_overlap :: "ipnet \<Rightarrow> ipnet \<Rightarrow> bool" where
  "nets_overlap prev n \<longleftrightarrow> IPNet_Contains prev (net_ip n) \<or> IPNet_Contains n (net_ip prev)"

fun check_scopes :: "int list \<Rightarrow> ipnet list \<Rightarrow> ScopeConfig list \<Rightarrow> topology_error option" where
  "check_scopes seen prevs [] = None"
| "check_scopes seen prevs (sc # scs) =
     (if \<not> validVLANID (sc_VlanID sc) then Some (VLANOutOfRange (sc_VlanID sc))
      else if sc_VlanID sc \<in> set seen
        then Some (if sc_VlanID sc = 0 then TwoUntagged else VLANTwice (sc_VlanID sc))
      else (case ParseCIDR (sc_CIDR sc) of
          None \<Rightarrow> Some (BadScopeCIDR (sc_CIDR sc))
        | Some (_, n) \<Rightarrow>
            (case List.find (\<lambda>prev. nets_overlap prev n) prevs of
               Some prev \<Rightarrow> Some (ScopesOverlap prev n)
             | None \<Rightarrow> check_scopes (sc_VlanID sc # seen) (prevs @ [n]) scs)))"

definition validateScopeTopology :: "ScopeConfig list \<Rightarrow> topology_error option" where
  "validateScopeTopology scopes = check_scopes [] [] scopes"

datatype apply_error =
    EmptyProfileName
  | ReservedProfileName
  | BadTopology topology_error
  | GenerateFailed render_error
  | ValidationFailed string
  | UpdateInProgress
  | GuardBusy
  | SnapshotFailed string
  | UplinkReadFailed string
  | TransactionFailed string
  | ProfileNotFound
  | AlreadyActive
  | NoScopesToApply

definition validateProfileName :: "string \<Rightarrow> apply_error option" where
  "validateProfileName name =
    (if TrimSpace name = [] then Some EmptyProfileName
     else if stash_name name then Some ReservedProfileName else None)"

definition gateway_step :: "string \<Rightarrow> ScopeConfig \<Rightarrow> string" where
  "gateway_step gw sc =
    (case ParseCIDR (sc_CIDR sc) of
       None \<Rightarrow> gw
     | Some (_, n) \<Rightarrow> if gw = [] \<or> sc_VlanID sc = 0 then ip_String (IncIP (net_ip n) 1) else gw)"

definition buildRenderScopes :: "ScopeConfig list \<Rightarrow> bool \<Rightarrow> ScopeInput list \<times> string" where
  "buildRenderScopes scopes boxUplink =
    (map (gated_input boxUplink) scopes, foldl gateway_step [] scopes)"

definition allScopesTagged :: "ScopeConfig list \<Rightarrow> bool" where
  "allScopesTagged scopes \<longleftrightarrow> scopes \<noteq> [] \<and> list_all (\<lambda>sc. sc_VlanID sc \<noteq> 0) scopes"

text \<open>Two parsed networks that do not contain each other's address share no address: of two
  prefix masks of one length, one keeps every bit the other keeps.\<close>

definition mask_byte :: "nat \<Rightarrow> nat \<Rightarrow> byte" where
  "mask_byte p i = word_of_int (256 - 2 ^ (8 - min 8 (p - 8 * i)))"

lemma CIDRMask_bytes: "CIDRMask p bits = map (mask_byte p) [0 ..< bits div 8]"
  by (simp add: CIDRMask_def mask_byte_def Let_def)

lemma mask_byte_eq: "mask_byte p i = NOT (mask (8 - min 8 (p - 8 * i)))"
proof -
  have "word_of_int (256 - 2 ^ j) = (NOT (mask j) :: byte)" if "j \<le> 8" for j :: nat
  proof -
    have "j = 0 \<or> j = 1 \<or> j = 2 \<or> j = 3 \<or> j = 4 \<or> j = 5 \<or> j = 6 \<or> j = 7 \<or> j = 8" using that by linarith
    then show ?thesis by (elim disjE) (simp_all add: mask_eq_exp_minus_1)
  qed
  then show ?thesis by (simp add: mask_byte_def)
qed

lemma mask_byte_absorb:
  assumes "p \<le> q" shows "mask_byte q i AND mask_byte p i = mask_byte p i"
proof -
  have k: "NOT (mask a) AND NOT (mask c) = (NOT (mask c) :: byte)" if "a \<le> c" for a c :: nat
    using that by (intro bit_word_eqI) (auto simp: bit_simps)
  show ?thesis unfolding mask_byte_eq using assms by (intro k) auto
qed

lemma network_mask_shape:
  assumes "ParseCIDR s = Some (ip, n)" "network_and_mask n = (nn, m)"
  obtains p where "m = map (mask_byte p) [0 ..< length nn]"
proof -
  obtain b :: "byte list" and k where mk: "net_mask n = CIDRMask k (8 * length b)"
    using assms(1) unfolding ParseCIDR_def by (force simp: Let_def split: option.splits prod.splits if_splits)
  then have b: "net_mask n = map (mask_byte k) [0 ..< length b]" by (simp add: CIDRMask_bytes)
  then have lm: "length (net_mask n) = length b" by simp
  have d: "drop 12 (map (mask_byte k) [0 ..< 16]) = map (mask_byte (k - 96)) [0 ..< 4]"
    by (rule nth_equalityI) (simp_all add: mask_byte_def)
  have "nn = [] \<and> m = [] \<or> length m = length nn \<and> (m = net_mask n \<or> m = drop 12 (net_mask n) \<and> length b = 16 \<and> length nn = 4)"
    using assms(2) lm unfolding network_and_mask_def Let_def by (auto split: if_split_asm)
  then show ?thesis
  proof (elim disjE conjE)
    assume "nn = []" "m = []" then show ?thesis using that [of 0] by simp
  next
    assume "length m = length nn" "m = net_mask n" then show ?thesis using that [of k] b by simp
  next
    assume "m = drop 12 (net_mask n)" "length b = 16" "length nn = 4"
    then show ?thesis using that [of "k - 96"] b d by simp
  qed
qed

lemma masked_eq_coarser:
  assumes "length x = L" "length y = L" "p \<le> q"
    "map2 (AND) x (map (mask_byte q) [0 ..< L]) = map2 (AND) y (map (mask_byte q) [0 ..< L])"
  shows "map2 (AND) x (map (mask_byte p) [0 ..< L]) = map2 (AND) y (map (mask_byte p) [0 ..< L])"
proof (rule nth_equalityI)
  fix i assume "i < length (map2 (AND) x (map (mask_byte p) [0 ..< L]))"
  then have i: "i < L" using assms(1) by simp
  have "x ! i AND mask_byte q i = y ! i AND mask_byte q i"
    using arg_cong [OF assms(4), of "\<lambda>l. l ! i"] assms(1,2) i by simp
  then have "x ! i AND (mask_byte q i AND mask_byte p i) = y ! i AND (mask_byte q i AND mask_byte p i)"
    by (simp add: and.assoc [symmetric])
  then show "map2 (AND) x (map (mask_byte p) [0 ..< L]) ! i = map2 (AND) y (map (mask_byte p) [0 ..< L]) ! i"
    using assms(1,2) i by (simp add: mask_byte_absorb [OF assms(3)])
qed (use assms in simp)

lemma network_and_mask_ip:
  "network_and_mask n = (nn, m) \<Longrightarrow> nn \<noteq> [] \<Longrightarrow> (if To4 (net_ip n) = [] then net_ip n else To4 (net_ip n)) = nn"
  by (auto simp: network_and_mask_def Let_def split: if_splits)

lemma overlap_detected:
  assumes "ParseCIDR s1 = Some (i1, n1)" "ParseCIDR s2 = Some (i2, n2)"
    "IPNet_Contains n1 x" "IPNet_Contains n2 x" "length x = 4 \<or> length x = 16"
  shows "nets_overlap n1 n2"
proof -
  obtain a1 m1 a2 m2 where nm: "network_and_mask n1 = (a1, m1)" "network_and_mask n2 = (a2, m2)"
    by (meson prod.exhaust)
  obtain p1 p2 where mm: "m1 = map (mask_byte p1) [0 ..< length a1]" "m2 = map (mask_byte p2) [0 ..< length a2]"
    using network_mask_shape assms(1,2) nm by metis
  let ?x = "if To4 x = [] then x else To4 x"
  have x: "length ?x = length a1" "map2 (AND) a1 m1 = map2 (AND) ?x m1"
      "length ?x = length a2" "map2 (AND) a2 m2 = map2 (AND) ?x m2"
    using assms(3,4) by (simp_all add: IPNet_Contains_def nm Let_def)
  have "length ?x > 0" using assms(5) by (auto simp: To4_def split: if_splits)
  then have ne: "a1 \<noteq> []" "a2 \<noteq> []" using x by auto
  have L: "length a2 = length a1" using x by simp
  have "map2 (AND) a2 m1 = map2 (AND) a1 m1" if "p1 \<le> p2"
    using masked_eq_coarser [OF _ _ that, of a2 "length a1" ?x] x mm L by simp
  moreover have "map2 (AND) a1 m2 = map2 (AND) a2 m2" if "p2 \<le> p1"
    using masked_eq_coarser [OF _ _ that, of a1 "length a1" ?x] x mm L by simp
  ultimately show ?thesis
    using linear [of p1 p2] network_and_mask_ip [OF nm(1) ne(1)] network_and_mask_ip [OF nm(2) ne(2)] L
    by (auto simp: nets_overlap_def IPNet_Contains_def nm Let_def)
qed

definition scope_net :: "ScopeConfig \<Rightarrow> ipnet option" where
  "scope_net sc = map_option snd (ParseCIDR (sc_CIDR sc))"

definition holds_addr :: "go_ip \<Rightarrow> ScopeConfig \<Rightarrow> bool" where
  "holds_addr x sc \<longleftrightarrow> (case scope_net sc of Some n \<Rightarrow> IPNet_Contains n x | None \<Rightarrow> False)"

definition served_once :: "go_ip \<Rightarrow> ScopeConfig list \<Rightarrow> bool" where
  "served_once x scopes \<longleftrightarrow> length (filter (holds_addr x) scopes) \<le> 1"

lemma check_scopes_None:
  assumes "check_scopes seen prevs scopes = None" "list_all (\<lambda>n. \<exists>s i. ParseCIDR s = Some (i, n)) prevs"
  shows "list_all (\<lambda>sc. validVLANID (sc_VlanID sc) \<and> scope_net sc \<noteq> None) scopes
    \<and> distinct (map sc_VlanID scopes) \<and> set (map sc_VlanID scopes) \<inter> set seen = {}
    \<and> (length x = 4 \<or> length x = 16 \<longrightarrow> served_once x scopes
        \<and> (list_ex (\<lambda>n. IPNet_Contains n x) prevs \<longrightarrow> filter (holds_addr x) scopes = []))"
  using assms
proof (induction scopes arbitrary: seen prevs)
  case Nil then show ?case by (simp add: served_once_def)
next
  case (Cons sc scs)
  obtain i n where p: "ParseCIDR (sc_CIDR sc) = Some (i, n)" and v: "validVLANID (sc_VlanID sc)" "sc_VlanID sc \<notin> set seen"
      and f: "List.find (\<lambda>prev. nets_overlap prev n) prevs = None"
      and r: "check_scopes (sc_VlanID sc # seen) (prevs @ [n]) scs = None"
    using Cons.prems(1) by (auto split: if_splits option.splits prod.splits)
  have no: "\<not> nets_overlap prev n" if "prev \<in> set prevs" for prev
    using f that by (simp add: find_None_iff)
  have ih: "list_all (\<lambda>sc. validVLANID (sc_VlanID sc) \<and> scope_net sc \<noteq> None) scs"
      "distinct (map sc_VlanID scs)" "set (map sc_VlanID scs) \<inter> set (sc_VlanID sc # seen) = {}"
      "length x = 4 \<or> length x = 16 \<Longrightarrow> served_once x scs"
      "length x = 4 \<or> length x = 16 \<Longrightarrow> list_ex (\<lambda>n. IPNet_Contains n x) (prevs @ [n]) \<Longrightarrow> filter (holds_addr x) scs = []"
    using Cons.IH [OF r] Cons.prems(2) p by auto
  have h: "holds_addr x sc = IPNet_Contains n x" by (simp add: holds_addr_def scope_net_def p)
  have "\<not> (list_ex (\<lambda>n. IPNet_Contains n x) prevs \<and> IPNet_Contains n x)" if "length x = 4 \<or> length x = 16"
    using overlap_detected [OF _ p _ _ that] no Cons.prems(2)
    by (auto simp: list_ex_iff list_all_iff) blast
  then show ?case
    using ih v h p by (auto simp: served_once_def scope_net_def)
qed

text \<open>C8: A scope list that passes the topology check has in-range and pairwise different VLAN
  ids (so at most one untagged scope), every CIDR parses, and no address of either family belongs
  to two scopes, whatever mix of prefix lengths is used.\<close>

theorem validateScopeTopology_sound:
  assumes "validateScopeTopology scopes = None"
  shows "list_all (\<lambda>sc. validVLANID (sc_VlanID sc) \<and> scope_net sc \<noteq> None) scopes
    \<and> distinct (map sc_VlanID scopes) \<and> (\<forall>x. length x = 4 \<or> length x = 16 \<longrightarrow> served_once x scopes)"
  using check_scopes_None [of "[]" "[]" scopes] assms by (simp add: validateScopeTopology_def)

definition ex_scope_at :: "int \<Rightarrow> string \<Rightarrow> ScopeConfig" where
  "ex_scope_at vid cidr = \<lparr>sc_Name = [], sc_Preset = ''flat'', sc_VlanID = vid, sc_CIDR = cidr, sc_Counts = zero_counts,
     sc_Uplink = zero_uplink, sc_Plan = FlatPlan, sc_Services = zero_services\<rparr>"

lemma validateScopeTopology_sound_witness:
  "distinct (map sc_VlanID [ex_scope_at 0 ''10.0.0.0/24'', ex_scope_at 12 ''10.0.1.0/24'', ex_scope_at 13 ''fd00::/64''])
   \<and> validateScopeTopology [ex_scope_at 0 ''10.0.0.0/16'', ex_scope_at 12 ''10.0.1.0/24''] \<noteq> None"
proof -
  have "validateScopeTopology [ex_scope_at 0 ''10.0.0.0/24'', ex_scope_at 12 ''10.0.1.0/24'', ex_scope_at 13 ''fd00::/64''] = None"
    by code_simp
  moreover have "validateScopeTopology [ex_scope_at 0 ''10.0.0.0/16'', ex_scope_at 12 ''10.0.1.0/24''] \<noteq> None" by code_simp
  ultimately show ?thesis using validateScopeTopology_sound by blast
qed

section \<open>Rows\<close>

text \<open>How a scope is written: an empty plan and all-zero services are stored as NULL.\<close>

definition services_column :: "ScopeServices \<Rightarrow> ScopeServices column" where
  "services_column sv =
    (if sv_Gateway sv = [] \<and> sv_DNS sv = [] \<and> \<not> sv_LocalDNS sv \<and> sv_LeaseLifetime sv = 0 \<and> sv_Options sv = []
     then Null else Stored sv)"

definition plan_column :: "PoolPlan \<Rightarrow> PoolPlan column" where
  "plan_column p = (if p = [] then Null else Stored p)"

definition store_row :: "int \<Rightarrow> ScopeConfig \<Rightarrow> scope_row" where
  "store_row pid sc =
    \<lparr>rw_profile = pid, rw_preset = sc_Preset sc, rw_vlan = Some (sc_VlanID sc), rw_cidr = sc_CIDR sc,
     rw_pool_spec = Stored (sc_Counts sc), rw_uplink = Stored (sc_Uplink sc),
     rw_pool_plan = plan_column (sc_Plan sc), rw_services = services_column (sc_Services sc),
     rw_name = Some (sc_Name sc)\<rparr>"

section \<open>Transactions\<close>

text \<open>A statement changes the store or is refused by a constraint; the environment may also make
  it, the begin or the commit fail.  \<open>run_tx\<close> stops at the first error and rolls back;
  \<open>run_tx_all\<close> runs every statement, then commits if none failed.\<close>

type_synonym stmt = "string \<times> (Box \<Rightarrow> Box option)"

definition restore_tables :: "Box \<Rightarrow> Box \<Rightarrow> Box" where
  "restore_tables b0 b = b\<lparr>bx_app := bx_app b0, bx_profiles := bx_profiles b0, bx_scopes := bx_scopes b0\<rparr>"

definition exec :: "Env \<Rightarrow> stmt \<Rightarrow> string option go" where
  "exec E s = do {
     r \<leftarrow> call E (DbTx (fst s));
     b \<leftarrow> State_Monad.get;
     case r of Some m \<Rightarrow> State_Monad.return (Some m)
     | None \<Rightarrow> (case snd s b of
           None \<Rightarrow> State_Monad.return (Some ''constraint failed'')
         | Some b' \<Rightarrow> do { State_Monad.set b'; State_Monad.return None }) }"

fun exec_until :: "Env \<Rightarrow> stmt list \<Rightarrow> string option go" where
  "exec_until E [] = State_Monad.return None"
| "exec_until E (s # ss) = do {
     r \<leftarrow> exec E s;
     case r of Some m \<Rightarrow> State_Monad.return (Some m) | None \<Rightarrow> exec_until E ss }"

fun exec_all :: "Env \<Rightarrow> stmt list \<Rightarrow> string option go" where
  "exec_all E [] = State_Monad.return None"
| "exec_all E (s # ss) = do {
     r \<leftarrow> exec E s;
     r' \<leftarrow> exec_all E ss;
     State_Monad.return (case r of Some m \<Rightarrow> Some m | None \<Rightarrow> r') }"

definition in_tx :: "Env \<Rightarrow> string option go \<Rightarrow> string option go" where
  "in_tx E body = do {
     b0 \<leftarrow> State_Monad.get;
     r \<leftarrow> call E (DbTx ''begin'');
     case r of Some m \<Rightarrow> State_Monad.return (Some m)
     | None \<Rightarrow> do {
         r \<leftarrow> body;
         case r of
           Some m \<Rightarrow> do { State_Monad.update (restore_tables b0); State_Monad.return (Some m) }
         | None \<Rightarrow> do {
             r \<leftarrow> call E (DbTx ''commit'');
             case r of None \<Rightarrow> State_Monad.return None
             | Some m \<Rightarrow> do { State_Monad.update (restore_tables b0); State_Monad.return (Some m) } } } }"

definition upd_profiles :: "(Profile \<Rightarrow> Profile) \<Rightarrow> Box \<Rightarrow> Box" where
  "upd_profiles f b = b\<lparr>bx_profiles := map f (bx_profiles b)\<rparr>"

definition name_taken :: "string \<Rightarrow> (Profile \<Rightarrow> bool) \<Rightarrow> Box \<Rightarrow> bool" where
  "name_taken n P b \<longleftrightarrow> list_ex (\<lambda>p. pf_name p = n \<and> \<not> P p) (bx_profiles b)"

definition deactivate_all :: stmt where
  "deactivate_all = (''UPDATE profiles SET active = 0'', \<lambda>b. Some (upd_profiles (\<lambda>p. p\<lparr>pf_active := False\<rparr>) b))"

definition activate :: "int \<Rightarrow> stmt" where
  "activate i = (''UPDATE profiles SET active = 1 WHERE id'',
     \<lambda>b. Some (upd_profiles (\<lambda>p. if pf_id p = i then p\<lparr>pf_active := True\<rparr> else p) b))"

definition rename_profile :: "(Profile \<Rightarrow> Profile) \<Rightarrow> int \<Rightarrow> string \<Rightarrow> stmt" where
  "rename_profile g i n = (''UPDATE profiles SET name WHERE id'', \<lambda>b.
     if list_ex (\<lambda>p. pf_id p = i) (bx_profiles b) \<and> name_taken n (\<lambda>p. pf_id p = i) b then None
     else Some (upd_profiles (\<lambda>p. if pf_id p = i then g (p\<lparr>pf_name := n\<rparr>) else p) b))"

definition insert_profile :: "int \<Rightarrow> string \<Rightarrow> stmt" where
  "insert_profile i n = (''INSERT INTO profiles'', \<lambda>b.
     if name_taken n (\<lambda>_. False) b then None
     else Some (b\<lparr>bx_profiles := bx_profiles b @ [\<lparr>pf_id = i, pf_name = n, pf_active = True\<rparr>]\<rparr>))"

definition delete_profile :: "int \<Rightarrow> stmt" where
  "delete_profile i = (''DELETE FROM profiles WHERE id'', \<lambda>b. Some (drop_profiles (\<lambda>p. pf_id p = i) b))"

definition insert_scope :: "int \<Rightarrow> ScopeConfig \<Rightarrow> stmt" where
  "insert_scope pid sc = (''INSERT INTO scopes'', \<lambda>b. Some (b\<lparr>bx_scopes := bx_scopes b @ [store_row pid sc]\<rparr>))"

definition upsert_state :: "string \<times> string \<Rightarrow> stmt" where
  "upsert_state kv = (''INSERT INTO app_state'', \<lambda>b. Some (b\<lparr>bx_app := (bx_app b)(fst kv \<mapsto> snd kv)\<rparr>))"

section \<open>Beginning an apply\<close>

record applyPlan =
  ap_newProfileID :: int
  ap_prevProfileID :: int
  ap_stashProfileID :: int
  ap_originState :: string
  ap_snap :: "keaConfig option"
  ap_gatewayIP :: string
  ap_prevUplink :: "(string \<times> string) list"

definition prepareReconcile :: "Env \<Rightarrow> ScopeInput list \<Rightarrow> string \<Rightarrow> (apply_error + keaConfig option) go" where
  "prepareReconcile E renderScopes label = do {
     inp \<leftarrow> BaseRenderInput E;
     case RenderProfile (ev_hooksDir E) (inp\<lparr>pr_Scopes := renderScopes, pr_IfaceWildcard := True\<rparr>) of
       Inl e \<Rightarrow> State_Monad.return (Inl (GenerateFailed e))
     | Inr (c, _) \<Rightarrow> do {
         r \<leftarrow> call E (TestConfig c);
         case r of Some m \<Rightarrow> State_Monad.return (Inl (ValidationFailed m))
         | None \<Rightarrow> do {
             updating \<leftarrow> ask E UpdateRunning;
             if updating then State_Monad.return (Inl UpdateInProgress)
             else do {
               got \<leftarrow> BeginReconcile;
               if \<not> got then State_Monad.return (Inl GuardBusy)
               else do {
                 snap \<leftarrow> SnapshotKeaConf E label;
                 case snap of
                   Inl m \<Rightarrow> do { EndReconcile; State_Monad.return (Inl (SnapshotFailed m)) }
                 | Inr c \<Rightarrow> State_Monad.return (Inr c) } } } } }"

fun read_states :: "Env \<Rightarrow> string list \<Rightarrow> (string + (string \<times> string) list) go" where
  "read_states E [] = State_Monad.return (Inr [])"
| "read_states E (k # ks) = do {
     r \<leftarrow> GetState E k;
     case snd r of Some m \<Rightarrow> State_Monad.return (Inl m)
     | None \<Rightarrow> do {
         rest \<leftarrow> read_states E ks;
         State_Monad.return (map_sum id (\<lambda>kvs. (k, fst r) # kvs) rest) } }"

definition find_named :: "string \<Rightarrow> Profile list \<Rightarrow> int" where
  "find_named n ps = (case List.find (\<lambda>p. pf_name p = n) ps of Some p \<Rightarrow> pf_id p | None \<Rightarrow> 0)"

definition stash_text :: "string \<Rightarrow> int \<Rightarrow> string" where
  "stash_text n i = n @ ''.stash-'' @ Itoa i"

definition persist_stmts :: "int \<Rightarrow> int \<Rightarrow> string \<Rightarrow> ScopeConfig list \<Rightarrow> UplinkConfig \<Rightarrow> stmt list" where
  "persist_stmts stash nid name scopes uplink =
    (if stash \<noteq> 0 then [rename_profile (\<lambda>p. p\<lparr>pf_active := False\<rparr>) stash (stash_text name stash)] else [])
    @ [deactivate_all, insert_profile nid name] @ map (insert_scope nid) scopes
    @ map upsert_state (UplinkState (up_Enabled uplink) (up_SSID uplink) (up_Password uplink))
    @ [upsert_state (LifecycleStateKey, StateConfiguring)]"

text \<open>The stash lookup runs inside the transaction; the rowid \<open>nid\<close> of the new profile is
  the one AUTOINCREMENT hands out.\<close>

definition persistProfile :: "Env \<Rightarrow> int \<Rightarrow> string \<Rightarrow> ScopeConfig list \<Rightarrow> UplinkConfig \<Rightarrow> (string option \<times> int) go" where
  "persistProfile E nid name scopes uplink = do {
     b0 \<leftarrow> State_Monad.get;
     r \<leftarrow> call E (DbTx ''begin'');
     case r of Some m \<Rightarrow> State_Monad.return (Some m, 0)
     | None \<Rightarrow> do {
         found \<leftarrow> ask E (DbTx ''SELECT id FROM profiles WHERE name'');
         let stash = (if found then find_named name (bx_profiles b0) else 0);
         r \<leftarrow> exec_until E (persist_stmts stash nid name scopes uplink);
         case r of Some m \<Rightarrow> do { State_Monad.update (restore_tables b0); State_Monad.return (Some m, stash) }
         | None \<Rightarrow> do {
             r \<leftarrow> call E (DbTx ''commit'');
             State_Monad.update (\<lambda>b. if r = None then b else restore_tables b0 b);
             State_Monad.return (r, stash) } } }"

definition persist_or_release :: "Env \<Rightarrow> int \<Rightarrow> string \<Rightarrow> ScopeConfig list \<Rightarrow> UplinkConfig \<Rightarrow> applyPlan
    \<Rightarrow> (apply_error + applyPlan) go" where
  "persist_or_release E nid name scopes uplink plan = do {
     origin \<leftarrow> state_value E LifecycleStateKey;
     readable \<leftarrow> ask E DbActiveProfile;
     b \<leftarrow> State_Monad.get;
     let prev = (case (if readable then active_profile (bx_profiles b) else None) of Some i \<Rightarrow> i | None \<Rightarrow> 0);
     r \<leftarrow> persistProfile E nid name scopes uplink;
     case fst r of
       Some m \<Rightarrow> do { EndReconcile; State_Monad.return (Inl (TransactionFailed m)) }
     | None \<Rightarrow> State_Monad.return (Inr (plan\<lparr>ap_originState := origin, ap_prevProfileID := prev,
           ap_newProfileID := nid, ap_stashProfileID := snd r\<rparr>)) }"

definition new_plan :: "keaConfig option \<Rightarrow> string \<Rightarrow> (string \<times> string) list \<Rightarrow> applyPlan" where
  "new_plan snap gw up = \<lparr>ap_newProfileID = 0, ap_prevProfileID = 0, ap_stashProfileID = 0, ap_originState = [],
     ap_snap = snap, ap_gatewayIP = gw, ap_prevUplink = up\<rparr>"

definition beginApply :: "Env \<Rightarrow> int \<Rightarrow> string \<Rightarrow> ScopeConfig list \<Rightarrow> UplinkConfig \<Rightarrow> (apply_error + applyPlan) go" where
  "beginApply E nid name scopes uplink =
    (case validateProfileName name of
       Some e \<Rightarrow> State_Monad.return (Inl e)
     | None \<Rightarrow>
        (case validateScopeTopology scopes of
           Some e \<Rightarrow> State_Monad.return (Inl (BadTopology e))
         | None \<Rightarrow> do {
             snap \<leftarrow> prepareReconcile E (fst (buildRenderScopes scopes (up_Enabled uplink))) ''pre-apply'';
             case snap of
               Inl e \<Rightarrow> State_Monad.return (Inl e)
             | Inr c \<Rightarrow> do {
                 prevs \<leftarrow> read_states E UplinkStateKeys;
                 case prevs of
                   Inl m \<Rightarrow> do { EndReconcile; State_Monad.return (Inl (UplinkReadFailed m)) }
                 | Inr kvs \<Rightarrow> persist_or_release E nid name scopes uplink
                     (new_plan c (snd (buildRenderScopes scopes (up_Enabled uplink))) kvs) } }))"

section \<open>Finishing an apply\<close>

record rollbackSpec =
  rb_action :: string
  rb_profileName :: string
  rb_revertState :: string
  rb_prevProfileID :: int
  rb_snap :: "keaConfig option"
  rb_revertTables :: "string option go"
  rb_preReconcile :: "unit go"

definition restore_conf :: "Env \<Rightarrow> keaConfig option \<Rightarrow> unit go" where
  "restore_conf E snap =
    (case snap of None \<Rightarrow> State_Monad.return ()
     | Some c \<Rightarrow> do {
         readable \<leftarrow> ask E ReadSnapshot;
         if_do readable (do { written \<leftarrow> ask E (WriteConf c); if_do written (act E ReloadConfig) }) })"

definition rollbackFailed :: "Env \<Rightarrow> rollbackSpec \<Rightarrow> unit go" where
  "rollbackFailed E p = do {
     _ \<leftarrow> rb_revertTables p;
     restore_conf E (rb_snap p);
     _ \<leftarrow> SetState E LifecycleStateKey (rb_revertState p);
     rb_preReconcile p;
     errs \<leftarrow> ReconcileApplianceState E ModeApply (rb_prevProfileID p);
     if_do (errs \<noteq> []) (act E (Audit ''ROLLBACK_FAILED'' (rb_profileName p) ''ERROR''));
     act E (Audit (rb_action p) (rb_profileName p) ''FAILED'') }"

definition setActiveAudited :: "Env \<Rightarrow> string \<Rightarrow> string \<Rightarrow> unit go" where
  "setActiveAudited E action target = do {
     r \<leftarrow> SetState E LifecycleStateKey StateActive;
     if_do (r \<noteq> None) (act E (Audit action target ''ERROR'')) }"

definition rollback_stmts :: "applyPlan \<Rightarrow> string \<Rightarrow> stmt list" where
  "rollback_stmts plan name =
    [deactivate_all, delete_profile (ap_newProfileID plan)]
    @ (if ap_stashProfileID plan \<noteq> 0 then [rename_profile id (ap_stashProfileID plan) name] else [])
    @ (if ap_prevProfileID plan \<noteq> 0 then [activate (ap_prevProfileID plan)] else [])"

definition rollbackProfileTables :: "Env \<Rightarrow> applyPlan \<Rightarrow> string \<Rightarrow> string option go" where
  "rollbackProfileTables E plan name = in_tx E (exec_all E (rollback_stmts plan name))"

definition restoreUplinkState :: "Env \<Rightarrow> (string \<times> string) list \<Rightarrow> unit go" where
  "restoreUplinkState E prevs = do { _ \<leftarrow> SetStates E prevs; State_Monad.return () }"

definition revert_state :: "string \<Rightarrow> string" where
  "revert_state origin = (if origin = [] \<or> origin = StateConfiguring then StateOnboarding else origin)"

definition apply_rollback :: "Env \<Rightarrow> applyPlan \<Rightarrow> string \<Rightarrow> rollbackSpec" where
  "apply_rollback E plan name =
    \<lparr>rb_action = ''APPLY_PROFILE'', rb_profileName = name, rb_revertState = revert_state (ap_originState plan),
     rb_prevProfileID = ap_prevProfileID plan, rb_snap = ap_snap plan,
     rb_revertTables = rollbackProfileTables E plan name,
     rb_preReconcile = restoreUplinkState E (ap_prevUplink plan)\<rparr>"

definition drop_stash :: "Env \<Rightarrow> int \<Rightarrow> unit go" where
  "drop_stash E stash = (if stash \<noteq> 0 then do { _ \<leftarrow> exec E (delete_profile stash); State_Monad.return () }
     else State_Monad.return ())"

definition finishApply :: "Env \<Rightarrow> applyPlan \<Rightarrow> string \<Rightarrow> unit go" where
  "finishApply E plan name = do {
     StopActiveMonitors E;
     errs \<leftarrow> ReconcileApplianceState E ModeApply (ap_newProfileID plan);
     (if errs = [] then do {
        setActiveAudited E ''APPLY_PROFILE'' name;
        drop_stash E (ap_stashProfileID plan);
        act E (Audit ''APPLY_PROFILE'' name ''SUCCESS'') }
      else rollbackFailed E (apply_rollback E plan name));
     EndReconcile }"

section \<open>Switching to a stored profile\<close>

record switchPlan =
  sp_targetProfileID :: int
  sp_prevProfileID :: int
  sp_profileName :: string
  sp_snap :: "keaConfig option"
  sp_gatewayIP :: string
  sp_allTagged :: bool

definition switch_stmts :: "int \<Rightarrow> stmt list" where
  "switch_stmts target = [deactivate_all, activate target, upsert_state (LifecycleStateKey, StateConfiguring)]"

definition switch_tables :: "Env \<Rightarrow> switchPlan \<Rightarrow> (apply_error + switchPlan) go" where
  "switch_tables E plan = do {
     readable \<leftarrow> ask E DbActiveProfile;
     b \<leftarrow> State_Monad.get;
     let prev = (case (if readable then active_profile (bx_profiles b) else None) of Some i \<Rightarrow> i | None \<Rightarrow> 0);
     r \<leftarrow> in_tx E (exec_all E (switch_stmts (sp_targetProfileID plan)));
     case r of
       Some m \<Rightarrow> do { EndReconcile; State_Monad.return (Inl (TransactionFailed m)) }
     | None \<Rightarrow> do {
         StopActiveMonitors E;
         State_Monad.return (Inr (plan\<lparr>sp_prevProfileID := prev\<rparr>)) } }"

definition beginSwitch :: "Env \<Rightarrow> int \<Rightarrow> (apply_error + switchPlan) go" where
  "beginSwitch E target = do {
     found \<leftarrow> ask E (DbRead ''profiles'');
     b \<leftarrow> State_Monad.get;
     case (if found then List.find (\<lambda>p. pf_id p = target) (bx_profiles b) else None) of
       None \<Rightarrow> State_Monad.return (Inl ProfileNotFound)
     | Some p \<Rightarrow>
         if pf_active p then State_Monad.return (Inl AlreadyActive)
         else do {
           loaded \<leftarrow> LoadScopeConfigs E target;
           case loaded of
             Inl _ \<Rightarrow> State_Monad.return (Inl NoScopesToApply)
           | Inr scopes \<Rightarrow>
               if scopes = [] then State_Monad.return (Inl NoScopesToApply)
               else (case validateScopeTopology scopes of
                   Some e \<Rightarrow> State_Monad.return (Inl (BadTopology e))
                 | None \<Rightarrow> do {
                     up \<leftarrow> UplinkSettings E;
                     snap \<leftarrow> prepareReconcile E (fst (buildRenderScopes scopes (fst up))) ''pre-switch'';
                     case snap of
                       Inl e \<Rightarrow> State_Monad.return (Inl e)
                     | Inr c \<Rightarrow> switch_tables E
                         \<lparr>sp_targetProfileID = target, sp_prevProfileID = 0, sp_profileName = pf_name p, sp_snap = c,
                          sp_gatewayIP = snd (buildRenderScopes scopes (fst up)),
                          sp_allTagged = allScopesTagged scopes\<rparr> }) } }"

definition revert_stmts :: "int \<Rightarrow> stmt list" where
  "revert_stmts prev = deactivate_all # (if prev \<noteq> 0 then [activate prev] else [])"

definition revertActiveFlag :: "Env \<Rightarrow> int \<Rightarrow> string option go" where
  "revertActiveFlag E prev = in_tx E (exec_all E (revert_stmts prev))"

definition switch_rollback :: "Env \<Rightarrow> switchPlan \<Rightarrow> rollbackSpec" where
  "switch_rollback E plan =
    \<lparr>rb_action = ''SWITCH_PROFILE'', rb_profileName = sp_profileName plan, rb_revertState = StateActive,
     rb_prevProfileID = sp_prevProfileID plan, rb_snap = sp_snap plan,
     rb_revertTables = revertActiveFlag E (sp_prevProfileID plan), rb_preReconcile = State_Monad.return ()\<rparr>"

definition finishSwitch :: "Env \<Rightarrow> switchPlan \<Rightarrow> unit go" where
  "finishSwitch E plan = do {
     errs \<leftarrow> ReconcileApplianceState E ModeApply (sp_targetProfileID plan);
     (if errs = [] then do {
        setActiveAudited E ''SWITCH_PROFILE'' (sp_profileName plan);
        act E (Audit ''SWITCH_PROFILE'' (sp_profileName plan) ''SUCCESS'') }
      else rollbackFailed E (switch_rollback E plan));
     EndReconcile }"

end
