(* ===== verification/ApplySafety.thy ===== *)
theory ApplySafety
  imports ProfileApply
begin

text \<open>
  What an apply promises: a stored profile is read back as it was written, a failed apply leaves
  the profile tables as it found them, and an apply as a whole either ends ACTIVE on the new
  profile or goes back to where it began, with the guard released.
\<close>

section \<open>Scopes are read back as written\<close>

lemma load_store_row:
  "sc_Plan sc \<noteq> [] \<Longrightarrow> load_row (store_row pid sc) = sc"
  by (cases sc; cases "sc_Services sc")
     (auto simp: load_row_def store_row_def column_or_def plan_column_def services_column_def zero_services_def Let_def)

lemma scopes_of_store:
  assumes "list_all (\<lambda>sc. sc_Plan sc \<noteq> []) scopes" "list_all (\<lambda>r. rw_profile r \<noteq> pid) rows"
  shows "scopes_of pid (rows @ map (store_row pid) scopes) = scopes"
proof -
  have "map load_row (map (store_row pid) scopes) = scopes"
    using assms(1) by (induction scopes) (simp_all add: load_store_row)
  moreover have "filter (\<lambda>r. rw_profile r = pid) (map (store_row pid) scopes) = map (store_row pid) scopes"
    by (simp add: filter_id_conv store_row_def)
  moreover have "filter (\<lambda>r. rw_profile r = pid) rows = []"
    using assms(2) by (simp add: filter_empty_conv list_all_iff)
  ultimately show ?thesis by (simp add: scopes_of_def)
qed

section \<open>Transactions as functions\<close>

fun apply_stmts :: "stmt list \<Rightarrow> Box \<Rightarrow> Box option" where
  "apply_stmts [] b = Some b"
| "apply_stmts (s # ss) b = (case snd s b of None \<Rightarrow> None | Some b' \<Rightarrow> apply_stmts ss b')"

definition trace_free :: "stmt \<Rightarrow> bool" where
  "trace_free s \<longleftrightarrow> (\<forall>b t. snd s (b\<lparr>bx_trace := t\<rparr>) = map_option (\<lambda>b. b\<lparr>bx_trace := t\<rparr>) (snd s b))"

definition table_only :: "stmt \<Rightarrow> bool" where
  "table_only s \<longleftrightarrow> (\<forall>b b'. snd s b = Some b' \<longrightarrow> restore_tables b b' = b)"

lemma restore_tables_id [simp]: "restore_tables b b = b"
  by (cases b) (simp add: restore_tables_def)

lemma restore_tables_twice: "restore_tables b0 (restore_tables b b') = restore_tables b0 b'"
  by (simp add: restore_tables_def)

lemma restore_tables_upd [simp]:
  "restore_tables b0 (b\<lparr>bx_app := ap\<rparr>) = restore_tables b0 b"
  "restore_tables b0 (b\<lparr>bx_profiles := ps\<rparr>) = restore_tables b0 b"
  "restore_tables b0 (b\<lparr>bx_scopes := rs\<rparr>) = restore_tables b0 b"
  "restore_tables b0 (b\<lparr>bx_profiles := ps, bx_scopes := rs\<rparr>) = restore_tables b0 b"
  "restore_tables b0 (b\<lparr>bx_trace := t\<rparr>) = (restore_tables b0 b)\<lparr>bx_trace := t\<rparr>"
  by (simp_all add: restore_tables_def)

lemma stmts_ok [simp]:
  "trace_free deactivate_all" "trace_free (activate i)" "trace_free (rename_profile g i n)"
  "trace_free (insert_profile i n)" "trace_free (delete_profile i)" "trace_free (insert_scope i sc)"
  "trace_free (upsert_state kv)"
  by (auto simp: trace_free_def deactivate_all_def activate_def rename_profile_def insert_profile_def
      delete_profile_def insert_scope_def upsert_state_def upd_profiles_def name_taken_def drop_profiles_def)

lemma table_only_stmts [simp]:
  "table_only deactivate_all" "table_only (activate i)" "table_only (rename_profile g i n)"
  "table_only (insert_profile i n)" "table_only (delete_profile i)" "table_only (insert_scope i sc)"
  "table_only (upsert_state kv)"
  by (simp_all add: table_only_def deactivate_all_def activate_def rename_profile_def insert_profile_def
      delete_profile_def insert_scope_def upsert_state_def upd_profiles_def drop_profiles_def)

lemma apply_stmts_trace:
  "list_all trace_free ss \<Longrightarrow> apply_stmts ss (b\<lparr>bx_trace := t\<rparr>) = map_option (\<lambda>b. b\<lparr>bx_trace := t\<rparr>) (apply_stmts ss b)"
  by (induction ss arbitrary: b) (auto simp: trace_free_def split: option.splits)

abbreviation retrace :: "Box \<Rightarrow> trace \<Rightarrow> Box" where
  "retrace b t \<equiv> b\<lparr>bx_trace := t\<rparr>"

lemma retrace_self [simp]: "retrace b (bx_trace b) = b"
  by (cases b) simp

lemma retrace_retrace [simp]: "retrace (retrace b t) u = retrace b u"
  by simp

lemma exec_cases:
  assumes "run_state (exec E s) b = (r, b')" "trace_free s"
  obtains (bad) m where "r = Some m" "b' = retrace b (bx_trace b')"
  | (good) b1 where "r = None" "ev_outcome E (bx_trace b) (DbTx (fst s)) = None" "snd s b = Some b1"
      "b' = retrace b1 (bx_trace b')"
proof (cases "ev_outcome E (bx_trace b) (DbTx (fst s))")
  case None
  then show ?thesis
    using assms bad good by (auto simp: exec_def trace_free_def split: option.split_asm)
next
  case (Some m)
  then show ?thesis using assms(1) by (intro bad [of m]) (auto simp: exec_def)
qed

definition tx_ok :: "stmt list \<Rightarrow> bool" where
  "tx_ok ss \<longleftrightarrow> list_all trace_free ss \<and> list_all table_only ss"

lemma tx_ok_simps [simp]:
  "tx_ok []" "tx_ok (s # ss) \<longleftrightarrow> trace_free s \<and> table_only s \<and> tx_ok ss" "tx_ok (xs @ ys) \<longleftrightarrow> tx_ok xs \<and> tx_ok ys"
  by (auto simp: tx_ok_def)

lemma tx_ok_stmts [simp]:
  "tx_ok (map (insert_scope i) scs)" "tx_ok (map upsert_state kvs)" "tx_ok (persist_stmts st nid name scs up)"
  "tx_ok (rollback_stmts plan name)" "tx_ok (switch_stmts i)" "tx_ok (revert_stmts i)"
  by (auto simp: tx_ok_def list_all_iff persist_stmts_def rollback_stmts_def switch_stmts_def revert_stmts_def)

lemma apply_stmts_retrace:
  "tx_ok ss \<Longrightarrow> apply_stmts ss (retrace b t) = map_option (\<lambda>b. retrace b t) (apply_stmts ss b)"
  by (rule apply_stmts_trace) (simp add: tx_ok_def)

lemma exec_restores:
  assumes "run_state (exec E s) b = (r, b')" "trace_free s" "table_only s"
  shows "restore_tables b0 b' = retrace (restore_tables b0 b) (bx_trace b')"
  using assms(1,2)
proof (cases rule: exec_cases)
  case (bad m)
  then show ?thesis by (metis restore_tables_upd(5))
next
  case (good b1)
  have "restore_tables b b1 = b" using good(3) assms(3) by (simp add: table_only_def)
  then have "restore_tables b0 b1 = restore_tables b0 b" by (metis restore_tables_twice)
  then show ?thesis using good(4) by (metis restore_tables_upd(5))
qed

lemma exec_until_run:
  "tx_ok ss \<Longrightarrow> run_state (exec_until E ss) b = (r, b')
    \<Longrightarrow> (r = None \<longrightarrow> (\<exists>b1. apply_stmts ss b = Some b1 \<and> b' = retrace b1 (bx_trace b')))
      \<and> restore_tables b0 b' = retrace (restore_tables b0 b) (bx_trace b')"
proof (induction ss arbitrary: b)
  case Nil then show ?case by (simp add: restore_tables_def)
next
  case (Cons s ss)
  obtain r1 b1 where 1: "run_state (exec E s) b = (r1, b1)" by fastforce
  have tf: "trace_free s" "table_only s" "tx_ok ss" using Cons.prems(1) by simp_all
  note re = exec_restores [OF 1 tf(1,2), of b0]
  show ?case
  proof (cases r1)
    case (Some m)
    then show ?thesis using Cons.prems(2) 1 re by auto
  next
    case None
    then have 2: "run_state (exec_until E ss) b1 = (r, b')" using Cons.prems(2) 1 by simp
    from 1 tf(1) obtain c where c: "snd s b = Some c" "b1 = retrace c (bx_trace b1)"
      by (cases rule: exec_cases) (use None in auto)
    have ap: "apply_stmts ss b1 = map_option (\<lambda>x. retrace x (bx_trace b1)) (apply_stmts ss c)"
      using apply_stmts_retrace [OF tf(3), where b = c and t = "bx_trace b1"] c(2) by simp
    show ?thesis using Cons.IH [OF tf(3) 2] re c(1) ap by auto
  qed
qed

lemma exec_all_run:
  "tx_ok ss \<Longrightarrow> run_state (exec_all E ss) b = (r, b')
    \<Longrightarrow> (r = None \<longrightarrow> (\<exists>b1. apply_stmts ss b = Some b1 \<and> b' = retrace b1 (bx_trace b')))
      \<and> restore_tables b0 b' = retrace (restore_tables b0 b) (bx_trace b')"
proof (induction ss arbitrary: b r)
  case Nil then show ?case by (simp add: restore_tables_def)
next
  case (Cons s ss)
  obtain r1 b1 where 1: "run_state (exec E s) b = (r1, b1)" by fastforce
  obtain r2 where 2: "run_state (exec_all E ss) b1 = (r2, b')" and r: "r = (case r1 of Some m \<Rightarrow> Some m | None \<Rightarrow> r2)"
    using Cons.prems(2) 1 by (auto split: prod.splits)
  have tf: "trace_free s" "table_only s" "tx_ok ss" using Cons.prems(1) by simp_all
  note re = exec_restores [OF 1 tf(1,2), of b0]
  note ih = Cons.IH [OF tf(3) 2]
  show ?case
  proof (cases r1)
    case (Some m)
    then show ?thesis using re ih r by simp
  next
    case None
    from 1 tf(1) obtain c where c: "snd s b = Some c" "b1 = retrace c (bx_trace b1)"
      by (cases rule: exec_cases) (use None in auto)
    have ap: "apply_stmts ss b1 = map_option (\<lambda>x. retrace x (bx_trace b1)) (apply_stmts ss c)"
      using apply_stmts_retrace [OF tf(3), where b = c and t = "bx_trace b1"] c(2) by simp
    show ?thesis using ih re c(1) ap None r by auto
  qed
qed

text \<open>A transaction either commits all its statements or leaves the store as it was; without a
  failing call it commits when the statements do.\<close>

lemma in_tx_run:
  assumes "run_state (in_tx E (exec_all E ss)) b = (r, b')" "tx_ok ss"
  shows "case r of None \<Rightarrow> (\<exists>b1. apply_stmts ss b = Some b1 \<and> b' = retrace b1 (bx_trace b'))
    | Some m \<Rightarrow> b' = retrace b (bx_trace b')"
proof -
  let ?x = "\<lambda>l. ev_outcome E (bx_trace b) (DbTx l)"
  show ?thesis
  proof (cases "?x ''begin''")
    case (Some m)
    then have "r = Some m" "b' = retrace b (bx_trace b @ [(DbTx ''begin'', False)])"
      using assms(1) by (auto simp: in_tx_def)
    then show ?thesis by simp
  next
    case None
    let ?b = "retrace b (bx_trace b @ [(DbTx ''begin'', True)])"
    obtain r1 b1 where 1: "run_state (exec_all E ss) ?b = (r1, b1)" by fastforce
    note e = exec_all_run [OF assms(2) 1, of b]
    have ap: "apply_stmts ss ?b = map_option (\<lambda>x. retrace x (bx_trace ?b)) (apply_stmts ss b)"
      using apply_stmts_retrace [OF assms(2), where b = b and t = "bx_trace ?b"] by simp
    have re: "restore_tables b b1 = retrace b (bx_trace b1)" using e by simp
    show ?thesis
    proof (cases r1)
      case (Some m)
      then have "r = Some m" "b' = retrace b (bx_trace b1)" using assms(1) None 1 re by (simp_all add: in_tx_def)
      then show ?thesis by simp
    next
      case r1: None
      let ?c = "ev_outcome E (bx_trace b1) (DbTx ''commit'')"
      show ?thesis
      proof (cases ?c)
        case (Some m)
        then have "r = Some m" "b' = retrace b (bx_trace b1 @ [(DbTx ''commit'', False)])"
          using assms(1) None 1 r1 re by (simp_all add: in_tx_def)
        then show ?thesis by simp
      next
        case c: None
        then have b': "r = None" "b' = retrace b1 (bx_trace b1 @ [(DbTx ''commit'', True)])"
          using assms(1) None 1 r1 by (simp_all add: in_tx_def)
        obtain z where z: "apply_stmts ss b = Some z" "b1 = retrace z (bx_trace b1)"
          using e ap r1 by (auto simp: map_option_case split: option.splits)
        have "b' = retrace z (bx_trace b')" unfolding b'(2) by (subst z(2)) simp
        then show ?thesis using z(1) b'(1) by simp
      qed
    qed
  qed
qed

lemma exec_all_succeeds:
  "tx_ok ss \<Longrightarrow> \<forall>t l. ev_outcome E t (DbTx l) = None \<Longrightarrow> apply_stmts ss b = Some b1
    \<Longrightarrow> fst (run_state (exec_all E ss) b) = None"
proof (induction ss arbitrary: b b1)
  case Nil then show ?case by simp
next
  case (Cons s ss)
  obtain r1 c where 1: "run_state (exec E s) b = (r1, c)" by fastforce
  have tf: "trace_free s" "tx_ok ss" using Cons.prems(1) by simp_all
  obtain d where d: "snd s b = Some d" "apply_stmts ss d = Some b1"
    using Cons.prems(3) by (auto split: option.splits)
  have n: "r1 = None" "c = retrace d (bx_trace c)"
    using 1 Cons.prems(2) d(1) tf(1) by (auto simp: exec_def trace_free_def)
  have "apply_stmts ss c = Some (retrace b1 (bx_trace c))"
    using apply_stmts_retrace [OF tf(2), where b = d and t = "bx_trace c"] n(2) d(2) by simp
  from Cons.IH [OF tf(2) Cons.prems(2) this] 1 n(1) show ?case by (simp add: split_beta)
qed

lemma in_tx_succeeds:
  assumes "tx_ok ss" "\<forall>t l. ev_outcome E t (DbTx l) = None" "apply_stmts ss b = Some b1"
  shows "\<exists>t. run_state (in_tx E (exec_all E ss)) b = (None, retrace b1 t)"
proof -
  obtain r b' where r: "run_state (in_tx E (exec_all E ss)) b = (r, b')" by fastforce
  let ?b = "retrace b (bx_trace b @ [(DbTx ''begin'', True)])"
  have "apply_stmts ss ?b = Some (retrace b1 (bx_trace ?b))"
    using apply_stmts_retrace [OF assms(1), where b = b and t = "bx_trace ?b"] assms(3) by simp
  from exec_all_succeeds [OF assms(1,2) this] have "r = None"
    using r assms(2) by (auto simp: in_tx_def split: prod.splits)
  with in_tx_run [OF r assms(1)] r assms(3) show ?thesis by (auto intro!: exI [of _ "bx_trace b'"])
qed

section \<open>A failed apply leaves the profile tables as they were\<close>

text \<open>A store: row ids and names are unique, at most one profile is active, and \<open>nid\<close> is
  a rowid no row carries yet.\<close>

definition tables_ok :: "int \<Rightarrow> Box \<Rightarrow> bool" where
  "tables_ok nid b \<longleftrightarrow> distinct (map pf_id (bx_profiles b)) \<and> distinct (map pf_name (bx_profiles b))
     \<and> list_all (\<lambda>p. 0 < pf_id p \<and> pf_id p < nid) (bx_profiles b)
     \<and> length (filter pf_active (bx_profiles b)) \<le> 1
     \<and> list_all (\<lambda>r. rw_profile r < nid) (bx_scopes b) \<and> 0 < nid"

lemma apply_append: "apply_stmts (xs @ ys) b = Option.bind (apply_stmts xs b) (apply_stmts ys)"
  by (induction xs arbitrary: b) (auto split: option.splits)

lemma apply_insert_scopes:
  "apply_stmts (map (insert_scope i) scs) b = Some (b\<lparr>bx_scopes := bx_scopes b @ map (store_row i) scs\<rparr>)"
  by (induction scs arbitrary: b) (simp_all add: insert_scope_def)

lemma apply_upserts:
  "apply_stmts (map upsert_state kvs) b = Some (b\<lparr>bx_app := bx_app b ++ map_of (rev kvs)\<rparr>)"
  by (induction kvs arbitrary: b) (simp_all add: upsert_state_def map_add_def fun_upd_def fun_eq_iff split: option.splits)

definition stashed :: "int \<Rightarrow> string \<Rightarrow> Profile \<Rightarrow> Profile" where
  "stashed st name p = (if st \<noteq> 0 \<and> pf_id p = st then p\<lparr>pf_name := stash_text name st, pf_active := False\<rparr>
     else p\<lparr>pf_active := False\<rparr>)"

lemma persist_tables:
  assumes "apply_stmts (persist_stmts st nid name scs up) b = Some b1"
  shows "bx_profiles b1 = map (stashed st name) (bx_profiles b) @ [\<lparr>pf_id = nid, pf_name = name, pf_active = True\<rparr>]"
    "bx_scopes b1 = bx_scopes b @ map (store_row nid) scs"
    "bx_app b1 = (bx_app b ++ map_of (rev (UplinkState (up_Enabled up) (up_SSID up) (up_Password up))))(LifecycleStateKey \<mapsto> StateConfiguring)"
    "st \<noteq> 0 \<longrightarrow> \<not> (\<exists>p \<in> set (bx_profiles b). pf_name p = name \<and> pf_id p \<noteq> st)"
    "st = 0 \<longrightarrow> name \<notin> pf_name ` set (bx_profiles b)"
proof -
  have "(\<exists>c. c = (if st \<noteq> 0 then b\<lparr>bx_profiles := map (\<lambda>p. if pf_id p = st
          then p\<lparr>pf_name := stash_text name st, pf_active := False\<rparr> else p) (bx_profiles b)\<rparr> else b)
      \<and> apply_stmts ([deactivate_all, insert_profile nid name] @ map (insert_scope nid) scs
    @ map upsert_state (UplinkState (up_Enabled up) (up_SSID up) (up_Password up))
    @ [upsert_state (LifecycleStateKey, StateConfiguring)]) c = Some b1)"
    using assms by (auto simp: persist_stmts_def rename_profile_def upd_profiles_def split: if_splits)
  then obtain c where c: "c = (if st \<noteq> 0 then b\<lparr>bx_profiles := map (\<lambda>p. if pf_id p = st
          then p\<lparr>pf_name := stash_text name st, pf_active := False\<rparr> else p) (bx_profiles b)\<rparr> else b)"
    and r: "apply_stmts ([deactivate_all, insert_profile nid name] @ map (insert_scope nid) scs
    @ map upsert_state (UplinkState (up_Enabled up) (up_SSID up) (up_Password up))
    @ [upsert_state (LifecycleStateKey, StateConfiguring)]) c = Some b1" by blast
  have r': "b1 = c\<lparr>bx_profiles := map (\<lambda>p. p\<lparr>pf_active := False\<rparr>) (bx_profiles c)
        @ [\<lparr>pf_id = nid, pf_name = name, pf_active = True\<rparr>],
      bx_scopes := bx_scopes c @ map (store_row nid) scs,
      bx_app := (bx_app c ++ map_of (rev (UplinkState (up_Enabled up) (up_SSID up) (up_Password up))))(LifecycleStateKey \<mapsto> StateConfiguring)\<rparr>"
    and nt: "\<not> name_taken name (\<lambda>_. False) c"
    using r by (auto simp: apply_append apply_insert_scopes apply_upserts deactivate_all_def insert_profile_def
        upd_profiles_def upsert_state_def name_taken_def list_ex_iff split: if_splits)
  show "bx_profiles b1 = map (stashed st name) (bx_profiles b) @ [\<lparr>pf_id = nid, pf_name = name, pf_active = True\<rparr>]"
    by (auto simp: r' c stashed_def)
  show "bx_scopes b1 = bx_scopes b @ map (store_row nid) scs" by (simp add: r' c)
  show "bx_app b1 = (bx_app b ++ map_of (rev (UplinkState (up_Enabled up) (up_SSID up) (up_Password up))))(LifecycleStateKey \<mapsto> StateConfiguring)"
    by (simp add: r' c)
  show "st \<noteq> 0 \<longrightarrow> \<not> (\<exists>p \<in> set (bx_profiles b). pf_name p = name \<and> pf_id p \<noteq> st)"
    using nt by (force simp: name_taken_def list_ex_iff c split: if_splits)
  show "st = 0 \<longrightarrow> name \<notin> pf_name ` set (bx_profiles b)"
    using nt by (auto simp: name_taken_def list_ex_iff c)
qed

definition prev_id :: "Box \<Rightarrow> int" where
  "prev_id b = (case active_profile (bx_profiles b) of Some i \<Rightarrow> i | None \<Rightarrow> 0)"

lemma prev_id_active:
  assumes "tables_ok nid b" "p \<in> set (bx_profiles b)"
  shows "pf_active p \<longleftrightarrow> prev_id b \<noteq> 0 \<and> pf_id p = prev_id b"
proof (cases "List.find pf_active (bx_profiles b)")
  case None
  then have "prev_id b = 0" by (simp add: prev_id_def active_profile_def)
  moreover have "\<not> pf_active p" using None assms(2) by (simp add: find_None_iff)
  ultimately show ?thesis by simp
next
  case (Some q)
  then have q: "q \<in> set (bx_profiles b)" "pf_active q" by (auto simp: find_Some_iff)
  have "p = q" if "pf_active p"
  proof (rule ccontr)
    assume "p \<noteq> q"
    have "{p, q} \<subseteq> set (filter pf_active (bx_profiles b))" using that q assms(2) by auto
    then have "card {p, q} \<le> length (filter pf_active (bx_profiles b))"
      by (meson List.finite_set card_length card_mono order_trans)
    then show False using \<open>p \<noteq> q\<close> assms(1) by (simp add: tables_ok_def)
  qed
  moreover have "p = q" if "pf_id p = pf_id q"
    using that q assms by (auto simp: tables_ok_def distinct_map inj_on_def)
  moreover have "pf_id q \<noteq> 0" using q assms(1) by (auto simp: tables_ok_def list_all_iff)
  ultimately show ?thesis using Some q by (auto simp: prev_id_def active_profile_def)
qed

lemma rollback_tables:
  assumes "tables_ok nid b" "apply_stmts (persist_stmts st nid name scs up) b = Some b1"
    "st = find_named name (bx_profiles b)"
    "bx_profiles b2 = bx_profiles b1" "bx_scopes b2 = bx_scopes b1"
    "ap_newProfileID plan = nid" "ap_stashProfileID plan = st" "ap_prevProfileID plan = prev_id b"
  shows "\<exists>b3. apply_stmts (rollback_stmts plan name) b2 = Some b3
    \<and> bx_profiles b3 = bx_profiles b \<and> bx_scopes b3 = bx_scopes b \<and> bx_app b3 = bx_app b2
    \<and> restore_tables b2 b3 = b2"
proof -
  note pt = persist_tables [OF assms(2)]
  let ?ps = "bx_profiles b"
  let ?q = "\<lambda>p. (stashed st name p)\<lparr>pf_active := False\<rparr>"
  have ids: "pf_id p \<noteq> nid" "pf_id p \<noteq> 0" if "p \<in> set ?ps" for p
    using assms(1) that by (auto simp: tables_ok_def list_all_iff)
  have rows: "rw_profile r \<noteq> nid" if "r \<in> set (bx_scopes b)" for r
    using assms(1) that by (auto simp: tables_ok_def list_all_iff)
  have st: "st \<noteq> 0 \<longrightarrow> (\<exists>p \<in> set ?ps. pf_id p = st \<and> pf_name p = name)"
    using assms(3) by (auto simp: find_named_def find_Some_iff split: option.splits intro: nth_mem)
  have only: "pf_name p = name" if "p \<in> set ?ps" "pf_id p = st" "st \<noteq> 0" for p
    using st that assms(1) by (auto simp: tables_ok_def distinct_map inj_on_def)
  define c where "c = b2\<lparr>bx_profiles := map ?q ?ps, bx_scopes := bx_scopes b\<rparr>"
  have 1: "apply_stmts [deactivate_all, delete_profile nid] b2 = Some c"
  proof -
    have "filter (\<lambda>p. pf_id p \<noteq> nid) (map (\<lambda>p. p\<lparr>pf_active := False\<rparr>) (bx_profiles b2)) = map ?q ?ps"
      using ids by (auto simp: assms(4) pt(1) filter_map comp_def stashed_def intro!: filter_True map_cong)
    moreover have "pf_id ` {p \<in> set (map (\<lambda>p. p\<lparr>pf_active := False\<rparr>) (bx_profiles b2)). pf_id p = nid} = {nid}"
      by (auto simp: assms(4) pt(1) image_iff)
    moreover have "filter (\<lambda>r. rw_profile r \<noteq> nid) (bx_scopes b2) = bx_scopes b"
      using rows by (auto simp: assms(5) pt(2) store_row_def filter_empty_conv intro!: filter_True)
    ultimately show ?thesis
      by (simp add: c_def deactivate_all_def delete_profile_def upd_profiles_def drop_profiles_def del: set_map)
  qed
  define d where "d = c\<lparr>bx_profiles := map (\<lambda>p. p\<lparr>pf_active := False\<rparr>) ?ps\<rparr>"
  have 2: "apply_stmts (if st \<noteq> 0 then [rename_profile id st name] else []) c = Some d"
  proof (cases "st = 0")
    case True then show ?thesis by (simp add: d_def c_def stashed_def)
  next
    case False
    have "\<not> name_taken name (\<lambda>p. pf_id p = st) c"
      using pt(4) False by (auto simp: name_taken_def list_ex_iff c_def stashed_def split: if_splits)
    moreover have "map (\<lambda>p. if pf_id p = st then id (p\<lparr>pf_name := name\<rparr>) else p) (map ?q ?ps)
        = map (\<lambda>p. p\<lparr>pf_active := False\<rparr>) ?ps"
      using only False by (auto simp: stashed_def)
    ultimately show ?thesis
      using False by (simp add: rename_profile_def upd_profiles_def d_def c_def del: map_map)
  qed
  have 3: "apply_stmts (if prev_id b \<noteq> 0 then [activate (prev_id b)] else []) d = Some (d\<lparr>bx_profiles := ?ps\<rparr>)"
  proof -
    have "map (\<lambda>p. p\<lparr>pf_active := False\<rparr>) ?ps = ?ps" if "prev_id b = 0"
      using prev_id_active [OF assms(1)] that by (intro map_idI) simp
    moreover have "map (\<lambda>p. if pf_id p = prev_id b then p\<lparr>pf_active := True\<rparr> else p)
        (map (\<lambda>p. p\<lparr>pf_active := False\<rparr>) ?ps) = ?ps" if "prev_id b \<noteq> 0"
      unfolding map_map using prev_id_active [OF assms(1)] that by (intro map_idI) auto
    ultimately show ?thesis
      by (simp add: activate_def upd_profiles_def d_def c_def del: map_map)
  qed
  have "apply_stmts (rollback_stmts plan name) b2 = Some (d\<lparr>bx_profiles := ?ps\<rparr>)"
    unfolding rollback_stmts_def assms(6-8) by (simp only: apply_append 1 2 3 Option.bind.simps)
  then show ?thesis by (simp add: d_def c_def)
qed

lemma persist_run:
  assumes "run_state (persistProfile E nid name scopes uplink) b = ((r, st), b')"
  shows "restore_tables b b' = retrace b (bx_trace b')
    \<and> (case r of Some _ \<Rightarrow> b' = retrace b (bx_trace b')
      | None \<Rightarrow> (\<exists>b1. apply_stmts (persist_stmts st nid name scopes uplink) b = Some b1 \<and> b' = retrace b1 (bx_trace b')
          \<and> (st = find_named name (bx_profiles b) \<or> st = 0)))"
proof (cases "ev_outcome E (bx_trace b) (DbTx ''begin'')")
  case (Some m)
  then have "r = Some m" "b' = retrace b (bx_trace b @ [(DbTx ''begin'', False)])"
    using assms by (simp_all add: persistProfile_def)
  then show ?thesis by simp
next
  case None
  let ?q = "DbTx ''SELECT id FROM profiles WHERE name''"
  let ?b0 = "retrace b (bx_trace b @ [(DbTx ''begin'', True)])"
  let ?f = "ev_outcome E (bx_trace ?b0) ?q = None"
  let ?b = "retrace b (bx_trace ?b0 @ [(?q, ?f)])"
  let ?ss = "persist_stmts st nid name scopes uplink"
  have st: "st = (if ?f then find_named name (bx_profiles b) else 0)"
    using assms None by (auto simp: persistProfile_def Let_def split: prod.splits option.splits)
  obtain r1 b1 where 1: "run_state (exec_until E ?ss) ?b = (r1, b1)" by fastforce
  note e = exec_until_run [OF _ 1, of b, simplified]
  have ap: "apply_stmts ?ss ?b = map_option (\<lambda>x. retrace x (bx_trace ?b)) (apply_stmts ?ss b)"
    using apply_stmts_retrace [of ?ss, where b = b and t = "bx_trace ?b"] by simp
  have re: "restore_tables b b1 = retrace b (bx_trace b1)" using e by simp
  have run: "((r, st), b') = (case r1 of Some m \<Rightarrow> ((Some m, st), restore_tables b b1)
      | None \<Rightarrow> let c = ev_outcome E (bx_trace b1) (DbTx ''commit''); b2 = retrace b1 (bx_trace b1 @ [(DbTx ''commit'', c = None)])
                in ((c, st), if c = None then b2 else restore_tables b b2))"
    using assms None 1 unfolding st by (auto simp: persistProfile_def Let_def split: option.splits)
  show ?thesis
  proof (cases r1)
    case (Some m)
    then show ?thesis using run re by simp
  next
    case r1: None
    obtain z where z: "apply_stmts ?ss b = Some z" "b1 = retrace z (bx_trace b1)"
      using e ap r1 by (auto simp: map_option_case split: option.splits)
    show ?thesis
    proof (cases "ev_outcome E (bx_trace b1) (DbTx ''commit'')")
      case (Some m)
      then have "r = Some m" "b' = retrace b (bx_trace b1 @ [(DbTx ''commit'', False)])"
        using run r1 re by (simp_all add: Let_def)
      then show ?thesis by simp
    next
      case c: None
      then have b': "r = None" "b' = retrace b1 (bx_trace b1 @ [(DbTx ''commit'', True)])"
        using run r1 by (simp_all add: Let_def)
      have "b' = retrace z (bx_trace b')" unfolding b'(2) by (subst z(2)) simp
      moreover have "restore_tables b b' = retrace b (bx_trace b')" unfolding b'(2) using re by simp
      ultimately show ?thesis using z(1) b'(1) st by auto
    qed
  qed
qed

lemma rollback_restores:
  assumes "tables_ok nid b" "run_state (persistProfile E nid name scopes uplink) b = ((None, st), b1)"
    "bx_profiles b2 = bx_profiles b1" "bx_scopes b2 = bx_scopes b1"
    "ap_newProfileID plan = nid" "ap_stashProfileID plan = st" "ap_prevProfileID plan = prev_id b"
    "\<forall>t l. ev_outcome E t (DbTx l) = None"
  shows "\<exists>b3. run_state (rollbackProfileTables E plan name) b2 = (None, b3)
    \<and> bx_profiles b3 = bx_profiles b \<and> bx_scopes b3 = bx_scopes b \<and> bx_app b3 = bx_app b2"
proof -
  obtain c where c: "apply_stmts (persist_stmts st nid name scopes uplink) b = Some c"
      "b1 = retrace c (bx_trace b1)" "st = find_named name (bx_profiles b) \<or> st = 0"
    using persist_run [OF assms(2)] by auto
  have "find_named name (bx_profiles b) = 0" if "name \<notin> pf_name ` set (bx_profiles b)"
  proof -
    have "List.find (\<lambda>p. pf_name p = name) (bx_profiles b) = None" using that by (auto simp: find_None_iff)
    then show ?thesis by (simp add: find_named_def)
  qed
  then have "st = find_named name (bx_profiles b)"
    using c(3) persist_tables(5) [OF c(1)] by auto
  moreover have "bx_profiles b1 = bx_profiles c" "bx_scopes b1 = bx_scopes c"
    by (subst c(2), simp)+
  then have "bx_profiles b2 = bx_profiles c" "bx_scopes b2 = bx_scopes c" using assms(3,4) by simp_all
  ultimately obtain d where d: "apply_stmts (rollback_stmts plan name) b2 = Some d" "bx_profiles d = bx_profiles b"
      "bx_scopes d = bx_scopes b" "bx_app d = bx_app b2"
    using rollback_tables [OF assms(1) c(1)] assms(5-7) by blast
  from in_tx_succeeds [OF _ assms(8) d(1)] show ?thesis
    using d(2-4) by (auto simp: rollbackProfileTables_def)
qed

text \<open>Whatever the store holds, if the profile transaction of an apply committed, then the
  roll-back transaction is never refused by a constraint, and it leaves the profiles (their names,
  their order and the active one) and the scopes exactly as they were before the apply, the
  re-applied profile's own previous version included.\<close>

theorem rollback_restores_profiles:
  assumes "tables_ok nid b" "run_state (persistProfile E nid name scopes uplink) b = ((None, st), b1)"
    "bx_profiles b2 = bx_profiles b1" "bx_scopes b2 = bx_scopes b1"
    "ap_newProfileID plan = nid" "ap_stashProfileID plan = st" "ap_prevProfileID plan = prev_id b"
    "\<forall>t l. ev_outcome E t (DbTx l) = None"
  shows "\<exists>b3. run_state (rollbackProfileTables E plan name) b2 = (None, b3)
    \<and> bx_profiles b3 = bx_profiles b \<and> bx_scopes b3 = bx_scopes b \<and> bx_app b3 = bx_app b2"
  by (rule rollback_restores [OF assms])

section \<open>An apply as a whole\<close>

lemma control_of:
  assumes "keeps (same_control b) m" "run_state m b = (r, b')"
  shows "same_control b b'"
  using yieldsD [where I = "same_control b" and V = "\<lambda>_. True", OF assms(1) control_refl assms(2)] by simp

lemma control_trans: "same_control a b \<Longrightarrow> same_control b c \<Longrightarrow> same_control a c"
  by (simp add: same_control_def)

lemma control_trace [simp]: "same_control b0 (retrace b t) = same_control b0 b" "same_control (retrace b0 t) b = same_control b0 b"
  by (simp_all add: same_control_def)

lemma control_snapshot: "keeps (same_control b0) (SnapshotKeaConf E l)"
  unfolding SnapshotKeaConf_def by (intro keep control.keeps_call TrueI)

lemma control_base: "keeps (same_control b0) (BaseRenderInput E)"
  unfolding BaseRenderInput_def by (intro keep control.keeps_call TrueI)

lemma control_acts: "keeps (same_control b0) (StopActiveMonitors E)"
  by (rule control.keeps_teardown(3))

lemma prepare_run:
  assumes "run_state (prepareReconcile E scs l) b = (r, b')"
  shows "case r of Inl _ \<Rightarrow> same_control b b'
    | Inr _ \<Rightarrow> \<not> bx_applying b \<and> same_control (b\<lparr>bx_applying := True\<rparr>) b'"
proof -
  obtain inp b1 where 1: "run_state (BaseRenderInput E) b = (inp, b1)" by fastforce
  have c1: "same_control b b1" by (rule control_of [OF control_base 1])
  show ?thesis
  proof (cases "RenderProfile (ev_hooksDir E) (inp\<lparr>pr_Scopes := scs, pr_IfaceWildcard := True\<rparr>)")
    case (Inl e)
    then show ?thesis using assms 1 c1 by (auto simp: prepareReconcile_def)
  next
    case (Inr ci)
    obtain cfg i where ci: "ci = (cfg, i)" by fastforce
    let ?b2 = "retrace b1 (bx_trace b1 @ [(TestConfig cfg, ev_outcome E (bx_trace b1) (TestConfig cfg) = None)])"
    let ?u = "ev_outcome E (bx_trace ?b2) UpdateRunning = None"
    let ?b3 = "retrace b1 (bx_trace ?b2 @ [(UpdateRunning, ?u)])"
    obtain s b4 where 4: "run_state (SnapshotKeaConf E l) (?b3\<lparr>bx_applying := True\<rparr>) = (s, b4)" by fastforce
    have c4: "same_control (?b3\<lparr>bx_applying := True\<rparr>) b4" by (rule control_of [OF control_snapshot 4])
    have run: "(r, b') = (case ev_outcome E (bx_trace b1) (TestConfig cfg) of
        Some m \<Rightarrow> (Inl (ValidationFailed m), ?b2)
      | None \<Rightarrow> if ?u then (Inl UpdateInProgress, ?b3)
          else if bx_applying b1 then (Inl GuardBusy, ?b3\<lparr>bx_applying := True\<rparr>)
          else (case s of Inl m \<Rightarrow> (Inl (SnapshotFailed m), b4\<lparr>bx_applying := False\<rparr>) | Inr c \<Rightarrow> (Inr c, b4)))"
      using assms 1 4 Inr ci
      by (cases "ev_outcome E (bx_trace b1) (TestConfig cfg)"; cases "ev_outcome E (bx_trace ?b2) UpdateRunning";
          cases "bx_applying b1"; cases s)
         (simp_all add: prepareReconcile_def BeginReconcile_def EndReconcile_def)
    show ?thesis
      using run c1 c4 by (auto simp: same_control_def split: option.splits if_splits sum.splits)
  qed
qed

lemma read_states_run:
  "run_state (read_states E ks) b = (r, b') \<Longrightarrow> \<forall>t k. ev_outcome E t (DbRead k) = None
    \<Longrightarrow> same_control b b' \<and> r = Inr (map (\<lambda>k. (k, case bx_app b k of None \<Rightarrow> [] | Some v \<Rightarrow> v)) ks)"
proof (induction ks arbitrary: b r b')
  case Nil then show ?case by (simp add: control_refl)
next
  case (Cons k ks)
  obtain r1 b1 where 1: "run_state (read_states E ks) (retrace b (bx_trace b @ [(DbRead k, True)])) = (r1, b1)"
    by fastforce
  have "same_control (retrace b (bx_trace b @ [(DbRead k, True)])) b1
      \<and> r1 = Inr (map (\<lambda>k. (k, case bx_app b k of None \<Rightarrow> [] | Some v \<Rightarrow> v)) ks)"
    using Cons.IH [OF 1 Cons.prems(2)] by simp
  then show ?case using Cons.prems 1 by (auto simp: GetState_def)
qed

definition app_value :: "Box \<Rightarrow> string \<Rightarrow> string" where
  "app_value b k = (case bx_app b k of None \<Rightarrow> [] | Some v \<Rightarrow> v)"

fun db_call :: "op \<Rightarrow> bool" where
  "db_call (DbRead _) = True"
| "db_call (DbWrite _) = True"
| "db_call DbActiveProfile = True"
| "db_call (DbTx _) = True"
| "db_call _ = False"

lemma beginApply_run:
  assumes "run_state (beginApply E nid name scopes uplink) b = (Inr plan, b1)"
    "\<forall>t q. db_call q \<longrightarrow> ev_outcome E t q = None"
  obtains b' st where "\<not> bx_applying b" "same_control (b\<lparr>bx_applying := True\<rparr>) b'"
    "run_state (persistProfile E nid name scopes uplink) b' = ((None, st), b1)"
    "ap_newProfileID plan = nid" "ap_stashProfileID plan = st" "ap_prevProfileID plan = prev_id b'"
    "ap_originState plan = app_value b LifecycleStateKey"
    "ap_prevUplink plan = map (\<lambda>k. (k, app_value b k)) UplinkStateKeys"
proof -
  have db [simp]: "ev_outcome E t (DbRead k) = None" "ev_outcome E t DbActiveProfile = None"
      "ev_outcome E t (DbTx l) = None" for t k l
    using assms(2) by simp_all
  obtain r0 c0 where 0: "run_state (prepareReconcile E (fst (buildRenderScopes scopes (up_Enabled uplink))) ''pre-apply'') b = (r0, c0)"
    by fastforce
  have v: "validateProfileName name = None" "validateScopeTopology scopes = None"
    using assms(1) by (auto simp: beginApply_def split: option.splits)
  have run: "run_state (case r0 of Inl e \<Rightarrow> State_Monad.return (Inl e)
      | Inr c \<Rightarrow> do { prevs \<leftarrow> read_states E UplinkStateKeys;
          case prevs of Inl m \<Rightarrow> do { EndReconcile; State_Monad.return (Inl (UplinkReadFailed m)) }
          | Inr kvs \<Rightarrow> persist_or_release E nid name scopes uplink
              (new_plan c (snd (buildRenderScopes scopes (up_Enabled uplink))) kvs) }) c0 = (Inr plan, b1)"
    using assms(1) 0 v by (simp add: beginApply_def)
  then obtain snap where r0: "r0 = Inr snap" by (cases r0) auto
  have c0: "\<not> bx_applying b" "same_control (b\<lparr>bx_applying := True\<rparr>) c0"
    using prepare_run [OF 0] r0 by simp_all
  obtain r1 c1 where 1: "run_state (read_states E UplinkStateKeys) c0 = (r1, c1)" by fastforce
  have c1: "same_control c0 c1" "r1 = Inr (map (\<lambda>k. (k, app_value c0 k)) UplinkStateKeys)"
    using read_states_run [OF 1] by (simp_all add: app_value_def)
  let ?c2 = "retrace c1 (bx_trace c1 @ [(DbRead LifecycleStateKey, True), (DbActiveProfile, True)])"
  obtain r st c3 where 3: "run_state (persistProfile E nid name scopes uplink) ?c2 = ((r, st), c3)"
    by (metis prod.exhaust)
  have fin: "run_state (case r of Some m \<Rightarrow> do { EndReconcile; State_Monad.return (Inl (TransactionFailed m)) }
      | None \<Rightarrow> State_Monad.return (Inr ((new_plan snap (snd (buildRenderScopes scopes (up_Enabled uplink)))
           (map (\<lambda>k. (k, app_value c0 k)) UplinkStateKeys))\<lparr>ap_originState := app_value c1 LifecycleStateKey,
           ap_prevProfileID := prev_id c1, ap_newProfileID := nid, ap_stashProfileID := st\<rparr>))) c3 = (Inr plan, b1)"
    using run 1 c1(2) 3 by (cases r) (simp_all add: r0 persist_or_release_def app_value_def prev_id_def Let_def)
  then have r: "r = None" by (cases r) (auto simp: EndReconcile_def)
  then have p: "plan = (new_plan snap (snd (buildRenderScopes scopes (up_Enabled uplink)))
           (map (\<lambda>k. (k, app_value c0 k)) UplinkStateKeys))\<lparr>ap_originState := app_value c1 LifecycleStateKey,
           ap_prevProfileID := prev_id c1, ap_newProfileID := nid, ap_stashProfileID := st\<rparr>" "c3 = b1"
    using fin by simp_all
  have sc: "same_control (b\<lparr>bx_applying := True\<rparr>) ?c2" using c0(2) c1(1) by (simp add: same_control_def)
  have av: "app_value c0 = app_value b" "app_value c1 = app_value b"
    using c0(2) c1(1) by (simp_all add: app_value_def same_control_def fun_eq_iff)
  show ?thesis
    by (rule that [of ?c2 st]) (use c0(1) sc 3 r in \<open>simp_all add: p av prev_id_def new_plan_def\<close>)
qed

text \<open>The errors of the forward pass of \<open>finishApply\<close>.\<close>

definition forward_errors :: "Env \<Rightarrow> applyPlan \<Rightarrow> Box \<Rightarrow> pass_error list" where
  "forward_errors E plan b =
    fst (run_state (ReconcileApplianceState E ModeApply (ap_newProfileID plan)) (snd (run_state (StopActiveMonitors E) b)))"

lemma forward_control:
  assumes "run_state (StopActiveMonitors E) b = (u, c)" "run_state (ReconcileApplianceState E ModeApply pid) c = (errs, d)"
  shows "same_control (b\<lparr>bx_rescueArmed := False\<rparr>) d"
  using control_of [OF control_acts assms(1)] reconcile_control [OF assms(2)]
  by (simp add: same_control_def pass_start_def)

lemma finishApply_success:
  assumes "run_state (finishApply E plan name) b1 = ((), b2)" "forward_errors E plan b1 = []"
    "\<forall>t q. db_call q \<longrightarrow> ev_outcome E t q = None"
  shows "\<not> bx_applying b2 \<and> bx_app b2 = (bx_app b1)(LifecycleStateKey \<mapsto> StateActive)
    \<and> (let gone = (\<lambda>p. ap_stashProfileID plan \<noteq> 0 \<and> pf_id p = ap_stashProfileID plan) in
        bx_profiles b2 = bx_profiles (drop_profiles gone b1) \<and> bx_scopes b2 = bx_scopes (drop_profiles gone b1))"
proof -
  have db [simp]: "ev_outcome E t (DbWrite kvs) = None" "ev_outcome E t (DbTx l) = None" for t kvs l
    using assms(3) by simp_all
  obtain c where 1: "run_state (StopActiveMonitors E) b1 = ((), c)"
    by (cases "run_state (StopActiveMonitors E) b1") auto
  obtain d where 2: "run_state (ReconcileApplianceState E ModeApply (ap_newProfileID plan)) c = ([], d)"
    using assms(2) 1 by (auto simp: forward_errors_def) (metis prod.collapse)
  have sc: "same_control (b1\<lparr>bx_rescueArmed := False\<rparr>) d" by (rule forward_control [OF 1 2])
  let ?e = "d\<lparr>bx_trace := bx_trace d @ [(DbWrite [(LifecycleStateKey, StateActive)], True)],
      bx_app := (bx_app d)(LifecycleStateKey \<mapsto> StateActive)\<rparr>"
  have run: "run_state (do { drop_stash E (ap_stashProfileID plan);
        act E (Audit ''APPLY_PROFILE'' name ''SUCCESS''); EndReconcile }) ?e = ((), b2)"
    using assms(1) 1 2 by (simp add: finishApply_def setActiveAudited_def if_do_def Let_def split_beta)
  show ?thesis
  proof (cases "ap_stashProfileID plan = 0")
    case True
    then show ?thesis using run sc
      by (auto simp: drop_stash_def EndReconcile_def drop_profiles_def same_control_def)
  next
    case False
    then show ?thesis using run sc
      by (auto simp: drop_stash_def exec_def delete_profile_def EndReconcile_def drop_profiles_def same_control_def)
  qed
qed

lemma control_restore_conf: "keeps (same_control b0) (restore_conf E snap)"
  unfolding restore_conf_def if_do_def by (intro keep control.keeps_ask control.keeps_act TrueI)

lemma finishApply_failure:
  assumes "run_state (finishApply E plan name) b1 = ((), b2)" "forward_errors E plan b1 \<noteq> []"
    "\<forall>t q. db_call q \<longrightarrow> ev_outcome E t q = None"
    "\<And>b. bx_profiles b = bx_profiles b1 \<Longrightarrow> bx_scopes b = bx_scopes b1 \<Longrightarrow>
      \<exists>b3. run_state (rollbackProfileTables E plan name) b = (None, b3)
        \<and> bx_profiles b3 = ps \<and> bx_scopes b3 = rs \<and> bx_app b3 = bx_app b"
    "ap_prevUplink plan \<noteq> []"
  shows "\<not> bx_applying b2 \<and> bx_profiles b2 = ps \<and> bx_scopes b2 = rs
    \<and> bx_app b2 = (bx_app b1)(LifecycleStateKey \<mapsto> revert_state (ap_originState plan)) ++ map_of (rev (ap_prevUplink plan))"
proof -
  have db [simp]: "ev_outcome E t (DbWrite kvs) = None" for t kvs
    using assms(3) by simp
  obtain c where 1: "run_state (StopActiveMonitors E) b1 = ((), c)"
    by (cases "run_state (StopActiveMonitors E) b1") auto
  obtain errs d where 2: "run_state (ReconcileApplianceState E ModeApply (ap_newProfileID plan)) c = (errs, d)"
    by fastforce
  have ne: "errs \<noteq> []" using assms(2) 1 2 by (simp add: forward_errors_def)
  have sc: "same_control (b1\<lparr>bx_rescueArmed := False\<rparr>) d" by (rule forward_control [OF 1 2])
  then obtain d3 where 3: "run_state (rollbackProfileTables E plan name) d = (None, d3)"
      "bx_profiles d3 = ps" "bx_scopes d3 = rs" "bx_app d3 = bx_app b1"
    using assms(4) [of d] by (auto simp: same_control_def)
  obtain d4 where 4: "run_state (restore_conf E (ap_snap plan)) d3 = ((), d4)"
    by (cases "run_state (restore_conf E (ap_snap plan)) d3") auto
  have c4: "same_control d3 d4" by (rule control_of [OF control_restore_conf 4])
  let ?d5 = "d4\<lparr>bx_trace := bx_trace d4 @ [(DbWrite [(LifecycleStateKey, revert_state (ap_originState plan))], True)],
      bx_app := (bx_app d4)(LifecycleStateKey \<mapsto> revert_state (ap_originState plan))\<rparr>"
  let ?d6 = "?d5\<lparr>bx_trace := bx_trace ?d5 @ [(DbWrite (ap_prevUplink plan), True)],
      bx_app := bx_app ?d5 ++ map_of (rev (ap_prevUplink plan))\<rparr>"
  obtain errs' d7 where 7: "run_state (ReconcileApplianceState E ModeApply (ap_prevProfileID plan)) ?d6 = (errs', d7)"
    by fastforce
  have c7: "same_control (?d6\<lparr>bx_rescueArmed := False\<rparr>) d7"
    using reconcile_control [OF 7] by (simp add: same_control_def pass_start_def)
  have "run_state (do { if_do (errs' \<noteq> []) (act E (Audit ''ROLLBACK_FAILED'' name ''ERROR''));
      act E (Audit ''APPLY_PROFILE'' name ''FAILED''); EndReconcile }) d7 = ((), b2)"
    using assms(1,5) 1 2 ne 3(1) 4 7
    by (simp add: finishApply_def rollbackFailed_def apply_rollback_def restoreUplinkState_def SetStates_def Let_def split_beta)
  then have "\<not> bx_applying b2 \<and> bx_profiles b2 = bx_profiles d7 \<and> bx_scopes b2 = bx_scopes d7 \<and> bx_app b2 = bx_app d7"
    by (auto simp: if_do_def EndReconcile_def split: if_splits)
  then show ?thesis using c7 c4 3(2-4) by (simp add: same_control_def)
qed

lemma find_named_in: "find_named n ps \<noteq> 0 \<Longrightarrow> \<exists>p \<in> set ps. pf_id p = find_named n ps"
proof (cases "List.find (\<lambda>p. pf_name p = n) ps")
  case (Some p)
  then have "p \<in> set ps" by (auto simp: find_Some_iff)
  then show ?thesis using Some by (auto simp: find_named_def)
qed (simp add: find_named_def)

lemma UplinkStateKeys_lookup:
  "map_of (rev (map (\<lambda>k. (k, f k)) UplinkStateKeys)) k = (if k \<in> set UplinkStateKeys then Some (f k) else None)"
  by (auto simp: UplinkStateKeys_def)

lemma UplinkState_keys: "k \<notin> set UplinkStateKeys \<Longrightarrow> map_of (rev (UplinkState e s p)) k = None"
  by (auto simp: UplinkState_def UplinkStateKeys_def)

lemma lifecycle_not_uplink [simp]: "LifecycleStateKey \<notin> set UplinkStateKeys"
  by (simp add: LifecycleStateKey_def UplinkStateKeys_def)

lemma stashed_inactive [simp]: "\<not> pf_active (stashed st name p)" "pf_id (stashed st name p) = pf_id p"
  by (simp_all add: stashed_def)

text \<open>C2: An apply is all or nothing.  If beginning it succeeded, then, as long as the control
  database answers, finishing it releases the guard and has one of two outcomes.  When the forward
  pass reports no error, the box is ACTIVE, the new profile is the only active one and its scopes
  read back are those applied.  When it reports any error, the profiles and scopes are exactly the
  ones of before the apply, every setting has its old value, the WiFi credentials included, and the
  lifecycle is the state the apply began in (ONBOARDING when that was none or CONFIGURING).\<close>

theorem apply_all_or_nothing:
  assumes "tables_ok nid b"
    "run_state (beginApply E nid name scopes uplink) b = (Inr plan, b1)"
    "run_state (finishApply E plan name) b1 = ((), b2)"
    "\<forall>t q. db_call q \<longrightarrow> ev_outcome E t q = None"
    "list_all (\<lambda>sc. sc_Plan sc \<noteq> []) scopes"
  shows "\<not> bx_applying b2 \<and>
    (if forward_errors E plan b1 = []
     then app_value b2 LifecycleStateKey = StateActive \<and> scopes_of nid (bx_scopes b2) = scopes
       \<and> filter pf_active (bx_profiles b2) = [\<lparr>pf_id = nid, pf_name = name, pf_active = True\<rparr>]
     else bx_profiles b2 = bx_profiles b \<and> bx_scopes b2 = bx_scopes b
       \<and> app_value b2 = (app_value b)(LifecycleStateKey := revert_state (app_value b LifecycleStateKey)))"
proof -
  obtain b' st where bg: "\<not> bx_applying b" "same_control (b\<lparr>bx_applying := True\<rparr>) b'"
    "run_state (persistProfile E nid name scopes uplink) b' = ((None, st), b1)"
    "ap_newProfileID plan = nid" "ap_stashProfileID plan = st" "ap_prevProfileID plan = prev_id b'"
    "ap_originState plan = app_value b LifecycleStateKey"
    "ap_prevUplink plan = map (\<lambda>k. (k, app_value b k)) UplinkStateKeys"
    by (rule beginApply_run [OF assms(2,4)])
  have tb: "bx_app b' = bx_app b" "bx_profiles b' = bx_profiles b" "bx_scopes b' = bx_scopes b"
    using bg(2) by (simp_all add: same_control_def)
  have ok: "tables_ok nid b'" using assms(1) tb by (simp add: tables_ok_def)
  obtain c where c: "apply_stmts (persist_stmts st nid name scopes uplink) b' = Some c" "b1 = retrace c (bx_trace b1)"
    using persist_run [OF bg(3)] by auto
  have b1: "bx_profiles b1 = bx_profiles c" "bx_scopes b1 = bx_scopes c" "bx_app b1 = bx_app c"
    by (subst c(2), simp)+
  note pt = persist_tables [OF c(1)]
  show ?thesis
  proof (cases "forward_errors E plan b1 = []")
    case True
    note fs = finishApply_success [OF assms(3) True assms(4)]
    let ?gone = "\<lambda>p. st \<noteq> 0 \<and> pf_id p = st"
    have lt: "pf_id p < nid" if "p \<in> set (bx_profiles b')" for p
      using ok that by (auto simp: tables_ok_def list_all_iff)
    have "st = 0 \<or> (\<exists>p \<in> set (bx_profiles b'). pf_id p = st)"
      using persist_run [OF bg(3)] find_named_in [of name "bx_profiles b'"] by auto
    then have st: "st \<noteq> nid" using lt ok by (auto simp: tables_ok_def)
    have "filter pf_active (bx_profiles (drop_profiles ?gone b1)) = [\<lparr>pf_id = nid, pf_name = name, pf_active = True\<rparr>]"
      using st by (auto simp: drop_profiles_def b1 pt(1) filter_empty_conv)
    moreover have "scopes_of nid (bx_scopes (drop_profiles ?gone b1)) = scopes"
    proof -
      have "scopes_of nid (bx_scopes (drop_profiles ?gone b1)) = scopes_of nid (bx_scopes b1)"
        using st by (auto simp: scopes_of_def drop_profiles_def intro!: arg_cong [of _ _ "map load_row"] filter_cong)
      then show ?thesis
        using scopes_of_store [OF assms(5), of nid "bx_scopes b'"] ok
        by (auto simp: b1 pt(2) tables_ok_def list_all_iff)
    qed
    ultimately show ?thesis using fs True by (simp add: bg(5) app_value_def Let_def)
  next
    case False
    have rb: "\<exists>b3. run_state (rollbackProfileTables E plan name) x = (None, b3)
        \<and> bx_profiles b3 = bx_profiles b \<and> bx_scopes b3 = bx_scopes b \<and> bx_app b3 = bx_app x"
      if "bx_profiles x = bx_profiles b1" "bx_scopes x = bx_scopes b1" for x
      using rollback_restores [OF ok bg(3) that bg(4-6)] assms(4) tb by simp
    have ne: "ap_prevUplink plan \<noteq> []" by (simp add: bg(8) UplinkStateKeys_def)
    note ff = finishApply_failure [OF assms(3) False assms(4) rb ne]
    have "app_value b2 k = ((app_value b)(LifecycleStateKey := revert_state (app_value b LifecycleStateKey))) k" for k
    proof -
      have "bx_app b2 = (bx_app b1)(LifecycleStateKey \<mapsto> revert_state (app_value b LifecycleStateKey))
          ++ map_of (rev (map (\<lambda>k. (k, app_value b k)) UplinkStateKeys))"
        using ff bg(7,8) by simp
      then have "bx_app b2 k = (if k \<in> set UplinkStateKeys then Some (app_value b k)
          else if k = LifecycleStateKey then Some (revert_state (app_value b LifecycleStateKey)) else bx_app b1 k)"
        by (simp add: map_add_def UplinkStateKeys_lookup split: option.split)
      moreover have "bx_app b1 k = bx_app b k" if "k \<notin> set UplinkStateKeys" "k \<noteq> LifecycleStateKey"
        using that by (simp add: b1 pt(3) tb map_add_def UplinkState_keys)
      ultimately show ?thesis by (auto simp: app_value_def)
    qed
    then show ?thesis using ff False by auto
  qed
qed

section \<open>A concrete apply\<close>

definition ex_idle :: Box where
  "ex_idle = (ex_box StateActive [] [ex_scope_row])\<lparr>bx_applying := False\<rparr>"

definition ex_new :: "ScopeConfig list" where
  "ex_new = [ex_scope_at 0 ''10.2.0.0/26'']"

text \<open>No update runs, and the scope rows cannot be read back.\<close>

definition ex_bad_disk :: Env where
  "ex_bad_disk = ex_env\<lparr>ev_outcome := \<lambda>_ q. case q of UpdateRunning \<Rightarrow> Some ''no'' | DbScopes _ \<Rightarrow> Some ''disk I/O error'' | _ \<Rightarrow> None\<rparr>"

lemma ex_idle_ok: "tables_ok 8 ex_idle"
  by (simp add: tables_ok_def ex_idle_def ex_box_def ex_scope_row_def)

lemma rollback_restores_profiles_witness:
  "\<exists>b1 b3. run_state (persistProfile ex_env 8 ''Show'' ex_new zero_uplink) ex_idle = ((None, 7), b1)
     \<and> run_state (rollbackProfileTables ex_env \<lparr>ap_newProfileID = 8, ap_prevProfileID = 7, ap_stashProfileID = 7,
          ap_originState = [], ap_snap = None, ap_gatewayIP = [], ap_prevUplink = []\<rparr> ''Show'') b1 = (None, b3)
     \<and> bx_profiles b3 = [\<lparr>pf_id = 7, pf_name = ''Show'', pf_active = True\<rparr>] \<and> bx_scopes b3 = [ex_scope_row]"
proof -
  have "fst (run_state (persistProfile ex_env 8 ''Show'' ex_new zero_uplink) ex_idle) = (None, 7)" by code_simp
  then obtain b1 where r: "run_state (persistProfile ex_env 8 ''Show'' ex_new zero_uplink) ex_idle = ((None, 7), b1)"
    by (metis prod.collapse)
  have "prev_id ex_idle = 7" "bx_profiles ex_idle = [\<lparr>pf_id = 7, pf_name = ''Show'', pf_active = True\<rparr>]"
      "bx_scopes ex_idle = [ex_scope_row]"
    by (simp_all add: prev_id_def active_profile_def ex_idle_def ex_box_def)
  then show ?thesis
    using rollback_restores_profiles [OF ex_idle_ok r refl refl, of "\<lparr>ap_newProfileID = 8, ap_prevProfileID = 7,
        ap_stashProfileID = 7, ap_originState = [], ap_snap = None, ap_gatewayIP = [], ap_prevUplink = []\<rparr>"] r
    by auto
qed

lemma apply_all_or_nothing_witness:
  "\<exists>plan b1 b2. run_state (beginApply ex_bad_disk 8 ''Show'' ex_new zero_uplink) ex_idle = (Inr plan, b1)
     \<and> run_state (finishApply ex_bad_disk plan ''Show'') b1 = ((), b2)
     \<and> \<not> bx_applying b2 \<and> app_value b2 LifecycleStateKey = StateActive"
proof -
  let ?start = "run_state (beginApply ex_bad_disk 8 ''Show'' ex_new zero_uplink) ex_idle"
  have 1: "case fst ?start of Inr plan \<Rightarrow> True | Inl _ \<Rightarrow> False"
    by code_simp
  then obtain plan b1 where b: "?start = (Inr plan, b1)" by (cases ?start; cases "fst ?start") auto
  obtain b2 where f: "run_state (finishApply ex_bad_disk plan ''Show'') b1 = ((), b2)"
    by (cases "run_state (finishApply ex_bad_disk plan ''Show'') b1") auto
  have db: "\<forall>t q. db_call q \<longrightarrow> ev_outcome ex_bad_disk t q = None"
  proof (intro allI impI)
    fix t q assume "db_call q" then show "ev_outcome ex_bad_disk t q = None"
      by (cases q) (simp_all add: ex_bad_disk_def)
  qed
  have p: "list_all (\<lambda>sc. sc_Plan sc \<noteq> []) ex_new" by (simp add: ex_new_def ex_scope_at_def FlatPlan_def)
  have i: "revert_state (app_value ex_idle LifecycleStateKey) = StateActive"
    by (simp add: ex_idle_def ex_box_def app_value_def revert_state_def LifecycleStateKey_def DHCPStandDownKey_def)
  show ?thesis using apply_all_or_nothing [OF ex_idle_ok b f db p] b f i by (auto split: if_splits)
qed

end
