(* ===== verification/Guard.thy ===== *)
theory Guard
  imports ApplySafety StandDown
begin

text \<open>
  The mutation guard across the web server: every request that changes the appliance takes the
  guard in its handler and leaves a background job that still holds it; the job releases it at its
  end.  Requests and jobs interleave in any order.  A job is one step here: whatever arrives while
  it runs is refused by the guard and changes neither the store nor the flags, so it commutes with
  the job.
\<close>

section \<open>Requests and jobs\<close>

datatype job =
    ServeJob string bool
  | ReconcileJob string ReconcileMode int
  | ApplyJob applyPlan string
  | SwitchJob switchPlan

datatype request =
    StandDown "Snapshot list option"
  | ResumeDHCP
  | Recover string
  | ApplyProfile int string "ScopeConfig list" UplinkConfig
  | SwitchProfile int

definition handle_request :: "Env \<Rightarrow> request \<Rightarrow> job list go" where
  "handle_request E rq =
    (case rq of
       StandDown nm \<Rightarrow> do {
         r \<leftarrow> handleStandDown E nm;
         State_Monad.return (case r of Started l f \<Rightarrow> [ServeJob l f] | _ \<Rightarrow> []) }
     | ResumeDHCP \<Rightarrow> do {
         r \<leftarrow> handleResumeDHCP E;
         State_Monad.return (case r of Started l f \<Rightarrow> [ServeJob l f] | _ \<Rightarrow> []) }
     | Recover name \<Rightarrow> do {
         got \<leftarrow> BeginReconcile;
         State_Monad.return (if got then [ReconcileJob (name @ ''-recovery'') ModeConverge 0] else []) }
     | ApplyProfile nid name scopes up \<Rightarrow> do {
         r \<leftarrow> beginApply E nid name scopes up;
         State_Monad.return (case r of Inr plan \<Rightarrow> [ApplyJob plan name] | Inl _ \<Rightarrow> []) }
     | SwitchProfile target \<Rightarrow> do {
         r \<leftarrow> beginSwitch E target;
         State_Monad.return (case r of Inr plan \<Rightarrow> [SwitchJob plan] | Inl _ \<Rightarrow> []) })"

definition run_job :: "Env \<Rightarrow> job \<Rightarrow> unit go" where
  "run_job E j =
    (case j of
       ServeJob l r \<Rightarrow> scheduleServingReloadHeld E l r
     | ReconcileJob l mode pid \<Rightarrow> held_reconcile E l mode pid
     | ApplyJob plan name \<Rightarrow> finishApply E plan name
     | SwitchJob plan \<Rightarrow> finishSwitch E plan)"

datatype web_event = Request request | Finish job

inductive web_step :: "Env \<Rightarrow> Box \<times> job list \<Rightarrow> web_event \<Rightarrow> Box \<times> job list \<Rightarrow> bool" for E where
  request: "run_state (handle_request E rq) b = (started, b')
    \<Longrightarrow> web_step E (b, js) (Request rq) (b', js @ started)"
| finish: "run_state (run_job E j) b = ((), b') \<Longrightarrow> web_step E (b, xs @ j # ys) (Finish j) (b', xs @ ys)"

inductive_cases web_stepE: "web_step E (b, js) ev (b', js')"

text \<open>The states reached by events that satisfy \<open>P\<close> where they happen.\<close>

inductive web_reaches :: "Env \<Rightarrow> (web_event \<Rightarrow> Box \<Rightarrow> bool) \<Rightarrow> Box \<times> job list \<Rightarrow> Box \<times> job list \<Rightarrow> bool"
  for E P s0 where
  start: "web_reaches E P s0 s0"
| more: "web_reaches E P s0 s \<Longrightarrow> P ev (fst s) \<Longrightarrow> web_step E s ev s' \<Longrightarrow> web_reaches E P s0 s'"

section \<open>The guard\<close>

text \<open>How a program moves the guard: from \<open>x\<close> it ends with a result and a guard in
  \<open>V\<close>.\<close>

definition moves :: "bool \<Rightarrow> 'a go \<Rightarrow> ('a \<Rightarrow> bool \<Rightarrow> bool) \<Rightarrow> bool" where
  "moves x m V \<longleftrightarrow> (\<forall>b. bx_applying b = x \<longrightarrow> V (fst (run_state m b)) (bx_applying (snd (run_state m b))))"

named_theorems moves

interpretation held: pass_frame "\<lambda>b. bx_applying b = x" "\<lambda>_. True" for x
  by unfold_locales auto

lemma movesD: "moves x m V \<Longrightarrow> run_state m b = (r, b') \<Longrightarrow> bx_applying b = x \<Longrightarrow> V r (bx_applying b')"
  by (auto simp: moves_def dest!: spec [of _ b])

lemma moves_bind [moves]: "moves x m (\<lambda>r y. moves y (f r) V) \<Longrightarrow> moves x (State_Monad.bind m f) V"
  by (simp add: moves_def split_beta)

lemma moves_return [moves]: "V r x \<Longrightarrow> moves x (State_Monad.return r) V"
  by (simp add: moves_def)

lemma moves_keeps: "keeps (\<lambda>b. bx_applying b = x) m \<Longrightarrow> (\<And>r. V r x) \<Longrightarrow> moves x m V"
  by (simp add: moves_def yields_def)

lemma moves_Begin [moves]: "V (\<not> x) True \<Longrightarrow> moves x BeginReconcile V"
  by (simp add: moves_def BeginReconcile_def)

lemma moves_End [moves]: "V () False \<Longrightarrow> moves x EndReconcile V"
  by (simp add: moves_def EndReconcile_def)

lemma moves_get [moves]: "(\<And>b. V b x) \<Longrightarrow> moves x State_Monad.get V"
  by (simp add: moves_def)

lemma moves_if [moves]: "(c \<Longrightarrow> moves x m V) \<Longrightarrow> (\<not> c \<Longrightarrow> moves x n V) \<Longrightarrow> moves x (if c then m else n) V"
  by simp

lemma moves_option [moves]:
  "(o' = None \<Longrightarrow> moves x m V) \<Longrightarrow> (\<And>y. o' = Some y \<Longrightarrow> moves x (f y) V)
    \<Longrightarrow> moves x (case o' of None \<Rightarrow> m | Some y \<Rightarrow> f y) V"
  by (cases o') auto

lemma moves_sum [moves]:
  "(\<And>y. s = Inl y \<Longrightarrow> moves x (g y) V) \<Longrightarrow> (\<And>y. s = Inr y \<Longrightarrow> moves x (f y) V)
    \<Longrightarrow> moves x (case s of Inl y \<Rightarrow> g y | Inr y \<Rightarrow> f y) V"
  by (cases s) auto

lemma moves_calls [moves]:
  "(\<And>r. V r x) \<Longrightarrow> moves x (call E q) V" "(\<And>r. W r x) \<Longrightarrow> moves x (act E q) W" "(\<And>r. Z r x) \<Longrightarrow> moves x (ask E q) Z"
  by (simp_all add: moves_def)

lemma moves_weaken: "moves x m V \<Longrightarrow> (\<And>r y. V r y \<Longrightarrow> W r y) \<Longrightarrow> moves x m W"
  by (simp add: moves_def)

lemma held_SetState: "keeps (\<lambda>b. bx_applying b = x) (SetState E k v)"
  by (auto simp: yields_def Let_def)

lemma applying_restored: "restore_tables b0 b' = retrace b t \<Longrightarrow> bx_applying b' = bx_applying b"
  by (drule arg_cong [where f = bx_applying]) (simp add: restore_tables_def)

lemma exec_all_held: "tx_ok ss \<Longrightarrow> run_state (exec_all E ss) b = (r, b') \<Longrightarrow> bx_applying b' = bx_applying b"
  using exec_all_run [of ss E b r b' b] applying_restored [where b = b and b0 = b and b' = b'] by auto

lemma held_in_tx: "tx_ok ss \<Longrightarrow> keeps (\<lambda>b. bx_applying b = x) (in_tx E (exec_all E ss))"
  unfolding in_tx_def
  by (intro keep held.keeps_call TrueI)
     (auto simp: yields_def restore_tables_def split_beta dest: exec_all_held [OF _ surjective_pairing])

lemma held_persist: "keeps (\<lambda>b. bx_applying b = x) (persistProfile E nid name scopes uplink)"
proof (rule yieldsI)
  fix b :: Box assume b: "bx_applying b = x"
  obtain r st b' where r: "run_state (persistProfile E nid name scopes uplink) b = ((r, st), b')" by (metis surj_pair)
  have "bx_applying b' = bx_applying b" by (rule applying_restored [OF conjunct1 [OF persist_run [OF r]]])
  then show "True \<and> bx_applying (snd (run_state (persistProfile E nid name scopes uplink) b)) = x"
    unfolding r b [symmetric] by simp
qed

lemma held_read_states: "keeps (\<lambda>b. bx_applying b = x) (read_states E ks)"
  by (induction ks) (auto intro!: keep held.keeps_GetState)

lemma held_snapshot: "keeps (\<lambda>b. bx_applying b = x) (SnapshotKeaConf E l)"
  unfolding SnapshotKeaConf_def by (intro keep held.keeps_call TrueI)

lemma held_base: "keeps (\<lambda>b. bx_applying b = x) (BaseRenderInput E)"
  unfolding BaseRenderInput_def by (intro keep held.keeps_settings TrueI)

text \<open>A handler takes a free guard and succeeds, or fails and leaves the guard as it was.\<close>

abbreviation takes :: "bool \<Rightarrow> ('a \<Rightarrow> bool) \<Rightarrow> 'a go \<Rightarrow> bool" where
  "takes x won m \<equiv> moves x m (\<lambda>r y. if won r then \<not> x \<and> y else y = x)"

lemma prepare_takes: "takes x (\<lambda>r. \<not> isl r) (prepareReconcile E scs l)"
  unfolding prepareReconcile_def
  by (rule moves_bind, rule moves_keeps [OF held_base], split sum.split, intro conjI allI impI)
     (auto intro!: moves moves_keeps [OF held_snapshot] split: prod.splits)

lemma persist_moves: "moves True (persist_or_release E nid name scopes uplink plan) (\<lambda>r y. y = (\<not> isl r))"
  unfolding persist_or_release_def Let_def
  by (intro moves moves_keeps [OF held.settings(8)] moves_keeps [OF held_persist]; simp)

lemma moves_prepare:
  assumes "\<And>e. V (Inl e) x" "\<And>c. \<not> x \<Longrightarrow> V (Inr c) True"
  shows "moves x (prepareReconcile E scs l) V"
proof (rule moves_weaken [OF prepare_takes])
  fix r :: "apply_error + keaConfig option" and y
  show "if \<not> isl r then \<not> x \<and> y else y = x \<Longrightarrow> V r y" using assms by (cases r) auto
qed

lemma switch_moves: "moves True (switch_tables E plan) (\<lambda>r y. y = (\<not> isl r))"
  unfolding switch_tables_def Let_def
  by (intro moves moves_keeps [OF held_in_tx] moves_keeps [OF held.keeps_teardown(3)]; simp)

lemma begin_takes:
  "takes x (\<lambda>r. \<not> isl r) (beginApply E nid name scopes uplink)"
  "takes x (\<lambda>r. \<not> isl r) (beginSwitch E target)"
  unfolding beginApply_def beginSwitch_def
  by (auto intro!: moves moves_prepare moves_keeps [OF held_read_states] moves_keeps [OF held.settings(7)]
      moves_keeps [OF held.settings(3)] moves_weaken [OF persist_moves] moves_weaken [OF switch_moves])

definition started :: "reply \<Rightarrow> bool" where
  "started r = (case r of Started _ _ \<Rightarrow> True | _ \<Rightarrow> False)"

lemma standdown_takes: "takes x started (handleStandDown E nm)" "takes x started (handleResumeDHCP E)"
  unfolding handleStandDown_def handleResumeDHCP_def setStandDown_def
  by (auto intro!: moves moves_keeps [OF held_SetState] simp: started_def)

lemma handler_takes:
  "moves x (handle_request E rq) (\<lambda>js y. if js = [] then y = x else length js = 1 \<and> \<not> x \<and> y)"
proof (cases rq)
  case (StandDown nm)
  then show ?thesis unfolding handle_request_def
    by (auto intro!: moves moves_weaken [OF standdown_takes(1)] simp: started_def split: reply.splits)
next
  case ResumeDHCP
  then show ?thesis unfolding handle_request_def
    by (auto intro!: moves moves_weaken [OF standdown_takes(2)] simp: started_def split: reply.splits)
next
  case (Recover name)
  then show ?thesis unfolding handle_request_def by (cases x) (auto intro!: moves)
next
  case (ApplyProfile nid name scopes up)
  then show ?thesis unfolding handle_request_def
    by (auto intro!: moves moves_weaken [OF begin_takes(1)] split: sum.splits)
next
  case (SwitchProfile target)
  then show ?thesis unfolding handle_request_def
    by (auto intro!: moves moves_weaken [OF begin_takes(2)] split: sum.splits)
qed

lemma frees_bind: "(\<And>r y. moves y (f r) V) \<Longrightarrow> moves x (State_Monad.bind m f) V"
  by (simp add: moves_def split_beta)

lemma job_frees: "moves x (run_job E j) (\<lambda>_ y. \<not> y)"
  by (auto simp: run_job_def scheduleServingReloadHeld_def held_reconcile_def finishApply_def finishSwitch_def
      intro!: frees_bind moves_End split: job.split)

text \<open>A request that meets a held guard is refused, and leaves the control state as it was.\<close>

lemma same_control_bind:
  "run_state m b = (r, b1) \<Longrightarrow> same_control b b1 \<Longrightarrow> run_state (State_Monad.bind m f) b = (r', b')
    \<Longrightarrow> (\<And>x. run_state (f r) b1 = (r', x) \<Longrightarrow> same_control b1 x) \<Longrightarrow> same_control b b'"
  by (auto intro: control_trans)

lemma busy_apply:
  assumes "run_state (beginApply E nid name scopes up) b = (r, b')" "bx_applying b"
  shows "same_control b b'"
proof -
  let ?m = "prepareReconcile E (fst (buildRenderScopes scopes (up_Enabled up))) ''pre-apply''"
  obtain q b1 where 1: "run_state ?m b = (q, b1)" by fastforce
  then show ?thesis
    using assms prepare_run [OF 1]
    by (auto simp: beginApply_def control_refl split: option.splits sum.splits)
qed

lemma busy_switch:
  assumes "run_state (beginSwitch E target) b = (r, b')" "bx_applying b"
  shows "same_control b b'"
proof -
  have p: "yields (\<lambda>b'. same_control b b') (prepareReconcile E scs l) (\<lambda>r. isl r)" for scs l
  proof (rule yieldsI)
    fix c assume c: "same_control b c"
    obtain q d where 1: "run_state (prepareReconcile E scs l) c = (q, d)" by fastforce
    have "bx_applying c" using assms(2) c by (simp add: same_control_def)
    then show "isl (fst (run_state (prepareReconcile E scs l) c)) \<and> same_control b (snd (run_state (prepareReconcile E scs l) c))"
      using prepare_run [OF 1] control_trans [OF c] by (auto simp: 1 split: sum.splits)
  qed
  have "keeps (\<lambda>b'. same_control b b') (beginSwitch E target)"
    unfolding beginSwitch_def
    by (intro keep control.keeps_ask TrueI yields_bind [OF p]) (auto intro!: keep)
  then show ?thesis by (rule control_of [OF _ assms(1)])
qed

lemma busy_refused:
  assumes "run_state (handle_request E rq) b = (js, b')" "bx_applying b"
  shows "js = [] \<and> same_control b b'"
proof -
  have "js = []" using movesD [OF handler_takes assms(1) refl] assms(2) by (auto split: if_splits)
  moreover have "same_control b b'"
  proof (cases rq)
    case (ApplyProfile nid name scopes up)
    then show ?thesis using assms by (auto simp: handle_request_def split: prod.splits dest: busy_apply)
  next
    case (SwitchProfile target)
    then show ?thesis using assms by (auto simp: handle_request_def split: prod.splits dest: busy_switch)
  qed (use assms in \<open>auto simp: handle_request_def handleStandDown_def handleResumeDHCP_def BeginReconcile_def same_control_def\<close>)
  ultimately show ?thesis by simp
qed

section \<open>One mutation at a time\<close>

definition guard_ok :: "Box \<times> job list \<Rightarrow> bool" where
  "guard_ok s = (if bx_applying (fst s) then length (snd s) = 1 else snd s = [])"

lemma guard_step:
  assumes "web_step E s ev s'" "guard_ok s"
  shows "guard_ok s'"
  using assms
proof (cases rule: web_step.cases)
  case (request rq b js b' js0)
  then show ?thesis
    using assms(2) movesD [OF handler_takes request(4) refl] by (auto simp: guard_ok_def split: if_splits)
next
  case (finish j b b' xs ys)
  then show ?thesis
    using assms(2) movesD [OF job_frees finish(4) refl] by (auto simp: guard_ok_def split: if_splits)
qed

text \<open>C5: However requests and background jobs interleave (stand-down, resume, panic recovery,
  profile apply, profile switch; any call failing anywhere), at most one job is pending, exactly
  while the guard is held: no handler keeps the guard without leaving a job, no job ends without
  releasing it, and no second mutation starts before.\<close>

theorem one_mutation_at_a_time:
  assumes "web_reaches E P (b0, []) (b, js)" "\<not> bx_applying b0"
  shows "length js \<le> 1 \<and> (bx_applying b \<longleftrightarrow> js \<noteq> [])"
proof -
  have "web_reaches E P s0 s \<Longrightarrow> guard_ok s0 \<Longrightarrow> guard_ok s" for s0 s
    by (induction rule: web_reaches.induct) (auto dest: guard_step)
  from this [OF assms(1)] assms(2) show ?thesis by (auto simp: guard_ok_def split: if_splits)
qed

section \<open>The flag and Kea\<close>

text \<open>The page offers the stand-down control while the flag is clear and the resume control
  while it is set.\<close>

definition offered :: "web_event \<Rightarrow> Box \<Rightarrow> bool" where
  "offered ev b =
    (case ev of
       Finish _ \<Rightarrow> True
     | Request (StandDown _) \<Rightarrow> bx_app b DHCPStandDownKey \<noteq> Some ''1''
     | Request ResumeDHCP \<Rightarrow> bx_app b DHCPStandDownKey = Some ''1''
     | Request _ \<Rightarrow> False)"

definition flag_ok :: "Env \<Rightarrow> Box \<times> job list \<Rightarrow> bool" where
  "flag_ok E s = (case snd s of
       [] \<Rightarrow> serving E (fst s) \<longleftrightarrow> bx_app (fst s) DHCPStandDownKey \<noteq> Some ''1''
     | [ServeJob l resuming] \<Rightarrow> serving E (fst s) \<longleftrightarrow> \<not> resuming
     | _ \<Rightarrow> False)"

lemma standdown_run:
  assumes "run_state (handleStandDown E nm) b = (r, b')" "\<not> bx_applying b"
    "\<forall>t v. ev_outcome E t (DbWrite [(DHCPStandDownKey, v)]) = None"
  shows "r = Started ''rogue-standdown'' False \<and> serving E b' = serving E b"
  using assms
  by (auto simp: handleStandDown_def BeginReconcile_def setStandDown_def serving_def kea_at_def kea_step_def)

lemma resume_run:
  assumes "run_state (handleResumeDHCP E) b = (r, b')" "\<not> bx_applying b"
    "\<forall>t v. ev_outcome E t (DbWrite [(DHCPStandDownKey, v)]) = None"
  shows "r = Started ''rogue-resume'' True \<and> serving E b' = serving E b"
  using assms
  by (auto simp: handleResumeDHCP_def BeginReconcile_def setStandDown_def serving_def kea_at_def kea_step_def)

lemma busy_standdown:
  "bx_applying b \<Longrightarrow> run_state (handle_request E (StandDown nm)) b = ([], b)"
  "bx_applying b \<Longrightarrow> run_state (handle_request E ResumeDHCP) b = ([], b)"
  by (simp_all add: handle_request_def handleStandDown_def handleResumeDHCP_def BeginReconcile_def)

lemma flag_step:
  assumes "web_step E s ev s'" "offered ev (fst s)" "guard_ok s" "flag_ok E s"
    "\<forall>t. ev_outcome E t KeaPing = None" "\<forall>t. ev_outcome E t (DbRead DHCPStandDownKey) = None"
    "\<forall>t v. ev_outcome E t (DbWrite [(DHCPStandDownKey, v)]) = None"
  shows "flag_ok E s'"
  using assms(1)
proof (cases rule: web_step.cases)
  case (request rq b js b' js0)
  show ?thesis
  proof (cases "bx_applying b")
    case True
    then show ?thesis
      using request assms(2,4) busy_standdown [OF True, of E] by (auto simp: offered_def split: request.splits)
  next
    case False
    then have js0: "js0 = []" using assms(3) request(1) by (simp add: guard_ok_def)
    show ?thesis
    proof (cases rq)
      case (StandDown nm)
      then show ?thesis
        using request assms(2,4) js0
        by (auto simp: handle_request_def offered_def flag_ok_def split: prod.splits
            dest!: standdown_run [OF _ False assms(7)])
    next
      case ResumeDHCP
      then show ?thesis
        using request assms(2,4) js0
        by (auto simp: handle_request_def offered_def flag_ok_def split: prod.splits
            dest!: resume_run [OF _ False assms(7)])
    qed (use assms(2) request in \<open>auto simp: offered_def\<close>)
  qed
next
  case (finish j b b' xs ys)
  then have "xs = []" "ys = []" using assms(3) by (auto simp: guard_ok_def split: if_splits)
  then show ?thesis
    using finish assms(4) serving_job_outcome [OF _ assms(5-7)]
    by (auto simp: flag_ok_def run_job_def split: job.splits)
qed

text \<open>C6: At rest, the stand-down flag says what Kea does: it is set exactly while the
  configuration Kea was last given serves no subnet.  This holds for every sequence of offered
  stand-down and resume requests, whatever fails in them, given that the flag itself can be read
  and written and that a Kea that was restarted answers its socket; a failed reload is corrected
  in both directions.\<close>

theorem standdown_flag_is_the_truth:
  assumes "web_reaches E offered (b0, []) (b, [])"
    "\<not> bx_applying b0" "serving E b0 \<longleftrightarrow> bx_app b0 DHCPStandDownKey \<noteq> Some ''1''"
    "\<forall>t. ev_outcome E t KeaPing = None" "\<forall>t. ev_outcome E t (DbRead DHCPStandDownKey) = None"
    "\<forall>t v. ev_outcome E t (DbWrite [(DHCPStandDownKey, v)]) = None"
  shows "serving E b \<longleftrightarrow> bx_app b DHCPStandDownKey \<noteq> Some ''1''"
proof -
  have "web_reaches E offered s0 s \<Longrightarrow> guard_ok s0 \<and> flag_ok E s0 \<Longrightarrow> guard_ok s \<and> flag_ok E s" for s0 s
    by (induction rule: web_reaches.induct) (auto intro: guard_step flag_step [OF _ _ _ _ assms(4-6)])
  from this [OF assms(1)] assms(2,3) show ?thesis by (simp add: guard_ok_def flag_ok_def)
qed

section \<open>A concrete run\<close>

definition ex_down :: Box where
  "ex_down = (ex_box StateActive ''1'' [ex_scope_row])\<lparr>bx_applying := False\<rparr>"

lemma ex_down_sel [simp]: "\<not> bx_applying ex_down" "bx_app ex_down DHCPStandDownKey = Some ''1''"
  by (simp_all add: ex_down_def ex_box_def)

lemma ex_bad_test_calls [simp]:
  "ev_outcome ex_bad_test t KeaPing = None" "ev_outcome ex_bad_test t (DbRead k) = None"
  "ev_outcome ex_bad_test t (DbWrite kvs) = None"
  by (simp_all add: ex_bad_test_def)

lemma ex_resume:
  obtains b where "run_state (handle_request ex_bad_test ResumeDHCP) ex_down = ([ServeJob ''rogue-resume'' True], b)"
proof -
  obtain r b where r: "run_state (handleResumeDHCP ex_bad_test) ex_down = (r, b)" by fastforce
  then have "r = Started ''rogue-resume'' True" by (auto dest: resume_run)
  with r that show ?thesis by (auto simp: handle_request_def)
qed

lemma one_mutation_at_a_time_witness:
  "\<exists>b js. web_reaches ex_bad_test (\<lambda>_ _. True) (ex_down, []) (b, js) \<and> js \<noteq> [] \<and> bx_applying b"
proof -
  obtain b where b: "run_state (handle_request ex_bad_test ResumeDHCP) ex_down = ([ServeJob ''rogue-resume'' True], b)"
    by (rule ex_resume)
  have "web_reaches ex_bad_test (\<lambda>_ _. True) (ex_down, []) (b, [] @ [ServeJob ''rogue-resume'' True])"
    by (rule web_reaches.more [OF web_reaches.start _ web_step.request [OF b]]) simp
  moreover from one_mutation_at_a_time [OF this [simplified]] have "bx_applying b" by simp
  ultimately show ?thesis by (intro exI [of _ b] exI [of _ "[ServeJob ''rogue-resume'' True]"]) simp
qed

lemma standdown_flag_is_the_truth_witness:
  "\<exists>b. web_reaches ex_bad_test offered (ex_down, []) (b, [])
     \<and> (serving ex_bad_test b \<longleftrightarrow> bx_app b DHCPStandDownKey \<noteq> Some ''1'')"
proof -
  obtain b where b: "run_state (handle_request ex_bad_test ResumeDHCP) ex_down = ([ServeJob ''rogue-resume'' True], b)"
    by (rule ex_resume)
  let ?j = "ServeJob ''rogue-resume'' True"
  obtain c where c: "run_state (run_job ex_bad_test ?j) b = ((), c)" by (cases "run_state (run_job ex_bad_test ?j) b") auto
  have "web_reaches ex_bad_test offered (ex_down, []) (b, [] @ [?j])"
    by (rule web_reaches.more [OF web_reaches.start _ web_step.request [OF b]]) (simp add: offered_def)
  then have "web_reaches ex_bad_test offered (ex_down, []) (c, [] @ [])"
    by (rule web_reaches.more [OF _ _ web_step.finish [OF c, of "[]" "[]"]]) (simp_all add: offered_def)
  then have r: "web_reaches ex_bad_test offered (ex_down, []) (c, [])" by simp
  have "\<not> serving ex_bad_test ex_down"
    by (simp add: serving_def kea_at_def ex_bad_test_def ex_down_def ex_box_def holdoff_dark)
  then show ?thesis
    using r standdown_flag_is_the_truth [OF r] by (intro exI [of _ c]) simp
qed

end
