(* ===== verification/DnsServer.thy ===== *)
theory DnsServer
  imports DnsZone "HOL-Library.AList"
begin

text \<open>
  \<open>src/internal/dns/dns.go\<close> and \<open>resolv.go\<close>: the rate limits, the query handler, the forwarder's checks, TCP framing and the listener set.  Clock
  readings, socket binds and upstream answers are arguments.  The two rate limits are instances of
  the locale \<open>fixed_window\<close>.
\<close>

section \<open>Rate limits\<close>

text \<open>The contract of a fixed-window limit: a call is counted against its key in the window of
  its clock second, a call is granted only while that count stays within the limit.\<close>

locale fixed_window =
  fixes allow :: "'k \<Rightarrow> int \<Rightarrow> 's \<Rightarrow> bool \<times> 's"
    and win :: "'s \<Rightarrow> int"
    and cnt :: "'s \<Rightarrow> 'k \<Rightarrow> int"
    and limit :: int
  assumes win_allow: "win (snd (allow k w s)) = w"
    and cnt_mono: "win s = w \<Longrightarrow> cnt s j \<le> cnt (snd (allow k w s)) j"
    and granted_counts: "fst (allow k w s) \<Longrightarrow>
      (if win s = w then cnt s k else 0) < cnt (snd (allow k w s)) k \<and> cnt (snd (allow k w s)) k \<le> limit"
    and fresh: "win s \<noteq> w \<Longrightarrow> 0 \<le> cnt (snd (allow k w s)) j"
    and limit_nonneg: "0 \<le> limit"
begin

fun grants :: "('k \<times> int) list \<Rightarrow> 's \<Rightarrow> ('k \<times> int) list" where
  "grants [] s = []"
| "grants (c # cs) s = (if fst (allow (fst c) (snd c) s) then [c] else [])
     @ grants cs (snd (allow (fst c) (snd c) s))"

lemma grants_later: "(\<forall>c \<in> set cs. w < snd c) \<Longrightarrow> count_list (grants cs s) (k, w) = 0"
  by (induction cs arbitrary: s) auto

text \<open>Within the current window: what is left of the limit bounds the grants to come.\<close>

lemma grants_current:
  assumes "sorted (map snd cs)" "win s = w" "\<forall>c \<in> set cs. w \<le> snd c"
  shows "int (count_list (grants cs s) (k, w)) \<le> max 0 (limit - cnt s k)"
  using assms
proof (induction cs arbitrary: s)
  case (Cons c cs)
  obtain j v where c: "c = (j, v)" by (cases c)
  let ?s' = "snd (allow j v s)"
  show ?case
  proof (cases "v = w")
    case True
    have "cnt s k \<le> cnt ?s' k" using cnt_mono [of s v k j] Cons.prems(2) True by simp
    moreover have "fst (allow j v s) \<Longrightarrow> cnt s j < cnt ?s' j \<and> cnt ?s' j \<le> limit"
      using granted_counts [of j v s] Cons.prems(2) True by simp
    moreover have "int (count_list (grants cs ?s') (k, w)) \<le> max 0 (limit - cnt ?s' k)"
      using Cons.IH [of ?s'] Cons.prems win_allow [of j v s] True by simp
    ultimately show ?thesis using c True by auto
  next
    case False
    then have "w < v" using Cons.prems(3) c by auto
    then have "\<forall>c \<in> set (c # cs). w < snd c" using Cons.prems(1) c by fastforce
    then show ?thesis using grants_later [of "c # cs" w s k] by simp
  qed
qed simp

text \<open>With a clock that never steps back, no key is granted more than the limit in one second.\<close>

lemma grants_bounded:
  assumes "sorted (map snd cs)" "win s = w \<Longrightarrow> 0 \<le> cnt s k"
  shows "int (count_list (grants cs s) (k, w)) \<le> limit"
  using assms
proof (induction cs arbitrary: s)
  case (Cons c cs)
  obtain j v where c: "c = (j, v)" by (cases c)
  let ?s' = "snd (allow j v s)"
  have wv: "win ?s' = v" by (rule win_allow)
  show ?case
  proof (cases "v = w")
    case True
    have p: "win s = w \<Longrightarrow> 0 \<le> cnt s k \<and> cnt s k \<le> cnt ?s' k" "win s \<noteq> w \<Longrightarrow> 0 \<le> cnt ?s' k"
      using cnt_mono [of s v k j] fresh [of s v j k] Cons.prems(2) True by auto
    have q: "fst (allow j v s) \<Longrightarrow> (if win s = w then cnt s j else 0) < cnt ?s' j \<and> cnt ?s' j \<le> limit"
      using granted_counts [of j v s] True by simp
    have "\<forall>c \<in> set cs. v \<le> snd c" using Cons.prems(1) c by auto
    then have "int (count_list (grants cs ?s') (k, w)) \<le> max 0 (limit - cnt ?s' k)"
      using grants_current [of cs ?s' w k] Cons.prems(1) wv True by simp
    then show ?thesis using p q c limit_nonneg by (cases "win s = w"; cases "k = j") auto
  next
    case False
    then have "int (count_list (grants cs ?s') (k, w)) \<le> limit"
      using Cons.IH [of ?s'] Cons.prems(1) wv by simp
    then show ?thesis using False c by auto
  qed
qed (use limit_nonneg in simp)

end

definition maxForwardsPerSec :: int where "maxForwardsPerSec = 200"
definition queryLimitPerSec :: int where "queryLimitPerSec = 100"
definition maxTrackedSources :: nat where "maxTrackedSources = 512"

record forwardGate =
  fg_window :: int
  fg_count :: int

definition gate_allow :: "int \<Rightarrow> forwardGate \<Rightarrow> bool \<times> forwardGate" where
  "gate_allow w g =
    (let g1 = (if w \<noteq> fg_window g then \<lparr>fg_window = w, fg_count = 0\<rparr> else g);
         g2 = g1\<lparr>fg_count := fg_count g1 + 1\<rparr>
     in (fg_count g2 \<le> maxForwardsPerSec, g2))"

record rateLimiter =
  rl_window :: int
  rl_counts :: "(string \<times> int) list"
  rl_capLogged :: bool

definition limiter_roll :: "int \<Rightarrow> rateLimiter \<Rightarrow> rateLimiter" where
  "limiter_roll w r = (if w \<noteq> rl_window r then \<lparr>rl_window = w, rl_counts = [], rl_capLogged = False\<rparr> else r)"

definition limiter_allow :: "string \<Rightarrow> int \<Rightarrow> rateLimiter \<Rightarrow> bool \<times> rateLimiter" where
  "limiter_allow source w r0 =
    (let r = limiter_roll w r0 in
     if map_of (rl_counts r) source = None \<and> maxTrackedSources \<le> length (rl_counts r)
     then (False, r\<lparr>rl_capLogged := True\<rparr>)
     else let n = (case map_of (rl_counts r) source of Some n \<Rightarrow> n | None \<Rightarrow> 0) + 1
          in (n \<le> queryLimitPerSec, r\<lparr>rl_counts := AList.update source n (rl_counts r)\<rparr>))"

definition source_count :: "rateLimiter \<Rightarrow> string \<Rightarrow> int" where
  "source_count r k = (case map_of (rl_counts r) k of Some n \<Rightarrow> n | None \<Rightarrow> 0)"

interpretation gate: fixed_window "\<lambda>(k :: unit). gate_allow" fg_window "\<lambda>g k. fg_count g" maxForwardsPerSec
  by unfold_locales (auto simp: gate_allow_def Let_def maxForwardsPerSec_def)

interpretation limiter: fixed_window limiter_allow rl_window source_count queryLimitPerSec
  by unfold_locales (auto simp: limiter_allow_def limiter_roll_def Let_def source_count_def update_conv'
      queryLimitPerSec_def maxTrackedSources_def split: option.splits if_splits)

definition limiter_ok :: "rateLimiter \<Rightarrow> bool" where
  "limiter_ok r \<longleftrightarrow> distinct (map fst (rl_counts r)) \<and> length (rl_counts r) \<le> maxTrackedSources"

lemma length_update: "length (AList.update k v al) = (if map_of al k = None then Suc (length al) else length al)"
  by (induction al) auto

lemma limiter_allow_ok: "limiter_ok r \<Longrightarrow> limiter_ok (snd (limiter_allow k w r))"
  by (auto simp: limiter_ok_def limiter_allow_def limiter_roll_def Let_def length_update distinct_update
      maxTrackedSources_def)

section \<open>Answering a query\<close>

definition dohCanary :: string where "dohCanary = ''use-application-dns.net''"

definition hasParent :: "string \<Rightarrow> string \<Rightarrow> bool" where
  "hasParent name parent \<longleftrightarrow> length parent + 1 < length name
     \<and> drop (length name - length parent) name = parent
     \<and> name ! (length name - length parent - 1) = CHR ''.''"

text \<open>The two atomic pointers of the server: zone and served subnets, nil before the first
  store.\<close>

record DnsData =
  dd_zone :: "Zone option"
  dd_served :: "ipnet list option"

definition SetServedSubnets :: "string list \<Rightarrow> DnsData \<Rightarrow> DnsData" where
  "SetServedSubnets cidrs d = d\<lparr>dd_served := Some (map snd (List.map_filter ParseCIDR cidrs))\<rparr>"

definition SetZone :: "Zone \<Rightarrow> DnsData \<Rightarrow> DnsData" where
  "SetZone z d = d\<lparr>dd_zone := Some z\<rparr>"

definition servesReverse :: "DnsData \<Rightarrow> byte list \<Rightarrow> bool" where
  "servesReverse d ip = (case dd_served d of None \<Rightarrow> False | Some nets \<Rightarrow> list_ex (\<lambda>n. IPNet_Contains n ip) nets)"

text \<open>\<open>handle\<close> returns a reply, a packet to forward, or neither.\<close>

datatype verdict = Drop | Reply "byte list" | Forward "byte list"

definition reverse_step :: "DnsData \<Rightarrow> byte list \<Rightarrow> question \<Rightarrow> verdict" where
  "reverse_step d req q =
    (case reverseName (q_Name q) of
       None \<Rightarrow> Forward req
     | Some ip \<Rightarrow>
        (case (case dd_zone d of None \<Rightarrow> None | Some z \<Rightarrow> z_ptr z ip) of
           Some target \<Rightarrow> Reply (respond req q rcodeNoError True [rrPTR target answerTTL])
         | None \<Rightarrow> if servesReverse d ip then Reply (respond req q rcodeNXDomain True []) else Forward req))"

definition wants_a :: "question \<Rightarrow> bool" where
  "wants_a q \<longleftrightarrow> q_Type q = typeA \<or> q_Type q = typeANY"

definition zone_step :: "DnsData \<Rightarrow> byte list \<Rightarrow> question \<Rightarrow> verdict" where
  "zone_step d req q =
    (case (case dd_zone d of None \<Rightarrow> None | Some z \<Rightarrow> z_a z (q_Name q)) of
       Some ip \<Rightarrow> if wants_a q then Reply (respond req q rcodeNoError True [rrA ip answerTTL])
                  else Reply (respond req q rcodeNoError True [])
     | None \<Rightarrow> if q_Name q = SuffixInv then Reply (respond req q rcodeNoError True [])
               else Reply (respond req q rcodeNXDomain True []))"

definition handle :: "byte list \<Rightarrow> DnsData \<Rightarrow> byte list \<Rightarrow> verdict" where
  "handle bindIP d req =
    (if headerLen \<le> length req \<and> req ! 2 AND 0x80 \<noteq> 0 then Drop
     else case parseQuestion req of
       None \<Rightarrow> Drop
     | Some q \<Rightarrow>
        if drop_bit 3 (req ! 2) AND 0x0f \<noteq> 0 then Reply (respond req q rcodeNotImp False [])
        else if q_Class q \<noteq> classIN then Reply (respond req q rcodeRefused False [])
        else if q_Name q = dohCanary \<or> hasParent (q_Name q) dohCanary
          then Reply (respond req q rcodeNXDomain True [])
        else if q_Name q = SuffixDHCP
          then (if wants_a q then Reply (respond req q rcodeNoError True [rrA bindIP answerTTL])
                else Reply (respond req q rcodeNoError True []))
        else if inZone (q_Name q) then zone_step d req q
        else if q_Type q = typePTR then reverse_step d req q
        else Forward req)"

lemma handle_Reply:
  assumes "handle bindIP d req = Reply r"
  shows "\<exists>q rcode aa ans. parseQuestion req = Some q \<and> r = respond req q rcode aa ans"
  using assms by (auto simp: handle_def zone_step_def reverse_step_def split: if_splits option.splits)

lemma handle_Forward:
  assumes "handle bindIP d req = Forward f"
  shows "f = req \<and> (\<exists>q. parseQuestion req = Some q \<and> \<not> inZone (q_Name q) \<and> req ! 2 AND 0x80 = 0
    \<and> (\<forall>ip. q_Type q = typePTR \<longrightarrow> reverseName (q_Name q) = Some ip \<longrightarrow> \<not> servesReverse d ip))"
  using assms
  by (auto simp: handle_def zone_step_def reverse_step_def parseQuestion_def split: if_splits option.splits)

lemma response_dropped: "response_ok req q ans r \<Longrightarrow> parseQuestion req = Some q \<Longrightarrow> handle bindIP d r = Drop"
proof -
  assume r: "response_ok req q ans r" "parseQuestion req = Some q"
  have "drop 12 (take (q_end q) r) = drop 12 (take (q_end q) req)" using r(1) by (simp add: response_ok_def)
  then have "length (drop 12 (take (q_end q) r)) = length (drop 12 (take (q_end q) req))" by simp
  then have "q_end q \<le> length r" using parseQuestion_end [OF r(2)] by simp
  then have "headerLen \<le> length r" using parseQuestion_end(1) [OF r(2)] by (simp add: headerLen_def)
  moreover have "r ! 2 AND 0x80 \<noteq> 0" using r(1) by (simp add: response_ok_def)
  ultimately show ?thesis by (simp add: handle_def)
qed

section \<open>The forwarder\<close>

definition arCount :: "byte list \<Rightarrow> int" where
  "arCount req = uint (req ! 10) * 256 + uint (req ! 11)"

definition reply_matches :: "byte list \<Rightarrow> question \<Rightarrow> byte list \<Rightarrow> bool" where
  "reply_matches req q buf \<longleftrightarrow>
     \<not> (length buf < headerLen \<or> buf ! 0 \<noteq> req ! 0 \<or> buf ! 1 \<noteq> req ! 1 \<or> buf ! 2 AND 0x80 = 0)
     \<and> (case parseQuestion buf of None \<Rightarrow> False
        | Some rq \<Rightarrow> q_Name rq = q_Name q \<and> q_Type rq = q_Type q \<and> q_Class rq = q_Class q)"

text \<open>\<open>forwardOne\<close>: the datagrams that arrive before the deadline, \<open>None\<close> for a read
  error.\<close>

fun forwardOne :: "byte list \<Rightarrow> question \<Rightarrow> byte list option list \<Rightarrow> byte list option" where
  "forwardOne req q [] = None"
| "forwardOne req q (None # rs) = None"
| "forwardOne req q (Some buf # rs) = (if reply_matches req q buf then Some buf else forwardOne req q rs)"

text \<open>\<open>raceUpstreams\<close>: \<open>arrival\<close> lists the upstreams in the order in which their
  probes finish.\<close>

definition raceUpstreams :: "string list \<Rightarrow> string list \<Rightarrow> (string \<Rightarrow> byte list option) \<Rightarrow> byte list option" where
  "raceUpstreams ups arrival probe =
    (if length ups = 0 then None
     else if length ups = 1 then probe (ups ! 0)
     else case List.find (\<lambda>r. r \<noteq> None) (map probe arrival) of Some r \<Rightarrow> r | None \<Rightarrow> None)"

text \<open>What \<open>forwardAsync\<close> sends back once \<open>forward\<close> has returned.\<close>

definition relay_reply :: "byte list \<Rightarrow> question \<Rightarrow> byte list option \<Rightarrow> byte list" where
  "relay_reply req q up =
    (case up of
       None \<Rightarrow> respond req q rcodeServFail False []
     | Some resp \<Rightarrow>
        if maxUDPResponse < length resp \<and> arCount req = 0
        then (let r = respond req q rcodeNoError False [] in r[2 := r ! 2 OR 0x02])
        else resp)"

definition maxInflightForwards :: nat where "maxInflightForwards = 16"

datatype admission = Shed | ServFail "byte list" | Started question

text \<open>\<open>forwardAsync\<close> up to the start of the worker; the semaphore is its number of
  holders.\<close>

definition forwardAsync :: "byte list \<Rightarrow> int \<Rightarrow> forwardGate \<Rightarrow> nat \<Rightarrow> admission \<times> forwardGate \<times> nat" where
  "forwardAsync req w g sem =
    (case parseQuestion req of
       None \<Rightarrow> (Shed, g, sem)
     | Some q \<Rightarrow>
        (case gate_allow w g of (ok, g') \<Rightarrow>
           if \<not> ok then (Shed, g', sem)
           else if sem < maxInflightForwards then (Started q, g', sem + 1)
           else (ServFail (respond req q rcodeServFail False []), g', sem)))"

section \<open>TCP framing\<close>

definition readTCPMessage :: "byte list \<Rightarrow> (byte list \<times> byte list) option" where
  "readTCPMessage s =
    (if length s < 2 then None
     else let n = unat (s ! 0) * 256 + unat (s ! 1) in
       if n < headerLen then None
       else if length s < 2 + n then None
       else Some (take n (drop 2 s), drop (2 + n) s))"

definition writeTCPMessage :: "byte list \<Rightarrow> byte list option" where
  "writeTCPMessage msg =
    (if 0xffff < length msg then None
     else Some ([of_nat (length msg div 256), of_nat (length msg)] @ msg))"

lemma read_write_TCP:
  assumes "writeTCPMessage msg = Some f" "12 \<le> length msg"
  shows "readTCPMessage (f @ rest) = Some (msg, rest)"
proof -
  have l: "length msg \<le> 65535" and f: "f = [of_nat (length msg div 256), of_nat (length msg)] @ msg"
    using assms(1) by (auto simp: writeTCPMessage_def split: if_splits)
  have d: "length msg div 256 < 256" using l by auto
  have "unat (of_nat (length msg div 256) :: byte) = length msg div 256"
    using d by (simp add: unat_of_nat)
  moreover have "unat (of_nat (length msg) :: byte) = length msg mod 256" by (simp add: unat_of_nat)
  ultimately show ?thesis
    using assms(2) by (simp add: f readTCPMessage_def headerLen_def Let_def)
qed

lemma readTCPMessage_shorter: "readTCPMessage s = Some (m, r) \<Longrightarrow> length r < length s"
  by (auto simp: readTCPMessage_def Let_def split: if_splits)

text \<open>\<open>handleTCPConn\<close>: the queries of one connection's byte stream, the \<open>i\<close>-th at
  its clock second, with the relay's answers as an argument; the list of framed responses written.\<close>

function handleTCPConn :: "(byte list \<Rightarrow> byte list option) \<Rightarrow> byte list \<Rightarrow> DnsData \<Rightarrow> string \<Rightarrow> byte list
    \<Rightarrow> (nat \<Rightarrow> int) \<Rightarrow> nat \<Rightarrow> rateLimiter \<Rightarrow> byte list list \<times> rateLimiter" where
  "handleTCPConn relay bindIP d remote s clock i rl =
    (case readTCPMessage s of
       None \<Rightarrow> ([], rl)
     | Some (req, rest) \<Rightarrow>
        (case limiter_allow remote (clock i) rl of (ok, rl') \<Rightarrow>
           if \<not> ok then ([], rl')
           else (case (case handle bindIP d req of
                    Drop \<Rightarrow> None
                  | Reply r \<Rightarrow> Some r
                  | Forward f \<Rightarrow> (case relay f of
                       Some r \<Rightarrow> Some r
                     | None \<Rightarrow> map_option (\<lambda>q. respond req q rcodeServFail False []) (parseQuestion req))) of
               None \<Rightarrow> ([], rl')
             | Some resp \<Rightarrow> (case writeTCPMessage resp of
                  None \<Rightarrow> ([], rl')
                | Some f \<Rightarrow> map_prod (Cons f) id (handleTCPConn relay bindIP d remote rest clock (Suc i) rl')))))"
  by pat_completeness auto
termination
  by (relation "measure (\<lambda>(relay, bindIP, d, remote, s, clock, i, rl). length s)")
    (auto dest: readTCPMessage_shorter)

declare handleTCPConn.simps [simp del]


section \<open>The upstream list\<close>

fun fields_loop :: "nat \<Rightarrow> string \<Rightarrow> string \<Rightarrow> string list" where
  "fields_loop 0 cur s = (if cur = [] then [] else [cur])"
| "fields_loop (Suc k) cur s =
     (if s = [] then (if cur = [] then [] else [cur])
      else case List.find (has_prefix s) space_encodings of
        Some e \<Rightarrow> (if cur = [] then [] else [cur]) @ fields_loop k [] (drop (length e) s)
      | None \<Rightarrow> fields_loop k (cur @ [hd s]) (tl s))"

definition go_Fields :: "string \<Rightarrow> string list" where
  "go_Fields s = fields_loop (length s) [] s"

definition maxNameservers :: nat where "maxNameservers = 3"
definition resolvTTL :: int where "resolvTTL = 5000000000"

fun nameservers :: "string list \<Rightarrow> string list \<Rightarrow> string list" where
  "nameservers [] out = out"
| "nameservers (line # ls) out =
     (let fields = go_Fields (TrimSpace line) in
      if length fields < 2 \<or> fields ! 0 \<noteq> ''nameserver'' then nameservers ls out
      else if ParseIP (fields ! 1) \<noteq> []
      then (let out' = out @ [fields ! 1] in if length out' = maxNameservers then out' else nameservers ls out')
      else nameservers ls out)"

text \<open>The file's text, \<open>None\<close> when it cannot be read.\<close>

definition parseResolvConf :: "string option \<Rightarrow> string list" where
  "parseResolvConf file = (case file of None \<Rightarrow> [] | Some data \<Rightarrow> nameservers (split_on CHR 0x0A data) [])"

record resolvCache =
  rc_fetched :: int
  rc_servers :: "string list"

definition upstreams :: "string option \<Rightarrow> int \<Rightarrow> string list \<Rightarrow> resolvCache \<Rightarrow> string list \<times> resolvCache" where
  "upstreams file now exclude r =
    (let r' = (if resolvTTL < now - rc_fetched r then \<lparr>rc_fetched = now, rc_servers = parseResolvConf file\<rparr> else r)
     in (filter (\<lambda>s. s \<notin> set exclude) (rc_servers r'), r'))"

lemma nameservers_bound:
  assumes "length out < maxNameservers" "\<forall>x \<in> set out. ParseIP x \<noteq> []"
  shows "length (nameservers ls out) \<le> maxNameservers \<and> (\<forall>x \<in> set (nameservers ls out). ParseIP x \<noteq> [])"
  using assms
proof (induction ls arbitrary: out)
  case (Cons line ls)
  let ?f = "go_Fields (TrimSpace line) ! 1"
  have "length (nameservers ls (out @ [?f])) \<le> maxNameservers \<and> (\<forall>x \<in> set (nameservers ls (out @ [?f])). ParseIP x \<noteq> [])"
    if "length (out @ [?f]) \<noteq> maxNameservers" "ParseIP ?f \<noteq> []"
    using Cons.IH [of "out @ [?f]"] Cons.prems that by simp
  then show ?case using Cons.IH [of out] Cons.prems by (simp add: Let_def)
qed simp

section \<open>The listener set\<close>

record listener =
  ln_bindIP :: "byte list"
  ln_tcp :: bool

record Listeners =
  ls_listeners :: "listener list"
  ls_bindSet :: "string list option"
  ls_desired :: "string list"

text \<open>\<open>udp\<close> and \<open>tcp\<close> say whether the kernel grants a bind; both may depend on the
  sockets already open.\<close>

type_synonym kernel = "listener list \<Rightarrow> byte list \<Rightarrow> bool"

definition newListener :: "kernel \<Rightarrow> kernel \<Rightarrow> listener list \<Rightarrow> string \<Rightarrow> listener option" where
  "newListener udp tcp open_ls bindIP =
    (let ip4 = To4 (ParseIP bindIP) in
     if ip4 = [] then None
     else if \<not> udp open_ls ip4 then None
     else Some \<lparr>ln_bindIP = ip4, ln_tcp = tcp open_ls ip4\<rparr>)"

definition stopped :: Listeners where
  "stopped = \<lparr>ls_listeners = [], ls_bindSet = None, ls_desired = []\<rparr>"

definition StopServer :: "Listeners \<Rightarrow> Listeners" where
  "StopServer s = stopped"

definition add_listener :: "string \<Rightarrow> listener \<Rightarrow> Listeners \<Rightarrow> Listeners" where
  "add_listener ip l s = s\<lparr>ls_listeners := ls_listeners s @ [l],
     ls_bindSet := Some (List.insert ip (case ls_bindSet s of Some b \<Rightarrow> b | None \<Rightarrow> []))\<rparr>"

fun start_loop :: "kernel \<Rightarrow> kernel \<Rightarrow> string list \<Rightarrow> Listeners \<Rightarrow> string list \<Rightarrow> Listeners \<times> string list" where
  "start_loop udp tcp [] s failed = (s, failed)"
| "start_loop udp tcp (ip # ips) s failed =
     (if ip = [] then start_loop udp tcp ips s failed
      else let s1 = s\<lparr>ls_desired := ls_desired s @ [ip]\<rparr> in
        case newListener udp tcp (ls_listeners s1) ip of
          None \<Rightarrow> start_loop udp tcp ips s1 (failed @ [ip])
        | Some l \<Rightarrow> start_loop udp tcp ips (add_listener ip l s1) failed)"

definition start :: "kernel \<Rightarrow> kernel \<Rightarrow> string list \<Rightarrow> Listeners \<Rightarrow> Listeners \<times> string list" where
  "start udp tcp bindIPs s0 = start_loop udp tcp bindIPs ((StopServer s0)\<lparr>ls_bindSet := Some []\<rparr>) []"

definition bound :: "Listeners \<Rightarrow> string list" where
  "bound s = (case ls_bindSet s of Some b \<Rightarrow> b | None \<Rightarrow> [])"

fun bind_tcp :: "kernel \<Rightarrow> listener list \<Rightarrow> byte list \<Rightarrow> listener list \<Rightarrow> (listener list \<times> bool)" where
  "bind_tcp tcp all ip [] = ([], False)"
| "bind_tcp tcp all ip (l # ls) =
     (if ln_bindIP l = ip
      then (if ln_tcp l \<or> \<not> tcp all ip then (l # ls, False) else (l\<lparr>ln_tcp := True\<rparr> # ls, True))
      else (case bind_tcp tcp all ip ls of (ls', b) \<Rightarrow> (l # ls', b)))"

definition rebind_one :: "kernel \<Rightarrow> kernel \<Rightarrow> string \<Rightarrow> Listeners \<Rightarrow> Listeners \<times> bool" where
  "rebind_one udp tcp ip s =
    (if ip \<notin> set (bound s) then
       (case newListener udp tcp (ls_listeners s) ip of
          None \<Rightarrow> (s, False)
        | Some l \<Rightarrow> (add_listener ip l s, True))
     else let ip4 = To4 (ParseIP ip) in
       if ip4 = [] then (s, False)
       else (case bind_tcp tcp (ls_listeners s) ip4 (ls_listeners s) of
         (ls', b) \<Rightarrow> (s\<lparr>ls_listeners := ls'\<rparr>, b)))"

fun rebind_loop :: "kernel \<Rightarrow> kernel \<Rightarrow> string list \<Rightarrow> Listeners \<Rightarrow> string list \<Rightarrow> Listeners \<times> string list" where
  "rebind_loop udp tcp [] s healed = (s, healed)"
| "rebind_loop udp tcp (ip # ips) s healed =
     (case rebind_one udp tcp ip s of
        (s', b) \<Rightarrow> rebind_loop udp tcp ips s' (if b then healed @ [ip] else healed))"

definition RebindMissing :: "kernel \<Rightarrow> kernel \<Rightarrow> Listeners \<Rightarrow> Listeners \<times> string list" where
  "RebindMissing udp tcp s =
    (if ls_bindSet s = None then (s, []) else rebind_loop udp tcp (ls_desired s) s [])"

definition listeners_ok :: "Listeners \<Rightarrow> bool" where
  "listeners_ok s \<longleftrightarrow> (ls_bindSet s = None \<longrightarrow> s = stopped)
     \<and> set (bound s) \<subseteq> set (ls_desired s)
     \<and> (\<forall>ip \<in> set (bound s). To4 (ParseIP ip) \<noteq> [] \<and> To4 (ParseIP ip) \<in> ln_bindIP ` set (ls_listeners s))"

lemma bound_add [simp]: "set (bound (add_listener ip l s)) = insert ip (set (bound s))"
  by (auto simp: bound_def add_listener_def split: option.splits)

lemma newListener_Some: "newListener udp tcp o1 ip = Some l \<Longrightarrow> ln_bindIP l = To4 (ParseIP ip) \<and> To4 (ParseIP ip) \<noteq> []"
  by (auto simp: newListener_def Let_def split: if_splits)

lemma add_listener_ok:
  "listeners_ok s \<Longrightarrow> ls_bindSet s \<noteq> None \<Longrightarrow> newListener udp tcp o1 ip = Some l \<Longrightarrow> ip \<in> set (ls_desired s)
    \<Longrightarrow> listeners_ok (add_listener ip l s)"
  using newListener_Some [of udp tcp o1 ip l]
  by (auto simp: listeners_ok_def) (auto simp: add_listener_def)

lemma start_loop_spec:
  assumes "listeners_ok s" "ls_bindSet s \<noteq> None" "set (ls_desired s) = set (bound s) \<union> set failed"
    "start_loop udp tcp ips s failed = (s', failed')"
  shows "listeners_ok s' \<and> ls_bindSet s' \<noteq> None \<and> set (ls_desired s') = set (bound s') \<union> set failed'
    \<and> ls_desired s' = ls_desired s @ filter (\<lambda>ip. ip \<noteq> []) ips"
  using assms
proof (induction ips arbitrary: s failed)
  case (Cons ip ips)
  show ?case
  proof (cases "ip = []")
    case True
    then have "start_loop udp tcp ips s failed = (s', failed')" "filter (\<lambda>ip. ip \<noteq> []) (ip # ips) = filter (\<lambda>ip. ip \<noteq> []) ips"
      using Cons.prems(4) by simp_all
    then show ?thesis using Cons.IH [OF Cons.prems(1-3)] by metis
  next
    case False
    let ?s1 = "s\<lparr>ls_desired := ls_desired s @ [ip]\<rparr>"
    have s1: "listeners_ok ?s1" "ls_bindSet ?s1 \<noteq> None" "bound ?s1 = bound s" "ip \<in> set (ls_desired ?s1)"
      using Cons.prems by (auto simp: listeners_ok_def bound_def)
    show ?thesis
    proof (cases "newListener udp tcp (ls_listeners s) ip")
      case None
      then show ?thesis using Cons.IH [of ?s1 "failed @ [ip]"] Cons.prems s1 False by auto
    next
      case (Some l)
      have "listeners_ok (add_listener ip l ?s1)" using add_listener_ok [OF s1(1,2) Some s1(4)] .
      moreover have "ls_bindSet (add_listener ip l ?s1) \<noteq> None" "ls_desired (add_listener ip l ?s1) = ls_desired s @ [ip]"
        by (simp_all add: add_listener_def)
      ultimately show ?thesis
        using Cons.IH [of "add_listener ip l ?s1" failed] Cons.prems s1(3) Some False by auto
    qed
  qed
qed simp

lemma bind_tcp_ips: "map ln_bindIP (fst (bind_tcp tcp all ip ls)) = map ln_bindIP ls"
  by (induction ls) (auto split: prod.splits)

lemma rebind_one_spec:
  assumes "listeners_ok s" "ls_bindSet s \<noteq> None" "ip \<in> set (ls_desired s)" "rebind_one udp tcp ip s = (s', b)"
  shows "listeners_ok s' \<and> ls_bindSet s' \<noteq> None \<and> ls_desired s' = ls_desired s \<and> set (bound s) \<subseteq> set (bound s')
    \<and> set (bound s') \<subseteq> set (bound s) \<union> (if b then {ip} else {})
    \<and> ((\<forall>o1. udp o1 (To4 (ParseIP ip))) \<longrightarrow> To4 (ParseIP ip) \<noteq> [] \<longrightarrow> ip \<in> set (bound s'))"
proof (cases "ip \<in> set (bound s)")
  case True
  obtain ls' b' where t: "bind_tcp tcp (ls_listeners s) (To4 (ParseIP ip)) (ls_listeners s) = (ls', b')"
    by (cases "bind_tcp tcp (ls_listeners s) (To4 (ParseIP ip)) (ls_listeners s)")
  then have "map ln_bindIP ls' = map ln_bindIP (ls_listeners s)" by (metis bind_tcp_ips fst_conv)
  then have "ln_bindIP ` set ls' = ln_bindIP ` set (ls_listeners s)" by (metis list.set_map)
  then have "listeners_ok (s\<lparr>ls_listeners := ls'\<rparr>)" "bound (s\<lparr>ls_listeners := ls'\<rparr>) = bound s"
    using assms(1,2) by (auto simp: listeners_ok_def bound_def)
  moreover have "s' = s \<or> s' = s\<lparr>ls_listeners := ls'\<rparr>"
    using assms(4) t True by (auto simp: rebind_one_def Let_def split: if_splits)
  ultimately show ?thesis using assms(1,2) True by auto
next
  case False
  show ?thesis
  proof (cases "newListener udp tcp (ls_listeners s) ip")
    case None
    then have "To4 (ParseIP ip) = [] \<or> \<not> udp (ls_listeners s) (To4 (ParseIP ip))"
      by (auto simp: newListener_def Let_def split: if_splits)
    then show ?thesis using assms None False by (auto simp: rebind_one_def)
  next
    case (Some l)
    then have "s' = add_listener ip l s" "b" using assms(4) False by (simp_all add: rebind_one_def)
    moreover have "ls_bindSet (add_listener ip l s) \<noteq> None" "ls_desired (add_listener ip l s) = ls_desired s"
      by (simp_all add: add_listener_def)
    ultimately show ?thesis using add_listener_ok [OF assms(1,2) Some assms(3)] by auto
  qed
qed

section \<open>Properties\<close>

text \<open>Runs of the two limits: the calls that are granted, in order.\<close>

fun gate_run :: "int list \<Rightarrow> forwardGate \<Rightarrow> int list" where
  "gate_run [] g = []"
| "gate_run (w # ws) g = (if fst (gate_allow w g) then [w] else []) @ gate_run ws (snd (gate_allow w g))"

fun limiter_run :: "(string \<times> int) list \<Rightarrow> rateLimiter \<Rightarrow> (string \<times> int) list" where
  "limiter_run [] r = []"
| "limiter_run (c # cs) r = (if fst (limiter_allow (fst c) (snd c) r) then [c] else [])
     @ limiter_run cs (snd (limiter_allow (fst c) (snd c) r))"

lemma gate_run_grants: "map (Pair ()) (gate_run ws g) = gate.grants (map (Pair ()) ws) g"
  by (induction ws arbitrary: g) auto

lemma limiter_run_grants: "limiter_run cs r = limiter.grants cs r"
  by (induction cs arbitrary: r) auto

lemma count_list_map_Pair: "count_list (map (Pair ()) ws) ((), w) = count_list ws w"
  by (induction ws) auto

text \<open>With a clock that never steps back, the forward gate lets at most 200 queries per
  second through to the uplink, whatever their sources.\<close>

theorem forward_gate_ceiling:
  assumes "sorted ws" "0 \<le> fg_count g"
  shows "count_list (gate_run ws g) w \<le> 200"
proof -
  have "sorted (map snd (map (Pair ()) ws))" using assms(1) by (simp add: comp_def)
  then have "int (count_list (gate.grants (map (Pair ()) ws) g) ((), w)) \<le> maxForwardsPerSec"
    using gate.grants_bounded [of "map (Pair ()) ws" g w "()"] assms(2) by simp
  then show ?thesis unfolding gate_run_grants [symmetric] count_list_map_Pair maxForwardsPerSec_def by simp
qed

lemma forward_gate_ceiling_witness:
  "count_list (gate_run [5, 5, 6] \<lparr>fg_window = 0, fg_count = 0\<rparr>) 5 \<le> 200
    \<and> gate_run [5, 5, 6] \<lparr>fg_window = 0, fg_count = 0\<rparr> = [5, 5, 6]"
proof -
  have "gate_run [5, 5, 6] \<lparr>fg_window = 0, fg_count = 0\<rparr> = [5, 5, 6]" by code_simp
  then show ?thesis using forward_gate_ceiling [of "[5, 5, 6]" "\<lparr>fg_window = 0, fg_count = 0\<rparr>" 5] by simp
qed

text \<open>From a fresh limiter and with a clock that never steps back, no source is answered
  more than 100 times in one second, and the limiter never tracks more than 512 sources, however many
  addresses a flood spoofs.\<close>

theorem limiter_bounds:
  assumes "sorted (map snd cs)" "limiter_ok r" "rl_counts r = []"
  shows "count_list (limiter_run cs r) (k, w) \<le> 100
    \<and> length (rl_counts (fold (\<lambda>c r. snd (limiter_allow (fst c) (snd c) r)) cs r)) \<le> 512"
proof
  have "int (count_list (limiter.grants cs r) (k, w)) \<le> queryLimitPerSec"
    using limiter.grants_bounded [OF assms(1), of r w k] assms(3) by (simp add: source_count_def)
  then show "count_list (limiter_run cs r) (k, w) \<le> 100"
    by (simp add: limiter_run_grants queryLimitPerSec_def)
  have "limiter_ok (fold (\<lambda>c r. snd (limiter_allow (fst c) (snd c) r)) cs r)"
    using assms(2) by (induction cs arbitrary: r) (simp_all add: limiter_allow_ok)
  then show "length (rl_counts (fold (\<lambda>c r. snd (limiter_allow (fst c) (snd c) r)) cs r)) \<le> 512"
    by (simp add: limiter_ok_def maxTrackedSources_def)
qed

definition new_limiter :: rateLimiter where
  "new_limiter = \<lparr>rl_window = 0, rl_counts = [], rl_capLogged = False\<rparr>"

lemma limiter_bounds_witness:
  "count_list (limiter_run [(''10.0.0.9'', 7), (''10.0.0.9'', 7), (''10.0.0.8'', 8)] new_limiter) (''10.0.0.9'', 7) \<le> 100
   \<and> limiter_run [(''10.0.0.9'', 7), (''10.0.0.9'', 7), (''10.0.0.8'', 8)] new_limiter
     = [(''10.0.0.9'', 7), (''10.0.0.9'', 7), (''10.0.0.8'', 8)]"
proof -
  have "limiter_run [(''10.0.0.9'', 7), (''10.0.0.9'', 7), (''10.0.0.8'', 8)] new_limiter
     = [(''10.0.0.9'', 7), (''10.0.0.9'', 7), (''10.0.0.8'', 8)]" by code_simp
  then show ?thesis
    using limiter_bounds [of "[(''10.0.0.9'', 7), (''10.0.0.9'', 7), (''10.0.0.8'', 8)]" new_limiter "''10.0.0.9''" 7]
    by (simp add: new_limiter_def limiter_ok_def)
qed

text \<open>C21: The query handler never leaks or loops: a packet it forwards is the client's own query,
  verbatim, whose name lies outside both authoritative zones and, for a PTR query, outside the
  served subnets; and every reply it makes is itself dropped by any handler, so two appliances cannot
  answer each other.\<close>

theorem handle_no_leak_no_loop:
  "(case handle bindIP d req of
      Drop \<Rightarrow> True
    | Forward f \<Rightarrow> f = req \<and> (\<exists>q. parseQuestion req = Some q \<and> \<not> inZone (q_Name q)
        \<and> \<not> (q_Type q = typePTR \<and> list_ex (servesReverse d) (case reverseName (q_Name q) of Some ip \<Rightarrow> [ip] | None \<Rightarrow> [])))
    | Reply r \<Rightarrow> handle bindIP' d' r = Drop)"
proof (cases "handle bindIP d req")
  case (Reply r)
  then obtain q rcode aa ans where "parseQuestion req = Some q" "r = respond req q rcode aa ans"
    using handle_Reply by blast
  then show ?thesis using Reply response_dropped respond_response_ok by fastforce
next
  case (Forward f)
  then show ?thesis using handle_Forward [of bindIP d req f] by (auto split: option.splits)
qed simp

lemma ParseIP_Nil: "To4 (ParseIP []) = []" by code_simp

lemma has_suffix_last: "drop n s = suf \<Longrightarrow> suf \<noteq> [] \<Longrightarrow> last s = last suf"
  by (metis drop_eq_Nil last_drop linorder_not_le)

lemma in_zone_not_canary: "inZone name \<Longrightarrow> name \<noteq> dohCanary \<and> \<not> hasParent name dohCanary"
proof -
  assume z: "inZone name"
  have "last name = CHR ''l''"
    using z has_suffix_last [of _ name "''.'' @ SuffixInv"] has_suffix_last [of _ name "''.'' @ SuffixDHCP"]
    unfolding inZone_def has_suffix_def by (auto simp: SuffixInv_def SuffixDHCP_def)
  moreover have "last dohCanary = CHR ''t''" "dohCanary \<noteq> []" by (simp_all add: dohCanary_def)
  ultimately show ?thesis using has_suffix_last [of _ name dohCanary] by (auto simp: hasParent_def)
qed

text \<open>Device names resolve end to end: an A query for a label under either suffix, class IN
  and opcode 0, gets an authoritative reply with the zone's address, and any other query under the
  suffixes is answered here, never forwarded.\<close>

theorem handle_device_name:
  assumes "parseQuestion req = Some q" "req ! 2 AND 0x80 = 0" "drop_bit 3 (req ! 2) AND 0x0f = 0"
    "q_Class q = classIN" "dd_zone d = Some z" "inZone (q_Name q)" "q_Name q \<noteq> SuffixDHCP"
  shows "handle bindIP d req =
    (case z_a z (q_Name q) of
       Some ip \<Rightarrow> Reply (respond req q 0 True (if q_Type q = typeA \<or> q_Type q = typeANY then [rrA ip 30] else []))
     | None \<Rightarrow> Reply (respond req q (if q_Name q = SuffixInv then 0 else 3) True []))"
proof -
  have "q_Name q \<noteq> dohCanary \<and> \<not> hasParent (q_Name q) dohCanary"
    using in_zone_not_canary assms(6) by blast
  then show ?thesis using assms
    by (simp add: handle_def zone_step_def wants_a_def rcodeNoError_def rcodeNXDomain_def answerTTL_def
        split: option.splits)
qed


definition ex_query :: "byte list" where
  "ex_query = plain_query [0xab, 0xcd, 1, 0, 0, 1, 0, 0, 0, 0, 0, 0]
     [''bpx-1'', ''inv'', ''greengo'', ''digital''] [0, 1, 0, 1] []"

lemma ex_query_parse:
  "parseQuestion ex_query = Some \<lparr>q_Name = ''bpx-1.inv.greengo.digital'', q_Type = 1, q_Class = 1, q_end = 43\<rparr>"
proof -
  have l: "list_all label_ok [''bpx-1'', ''inv'', ''greengo'', ''digital'']"
    "wire_size [''bpx-1'', ''inv'', ''greengo'', ''digital''] \<le> 255"
    by (simp_all add: label_ok_def wire_size_def)
  have n: "ToLower (Join [''bpx-1'', ''inv'', ''greengo'', ''digital''] ''.'') = ''bpx-1.inv.greengo.digital''"
    "length (encodeName (Join [''bpx-1'', ''inv'', ''greengo'', ''digital''] ''.'')) = 27"
    by code_simp+
  show ?thesis
    unfolding ex_query_def by (subst plain_query_parse [OF l]) (simp_all only: n, simp_all add: be_u16_def)
qed

lemma handle_device_name_witness:
  "handle [10, 0, 0, 1] \<lparr>dd_zone = Some (NewZone [(''bpx-1'', ''10.0.0.9'')]), dd_served = None\<rparr> ex_query
    = Reply (respond ex_query \<lparr>q_Name = ''bpx-1.inv.greengo.digital'', q_Type = 1, q_Class = 1, q_end = 43\<rparr>
        0 True [rrA [10, 0, 0, 9] 30])"
proof -
  have b: "ex_query ! 2 = 1" by (simp add: ex_query_def plain_query_def)
  have z: "z_a (NewZone [(''bpx-1'', ''10.0.0.9'')]) ''bpx-1.inv.greengo.digital'' = Some [10, 0, 0, 9]" by code_simp
  have i: "inZone ''bpx-1.inv.greengo.digital''" "''bpx-1.inv.greengo.digital'' \<noteq> SuffixDHCP"
    "''bpx-1.inv.greengo.digital'' \<noteq> SuffixInv" by code_simp+
  show ?thesis
    using handle_device_name [OF ex_query_parse, of
        "\<lparr>dd_zone = Some (NewZone [(''bpx-1'', ''10.0.0.9'')]), dd_served = None\<rparr>" _ "[10, 0, 0, 1]"]
    by (simp add: b z i classIN_def typeA_def)
qed

lemma forwardOne_matches: "forwardOne req q reads = Some r \<Longrightarrow> Some r \<in> set reads \<and> reply_matches req q r"
  by (induction req q reads rule: forwardOne.induct) (auto split: if_splits)

lemma reply_matches_bytes:
  assumes "reply_matches req q r" "12 \<le> length req"
  shows "12 \<le> length r \<and> take 2 r = take 2 req \<and> bit (r ! 2) 7
    \<and> (\<exists>e. decodeName r 12 = Some (q_Name q, e) \<and> e + 4 \<le> length r
         \<and> be_u16 (r ! e) (r ! (e + 1)) = q_Type q \<and> be_u16 (r ! (e + 2)) (r ! (e + 3)) = q_Class q)"
proof -
  have t: "take 2 x = [x ! 0, x ! 1]" if "12 \<le> length x" for x :: "byte list"
    using that by (cases x; cases "tl x") (auto simp: eval_nat_numeral)
  have "\<not> bit (x :: byte) 7 \<Longrightarrow> x AND 0x80 = 0" for x
    by (rule bit_word_eqI) (auto simp: bit_simps less_Suc_eq eval_nat_numeral)
  then show ?thesis
    using assms t [of r] t [of req]
    by (auto simp: reply_matches_def parseQuestion_def headerLen_def split: option.splits if_splits prod.splits)
qed

text \<open>C22: The forwarder accepts only a datagram it received that answers the query: it has the
  two octets of the query's transaction id and the response bit (the top bit of octet 2), and the
  name, the type and the class decoded from the question at octet 12 are those asked for.  A UDP
  client that announced no additional records never gets more than 512 octets back, whatever the
  upstream sent.\<close>

theorem forwarded_reply_verified:
  assumes "parseQuestion req = Some q"
  shows "(\<forall>r. forwardOne req q reads = Some r \<longrightarrow> Some r \<in> set reads
        \<and> 12 \<le> length r \<and> take 2 r = take 2 req \<and> bit (r ! 2) 7
        \<and> (\<exists>e. decodeName r 12 = Some (q_Name q, e) \<and> e + 4 \<le> length r
             \<and> be_u16 (r ! e) (r ! (e + 1)) = q_Type q \<and> be_u16 (r ! (e + 2)) (r ! (e + 3)) = q_Class q))
    \<and> (arCount req = 0 \<longrightarrow> length (relay_reply req q up) \<le> 512)"
proof -
  have len: "12 \<le> length req" using assms by (auto simp: parseQuestion_def headerLen_def split: if_splits)
  have "length (respond req q rc False []) \<le> 512" for rc
    using respond_response_ok [OF assms] unfolding response_ok_def by blast
  then have "arCount req = 0 \<longrightarrow> length (relay_reply req q up) \<le> 512"
    by (auto simp: relay_reply_def Let_def maxUDPResponse_def split: option.splits)
  moreover have "Some r \<in> set reads \<and> 12 \<le> length r \<and> take 2 r = take 2 req \<and> bit (r ! 2) 7
      \<and> (\<exists>e. decodeName r 12 = Some (q_Name q, e) \<and> e + 4 \<le> length r
           \<and> be_u16 (r ! e) (r ! (e + 1)) = q_Type q \<and> be_u16 (r ! (e + 2)) (r ! (e + 3)) = q_Class q)"
    if "forwardOne req q reads = Some r" for r
    using forwardOne_matches [OF that] reply_matches_bytes [OF _ len, of q r] by blast
  ultimately show ?thesis by blast
qed

definition ex_reply :: "byte list" where
  "ex_reply = respond ex_query \<lparr>q_Name = ''bpx-1.inv.greengo.digital'', q_Type = 1, q_Class = 1, q_end = 43\<rparr> 0 False []"

text \<open>The spoofed datagram before it is skipped.\<close>

lemma ex_forward:
  "forwardOne ex_query \<lparr>q_Name = ''bpx-1.inv.greengo.digital'', q_Type = 1, q_Class = 1, q_end = 43\<rparr>
     [Some (replicate 600 0), Some ex_reply] = Some ex_reply"
  by code_simp

lemma forwarded_reply_verified_witness:
  "bit (ex_reply ! 2) 7 \<and> take 2 ex_reply = take 2 ex_query
   \<and> length (relay_reply ex_query \<lparr>q_Name = ''bpx-1.inv.greengo.digital'', q_Type = 1, q_Class = 1, q_end = 43\<rparr>
     (Some (replicate 600 0))) \<le> 512"
proof -
  have "arCount ex_query = 0" by (simp add: arCount_def ex_query_def plain_query_def)
  then show ?thesis using forwarded_reply_verified [OF ex_query_parse] ex_forward by blast
qed

text \<open>TCP framing round trip: what \<open>writeTCPMessage\<close> puts on the stream,
  \<open>readTCPMessage\<close> takes off it, leaving the bytes that follow, for every message of 12 to
  65535 octets.\<close>

theorem tcp_framing_round_trip:
  assumes "12 \<le> length msg" "length msg \<le> 65535"
  shows "\<exists>f. writeTCPMessage msg = Some f \<and> readTCPMessage (f @ rest) = Some (msg, rest)"
  using read_write_TCP [of msg _ rest] assms by (simp add: writeTCPMessage_def)

lemma tcp_framing_round_trip_witness:
  "\<exists>f. writeTCPMessage (replicate 300 7) = Some f \<and> readTCPMessage (f @ [1, 2]) = Some (replicate 300 7, [1, 2])"
  by (rule tcp_framing_round_trip) simp_all

text \<open>C23: The DNS listeners heal: \<open>StartZone\<close> leaves every requested non-empty address bound or reported
  as failed, every bound address having a listener for it; whatever binds then succeed,
  \<open>RebindMissing\<close> keeps every bound address, and when the kernel grants every UDP bind it leaves
  every requested IPv4 address bound; after \<open>Stop\<close> it binds nothing and reports nothing healed.\<close>

theorem listeners_heal:
  assumes "start udp tcp ips s0 = (s1, failed)" "RebindMissing udp' tcp' s1 = (s2, healed)"
  shows "listeners_ok s1 \<and> listeners_ok s2 \<and> set (bound s1) \<union> set failed = {ip \<in> set ips. ip \<noteq> []}
    \<and> set (bound s1) \<subseteq> set (bound s2)
    \<and> ((\<forall>o1 ip4. udp' o1 ip4) \<longrightarrow> {ip \<in> set ips. To4 (ParseIP ip) \<noteq> []} \<subseteq> set (bound s2))
    \<and> RebindMissing udp' tcp' (StopServer s1) = (stopped, [])"
proof -
  have init: "listeners_ok ((StopServer s0)\<lparr>ls_bindSet := Some []\<rparr>)"
    by (simp add: listeners_ok_def bound_def StopServer_def stopped_def)
  have s1: "listeners_ok s1" "ls_bindSet s1 \<noteq> None" "set (ls_desired s1) = set (bound s1) \<union> set failed"
    "ls_desired s1 = filter (\<lambda>ip. ip \<noteq> []) ips"
    using start_loop_spec [OF init _ _ assms(1) [unfolded start_def]]
    by (auto simp: bound_def StopServer_def stopped_def)
  have loop: "listeners_ok s' \<and> set (bound s) \<subseteq> set (bound s')
      \<and> ((\<forall>o1 ip4. udp' o1 ip4) \<longrightarrow> {ip \<in> set xs. To4 (ParseIP ip) \<noteq> []} \<subseteq> set (bound s'))"
    if "listeners_ok s" "ls_bindSet s \<noteq> None" "set xs \<subseteq> set (ls_desired s)" "rebind_loop udp' tcp' xs s h = (s', h')"
    for s s' xs h h'
    using that
  proof (induction xs arbitrary: s h)
    case (Cons ip xs)
    obtain t b where t: "rebind_one udp' tcp' ip s = (t, b)" by (cases "rebind_one udp' tcp' ip s")
    have "ip \<in> set (ls_desired s)" using Cons.prems(3) by simp
    note one = rebind_one_spec [OF Cons.prems(1,2) this t]
    have "set xs \<subseteq> set (ls_desired t)" "rebind_loop udp' tcp' xs t (if b then h @ [ip] else h) = (s', h')"
      using one Cons.prems(3,4) t by auto
    note ih = Cons.IH [OF _ _ this]
    show ?case using one ih by auto
  qed simp
  have "rebind_loop udp' tcp' (ls_desired s1) s1 [] = (s2, healed)"
    using assms(2) s1(2) by (simp add: RebindMissing_def)
  from loop [OF s1(1,2) order_refl this] show ?thesis
    using s1 by (auto simp: RebindMissing_def StopServer_def stopped_def ParseIP_Nil)
qed

lemma listeners_heal_witness:
  "{''10.0.0.1''} \<subseteq> set (bound (fst (RebindMissing (\<lambda>_ _. True) (\<lambda>_ _. False)
     (fst (start (\<lambda>_ _. False) (\<lambda>_ _. True) [''10.0.0.1''] stopped)))))"
proof -
  have p: "To4 (ParseIP ''10.0.0.1'') \<noteq> []" by code_simp
  have s: "start (\<lambda>_ _. False) (\<lambda>_ _. True) [''10.0.0.1''] stopped
    = (fst (start (\<lambda>_ _. False) (\<lambda>_ _. True) [''10.0.0.1''] stopped), [''10.0.0.1''])"
    by (simp add: start_def newListener_def Let_def)
  show ?thesis
    using listeners_heal [OF s prod.collapse [symmetric], of "\<lambda>_ _. True" "\<lambda>_ _. False"] p by auto
qed

end
