(* ===== verification/Hostnames.thy ===== *)
theory Hostnames
  imports DnsServer Rebalance Remap
begin

text \<open>
  The device names of the local DNS: \<open>slugifyHostname\<close> of \<open>src/internal/web/ggohealth.go\<close>,
  the funnel \<open>HostnameSlugs\<close> of \<open>hostnames.go\<close> that turns the raw names into unique
  DNS labels, and \<open>buildDNSHosts\<close> and the generation gate of \<open>dnszone.go\<close>.  Names are
  UTF-8 bytes; a Go map is an association list with distinct keys in any order; a slice expression
  out of range, which panics, is None.
\<close>

section \<open>Labels\<close>

definition label_char :: "char \<Rightarrow> bool" where
  "label_char c = (let n = (of_char c :: int) in (97 \<le> n \<and> n \<le> 122) \<or> (48 \<le> n \<and> n \<le> 57))"

text \<open>The runes of \<open>strings.ToLower(name)\<close> that can pass the filter.  Of the runes outside
  ASCII only the Kelvin sign (E2 84 AA) and the dotted capital I (C4 B0) have a lower case in ASCII;
  no other multi-byte rune, and no invalid byte, gives an ASCII rune.\<close>

fun lower_runes :: "string \<Rightarrow> string" where
  "lower_runes [] = []"
| "lower_runes (c # s) =
    (if c = CHR 0xE2 \<and> take 2 s = [CHR 0x84, CHR 0xAA] then CHR ''k'' # lower_runes s
     else if c = CHR 0xC4 \<and> take 1 s = [CHR 0xB0] then CHR ''i'' # lower_runes s
     else if (of_char c :: int) < 128 then lower_char c # lower_runes s
     else lower_runes s)"

fun slug_scan :: "string \<Rightarrow> bool \<Rightarrow> string \<Rightarrow> string" where
  "slug_scan b dash [] = b"
| "slug_scan b dash (r # rs) =
    (if label_char r then slug_scan (b @ [r]) False rs
     else if r = CHR '' '' \<or> r = CHR ''-'' \<or> r = CHR ''_'' then
       (if b \<noteq> [] \<and> \<not> dash then slug_scan (b @ ''-'') True rs else slug_scan b dash rs)
     else slug_scan b dash rs)"

definition TrimRight_dash :: "string \<Rightarrow> string" where
  "TrimRight_dash s = rev (dropWhile (\<lambda>c. c = CHR ''-'') (rev s))"

definition slugifyHostname :: "string \<Rightarrow> string" where
  "slugifyHostname name =
    (let b = slug_scan [] False (lower_runes name);
         b = (if 63 < length b then take 63 b else b) in
     TrimRight_dash b)"

text \<open>\<open>s[:room]\<close>, cut and trimmed when \<open>s\<close> is longer than the room.\<close>

definition fit_room :: "int \<Rightarrow> string \<Rightarrow> string option" where
  "fit_room room s =
    (if room < int (length s) then
       (if room < 0 then None else Some (TrimRight_dash (take (nat room) s)))
     else Some s)"

definition hostnameTagLen :: nat where "hostnameTagLen = 4"

definition tagSlug :: "string \<Rightarrow> string \<Rightarrow> nat \<Rightarrow> string option" where
  "tagSlug s mac n =
    (let m = NormalizeMAC mac;
         m = (if n < length m then drop (length m - n) m else m) in
     map_option (\<lambda>b. b @ ''-'' @ m) (fit_room (63 - 1 - int (length m)) s))"

definition numberedTagSlug :: "string \<Rightarrow> string \<Rightarrow> nat \<Rightarrow> string option" where
  "numberedTagSlug s mac n =
    (let suffix = ''-'' @ Itoa (int n) in
     case tagSlug s mac (length (NormalizeMAC mac)) of None \<Rightarrow> None
     | Some base \<Rightarrow> map_option (\<lambda>b. b @ suffix) (fit_room (63 - int (length suffix)) base))"

section \<open>The numbering loop ends\<close>

text \<open>The number is what follows the last dash of a numbered label, so two numbers never give
  the same label, and the loop meets each used label at most once.\<close>

lemma Itoa_no_dash: "CHR ''-'' \<notin> set (Itoa (int n))"
  using dec_str_digits [of "int n" "CHR ''-''"] by (auto simp: Itoa_def is_digit_def)

lemma after_dash:
  assumes "CHR ''-'' \<notin> set x"
  shows "takeWhile (\<lambda>c. c \<noteq> CHR ''-'') (rev (b @ ''-'' @ x)) = rev x"
  using assms by (simp add: takeWhile_append)

lemma numbered_shape: "numberedTagSlug s mac n = Some l \<Longrightarrow> \<exists>b. l = b @ ''-'' @ Itoa (int n)"
  unfolding numberedTagSlug_def Let_def by (auto split: option.splits)

lemma numberedTagSlug_inj:
  assumes "numberedTagSlug s mac n = Some l" "numberedTagSlug s mac k = Some l"
  shows "n = k"
proof -
  obtain b b' where "l = b @ ''-'' @ Itoa (int n)" "l = b' @ ''-'' @ Itoa (int k)"
    using assms [THEN numbered_shape] by blast
  then have "rev (Itoa (int n)) = rev (Itoa (int k))"
    using after_dash [OF Itoa_no_dash [of n], of b] after_dash [OF Itoa_no_dash [of k], of b'] by simp
  then show ?thesis using Itoa_inj by fastforce
qed

definition taken_from :: "string list \<Rightarrow> string \<Rightarrow> string \<Rightarrow> nat \<Rightarrow> string set" where
  "taken_from used s mac n = {x \<in> set used. \<exists>k\<ge>n. numberedTagSlug s mac k = Some x}"

lemma finite_taken [simp]: "finite (taken_from used s mac n)" by (simp add: taken_from_def)

lemma taken_from_step:
  assumes "numberedTagSlug s mac n = Some l"
  shows "taken_from used s mac n = (if l \<in> set used then insert l (taken_from used s mac (Suc n))
      else taken_from used s mac (Suc n)) \<and> l \<notin> taken_from used s mac (Suc n)"
proof -
  have "l \<notin> taken_from used s mac (Suc n)"
    using numberedTagSlug_inj [OF assms] by (fastforce simp: taken_from_def)
  moreover have "(\<exists>k\<ge>n. numberedTagSlug s mac k = Some x) \<longleftrightarrow> x = l \<or> (\<exists>k\<ge>Suc n. numberedTagSlug s mac k = Some x)" for x
    using assms by (metis Suc_leD Suc_leI le_eq_less_or_eq option.inject)
  ultimately show ?thesis by (auto simp only: taken_from_def split: if_splits)
qed

lemma card_taken_from:
  assumes "numberedTagSlug s mac n = Some l"
  shows "card (taken_from used s mac n) = card (taken_from used s mac (Suc n)) + of_bool (l \<in> set used)"
  by (subst taken_from_step [OF assms, THEN conjunct1])
    (simp add: taken_from_step [OF assms, THEN conjunct2])

function number_loop :: "string list \<Rightarrow> string \<Rightarrow> string \<Rightarrow> nat \<Rightarrow> string \<Rightarrow> string option" where
  "number_loop used s mac n l =
    (if l \<in> set used then
       (case numberedTagSlug s mac n of None \<Rightarrow> None
        | Some l' \<Rightarrow> number_loop used s mac (Suc n) l')
     else Some l)"
  by pat_completeness auto
termination
proof (relation "measure (\<lambda>(used, s, mac, n, l). card (taken_from used s mac n) + of_bool (l \<in> set used))")
  fix used :: "string list" and s mac l l' :: string and n :: nat
  assume "l \<in> set used" "numberedTagSlug s mac n = Some l'"
  then show "((used, s, mac, Suc n, l'), used, s, mac, n, l)
      \<in> measure (\<lambda>(used, s, mac, n, l). card (taken_from used s mac n) + of_bool (l \<in> set used))"
    using card_taken_from [of s mac n l' used] by simp
qed simp

declare number_loop.simps [simp del]

section \<open>The funnel\<close>

definition slug_of :: "(string \<times> string) list \<Rightarrow> string \<Rightarrow> string" where
  "slug_of names mac = slugifyHostname (case map_of names mac of Some n \<Rightarrow> n | None \<Rightarrow> [])"

definition owners :: "(string \<Rightarrow> string) \<Rightarrow> string list \<Rightarrow> string \<Rightarrow> nat" where
  "owners slug macs s = count_list (filter (\<lambda>s. s \<noteq> []) (map slug macs)) s"

definition colliding :: "(string \<Rightarrow> string) \<Rightarrow> string list \<Rightarrow> string list" where
  "colliding slug macs = filter (\<lambda>m. slug m \<noteq> [] \<and> 1 < owners slug macs (slug m)) macs"

definition tag4 :: "(string \<Rightarrow> string) \<Rightarrow> string list \<Rightarrow> string list option" where
  "tag4 slug macs = those (map (\<lambda>m. tagSlug (slug m) m hostnameTagLen) (colliding slug macs))"

definition bare_labels :: "(string \<Rightarrow> string) \<Rightarrow> string list \<Rightarrow> (string \<times> string) list" where
  "bare_labels slug macs =
    map (\<lambda>m. (m, slug m)) (filter (\<lambda>m. slug m \<noteq> [] \<and> owners slug macs (slug m) = 1) macs)"

text \<open>The last loop; \<open>out\<close> is the result so far, its values are the used labels.\<close>

fun assign_tags :: "(string \<Rightarrow> string) \<Rightarrow> string list \<Rightarrow> string list \<Rightarrow> (string \<times> string) list
    \<Rightarrow> (string \<times> string) list option" where
  "assign_tags slug tags [] out = Some out"
| "assign_tags slug tags (mac # macs) out =
    (let s = slug mac; used = map snd out in
     case tagSlug s mac hostnameTagLen of None \<Rightarrow> None
     | Some l0 \<Rightarrow>
       (case (if 1 < count_list tags l0 \<or> l0 \<in> set used
              then tagSlug s mac (length (NormalizeMAC mac)) else Some l0) of None \<Rightarrow> None
        | Some l1 \<Rightarrow>
          (case number_loop used s mac 2 l1 of None \<Rightarrow> None
           | Some l \<Rightarrow> assign_tags slug tags macs (out @ [(mac, l)]))))"

definition HostnameSlugs :: "(string \<times> string) list \<Rightarrow> (string \<times> string) list option" where
  "HostnameSlugs names =
    (let macs = sort (map fst names); slug = slug_of names in
     case tag4 slug macs of None \<Rightarrow> None
     | Some tags \<Rightarrow> assign_tags slug tags
         (filter (\<lambda>m. slug m \<noteq> [] \<and> owners slug macs (slug m) \<noteq> 1) macs) (bare_labels slug macs))"


section \<open>Every label is a DNS label\<close>

definition dns_char :: "char \<Rightarrow> bool" where
  "dns_char c \<longleftrightarrow> label_char c \<or> c = CHR ''-''"

definition dns_label :: "string \<Rightarrow> bool" where
  "dns_label l \<longleftrightarrow> l \<noteq> [] \<and> length l \<le> 63 \<and> list_all dns_char l \<and> hd l \<noteq> CHR ''-'' \<and> last l \<noteq> CHR ''-''"

lemma TrimRight_dash_prefix: "\<exists>t. s = TrimRight_dash s @ t \<and> set t \<subseteq> {CHR ''-''}"
proof -
  have "rev s = takeWhile (\<lambda>c. c = CHR ''-'') (rev s) @ dropWhile (\<lambda>c. c = CHR ''-'') (rev s)" by simp
  then have "s = TrimRight_dash s @ rev (takeWhile (\<lambda>c. c = CHR ''-'') (rev s))"
    unfolding TrimRight_dash_def by (metis rev_append rev_rev_ident)
  moreover have "set (rev (takeWhile (\<lambda>c. c = CHR ''-'') (rev s))) \<subseteq> {CHR ''-''}"
    using set_takeWhileD [of _ "\<lambda>c. c = CHR ''-''" "rev s"] by auto
  ultimately show ?thesis by blast
qed

lemma TrimRight_dash_facts:
  "length (TrimRight_dash s) \<le> length s" "set (TrimRight_dash s) \<subseteq> set s"
  "TrimRight_dash s \<noteq> [] \<Longrightarrow> last (TrimRight_dash s) \<noteq> CHR ''-''"
  "TrimRight_dash s \<noteq> [] \<Longrightarrow> hd (TrimRight_dash s) = hd s"
proof -
  obtain t where t: "s = TrimRight_dash s @ t" using TrimRight_dash_prefix by blast
  show "length (TrimRight_dash s) \<le> length s" by (metis t le_add1 length_append)
  show "set (TrimRight_dash s) \<subseteq> set s" by (metis t set_append sup_ge1)
  show "TrimRight_dash s \<noteq> [] \<Longrightarrow> hd (TrimRight_dash s) = hd s" by (metis t hd_append2)
  show "TrimRight_dash s \<noteq> [] \<Longrightarrow> last (TrimRight_dash s) \<noteq> CHR ''-''"
    unfolding TrimRight_dash_def using hd_dropWhile [of "\<lambda>c. c = CHR ''-''" "rev s"]
    by (simp add: last_rev)
qed

lemma TrimRight_dash_nonempty:
  assumes "s \<noteq> []" "hd s \<noteq> CHR ''-''"
  shows "TrimRight_dash s \<noteq> []"
  using assms by (cases s) (auto simp: TrimRight_dash_def)

lemma slug_scan_label:
  assumes "list_all dns_char b" "b \<noteq> [] \<Longrightarrow> hd b \<noteq> CHR ''-''"
  shows "list_all dns_char (slug_scan b d rs)
    \<and> (slug_scan b d rs \<noteq> [] \<longrightarrow> hd (slug_scan b d rs) \<noteq> CHR ''-'')"
  using assms
proof (induction b d rs rule: slug_scan.induct)
  case (2 b dash r rs)
  have "label_char r \<Longrightarrow> r \<noteq> CHR ''-''" by (auto simp: label_char_def)
  then show ?case using 2 by (auto simp: dns_char_def hd_append)
qed simp

lemma slugifyHostname_label: "slugifyHostname name \<noteq> [] \<Longrightarrow> dns_label (slugifyHostname name)"
proof -
  assume ne: "slugifyHostname name \<noteq> []"
  define b where "b = slug_scan [] False (lower_runes name)"
  define c where "c = (if 63 < length b then take 63 b else b)"
  have b: "list_all dns_char b" "b \<noteq> [] \<Longrightarrow> hd b \<noteq> CHR ''-''"
    using slug_scan_label [of "[]" False "lower_runes name"] by (auto simp: b_def)
  have s: "slugifyHostname name = TrimRight_dash c" by (simp add: slugifyHostname_def b_def c_def)
  have c: "length c \<le> 63" "set c \<subseteq> set b" "c \<noteq> [] \<Longrightarrow> b \<noteq> [] \<and> hd c = hd b"
    by (auto simp: c_def set_take_subset hd_take dest: in_set_takeD)
  have "c \<noteq> []" using ne s TrimRight_dash_facts(1) [of c] by auto
  then show ?thesis
    using ne b c TrimRight_dash_facts [of c] unfolding s dns_label_def list_all_iff by fastforce
qed

definition mac_key :: "string \<Rightarrow> bool" where
  "mac_key m \<longleftrightarrow> m \<noteq> [] \<and> length m \<le> 61 \<and> list_all label_char m"

lemma label_char_no_dash: "label_char c \<Longrightarrow> c \<noteq> CHR ''-''" by (auto simp: label_char_def)

lemma fit_room_label:
  assumes "dns_label s" "0 < room"
  obtains b where "fit_room room s = Some b" "b \<noteq> []" "int (length b) \<le> room" "list_all dns_char b"
    "hd b \<noteq> CHR ''-''"
proof (cases "room < int (length s)")
  case True
  define t where "t = take (nat room) s"
  have t: "t \<noteq> []" "hd t = hd s" "int (length t) \<le> room" "set t \<subseteq> set s"
    using assms by (auto simp: t_def dns_label_def hd_take dest: in_set_takeD)
  have ne: "TrimRight_dash t \<noteq> []"
    using TrimRight_dash_nonempty t assms(1) by (simp add: dns_label_def)
  have "fit_room room s = Some (TrimRight_dash t)" using True assms(2) by (simp add: fit_room_def t_def)
  moreover have "int (length (TrimRight_dash t)) \<le> room" using TrimRight_dash_facts(1) [of t] t(3) by linarith
  moreover have "list_all dns_char (TrimRight_dash t)"
    using TrimRight_dash_facts(2) [of t] t(4) assms(1) unfolding dns_label_def list_all_iff by blast
  moreover have "hd (TrimRight_dash t) \<noteq> CHR ''-''"
    using TrimRight_dash_facts(4) [OF ne] t(2) assms(1) by (simp add: dns_label_def)
  ultimately show thesis using that ne by blast
next
  case False
  then show thesis using that [of s] assms(1) by (simp add: fit_room_def dns_label_def)
qed

lemma dns_label_suffix:
  assumes "b \<noteq> []" "list_all dns_char b" "hd b \<noteq> CHR ''-''" "x \<noteq> []" "list_all label_char x"
    "length b + 1 + length x \<le> 63"
  shows "dns_label (b @ ''-'' @ x)"
proof -
  have "last (b @ ''-'' @ x) \<noteq> CHR ''-''"
    using assms(4,5) label_char_no_dash [of "last x"] last_in_set [of x] by (auto simp: list_all_iff)
  then show ?thesis
    using assms by (auto simp: dns_label_def list_all_iff dns_char_def)
qed

lemma tagSlug_label:
  assumes "dns_label s" "mac_key (NormalizeMAC mac)" "0 < n"
  obtains l where "tagSlug s mac n = Some l" "dns_label l"
proof -
  define m where "m = (if n < length (NormalizeMAC mac) then drop (length (NormalizeMAC mac) - n) (NormalizeMAC mac) else NormalizeMAC mac)"
  have m: "m \<noteq> []" "length m \<le> 61" "list_all label_char m"
    using assms(2,3) by (auto simp: m_def mac_key_def list_all_iff dest: in_set_dropD)
  have "0 < 63 - 1 - int (length m)" using m(2) by simp
  from fit_room_label [OF assms(1) this] obtain b
    where b: "fit_room (63 - 1 - int (length m)) s = Some b" "b \<noteq> []"
      "int (length b) \<le> 63 - 1 - int (length m)" "list_all dns_char b" "hd b \<noteq> CHR ''-''" by blast
  have "tagSlug s mac n = Some (b @ ''-'' @ m)"
    using b(1) unfolding tagSlug_def Let_def m_def [symmetric] by simp
  moreover have "dns_label (b @ ''-'' @ m)"
    by (rule dns_label_suffix) (use b m in auto)
  ultimately show thesis using that by blast
qed

lemma length_dec_str: "0 \<le> n \<Longrightarrow> n < 10 ^ Suc k \<Longrightarrow> length (dec_str n) \<le> Suc k"
proof (induction k arbitrary: n)
  case 0
  then show ?case by (subst dec_str.simps) simp
next
  case (Suc k)
  have "n div 10 < 10 ^ Suc k" using Suc.prems by (simp add: div_less_iff_less_mult)
  then show ?case using Suc.IH [of "n div 10"] Suc.prems by (subst dec_str.simps) simp
qed

lemma numberedTagSlug_label:
  assumes "dns_label s" "mac_key (NormalizeMAC mac)" "n < 10 ^ 50"
  obtains l where "numberedTagSlug s mac n = Some l" "dns_label l"
proof -
  have "0 < length (NormalizeMAC mac)" using assms(2) by (simp add: mac_key_def)
  from tagSlug_label [OF assms(1,2) this] obtain t
    where t: "tagSlug s mac (length (NormalizeMAC mac)) = Some t" "dns_label t" by blast
  have "int n < 10 ^ 50" using assms(3) by (simp add: zless_nat_conj flip: of_nat_less_iff)
  then have len: "length (Itoa (int n)) \<le> 50" using length_dec_str [of "int n" 49] by (simp add: Itoa_def)
  have dig: "list_all label_char (Itoa (int n))" "Itoa (int n) \<noteq> []"
    using dec_str_digits [of "int n"] by (auto simp: Itoa_def list_all_iff label_char_def is_digit_def)
  have "0 < 63 - int (length (''-'' @ Itoa (int n)))" using len by simp
  from fit_room_label [OF t(2) this] obtain b
    where b: "fit_room (63 - int (length (''-'' @ Itoa (int n)))) t = Some b" "b \<noteq> []"
      "int (length b) \<le> 63 - int (length (''-'' @ Itoa (int n)))" "list_all dns_char b" "hd b \<noteq> CHR ''-''" by blast
  have "numberedTagSlug s mac n = Some (b @ ''-'' @ Itoa (int n))"
    using b(1) t(1) by (simp add: numberedTagSlug_def Let_def)
  moreover have "dns_label (b @ ''-'' @ Itoa (int n))"
    by (rule dns_label_suffix) (use b dig len in auto)
  ultimately show thesis using that by blast
qed

lemma number_loop_ends:
  assumes "dns_label s" "mac_key (NormalizeMAC mac)" "dns_label l"
    "l \<in> set used \<longrightarrow> n + card (taken_from used s mac n) < 10 ^ 50"
  shows "\<exists>l'. number_loop used s mac n l = Some l' \<and> l' \<notin> set used \<and> dns_label l'"
  using assms
proof (induction used s mac n l rule: number_loop.induct)
  case (1 used s mac n l)
  show ?case
  proof (cases "l \<in> set used")
    case True
    then have n: "n + card (taken_from used s mac n) < 10 ^ 50" using "1.prems" by simp
    then have "n < 10 ^ 50" by simp
    from numberedTagSlug_label [OF "1.prems"(1,2) this] obtain l'
      where l': "numberedTagSlug s mac n = Some l'" "dns_label l'" by blast
    have "l' \<in> set used \<longrightarrow> Suc n + card (taken_from used s mac (Suc n)) < 10 ^ 50"
      using card_taken_from [OF l'(1), of used] n by (auto simp only: of_bool_eq if_True)
    then show ?thesis
      using "1.IH" [OF True l'(1)] "1.prems"(1,2) l' True by (subst number_loop.simps) simp
  next
    case False
    then show ?thesis using "1.prems" by (subst number_loop.simps) simp
  qed
qed

section \<open>The labels are unique\<close>

lemma assign_tags_ok:
  assumes "\<And>m. m \<in> set macs \<Longrightarrow> dns_label (slug m) \<and> mac_key (NormalizeMAC m)"
    "distinct (map snd out)" "list_all dns_label (map snd out)" "length out + length macs < 10 ^ 49"
  shows "\<exists>out'. assign_tags slug tags macs out = Some out' \<and> distinct (map snd out')
    \<and> list_all dns_label (map snd out') \<and> map fst out' = map fst out @ macs \<and> (\<exists>t. out' = out @ t)"
  using assms
proof (induction macs arbitrary: out)
  case (Cons mac macs)
  have mac: "dns_label (slug mac)" "mac_key (NormalizeMAC mac)" using Cons.prems(1) by auto
  then have len: "0 < length (NormalizeMAC mac)" by (simp add: mac_key_def)
  obtain l0 where l0: "tagSlug (slug mac) mac hostnameTagLen = Some l0" "dns_label l0"
    using tagSlug_label [OF mac, of hostnameTagLen] by (auto simp: hostnameTagLen_def)
  obtain lf where lf: "tagSlug (slug mac) mac (length (NormalizeMAC mac)) = Some lf" "dns_label lf"
    using tagSlug_label [OF mac len] by blast
  define l1 where "l1 = (if 1 < count_list tags l0 \<or> l0 \<in> set (map snd out) then lf else l0)"
  have l1: "(if 1 < count_list tags l0 \<or> l0 \<in> set (map snd out)
      then tagSlug (slug mac) mac (length (NormalizeMAC mac)) else Some l0) = Some l1"
    by (simp add: l1_def lf)
  have d1: "dns_label l1" by (simp add: l1_def l0 lf)
  have "card (taken_from (map snd out) (slug mac) mac 2) \<le> card (set (map snd out))"
    by (rule card_mono) (auto simp: taken_from_def)
  also have "\<dots> \<le> length out" by (metis card_length length_map)
  finally have fuel: "2 + card (taken_from (map snd out) (slug mac) mac 2) < 10 ^ 50"
    using Cons.prems(4) by simp
  obtain l where l: "number_loop (map snd out) (slug mac) mac 2 l1 = Some l" "l \<notin> set (map snd out)" "dns_label l"
    using number_loop_ends [OF mac d1, of "map snd out" 2] fuel by blast
  have step: "assign_tags slug tags (mac # macs) out = assign_tags slug tags macs (out @ [(mac, l)])"
    by (simp only: assign_tags.simps Let_def l0 l1 option.case l(1))
  have "distinct (map snd (out @ [(mac, l)]))" "list_all dns_label (map snd (out @ [(mac, l)]))"
    "length (out @ [(mac, l)]) + length macs < 10 ^ 49"
    using Cons.prems(2-4) l by simp_all
  from Cons.IH [OF _ this] Cons.prems(1) show ?case unfolding step by fastforce
qed simp

lemma count_list_mset: "count (mset xs) x = count_list xs x"
  by (induction xs) auto

lemma count_list_filter: "count_list (filter P xs) x = (if P x then count_list xs x else 0)"
  by (induction xs) auto

lemma distinct_bare: "distinct (map snd (bare_labels slug macs))"
proof -
  define ys where "ys = filter (\<lambda>s. s \<noteq> []) (map slug macs)"
  have "map snd (bare_labels slug macs) = filter (\<lambda>s. count_list ys s = 1) ys"
    by (simp add: bare_labels_def owners_def ys_def comp_def filter_map conj_commute)
  moreover have "distinct (filter (\<lambda>s. count_list ys s = 1) ys)"
  proof -
    let ?P = "\<lambda>s. count_list ys s = 1"
    have "count (mset (filter ?P ys)) a = (if a \<in> set (filter ?P ys) then 1 else 0)" for a
    proof -
      have "count (mset (filter ?P ys)) a = (if ?P a then count_list ys a else 0)"
        by (simp only: count_list_mset count_list_filter)
      moreover have "?P a \<Longrightarrow> a \<in> set ys" by (metis count_notin zero_neq_one)
      ultimately show ?thesis by (cases "?P a") (simp_all del: One_nat_def)
    qed
    then show ?thesis unfolding distinct_count_atmost_1 by blast
  qed
  ultimately show ?thesis by simp
qed

text \<open>The keys of a Go map of device names: distinct, and normalised MACs (hex digits).\<close>

definition names_ok :: "(string \<times> string) list \<Rightarrow> bool" where
  "names_ok names \<longleftrightarrow> distinct (map fst names) \<and> int (length names) < 2 ^ 63
    \<and> list_all (\<lambda>m. mac_key (NormalizeMAC m)) (map fst names)"

lemma length_filter_disjoint:
  "(\<And>x. P x \<Longrightarrow> \<not> Q x) \<Longrightarrow> length (filter P xs) + length (filter Q xs) \<le> length xs"
  by (induction xs) (auto intro: le_SucI)

lemma HostnameSlugs_facts:
  assumes "names_ok names"
  obtains out where "HostnameSlugs names = Some out" "distinct (map fst out)" "distinct (map snd out)"
    "list_all dns_label (map snd out)" "set (map fst out) = {m \<in> set (map fst names). slug_of names m \<noteq> []}"
    "\<And>m. m \<in> set (map fst names) \<Longrightarrow> owners (slug_of names) (sort (map fst names)) (slug_of names m) = 1
      \<Longrightarrow> map_of out m = Some (slug_of names m)"
proof -
  let ?macs = "sort (map fst names)" and ?slug = "slug_of names"
  let ?rest = "filter (\<lambda>m. ?slug m \<noteq> [] \<and> owners ?slug ?macs (?slug m) \<noteq> 1) ?macs"
  let ?bare = "bare_labels ?slug ?macs"
  have lab: "?slug m \<noteq> [] \<Longrightarrow> dns_label (?slug m)" for m
    by (simp add: slug_of_def slugifyHostname_label)
  have key: "mac_key (NormalizeMAC m)" if "m \<in> set ?macs" for m
    using assms that by (auto simp: names_ok_def list_all_iff)
  have tags: "\<exists>tags. tag4 ?slug ?macs = Some tags"
  proof -
    have "\<exists>tags. those (map (\<lambda>m. tagSlug (?slug m) m hostnameTagLen) ms) = Some tags"
      if "set ms \<subseteq> set (colliding ?slug ?macs)" for ms
      using that
    proof (induction ms)
      case (Cons m ms)
      then have "dns_label (?slug m)" "mac_key (NormalizeMAC m)"
        using lab key by (auto simp: colliding_def)
      from tagSlug_label [OF this, of hostnameTagLen]
      obtain l where "tagSlug (?slug m) m hostnameTagLen = Some l" by (auto simp: hostnameTagLen_def)
      then show ?case using Cons by auto
    qed simp
    then show ?thesis by (simp add: tag4_def)
  qed
  then obtain tags where t: "tag4 ?slug ?macs = Some tags" by blast
  have lens: "length ?bare + length ?rest < 10 ^ 49"
  proof -
    have "length ?bare + length ?rest \<le> length ?macs"
      unfolding bare_labels_def length_map by (rule length_filter_disjoint) simp
    then show ?thesis using assms by (simp add: names_ok_def)
  qed
  have "dns_label (?slug m) \<and> mac_key (NormalizeMAC m)" if "m \<in> set ?rest" for m
    using that lab key by simp
  moreover have "list_all dns_label (map snd ?bare)"
    by (auto simp: list_all_iff bare_labels_def lab)
  ultimately obtain out where out: "assign_tags ?slug tags ?rest ?bare = Some out" "distinct (map snd out)"
      "list_all dns_label (map snd out)" "map fst out = map fst ?bare @ ?rest" "\<exists>t. out = ?bare @ t"
    using assign_tags_ok [of ?rest ?slug ?bare tags] distinct_bare lens by blast
  have h: "HostnameSlugs names = Some out" using t out(1) by (simp add: HostnameSlugs_def Let_def)
  have fb: "map fst ?bare = filter (\<lambda>m. ?slug m \<noteq> [] \<and> owners ?slug ?macs (?slug m) = 1) ?macs"
    by (simp add: bare_labels_def comp_def)
  have dm: "distinct ?macs" using assms by (simp add: names_ok_def)
  have d: "distinct (map fst out)" unfolding out(4) fb using dm by auto
  have k: "set (map fst out) = {m \<in> set (map fst names). ?slug m \<noteq> []}"
    unfolding out(4) fb by auto
  have own: "map_of out m = Some (?slug m)"
    if "m \<in> set (map fst names)" "owners ?slug ?macs (?slug m) = 1" for m
  proof -
    have "?slug m \<noteq> []" using that(2) by (auto simp: owners_def count_list_0_iff)
    then have "(m, ?slug m) \<in> set ?bare" using that by (force simp: bare_labels_def)
    then have "(m, ?slug m) \<in> set out" using out(5) by auto
    then show ?thesis using d by simp
  qed
  show thesis using that [OF h d out(2,3) k own] .
qed


text \<open>C33: The device names become DNS labels: from any set of raw names keyed by MAC, the funnel
  returns (its numbering loop ends), gives a label to exactly the devices whose name has a usable
  character, never gives two devices one label, and every label is a legal DNS label of at most 63
  letters, digits and inner dashes.  A device that shares its name with no other keeps the bare
  name, and the result does not depend on the order of the map.\<close>

theorem hostname_labels_unique:
  assumes "names_ok names"
  shows "\<exists>out. HostnameSlugs names = Some out \<and> distinct (map snd out) \<and> list_all dns_label (map snd out)
    \<and> set (map fst out) = {m \<in> set (map fst names). slug_of names m \<noteq> []}
    \<and> list_all (\<lambda>m. owners (slug_of names) (sort (map fst names)) (slug_of names m) = 1
        \<longrightarrow> map_of out m = Some (slug_of names m)) (map fst names)
    \<and> (\<forall>names'. mset names' = mset names \<longrightarrow> HostnameSlugs names' = HostnameSlugs names)"
proof -
  have "HostnameSlugs names' = HostnameSlugs names" if m: "mset names' = mset names" for names'
  proof -
    have ms: "mset (map fst names') = mset (map fst names)" using m by simp
    have "distinct (map fst names)" using assms by (simp add: names_ok_def)
    moreover have "distinct (map fst names')"
      using ms assms by (metis distinct_count_atmost_1 names_ok_def set_mset_mset)
    ultimately have "map_of names' = map_of names"
      using map_of_inject_set [of names' names] m by (metis set_mset_mset)
    then have "slug_of names' = slug_of names" by (intro ext) (simp add: slug_of_def)
    moreover have "sort (map fst names') = sort (map fst names)"
      using ms properties_for_sort [of "sort (map fst names)" "map fst names'"] by simp
    ultimately show ?thesis by (simp add: HostnameSlugs_def)
  qed
  moreover obtain out where out: "HostnameSlugs names = Some out" "distinct (map fst out)" "distinct (map snd out)"
    "list_all dns_label (map snd out)" "set (map fst out) = {m \<in> set (map fst names). slug_of names m \<noteq> []}"
    "\<And>m. m \<in> set (map fst names) \<Longrightarrow> owners (slug_of names) (sort (map fst names)) (slug_of names m) = 1
      \<Longrightarrow> map_of out m = Some (slug_of names m)"
    by (rule HostnameSlugs_facts [OF assms]) (rule that)
  moreover have "list_all (\<lambda>m. owners (slug_of names) (sort (map fst names)) (slug_of names m) = 1
        \<longrightarrow> map_of out m = Some (slug_of names m)) (map fst names)"
    using out(6) by (simp add: list_all_iff)
  ultimately show ?thesis by (intro exI [of _ out] conjI allI impI) simp_all
qed

section \<open>Displayed rows\<close>

text \<open>\<open>liveMAC\<close> of \<open>helpers.go\<close>; a row is its MAC and host name.  The result gives each
  row's kept raw name and its displayed label.\<close>

definition liveMAC :: "string \<Rightarrow> string" where
  "liveMAC hw = (if hw = [] \<or> hw = ''-'' then [] else NormalizeMAC hw)"

definition row_names :: "(string \<times> string) list \<Rightarrow> (string \<times> string) list" where
  "row_names rows = foldl (\<lambda>names (mac, hostname).
     let m = liveMAC mac in
     if m \<noteq> [] \<and> hostname \<noteq> [] \<and> map_of names m = None then names @ [(m, hostname)] else names) [] rows"

definition sanitizeHostnames :: "(string \<times> string) list \<Rightarrow> (string \<times> string) list option" where
  "sanitizeHostnames rows =
    (case HostnameSlugs (row_names rows) of None \<Rightarrow> None
     | Some slugs \<Rightarrow> Some (map (\<lambda>(mac, hostname).
         let m = liveMAC mac in
         (hostname,
          if hostname = [] then hostname
          else if m \<noteq> [] then (case map_of slugs m of Some l \<Rightarrow> l | None \<Rightarrow> [])
          else slugifyHostname hostname)) rows))"

lemma NewZone_ok:
  assumes "distinct (map fst hosts)" "map_of hosts n = Some a" "n \<noteq> []" "To4 (ParseIP a) \<noteq> []"
    "length hosts \<le> maxZoneNames"
  shows "zone_ok (NewZone hosts)" "z_a (NewZone hosts) (fqdn n SuffixDHCP) = Some (To4 (ParseIP a))"
  using NewZone_consistent [OF assms(1)] assms(2-5) by blast+

lemma row_names_snoc:
  "row_names (rows @ [r]) =
    (if liveMAC (fst r) \<noteq> [] \<and> snd r \<noteq> [] \<and> map_of (row_names rows) (liveMAC (fst r)) = None
     then row_names rows @ [(liveMAC (fst r), snd r)] else row_names rows)"
  by (cases r) (simp add: row_names_def Let_def)

lemma row_names_distinct: "distinct (map fst (row_names rows))"
proof (induction rows rule: rev_induct)
  case (snoc r rows)
  then show ?case by (auto simp: row_names_snoc map_of_eq_None_iff)
qed (simp add: row_names_def)

lemma row_names_keys:
  "fst ` set (row_names rows) = {m. \<exists>r \<in> set rows. m = liveMAC (fst r) \<and> m \<noteq> [] \<and> snd r \<noteq> []}"
proof (induction rows rule: rev_induct)
  case (snoc r rows)
  then show ?case
    by (cases "liveMAC (fst r) \<noteq> [] \<and> snd r \<noteq> []")
      (auto simp: row_names_snoc map_of_eq_None_iff)
qed (simp add: row_names_def)

text \<open>Two displayed rows of different devices never show one label; rows of one device show one.\<close>

lemma rows_tell_devices_apart:
  assumes "names_ok (row_names rows)" "sanitizeHostnames rows = Some shown"
    "i < length rows" "j < length rows" "liveMAC (fst (rows ! i)) \<noteq> []" "liveMAC (fst (rows ! j)) \<noteq> []"
    "snd (rows ! i) \<noteq> []" "snd (rows ! j) \<noteq> []" "snd (shown ! i) \<noteq> []"
  shows "snd (shown ! i) = snd (shown ! j) \<longleftrightarrow> liveMAC (fst (rows ! i)) = liveMAC (fst (rows ! j))"
proof -
  obtain slugs where s: "HostnameSlugs (row_names rows) = Some slugs" "distinct (map fst slugs)" "distinct (map snd slugs)"
    by (rule HostnameSlugs_facts [OF assms(1)]) (rule that)
  have lab: "snd (shown ! k) = (case map_of slugs (liveMAC (fst (rows ! k))) of Some l \<Rightarrow> l | None \<Rightarrow> [])"
    if "k < length rows" "liveMAC (fst (rows ! k)) \<noteq> []" "snd (rows ! k) \<noteq> []" for k
    using assms(2) s(1) that by (auto simp: sanitizeHostnames_def Let_def split: prod.splits)
  have inj: "m = m'" if "map_of slugs m = Some l" "map_of slugs m' = Some l" for m m' l
  proof -
    have "(m, l) \<in> set slugs" "(m', l) \<in> set slugs" using that by (auto dest: map_of_SomeD)
    then show ?thesis using s(3) by (metis distinct_map inj_onD snd_conv fst_conv)
  qed
  show ?thesis using lab [of i] lab [of j] assms(3-9) inj by (auto split: option.splits)
qed

section \<open>The zone's input\<close>

text \<open>The fields of \<open>ggoscan.Device\<close> and of \<open>kea.ActiveLease\<close> that the zone uses.  Sorts
  by a key that repeats are taken as stable; the scan keeps one device per MAC and Kea one lease per
  address, so no key repeats.\<close>

record ScanDevice =
  sd_MAC :: string
  sd_Name :: string
  sd_IP :: string

record KeaLease = ActiveLease +
  kl_ValidLft :: int
  kl_Cltt :: int
  kl_State :: int
  kl_Hostname :: string

definition isLeaseActive :: "KeaLease \<Rightarrow> int \<Rightarrow> bool" where
  "isLeaseActive l now =
    (if kl_State l \<noteq> 0 then False
     else if 4294967295 \<le> kl_ValidLft l then True
     else if kl_Cltt l \<le> 0 \<or> kl_ValidLft l \<le> 0 then True
     else now < i64 (kl_Cltt l + kl_ValidLft l))"

definition activeLeases :: "KeaLease list \<Rightarrow> int \<Rightarrow> KeaLease list" where
  "activeLeases leases now = filter (\<lambda>l. isLeaseActive l now) leases"

text \<open>The two maps of \<open>buildDNSHosts\<close>: raw names and addresses by MAC.\<close>

type_synonym dns_maps = "(string \<times> string) list \<times> (string \<times> string) list"

definition add_device :: "dns_maps \<Rightarrow> ScanDevice \<Rightarrow> dns_maps" where
  "add_device M d =
    (let mac = NormalizeMAC (sd_MAC d) in
     if mac = [] then M
     else (if sd_Name d \<noteq> [] then AList.update mac (sd_Name d) (fst M) else fst M,
           if sd_IP d \<noteq> [] then AList.update mac (sd_IP d) (snd M) else snd M))"

definition add_lease :: "dns_maps \<Rightarrow> KeaLease \<Rightarrow> dns_maps" where
  "add_lease M l =
    (let mac = NormalizeMAC (al_HWAddress l) in
     if mac = [] then M
     else (if kl_Hostname l \<noteq> [] then AList.update mac (kl_Hostname l) (fst M) else fst M,
           AList.update mac (al_IPAddress l) (snd M)))"

definition add_reservation :: "dns_maps \<Rightarrow> string \<times> HostReservation \<Rightarrow> dns_maps" where
  "add_reservation M r =
    (let (mac, rsv) = r in
     if mac = [] then M
     else (if hr_Hostname rsv \<noteq> [] then AList.update mac (hr_Hostname rsv) (fst M) else fst M,
           if map_of (snd M) mac = None \<and> hr_IPv4Address rsv \<noteq> 0
           then AList.update mac (ip_String (Uint32ToIP (hr_IPv4Address rsv))) (snd M) else snd M))"

definition dns_inputs :: "ScanDevice list \<Rightarrow> KeaLease list \<Rightarrow> (string \<times> HostReservation) list
    \<Rightarrow> int \<Rightarrow> dns_maps" where
  "dns_inputs devs leases reservations now =
    (let M = foldl add_device ([], []) (sort_key sd_MAC devs);
         M = foldl add_lease M (sort_key al_IPAddress (activeLeases leases now)) in
     foldl add_reservation M reservations)"

definition ip_of :: "(string \<times> string) list \<Rightarrow> string \<Rightarrow> string" where
  "ip_of ips mac = (case map_of ips mac of Some a \<Rightarrow> a | None \<Rightarrow> [])"

definition add_host :: "(string \<times> string) list \<Rightarrow> (string \<times> string) list \<Rightarrow> string \<times> string
    \<Rightarrow> (string \<times> string) list" where
  "add_host ips hosts e =
    (let (mac, slug) = e in
     if slug = [] \<or> ip_of ips mac = [] then hosts else AList.update slug (ip_of ips mac) hosts)"

definition buildDNSHosts :: "ScanDevice list \<Rightarrow> KeaLease list \<Rightarrow> (string \<times> HostReservation) list
    \<Rightarrow> int \<Rightarrow> (string \<times> string) list option" where
  "buildDNSHosts devs leases reservations now =
    (let (names, ips) = dns_inputs devs leases reservations now in
     map_option (foldl (add_host ips) []) (HostnameSlugs names))"

lemma map_of_add_host:
  "map_of (add_host ips hosts e) l =
    (if l = snd e \<and> l \<noteq> [] \<and> ip_of ips (fst e) \<noteq> [] then Some (ip_of ips (fst e)) else map_of hosts l)"
  by (cases e) (auto simp: add_host_def update_conv')

lemma foldl_add_host_keep:
  "l \<notin> snd ` set slugs \<Longrightarrow> map_of (foldl (add_host ips) hosts slugs) l = map_of hosts l"
  by (induction slugs arbitrary: hosts) (auto simp: map_of_add_host)

lemma foldl_add_host:
  assumes "distinct (map snd slugs)" "(mac, l) \<in> set slugs" "l \<noteq> []" "map_of hosts l = None"
  shows "map_of (foldl (add_host ips) hosts slugs) l = (if ip_of ips mac = [] then None else Some (ip_of ips mac))"
  using assms
proof (induction slugs arbitrary: hosts)
  case (Cons e slugs)
  show ?case
  proof (cases "e = (mac, l)")
    case True
    then have "l \<notin> snd ` set slugs" using Cons.prems(1) by simp
    then show ?thesis using True Cons.prems(3,4) by (simp add: foldl_add_host_keep map_of_add_host)
  next
    case False
    then have m: "(mac, l) \<in> set slugs" using Cons.prems(2) by simp
    then have "l \<in> snd ` set slugs" by force
    then have "snd e \<noteq> l" using Cons.prems(1) by auto
    note m this
    then have "(mac, l) \<in> set slugs" "snd e \<noteq> l" by simp_all
    then show ?thesis
      using Cons.IH [of "add_host ips hosts e"] Cons.prems
      by (simp add: map_of_add_host)
  qed
qed simp

lemma distinct_add_host: "distinct (map fst hosts) \<Longrightarrow> distinct (map fst (foldl (add_host ips) hosts slugs))"
proof (induction slugs arbitrary: hosts)
  case (Cons e slugs)
  have "distinct (map fst (add_host ips hosts e))"
    using Cons.prems distinct_update [of hosts "snd e"] by (cases e) (simp add: add_host_def)
  then show ?case using Cons.IH by simp
qed simp

lemma length_update_le: "length (AList.update k v m) \<le> Suc (length m)"
  by (induction m) auto

lemma length_foldl_add_host: "length (foldl (add_host ips) hosts slugs) \<le> length hosts + length slugs"
proof (induction slugs arbitrary: hosts)
  case (Cons e slugs)
  have "length (add_host ips hosts e) \<le> Suc (length hosts)"
    by (cases e) (simp add: add_host_def length_update_le)
  then show ?case using Cons.IH [of "add_host ips hosts e"] by simp
qed simp

lemma filter_label:
  "distinct (map snd xs) \<Longrightarrow> (a, b) \<in> set xs \<Longrightarrow> filter (\<lambda>e. snd e = b) xs = [(a, b)]"
proof (induction xs)
  case (Cons x xs)
  show ?case
  proof (cases "x = (a, b)")
    case True
    then have "\<forall>e \<in> set xs. snd e \<noteq> b" using Cons.prems(1) by force
    then show ?thesis using True by (simp add: filter_empty_conv)
  next
    case False
    then have m: "(a, b) \<in> set xs" using Cons.prems(2) by simp
    then have "b \<in> snd ` set xs" by force
    then have "snd x \<noteq> b" using Cons.prems(1) by auto
    then show ?thesis using Cons m by simp
  qed
qed simp

text \<open>Which address a device is published with.\<close>

lemma add_reservation_ip: "map_of (snd M) mac = Some a \<Longrightarrow> map_of (snd (add_reservation M r)) mac = Some a"
  by (cases r) (auto simp: add_reservation_def update_conv')

lemma reservation_keeps_ip:
  "map_of (snd M) mac = Some a \<Longrightarrow> map_of (snd (foldl add_reservation M rs)) mac = Some a"
  by (induction rs arbitrary: M) (simp_all add: add_reservation_ip)

lemma add_lease_ip:
  "map_of (snd (add_lease M l)) mac =
    (if NormalizeMAC (al_HWAddress l) = mac \<and> mac \<noteq> [] then Some (al_IPAddress l) else map_of (snd M) mac)"
  by (auto simp: add_lease_def Let_def update_conv')

text \<open>The leases are sorted by the text of their address, so a device with several leases is
  published with the greatest.\<close>

definition greatest_lease :: "KeaLease list \<Rightarrow> KeaLease \<Rightarrow> bool" where
  "greatest_lease ls l \<longleftrightarrow> l \<in> set ls
    \<and> (\<forall>l' \<in> set ls. NormalizeMAC (al_HWAddress l') = NormalizeMAC (al_HWAddress l) \<longrightarrow> al_IPAddress l' \<le> al_IPAddress l)"

lemma greatest_sort [simp]: "greatest_lease (sort_key f ls) l = greatest_lease ls l"
  by (simp add: greatest_lease_def)

lemma lease_sets_ip:
  assumes "greatest_lease ls l" "NormalizeMAC (al_HWAddress l) \<noteq> []" "sorted (map al_IPAddress ls)"
  shows "map_of (snd (foldl add_lease M ls)) (NormalizeMAC (al_HWAddress l)) = Some (al_IPAddress l)"
  using assms
proof (induction ls arbitrary: M rule: rev_induct)
  case (snoc x ls)
  show ?case
  proof (cases "NormalizeMAC (al_HWAddress x) = NormalizeMAC (al_HWAddress l)")
    case True
    then have "al_IPAddress x \<le> al_IPAddress l" "al_IPAddress l \<le> al_IPAddress x"
      using snoc.prems(1,3) by (auto simp: greatest_lease_def sorted_append)
    then show ?thesis using True snoc.prems(2) by (simp add: add_lease_ip)
  next
    case False
    then have "greatest_lease ls l" using snoc.prems(1) by (auto simp: greatest_lease_def)
    then show ?thesis using snoc.IH snoc.prems(2,3) False by (simp add: add_lease_ip sorted_append)
  qed
qed (simp add: greatest_lease_def)

text \<open>The maps are keyed by normalised MACs.\<close>

definition keys_upto :: "nat \<Rightarrow> dns_maps \<Rightarrow> bool" where
  "keys_upto n M \<longleftrightarrow> distinct (map fst (fst M)) \<and> length (fst M) \<le> n
    \<and> (\<forall>m \<in> fst ` set (fst M). mac_key (NormalizeMAC m))"

lemma keys_update:
  assumes "keys_upto n M" "mac_key (NormalizeMAC m)"
  shows "keys_upto (Suc n) (AList.update m x (fst M), ips)" "keys_upto (Suc n) (fst M, ips)" "keys_upto (Suc n) M"
proof -
  show "keys_upto (Suc n) (AList.update m x (fst M), ips)"
    using assms distinct_update [of "fst M" m x] length_update_le [of m x "fst M"]
    unfolding keys_upto_def fst_conv dom_update by auto
qed (use assms in \<open>auto simp: keys_upto_def\<close>)

lemma foldl_keys:
  "(\<And>M n x. x \<in> set xs \<Longrightarrow> keys_upto n M \<Longrightarrow> keys_upto (Suc n) (f M x))
    \<Longrightarrow> keys_upto n M \<Longrightarrow> keys_upto (n + length xs) (foldl f M xs)"
proof (induction xs arbitrary: n M)
  case (Cons x xs)
  have "keys_upto (Suc n) (f M x)" using Cons.prems by simp
  from Cons.IH [OF _ this] Cons.prems(1) show ?case by simp
qed simp

definition mac_input_ok :: "string \<Rightarrow> bool" where
  "mac_input_ok hw \<longleftrightarrow> NormalizeMAC hw = [] \<or> mac_key (NormalizeMAC hw)"

definition dns_input_ok :: "ScanDevice list \<Rightarrow> KeaLease list \<Rightarrow> (string \<times> HostReservation) list \<Rightarrow> bool" where
  "dns_input_ok devs leases reservations \<longleftrightarrow>
    int (length devs + length leases + length reservations) < 2 ^ 63
    \<and> list_all (\<lambda>d. mac_input_ok (sd_MAC d)) devs
    \<and> list_all (\<lambda>l. mac_input_ok (al_HWAddress l)) leases
    \<and> list_all (\<lambda>r. fst r = [] \<or> mac_key (NormalizeMAC (fst r))) reservations"

lemma lower_char_same: "\<not> (65 \<le> (of_char c :: int) \<and> (of_char c :: int) \<le> 90) \<Longrightarrow> lower_char c = c"
  unfolding lower_char_def Let_def by (rule if_not_P)

lemma lower_char_code:
  "(of_char (lower_char c) :: int) = (if 65 \<le> (of_char c :: int) \<and> (of_char c :: int) \<le> 90
     then of_char c + 32 else of_char c)"
proof (cases "65 \<le> (of_char c :: int) \<and> (of_char c :: int) \<le> 90")
  case True
  then have "lower_char c = char_of ((of_char c :: int) + 32)"
    unfolding lower_char_def Let_def by (rule if_P)
  moreover have "((of_char c :: int) + 32) mod 256 = of_char c + 32" using True by simp
  ultimately show ?thesis using True by (simp only: of_char_of if_True simp_thms)
next
  case False
  with lower_char_same [OF False] show ?thesis by (simp only: if_False)
qed

lemma lower_char_facts [simp]:
  "lower_char (lower_char c) = lower_char c" "lower_char c = CHR '':'' \<longleftrightarrow> c = CHR '':''"
proof -
  show "lower_char (lower_char c) = lower_char c"
    by (rule lower_char_same) (simp add: lower_char_code)
  have "lower_char c = CHR '':'' \<longleftrightarrow> (of_char (lower_char c) :: int) = of_char (CHR '':'')" by (simp only: of_char_eq_iff)
  also have "\<dots> \<longleftrightarrow> (of_char c :: int) = of_char (CHR '':'')" unfolding lower_char_code by simp
  finally show "lower_char c = CHR '':'' \<longleftrightarrow> c = CHR '':''" by (simp only: of_char_eq_iff)
qed

lemma NormalizeMAC_idem [simp]: "NormalizeMAC (NormalizeMAC m) = NormalizeMAC m"
proof -
  have "filter (\<lambda>c. c \<noteq> CHR '':'') (map lower_char xs) = map lower_char (filter (\<lambda>c. c \<noteq> CHR '':'') xs)" for xs
    by (induction xs) simp_all
  then show ?thesis by (simp add: NormalizeMAC_def remove_colons_def ToLower_def)
qed

lemma add_device_keys:
  assumes "mac_input_ok (sd_MAC d)" "keys_upto n M"
  shows "keys_upto (Suc n) (add_device M d)"
proof (cases "NormalizeMAC (sd_MAC d) = []")
  case False
  then have "mac_key (NormalizeMAC (NormalizeMAC (sd_MAC d)))" using assms(1) by (simp add: mac_input_ok_def)
  from keys_update [OF assms(2) this] False show ?thesis by (simp add: add_device_def Let_def)
qed (use assms(2) in \<open>simp add: add_device_def keys_upto_def\<close>)

lemma add_lease_keys:
  assumes "mac_input_ok (al_HWAddress l)" "keys_upto n M"
  shows "keys_upto (Suc n) (add_lease M l)"
proof (cases "NormalizeMAC (al_HWAddress l) = []")
  case False
  then have "mac_key (NormalizeMAC (NormalizeMAC (al_HWAddress l)))" using assms(1) by (simp add: mac_input_ok_def)
  from keys_update [OF assms(2) this] False show ?thesis by (simp add: add_lease_def Let_def)
qed (use assms(2) in \<open>simp add: add_lease_def keys_upto_def\<close>)

lemma add_reservation_keys:
  assumes "fst r = [] \<or> mac_key (NormalizeMAC (fst r))" "keys_upto n M"
  shows "keys_upto (Suc n) (add_reservation M r)"
proof (cases "fst r = []")
  case False
  with assms(1) have "mac_key (NormalizeMAC (fst r))" by simp
  from keys_update [OF assms(2) this] False show ?thesis by (cases r) (simp add: add_reservation_def)
next
  case True
  then show ?thesis using assms(2) by (cases r) (simp add: add_reservation_def keys_upto_def)
qed

lemma dns_inputs_names_ok:
  assumes "dns_input_ok devs leases reservations"
  shows "names_ok (fst (dns_inputs devs leases reservations now))"
proof -
  define M1 where "M1 = foldl add_device ([], []) (sort_key sd_MAC devs)"
  define act where "act = sort_key al_IPAddress (activeLeases leases now)"
  define M2 where "M2 = foldl add_lease M1 act"
  have "keys_upto (0 + length (sort_key sd_MAC devs)) M1"
    unfolding M1_def
    by (rule foldl_keys, rule add_device_keys) (use assms in \<open>auto simp: dns_input_ok_def list_all_iff keys_upto_def\<close>)
  then have "keys_upto (0 + length (sort_key sd_MAC devs) + length act) M2"
    unfolding M2_def
    by (intro foldl_keys add_lease_keys)
      (use assms in \<open>auto simp: act_def activeLeases_def dns_input_ok_def list_all_iff\<close>)
  then have "keys_upto (0 + length (sort_key sd_MAC devs) + length act + length reservations)
      (foldl add_reservation M2 reservations)"
    by (intro foldl_keys add_reservation_keys)
      (use assms in \<open>auto simp: dns_input_ok_def list_all_iff\<close>)
  then have "keys_upto (length devs + length act + length reservations)
      (dns_inputs devs leases reservations now)"
    by (simp add: dns_inputs_def M1_def M2_def act_def)
  moreover have "length act \<le> length leases" by (simp add: act_def activeLeases_def)
  ultimately show ?thesis
    using assms by (auto simp: names_ok_def keys_upto_def dns_input_ok_def list_all_iff)
qed

lemma reservations_no_effect_on_leases:
  assumes "greatest_lease (activeLeases leases now) l" "NormalizeMAC (al_HWAddress l) \<noteq> []"
  shows "ip_of (snd (dns_inputs devs leases reservations now)) (NormalizeMAC (al_HWAddress l)) = al_IPAddress l"
proof -
  let ?ls = "sort_key al_IPAddress (activeLeases leases now)"
  let ?M = "foldl add_device ([], []) (sort_key sd_MAC devs)"
  have "map_of (snd (foldl add_lease ?M ?ls)) (NormalizeMAC (al_HWAddress l)) = Some (al_IPAddress l)"
    by (rule lease_sets_ip) (use assms in simp_all)
  then show ?thesis
    using reservation_keeps_ip by (simp only: ip_of_def dns_inputs_def Let_def option.case)
qed

text \<open>What \<open>buildDNSHosts\<close> returns.\<close>

lemma buildDNSHosts_facts:
  assumes "dns_input_ok devs leases reservations"
    and ins: "dns_inputs devs leases reservations now = (names, ips)"
  obtains slugs hosts where "HostnameSlugs names = Some slugs" "buildDNSHosts devs leases reservations now = Some hosts"
    "distinct (map fst slugs)" "distinct (map snd slugs)" "list_all dns_label (map snd slugs)"
    "set (map fst slugs) = {m \<in> set (map fst names). slug_of names m \<noteq> []}" "distinct (map fst hosts)"
    "\<And>mac l. (mac, l) \<in> set slugs \<Longrightarrow> map_of hosts l = (if ip_of ips mac = [] then None else Some (ip_of ips mac))"
    "length hosts \<le> length names"
proof -
  have nok: "names_ok names" using dns_inputs_names_ok [OF assms(1), of now] ins by simp
  then obtain slugs where s: "HostnameSlugs names = Some slugs" "distinct (map fst slugs)" "distinct (map snd slugs)"
      "list_all dns_label (map snd slugs)"
      "set (map fst slugs) = {m \<in> set (map fst names). slug_of names m \<noteq> []}"
    by (rule HostnameSlugs_facts) (rule that)
  let ?hosts = "foldl (add_host ips) [] slugs"
  have b: "buildDNSHosts devs leases reservations now = Some ?hosts"
    using s(1) ins by (simp add: buildDNSHosts_def)
  have e: "map_of ?hosts l = (if ip_of ips mac = [] then None else Some (ip_of ips mac))"
    if m: "(mac, l) \<in> set slugs" for mac l
  proof (rule foldl_add_host [OF s(3) m])
    have "l \<in> set (map snd slugs)" using m by force
    then show "l \<noteq> []" using s(4) by (auto simp: list_all_iff dns_label_def)
  qed simp
  have d: "distinct (map fst ?hosts)" by (rule distinct_add_host) simp
  have "length ?hosts \<le> length slugs" using length_foldl_add_host [of ips "[]" slugs] by simp
  also have "length slugs = card (set (map fst slugs))" using s(2) by (metis distinct_card length_map)
  also have "\<dots> \<le> card (set (map fst names))" unfolding s(5) by (rule card_mono) auto
  also have "\<dots> \<le> length names" by (metis card_length length_map)
  finally show thesis using that [OF s(1) b s(2-5) d e] by blast
qed

lemma ParseIP_empty: "To4 (ParseIP []) = []" by code_simp

text \<open>C34: An online device resolves to its own lease: the zone built from the scan, the leases and
  the reservations answers the device's label, under both suffixes, with the address of the device's
  active lease - of the one whose address is greatest as text when it has several, one per trunk VLAN -
  whatever address the scan or a reservation gives it, and no other device has that label. Required: that
  lease's address parses, the device has a name that is not sanitised away, at most 1024 devices have a
  name (the zone's cap), every hardware address in the three inputs normalises to nothing or to at most
  61 of the characters a label may have, and the inputs together are fewer than 2 ^ 63.\<close>

theorem leased_device_resolves:
  assumes "dns_input_ok devs leases reservations"
    and ins: "dns_inputs devs leases reservations now = (names, ips)"
    and lease: "greatest_lease (activeLeases leases now) l" "mac = NormalizeMAC (al_HWAddress l)" "mac \<noteq> []"
    and named: "mac \<in> fst ` set names" "slug_of names mac \<noteq> []"
    and ip: "To4 (ParseIP (al_IPAddress l)) \<noteq> []"
    and small: "length names \<le> maxZoneNames"
  shows "\<exists>slugs hosts lbl. HostnameSlugs names = Some slugs \<and> map_of slugs mac = Some lbl \<and> dns_label lbl
    \<and> buildDNSHosts devs leases reservations now = Some hosts
    \<and> z_a (NewZone hosts) (fqdn lbl SuffixDHCP) = Some (To4 (ParseIP (al_IPAddress l)))
    \<and> z_a (NewZone hosts) (fqdn lbl SuffixInv) = Some (To4 (ParseIP (al_IPAddress l)))
    \<and> filter (\<lambda>e. snd e = lbl) slugs = [(mac, lbl)]"
proof -
  obtain slugs hosts where s: "HostnameSlugs names = Some slugs" "buildDNSHosts devs leases reservations now = Some hosts"
      "distinct (map fst slugs)" "distinct (map snd slugs)" "list_all dns_label (map snd slugs)"
      "set (map fst slugs) = {m \<in> set (map fst names). slug_of names m \<noteq> []}" "distinct (map fst hosts)"
    and e: "\<And>mac l. (mac, l) \<in> set slugs
      \<Longrightarrow> map_of hosts l = (if ip_of ips mac = [] then None else Some (ip_of ips mac))"
    and small_hosts: "length hosts \<le> length names"
    by (rule buildDNSHosts_facts [OF assms(1) ins]) (rule that)
  have "mac \<in> set (map fst slugs)" using named unfolding s(6) by simp
  then obtain lbl where m: "(mac, lbl) \<in> set slugs" by auto
  then have lbl: "map_of slugs mac = Some lbl" "dns_label lbl"
    using s(3,5) by (auto simp: list_all_iff)
  have "ip_of ips mac = al_IPAddress l"
    using reservations_no_effect_on_leases [OF lease(1), of devs reservations] ins lease(2,3) by simp
  moreover have "al_IPAddress l \<noteq> []" using ip ParseIP_empty by metis
  ultimately have a: "map_of hosts lbl = Some (al_IPAddress l)" using e [OF m] by simp
  have z: "zone_ok (NewZone hosts)"
    "z_a (NewZone hosts) (fqdn lbl SuffixDHCP) = Some (To4 (ParseIP (al_IPAddress l)))"
    using NewZone_ok [OF s(7) a _ ip] small small_hosts lbl(2) by (simp_all add: dns_label_def)
  then have "z_a (NewZone hosts) (fqdn lbl SuffixInv) = Some (To4 (ParseIP (al_IPAddress l)))"
    by (simp add: zone_ok_def)
  then show ?thesis using s(1,2) lbl z(2) filter_label [OF s(4) m] by blast
qed

section \<open>Installing zones\<close>

text \<open>\<open>zoneGate\<close>: every rebuild is stamped when it is dispatched and installs its zone only
  when no later stamp has been applied.  \<open>gt_sig\<close> is the sampler's latched signature.\<close>

record 'z zoneGate =
  gt_seq :: "64 word"
  gt_applied :: "64 word"
  gt_sig :: "64 word"
  gt_zone :: 'z

definition nextGen :: "'z zoneGate \<Rightarrow> 64 word \<times> 'z zoneGate" where
  "nextGen g = (gt_seq g + 1, g\<lparr>gt_seq := gt_seq g + 1\<rparr>)"

definition tryApply :: "64 word \<Rightarrow> 'z \<Rightarrow> 'z zoneGate \<Rightarrow> bool \<times> 'z zoneGate" where
  "tryApply gen z g =
    (if gen < gt_applied g then (False, g) else (True, g\<lparr>gt_applied := gen, gt_zone := z\<rparr>))"

definition maybeRebuild :: "64 word \<Rightarrow> 'z \<Rightarrow> 'z zoneGate \<Rightarrow> 'z zoneGate" where
  "maybeRebuild sig z g =
    (if gt_sig g = sig then g
     else (let (gen, g) = nextGen g; (won, g) = tryApply gen z g in
       if won then g\<lparr>gt_sig := sig\<rparr> else g))"

definition install_all :: "(64 word \<times> 'z) list \<Rightarrow> 'z zoneGate \<Rightarrow> 'z zoneGate" where
  "install_all xs g = foldl (\<lambda>g (gen, z). snd (tryApply gen z g)) g xs"

text \<open>In whatever order rebuilds finish, the zone in force is the last one that came with the
  highest stamp.\<close>

lemma zone_last_writer:
  "gt_applied (install_all xs g) = foldl max (gt_applied g) (map fst xs)
    \<and> gt_zone (install_all xs g) =
        (case rev (filter (\<lambda>x. fst x = foldl max (gt_applied g) (map fst xs)) xs) of
           [] \<Rightarrow> gt_zone g | x # _ \<Rightarrow> snd x)"
proof (induction xs rule: rev_induct)
  case (snoc x xs)
  let ?m = "foldl max (gt_applied g) (map fst xs)"
  have up: "foldl max a ys < b \<Longrightarrow> y \<in> set ys \<Longrightarrow> y < b" for a b y :: "64 word" and ys
    by (induction ys rule: rev_induct) (auto simp: max_def split: if_splits)
  have step: "install_all (xs @ [x]) g = snd (tryApply (fst x) (snd x) (install_all xs g))"
    by (cases x) (simp add: install_all_def)
  consider "fst x < ?m" | "fst x = ?m" | "?m < fst x" by (meson linorder_cases)
  then show ?case
  proof cases
    case 3
    then have "filter (\<lambda>y. fst y = fst x) xs = []"
      using up [of "gt_applied g" "map fst xs" "fst x"] unfolding filter_empty_conv
      by (metis image_eqI image_set order_less_irrefl)
    moreover have "max ?m (fst x) = fst x" "\<not> fst x < ?m" using 3 by simp_all
    ultimately show ?thesis using 3 snoc unfolding step by (simp add: tryApply_def)
  next
    case 1
    then have "max ?m (fst x) = ?m" "fst x \<noteq> ?m" by simp_all
    then show ?thesis using 1 snoc unfolding step by (simp add: tryApply_def)
  next
    case 2
    then show ?thesis using snoc unfolding step by (simp add: tryApply_def)
  qed
qed (simp add: install_all_def)

definition ex_devs :: "ScanDevice list" where
  "ex_devs = [\<lparr>sd_MAC = ''00:1F:80:01:00:01'', sd_Name = ''BPX 1'', sd_IP = ''10.0.0.9''\<rparr>,
    \<lparr>sd_MAC = ''00:1f:80:01:00:02'', sd_Name = ''bpx_1'', sd_IP = ''10.0.0.8''\<rparr>]"

definition ex_trunk_leases :: "KeaLease list" where
  "ex_trunk_leases = map (\<lambda>ip. \<lparr>al_IPAddress = ip, al_HWAddress = ''00:1f:80:01:00:01'', al_ClientID = [],
     kl_ValidLft = 3600, kl_Cltt = 1000, kl_State = 0, kl_Hostname = []\<rparr>) [''10.0.20.5'', ''10.0.0.5'']"

lemma hostname_labels_unique_witness:
  "HostnameSlugs [(''001f80010001'', ''BPX 1''), (''001f80010002'', ''bpx_1''), (''0a'', ''?'')]
    = Some [(''001f80010001'', ''bpx-1-0001''), (''001f80010002'', ''bpx-1-0002'')]
   \<and> distinct (map snd (the (HostnameSlugs [(''001f80010001'', ''BPX 1''), (''001f80010002'', ''bpx_1''), (''0a'', ''?'')])))"
proof -
  have "names_ok [(''001f80010001'', ''BPX 1''), (''001f80010002'', ''bpx_1''), (''0a'', ''?'')]" by code_simp
  moreover have "HostnameSlugs [(''001f80010001'', ''BPX 1''), (''001f80010002'', ''bpx_1''), (''0a'', ''?'')]
    = Some [(''001f80010001'', ''bpx-1-0001''), (''001f80010002'', ''bpx-1-0002'')]" by code_simp
  ultimately show ?thesis using hostname_labels_unique [of "[(''001f80010001'', ''BPX 1''), (''001f80010002'', ''bpx_1''), (''0a'', ''?'')]"] by auto
qed

lemma leased_device_resolves_witness:
  "\<exists>hosts lbl. buildDNSHosts ex_devs ex_trunk_leases [] 2000 = Some hosts
    \<and> z_a (NewZone hosts) (fqdn lbl SuffixDHCP) = Some [10, 0, 20, 5]"
proof -
  have i: "dns_input_ok ex_devs ex_trunk_leases []" by code_simp
  have d: "dns_inputs ex_devs ex_trunk_leases [] 2000 =
    ([(''001f80010001'', ''BPX 1''), (''001f80010002'', ''bpx_1'')], [(''001f80010001'', ''10.0.20.5''), (''001f80010002'', ''10.0.0.8'')])"
    by code_simp
  have a: "greatest_lease (activeLeases ex_trunk_leases 2000) (hd ex_trunk_leases)" by code_simp
  have m: "NormalizeMAC (al_HWAddress (hd ex_trunk_leases)) = ''001f80010001''" by code_simp
  have n: "slug_of [(''001f80010001'', ''BPX 1''), (''001f80010002'', ''bpx_1'')] ''001f80010001'' = ''bpx-1''" by code_simp
  have p: "To4 (ParseIP (al_IPAddress (hd ex_trunk_leases))) = [10, 0, 20, 5]" by code_simp
  show ?thesis
    using leased_device_resolves [OF i d a]
    by (simp add: m n p maxZoneNames_def) blast
qed

end
