(* ===== verification/LoginThrottle.thy ===== *)
theory LoginThrottle
  imports GoNet "HOL-Library.AList"
begin

text \<open>
  \<open>src/internal/web/loginthrottle.go\<close>: the back-off on failed logins by source address, and
  \<open>clientIP\<close>, the address a login counts against.  Times and durations are nanoseconds; the
  clock reading is an argument of each operation.  \<open>isLoopbackRemote\<close> is of \<open>auth.go\<close>.
\<close>

section \<open>The throttle\<close>

record throttleEntry =
  te_fails :: int
  te_nextAllowed :: int
  te_last :: int

type_synonym loginThrottle = "(string \<times> throttleEntry) list"

definition loginFreebies :: int where "loginFreebies = 3"
definition loginBackoffCap :: int where "loginBackoffCap = 30 * 1000000000"
definition loginEntryTTL :: int where "loginEntryTTL = 15 * 60 * 1000000000"
definition loginAuditAt :: int where "loginAuditAt = 8"

lemmas throttle_consts = loginFreebies_def loginBackoffCap_def loginEntryTTL_def

definition backoffFor :: "int \<Rightarrow> int" where
  "backoffFor fails =
    (if fails \<le> loginFreebies then 0
     else (let shift = fails - loginFreebies - 1 in
       if 31 \<le> shift then loginBackoffCap
       else (let d = i64 (1000000000 * 2 ^ nat shift) in
         if loginBackoffCap < d \<or> d \<le> 0 then loginBackoffCap else d)))"

definition allow :: "string \<Rightarrow> int \<Rightarrow> loginThrottle \<Rightarrow> bool \<times> int" where
  "allow ip now t =
    (case map_of t ip of None \<Rightarrow> (True, 0)
     | Some e \<Rightarrow> if now < te_nextAllowed e then (False, te_nextAllowed e - now) else (True, 0))"

definition prune :: "int \<Rightarrow> loginThrottle \<Rightarrow> loginThrottle" where
  "prune now t = filter (\<lambda>(ip, e). \<not> loginEntryTTL < now - te_last e) t"

definition fail :: "string \<Rightarrow> int \<Rightarrow> loginThrottle \<Rightarrow> int \<times> loginThrottle" where
  "fail ip now t =
    (let t = prune now t;
         n = (case map_of t ip of None \<Rightarrow> 0 | Some e \<Rightarrow> te_fails e) + 1 in
     (n, AList.update ip \<lparr>te_fails = n, te_nextAllowed = now + backoffFor n, te_last = now\<rparr> t))"

definition succeed :: "string \<Rightarrow> loginThrottle \<Rightarrow> loginThrottle" where
  "succeed ip t = AList.delete ip t"

section \<open>The source address\<close>

text \<open>\<open>strings.LastIndexByte\<close> and the host part of \<open>net.SplitHostPort\<close>.\<close>

definition index_of :: "char \<Rightarrow> string \<Rightarrow> nat option" where
  "index_of c s = (let n = length (takeWhile (\<lambda>x. x \<noteq> c) s) in if n < length s then Some n else None)"

definition last_index :: "char \<Rightarrow> string \<Rightarrow> nat option" where
  "last_index c s = map_option (\<lambda>k. length s - 1 - k) (index_of c (rev s))"

definition SplitHostPort :: "string \<Rightarrow> string option" where
  "SplitHostPort hp =
    (case last_index (CHR '':'') hp of None \<Rightarrow> None
     | Some i \<Rightarrow>
       if hp ! 0 = CHR ''['' then
         (case index_of (CHR '']'') hp of None \<Rightarrow> None
          | Some e \<Rightarrow>
            if e + 1 \<noteq> i then None
            else if CHR ''['' \<in> set (drop 1 hp) \<or> CHR '']'' \<in> set (drop (e + 1) hp) then None
            else Some (take (e - 1) (drop 1 hp)))
       else
         (let host = take i hp in
          if CHR '':'' \<in> set host then None
          else if CHR ''['' \<in> set hp \<or> CHR '']'' \<in> set hp then None
          else Some host))"

definition IsLoopback :: "go_ip \<Rightarrow> bool" where
  "IsLoopback ip = (if To4 ip \<noteq> [] then To4 ip ! 0 = 127 else ip = replicate 15 0 @ [1])"

definition isLoopbackRemote :: "string \<Rightarrow> bool" where
  "isLoopbackRemote remoteAddr =
    (let host = (case SplitHostPort remoteAddr of Some h \<Rightarrow> h | None \<Rightarrow> remoteAddr);
         ip = ParseIP host in
     ip \<noteq> [] \<and> IsLoopback ip)"

text \<open>\<open>xff\<close> is the first X-Forwarded-For header, empty when there is none.\<close>

definition clientIP :: "string \<Rightarrow> string \<Rightarrow> string" where
  "clientIP remoteAddr xff =
    (let hop = TrimSpace (case last_index (CHR '','') xff of Some i \<Rightarrow> drop (i + 1) xff | None \<Rightarrow> xff) in
     if isLoopbackRemote remoteAddr \<and> xff \<noteq> [] \<and> hop \<noteq> [] then hop
     else (case SplitHostPort remoteAddr of Some h \<Rightarrow> h | None \<Rightarrow> remoteAddr))"

lemma last_index_append:
  "c \<notin> set y \<Longrightarrow> last_index c (x @ c # y) = Some (length x)"
  by (simp add: last_index_def index_of_def takeWhile_append)

text \<open>Whatever a client puts in front, the address counted is the one the local proxy appended;
  and the header of a client that is not the local proxy is not read.\<close>

lemma clientIP_unspoofable:
  assumes "isLoopbackRemote peer" "CHR '','' \<notin> set real" "TrimSpace real \<noteq> []"
  shows "clientIP peer (forged @ '','' @ real) = TrimSpace real"
  using assms last_index_append [OF assms(2), of forged] by (simp add: clientIP_def Let_def)

lemma clientIP_direct: "\<not> isLoopbackRemote peer \<Longrightarrow> clientIP peer xff = clientIP peer []"
  by (simp add: clientIP_def Let_def)


section \<open>Each address is throttled on its own\<close>

datatype login = Failed string | Succeeded string

fun login_ip :: "login \<Rightarrow> string" where
  "login_ip (Failed ip) = ip"
| "login_ip (Succeeded ip) = ip"

fun login_step :: "loginThrottle \<Rightarrow> int \<times> login \<Rightarrow> loginThrottle" where
  "login_step t (now, Failed ip) = snd (fail ip now t)"
| "login_step t (now, Succeeded ip) = succeed ip t"

definition logins :: "(int \<times> login) list \<Rightarrow> loginThrottle" where
  "logins evs = foldl login_step [] evs"

definition own :: "string \<Rightarrow> (int \<times> login) list \<Rightarrow> (int \<times> login) list" where
  "own ip evs = filter (\<lambda>(_, l). login_ip l = ip) evs"

lemma backoff_bounds: "0 \<le> backoffFor n \<and> backoffFor n \<le> loginBackoffCap"
  by (auto simp: backoffFor_def Let_def loginBackoffCap_def)

lemma backoff_free: "n \<le> 3 \<Longrightarrow> backoffFor n = 0" by (simp add: backoffFor_def loginFreebies_def)

lemma map_of_prune:
  "distinct (map fst t) \<Longrightarrow> map_of (prune now t) k = (case map_of t k of Some e \<Rightarrow>
     if loginEntryTTL < now - te_last e then None else Some e | None \<Rightarrow> None)"
  using map_of_filter_value [of t "\<lambda>e. \<not> loginEntryTTL < now - te_last e" k]
  by (auto simp: prune_def split: option.splits)

lemma distinct_prune: "distinct (map fst t) \<Longrightarrow> distinct (map fst (prune now t))"
  unfolding prune_def by (induction t) auto

lemma map_of_login_step:
  assumes "distinct (map fst t)"
  shows "map_of (login_step t (now, Failed ip')) ip =
      (if ip = ip' then Some \<lparr>te_fails = fst (fail ip now t), te_nextAllowed = now + backoffFor (fst (fail ip now t)), te_last = now\<rparr>
       else map_of (prune now t) ip)"
    and "map_of (login_step t (now, Succeeded ip')) ip = (if ip = ip' then None else map_of t ip)"
  using assms by (simp_all add: fail_def succeed_def Let_def update_conv' delete_conv')

lemma distinct_login_step: "distinct (map fst t) \<Longrightarrow> distinct (map fst (login_step t ev))"
  by (cases "(t, ev)" rule: login_step.cases)
    (simp_all add: fail_def succeed_def Let_def distinct_update distinct_prune distinct_delete)

lemma distinct_logins: "distinct (map fst (logins evs))"
  by (induction evs rule: rev_induct) (simp_all add: logins_def distinct_login_step)

text \<open>What the other addresses' events can do to the entry of \<open>ip\<close>: drop it once it is
  older than the TTL, when its own next failure would drop it too.\<close>

definition same_entry :: "int \<Rightarrow> throttleEntry option \<Rightarrow> throttleEntry option \<Rightarrow> bool" where
  "same_entry T e f \<longleftrightarrow> (e = f \<or> e = None \<and> (case f of None \<Rightarrow> True | Some x \<Rightarrow> loginEntryTTL < T - te_last x))
    \<and> (case f of None \<Rightarrow> True | Some x \<Rightarrow> te_last x \<le> T \<and> te_nextAllowed x \<le> te_last x + loginBackoffCap)"

lemma same_entry_later: "same_entry T e f \<Longrightarrow> T \<le> T' \<Longrightarrow> same_entry T' e f"
  by (auto simp: same_entry_def split: option.splits)

lemma same_entry_fail:
  assumes "same_entry now (map_of t ip) (map_of u ip)" "distinct (map fst t)" "distinct (map fst u)"
  shows "fst (fail ip now t) = fst (fail ip now u)"
proof -
  have "map_of (prune now t) ip = map_of (prune now u) ip"
    unfolding map_of_prune [OF assms(2)] map_of_prune [OF assms(3)]
    using assms(1) by (auto simp: same_entry_def simp del: map_of_eq_Some_iff split: option.splits)
  then show ?thesis by (simp add: fail_def Let_def)
qed

lemma same_entry_allow:
  assumes "same_entry now (map_of t ip) (map_of u ip)"
  shows "allow ip now t = allow ip now u"
  using assms by (auto simp: same_entry_def allow_def loginEntryTTL_def loginBackoffCap_def split: option.splits)

lemma same_entry_step:
  assumes "same_entry T (map_of t ip) (map_of u ip)" "T \<le> now" "distinct (map fst t)" "distinct (map fst u)"
  shows "same_entry now (map_of (login_step t (now, l)) ip)
     (map_of (if login_ip l = ip then login_step u (now, l) else u) ip)"
proof -
  have later: "same_entry now (map_of t ip) (map_of u ip)" using same_entry_later assms(1,2) .
  show ?thesis
  proof (cases l)
    case (Failed ip')
    show ?thesis
    proof (cases "ip' = ip")
      case True
      then show ?thesis
        using same_entry_fail [OF later assms(3,4)] backoff_bounds Failed
          map_of_login_step(1) [OF assms(3), of now ip ip] map_of_login_step(1) [OF assms(4), of now ip ip]
        by (simp add: same_entry_def del: login_step.simps)
    next
      case False
      then show ?thesis
        using later Failed map_of_login_step(1) [OF assms(3), of now ip' ip] map_of_prune [OF assms(3), of now ip]
        by (auto simp: same_entry_def simp del: login_step.simps split: option.splits)
    qed
  next
    case (Succeeded ip')
    then show ?thesis
      using later map_of_login_step(2) [OF assms(3), of now ip' ip] map_of_login_step(2) [OF assms(4), of now ip' ip]
      by (auto simp: same_entry_def simp del: login_step.simps)
  qed
qed

lemma logins_same_entry:
  "sorted (map fst evs) \<Longrightarrow> \<forall>e \<in> set evs. fst e \<le> now
    \<Longrightarrow> same_entry now (map_of (logins evs) ip) (map_of (logins (own ip evs)) ip)"
proof (induction evs arbitrary: now rule: rev_induct)
  case Nil
  then show ?case by (simp add: logins_def own_def same_entry_def)
next
  case (snoc e evs)
  obtain T l where e: "e = (T, l)" by fastforce
  have "same_entry T (map_of (logins evs) ip) (map_of (logins (own ip evs)) ip)"
    using snoc e by (simp add: sorted_append)
  from same_entry_step [OF this order_refl distinct_logins distinct_logins, of l]
  have "same_entry T (map_of (logins (evs @ [e])) ip) (map_of (logins (own ip (evs @ [e]))) ip)"
    by (simp add: e logins_def own_def del: login_step.simps split: if_splits)
  then show ?case using same_entry_later snoc.prems(2) e by simp
qed

text \<open>The specification, without a table: the failures of an address in a row, newest first, none
  of them more than 15 minutes after the one before, and the wait they deserve.\<close>

fun run_of :: "(int \<times> login) list \<Rightarrow> nat" where
  "run_of [] = 0"
| "run_of ((t, Succeeded ip) # es) = 0"
| "run_of ((t, Failed ip) # es) = Suc (case es of [] \<Rightarrow> 0
     | (t', _) # _ \<Rightarrow> if 15 * 60 * 1000000000 < t - t' then 0 else run_of es)"

definition wait_of :: "nat \<Rightarrow> int" where
  "wait_of k = (if k \<le> 3 then 0 else min 30 (2 ^ (k - 4)) * 1000000000)"

lemma backoff_wait: "backoffFor (int k) = wait_of k"
proof -
  consider "k \<le> 3" | "4 \<le> k" "k < 35" | "35 \<le> k" by linarith
  then show ?thesis
  proof cases
    case 2
    define j where "j = k - 4"
    have j: "k = j + 4" "j < 31" using 2 by (simp_all add: j_def)
    have p: "(2::int) ^ j \<le> 2 ^ 30" "(0::int) < 2 ^ j"
      using j(2) power_increasing [of j 30 "2::int"] by simp_all
    have "in_i64 (1000000000 * 2 ^ j)" unfolding in_i64_def 
    proof
      show "- 9223372036854775808 \<le> 1000000000 * (2::int) ^ j" using p(2) by linarith
      show "1000000000 * (2::int) ^ j < 9223372036854775808" using p(1) by simp
    qed
    then have i: "i64 (1000000000 * 2 ^ j) = 1000000000 * 2 ^ j" by (rule i64_id)
    have "nat (int k - loginFreebies - 1) = j" "\<not> int k \<le> loginFreebies" "\<not> 31 \<le> int k - loginFreebies - 1"
      using j by (simp_all add: loginFreebies_def)
    then have "backoffFor (int k) = (if loginBackoffCap < 1000000000 * 2 ^ j \<or> 1000000000 * 2 ^ j \<le> (0::int)
        then loginBackoffCap else 1000000000 * 2 ^ j)"
      unfolding backoffFor_def Let_def by (simp only: i if_False)
    then show ?thesis using p(2) j(1) by (simp add: wait_of_def loginBackoffCap_def min_def)
  next
    case 3
    have "(2::int) ^ 31 \<le> 2 ^ (k - 4)" using 3 by (intro power_increasing) simp_all
    then show ?thesis using 3 by (simp add: backoffFor_def wait_of_def throttle_consts Let_def min_def)
  qed (simp add: backoffFor_def wait_of_def throttle_consts)
qed

text \<open>The table agrees with it.\<close>

definition own_entry :: "(int \<times> login) list \<Rightarrow> throttleEntry option" where
  "own_entry es = (case es of (t, Failed ip) # _ \<Rightarrow>
       Some \<lparr>te_fails = int (run_of es), te_nextAllowed = t + wait_of (run_of es), te_last = t\<rparr>
     | _ \<Rightarrow> None)"

lemma fails_run:
  assumes "distinct (map fst t)" "map_of t ip = own_entry es"
  shows "fst (fail ip now t) = int (run_of ((now, Failed ip') # es))"
  using map_of_prune [OF assms(1), of now ip] assms(2)
  by (cases es rule: run_of.cases) (auto simp: fail_def own_entry_def loginEntryTTL_def Let_def)

lemma own_entry_exact: "map_of (logins (own ip evs)) ip = own_entry (rev (own ip evs))"
proof (induction evs rule: rev_induct)
  case Nil
  then show ?case by (simp add: logins_def own_def own_entry_def)
next
  case (snoc e evs)
  obtain T l where e: "e = (T, l)" by fastforce
  show ?case
  proof (cases "login_ip l = ip")
    case False
    then show ?thesis using snoc e by (simp add: own_def)
  next
    case True
    then have o: "logins (own ip (evs @ [e])) = login_step (logins (own ip evs)) (T, l)" and
      r: "rev (own ip (evs @ [e])) = (T, l) # rev (own ip evs)"
      using e by (simp_all add: own_def logins_def del: login_step.simps)
    show ?thesis
    proof (cases l)
      case (Succeeded ip')
      then show ?thesis
        using True o r map_of_login_step(2) [OF distinct_logins, of "own ip evs" T ip' ip] by (simp add: own_entry_def)
    next
      case (Failed ip')
      then have [simp]: "ip' = ip" using True by simp
      show ?thesis
        using fails_run [OF distinct_logins snoc, of T ip] Failed o r backoff_wait
          map_of_login_step(1) [OF distinct_logins, of "own ip evs" T ip ip]
        by (simp add: own_entry_def del: login_step.simps run_of.simps)
    qed
  qed
qed

text \<open>C38: The login throttle slows an attacker and never locks anybody out: whatever other addresses
  do, a source address with k failures in a row (none more than 15 minutes after the one before, no
  success in between) is refused until 2 ^ (k - 4) seconds, at most 30, have passed since the last of
  them when k is greater than 3, and is told how long that still is; otherwise, and after that, it is let
  in. Its failure count is that k, so the wait doubles from one second at the fourth failure.\<close>

theorem throttle_per_ip:
  assumes "sorted (map fst evs)" "\<forall>e \<in> set evs. fst e \<le> now"
  shows "allow ip now (logins evs) =
      (let es = rev (own ip evs); k = run_of es in
       if k \<le> 3 then (True, 0)
       else (let until = fst (hd es) + min 30 (2 ^ (k - 4)) * 1000000000 in
         if now < until then (False, until - now) else (True, 0)))
    \<and> fst (fail ip now (logins evs)) = int (run_of ((now, Failed ip) # rev (own ip evs)))
    \<and> snd (allow ip now (logins evs)) \<le> 30 * 1000000000"
proof -
  note s = logins_same_entry [OF assms, of ip]
  note o = own_entry_exact [of ip evs]
  have a: "allow ip now (logins evs) = allow ip now (logins (own ip evs))"
    using same_entry_allow [OF s] .
  have "fst (fail ip now (logins evs)) = fst (fail ip now (logins (own ip evs)))"
    using same_entry_fail [OF s distinct_logins distinct_logins] .
  then have f: "fst (fail ip now (logins evs)) = int (run_of ((now, Failed ip) # rev (own ip evs)))"
    using fails_run [OF distinct_logins o] by simp
  have l: "snd (allow ip now (logins (own ip evs))) \<le> 30 * 1000000000"
    using s by (auto simp: allow_def same_entry_def loginBackoffCap_def split: option.splits)
  have past: "fst (hd (rev (own ip evs))) \<le> now" if "own ip evs \<noteq> []"
    using assms(2) that last_in_set [OF that] by (auto simp: hd_rev own_def)
  have "allow ip now (logins (own ip evs)) =
      (let es = rev (own ip evs); k = run_of es in
       if k \<le> 3 then (True, 0)
       else (let until = fst (hd es) + min 30 (2 ^ (k - 4)) * 1000000000 in
         if now < until then (False, until - now) else (True, 0)))"
    using o past by (cases "rev (own ip evs)" rule: run_of.cases)
      (auto simp: allow_def own_entry_def wait_of_def Let_def simp del: run_of.simps(3))
  then show ?thesis using a f l by simp
qed

definition ex_logins :: "(int \<times> login) list" where
  "ex_logins = [(1, Failed ''a''), (2, Failed ''b''), (3, Failed ''a''), (4, Failed ''a''), (5, Failed ''a''), (6, Succeeded ''b'')]"

lemma throttle_per_ip_witness:
  "allow ''a'' 7 (logins ex_logins) = (False, 999999998) \<and> allow ''b'' 7 (logins ex_logins) = (True, 0)
    \<and> fst (fail ''a'' 7 (logins ex_logins)) = 5"
proof -
  have e: "sorted (map fst ex_logins)" "list_all (\<lambda>e. fst e \<le> 7) ex_logins"
    "rev (own ''a'' ex_logins) = [(5, Failed ''a''), (4, Failed ''a''), (3, Failed ''a''), (1, Failed ''a'')]"
    "rev (own ''b'' ex_logins) = [(6, Succeeded ''b''), (2, Failed ''b'')]"
    by code_simp+
  show ?thesis
    using throttle_per_ip [of ex_logins 7 "''a''"] throttle_per_ip [of ex_logins 7 "''b''"] e by (simp add: list_all_iff)
qed

end
