(* ===== verification/WebGate.thy ===== *)
theory WebGate
  imports Appliance LoginThrottle
begin

text \<open>
  \<open>src/internal/web/middleware.go\<close>, \<open>auth.go\<close>, \<open>account.go\<close>, the routes of
  \<open>routes.go\<close> and \<open>handleFactorySetup\<close> of \<open>wizard.go\<close>: who reaches which handler,
  the life of a session, and the operations on accounts.  Two functions of the Go library are
  arguments of the model and every theorem holds for all of them: \<open>kdf\<close>, the key derivation
  PBKDF2 (password, salt, iterations, length), and \<open>url\<close>, the scheme and host that
  \<open>url.Parse\<close> reads, None for an error.  Random tokens, the clock and the outcome of each
  statement are arguments too; SQLite's \<open>datetime\<close> has whole seconds.
\<close>

section \<open>The store\<close>

record Session =
  sn_id :: string
  sn_user :: string
  sn_csrf :: "string option"
  sn_created :: "int option"
  sn_expires :: int

record WebDB =
  wd_users :: "(string \<times> string) list"
  wd_sessions :: "Session list"
  wd_state :: string
  wd_audit :: "(string \<times> string \<times> string) list"
  wd_throttle :: loginThrottle

definition LogAudit :: "string \<Rightarrow> string \<Rightarrow> string \<Rightarrow> WebDB \<Rightarrow> WebDB" where
  "LogAudit actor action result d = d\<lparr>wd_audit := wd_audit d @ [(actor, action, result)]\<rparr>"

section \<open>Passwords\<close>

type_synonym kdf = "string \<Rightarrow> string \<Rightarrow> int \<Rightarrow> nat \<Rightarrow> string option"

definition pbkdf2Iter :: int where "pbkdf2Iter = 600000"
definition pbkdf2SaltLen :: nat where "pbkdf2SaltLen = 16"

definition hex_encode :: "string \<Rightarrow> string" where
  "hex_encode b = concat (map hex2 b)"

definition dummyPasswordHash :: string where
  "dummyPasswordHash = ''pbkdf2$'' @ Itoa pbkdf2Iter @ ''$'' @ replicate 32 (CHR ''0'') @ ''$'' @ replicate 64 (CHR ''0'')"

definition hashPassword :: "kdf \<Rightarrow> string \<Rightarrow> string \<Rightarrow> string option" where
  "hashPassword kdf salt pw = map_option
     (\<lambda>dk. ''pbkdf2$'' @ Itoa pbkdf2Iter @ ''$'' @ hex_encode salt @ ''$'' @ hex_encode dk)
     (kdf pw salt pbkdf2Iter 32)"

definition verifyPassword :: "kdf \<Rightarrow> string \<Rightarrow> string \<Rightarrow> bool" where
  "verifyPassword kdf stored pw =
    (case split_on (CHR ''$'') stored of
       [scheme, it, salt, want] \<Rightarrow>
         if scheme \<noteq> ''pbkdf2'' then False
         else (case Atoi it of None \<Rightarrow> False
          | Some iter \<Rightarrow>
            if iter \<le> 0 \<or> pbkdf2Iter * 4 < iter then False
            else if length salt \<noteq> 2 * pbkdf2SaltLen \<or> length want \<noteq> 2 * 32 then False
            else (case (hex_decode salt, hex_decode want) of
               (Some salt, Some want) \<Rightarrow> kdf pw salt iter (length want) = Some want
             | _ \<Rightarrow> False))
     | _ \<Rightarrow> False)"

section \<open>Sessions\<close>

definition secs :: "int \<Rightarrow> int" where "secs now = now div 1000000000"

definition session_live :: "int \<Rightarrow> Session \<Rightarrow> bool" where
  "session_live now s \<longleftrightarrow> secs now < sn_expires s
     \<and> (case sn_created s of None \<Rightarrow> False | Some c \<Rightarrow> secs now - 12 * 3600 < c)"

text \<open>\<open>readOK\<close>: the query returned.  The result is the user, the CSRF token and the expiry.\<close>

definition sessionUser :: "bool \<Rightarrow> int \<Rightarrow> string \<Rightarrow> WebDB \<Rightarrow> (string \<times> string \<times> int) option" where
  "sessionUser readOK now sid d =
    (if \<not> readOK then None
     else (case find (\<lambda>s. sn_id s = sid \<and> session_live now s) (wd_sessions d) of None \<Rightarrow> None
      | Some s \<Rightarrow> if sn_user s = [] then None
          else Some (sn_user s, (case sn_csrf s of Some t \<Rightarrow> t | None \<Rightarrow> []), sn_expires s)))"

definition createSession :: "bool \<Rightarrow> string \<Rightarrow> string \<Rightarrow> int \<Rightarrow> string \<Rightarrow> WebDB \<Rightarrow> WebDB option" where
  "createSession writeOK sid csrf now username d =
    (if writeOK then Some (d\<lparr>wd_sessions := wd_sessions d @
       [\<lparr>sn_id = sid, sn_user = username, sn_csrf = Some csrf, sn_created = Some (secs now), sn_expires = secs now + 3600\<rparr>]\<rparr>)
     else None)"

text \<open>The sliding of the idle window in \<open>lifecycleMiddleware\<close>: the check in the process, then
  the guarded UPDATE.\<close>

definition slide :: "bool \<Rightarrow> int \<Rightarrow> string \<Rightarrow> int \<Rightarrow> WebDB \<Rightarrow> WebDB" where
  "slide writeOK now sid expiresAt d =
    (if expiresAt * 1000000000 - now < 50 * 60 * 1000000000 \<and> writeOK
     then d\<lparr>wd_sessions := map (\<lambda>s. if sn_id s = sid \<and> sn_expires s < secs now + 50 * 60
         then s\<lparr>sn_expires := secs now + 3600\<rparr> else s) (wd_sessions d)\<rparr>
     else d)"

definition swept :: "int \<Rightarrow> Session \<Rightarrow> bool" where
  "swept now s \<longleftrightarrow> sn_expires s \<le> secs now
     \<or> (case sn_created s of None \<Rightarrow> True | Some c \<Rightarrow> c \<le> secs now - 12 * 3600)"

definition sweepSessions :: "bool \<Rightarrow> int \<Rightarrow> WebDB \<Rightarrow> WebDB" where
  "sweepSessions writeOK now d = (if writeOK then d\<lparr>wd_sessions := filter (\<lambda>s. \<not> swept now s) (wd_sessions d)\<rparr> else d)"

section \<open>Requests\<close>

text \<open>\<open>rq_escaped\<close> is \<open>r.URL.EscapedPath()\<close>, which decodes to \<open>r.URL.Path\<close>;
  an absent header, cookie or form field is empty.\<close>

record Request =
  rq_method :: string
  rq_escaped :: string
  rq_host :: string
  rq_origin :: string
  rq_referer :: string
  rq_cookie :: string
  rq_csrf_header :: string
  rq_form :: "(string \<times> string) list"
  rq_too_large :: bool
  rq_remote :: string
  rq_xff :: string

definition FormValue :: "Request \<Rightarrow> string \<Rightarrow> string" where
  "FormValue r k = (case map_of (rq_form r) k of Some v \<Rightarrow> v | None \<Rightarrow> [])"

fun pct_decode :: "string \<Rightarrow> string option" where
  "pct_decode [] = Some []"
| "pct_decode (c # s) =
    (if c = CHR ''%'' then
       (case s of a # b # r \<Rightarrow>
          if is_hex a \<and> is_hex b then map_option ((#) (char_of (hex_val a * 16 + hex_val b))) (pct_decode r) else None
        | _ \<Rightarrow> None)
     else map_option ((#) c) (pct_decode s))"

definition rq_path :: "Request \<Rightarrow> string" where
  "rq_path r = (case pct_decode (rq_escaped r) of Some p \<Rightarrow> p | None \<Rightarrow> [])"

definition isUnsafeMethod :: "string \<Rightarrow> bool" where
  "isUnsafeMethod m \<longleftrightarrow> m = ''POST'' \<or> m = ''PUT'' \<or> m = ''PATCH'' \<or> m = ''DELETE''"

type_synonym url_parser = "string \<Rightarrow> (string \<times> string) option"

definition sameOriginRequest :: "url_parser \<Rightarrow> Request \<Rightarrow> bool" where
  "sameOriginRequest url r =
    (if \<not> isUnsafeMethod (rq_method r) then True
     else (let origin = (if rq_origin r = [] \<and> rq_referer r \<noteq> [] then
                (case url (rq_referer r) of Some (scheme, host) \<Rightarrow> scheme @ ''://'' @ host | None \<Rightarrow> rq_origin r)
              else rq_origin r) in
       if origin = [] then False
       else (case url origin of None \<Rightarrow> False | Some (_, host) \<Rightarrow> host = rq_host r)))"

definition stateRedirectFor :: "string \<Rightarrow> string \<Rightarrow> string" where
  "stateRedirectFor state path =
    (if state = StateConfiguring then
       (if path = ''/setup'' \<or> path = ''/setup/apply'' \<or> has_prefix path ''/factory'' then ''/dashboard'' else [])
     else if state = StateActive then
       (if has_prefix path ''/factory'' then ''/dashboard'' else [])
     else if state = StateFactory then []
     else if path \<in> {''/setup'', ''/setup/apply'', ''/setup/pools/edit'', ''/settings'', ''/settings/save'',
         ''/settings/backup'', ''/settings/restore'', ''/logout'', ''/wifi/scan'', ''/sse/live''} then []
     else ''/setup'')"

text \<open>\<open>sqlite.GetState\<close> of the lifecycle state, with its error dropped as every caller here drops
  it: a failed read and a missing row both give the empty string.\<close>

definition GetLifecycle :: "bool \<Rightarrow> WebDB \<Rightarrow> string" where
  "GetLifecycle readOK d = (if readOK then wd_state d else [])"

definition postAuthRedirect :: "bool \<Rightarrow> WebDB \<Rightarrow> string" where
  "postAuthRedirect stateOK d = (if GetLifecycle stateOK d = StateOnboarding then ''/setup'' else ''/dashboard'')"

section \<open>The middleware\<close>

datatype response = Redirect string | Reject int | Handler string | NotAllowed | Cleaned

text \<open>\<open>Next\<close> hands the request to the mux.\<close>

datatype gate = Stop response | Next

definition csrf_ok :: "Request \<Rightarrow> string \<Rightarrow> bool" where
  "csrf_ok r token = (let provided = (if rq_csrf_header r = [] then FormValue r ''csrf_token'' else rq_csrf_header r) in
     token \<noteq> [] \<and> provided = token)"

text \<open>The outcomes of the statements of the middleware, in their order: the lifecycle state, the
  session, the sliding of its window, and the state again for the landing page.\<close>

record GateEnv =
  ge_state :: bool
  ge_session :: bool
  ge_slide :: bool
  ge_landing :: bool

definition lifecycleMiddleware :: "url_parser \<Rightarrow> GateEnv \<Rightarrow> int \<Rightarrow> Request \<Rightarrow> WebDB \<Rightarrow> gate \<times> WebDB" where
  "lifecycleMiddleware url G now r d =
    (let path = rq_path r in
     if has_prefix path ''/static/'' \<or> path = ''/api/state'' then (Next, d)
     else
       (let state = GetLifecycle (ge_state G) d; state = (if state = [] then StateFactory else state) in
        if state = StateFactory then
          (if path \<noteq> ''/factory'' \<and> path \<noteq> ''/factory/setup'' \<and> path \<noteq> ''/factory/restore''
           then (Stop (Redirect ''/factory''), d)
           else if \<not> sameOriginRequest url r then (Stop (Reject 403), d)
           else (Next, d))
        else
          (case (if rq_cookie r = [] then None else sessionUser (ge_session G) now (rq_cookie r) d) of
             None \<Rightarrow> if path \<noteq> ''/login'' then (Stop (Redirect ''/login''), d) else (Next, d)
           | Some (user, token, expiresAt) \<Rightarrow>
               (let d = slide (ge_slide G) now (rq_cookie r) expiresAt d in
                if isUnsafeMethod (rq_method r) \<and> rq_csrf_header r = [] \<and> rq_too_large r then (Stop (Reject 413), d)
                else if isUnsafeMethod (rq_method r) \<and> \<not> csrf_ok r token then (Stop (Reject 403), d)
                else if path = ''/login'' \<or> path = ''/factory''
                then (Stop (Redirect (postAuthRedirect (ge_landing G) d)), d)
                else if stateRedirectFor state path \<noteq> [] then (Stop (Redirect (stateRedirectFor state path)), d)
                else (Next, d)))))"

section \<open>The routes\<close>

definition routes :: "(string \<times> string \<times> string) list" where
  "routes = [
    (''GET'', ''/sse/live'', ''handleSSELive''), (''GET'', ''/api/state'', ''handleAPIState''),
    (''GET'', ''/login'', ''handleLogin''), (''POST'', ''/login'', ''handleLoginSubmit''),
    (''POST'', ''/logout'', ''handleLogout''), (''POST'', ''/account/save'', ''handleAccountSave''),
    (''GET'', ''/factory'', ''handleFactory''), (''POST'', ''/factory/setup'', ''handleFactorySetup''),
    (''GET'', ''/setup'', ''handleSetup''), (''POST'', ''/setup/pools/edit'', ''handleWizardPoolEdit''),
    (''POST'', ''/setup/apply'', ''handleSetupApply''), (''GET'', ''/wifi/scan'', ''handleWifiScan''),
    (''GET'', ''/dashboard'', ''handleDashboard''), (''POST'', ''/profile/activate'', ''handleProfileActivate''),
    (''POST'', ''/profile/delete'', ''handleProfileDelete''), (''GET'', ''/pools'', ''handlePools''),
    (''POST'', ''/pools/edit'', ''handlePoolsPlanOp''), (''POST'', ''/pools/save'', ''handlePoolsPlanSave''),
    (''GET'', ''/leases'', ''handleLeases''), (''POST'', ''/reservations/import'', ''handleReservationImport''),
    (''GET'', ''/leases/search'', ''handleLeasesSearch''), (''DELETE'', ''/leases/release'', ''handleLeaseRelease''),
    (''POST'', ''/reservations/add'', ''handleReservationAdd''), (''POST'', ''/reservations/delete'', ''handleReservationDelete''),
    (''GET'', ''/pinning'', ''handlePinning''), (''POST'', ''/pinning/pin'', ''handlePin''),
    (''POST'', ''/pinning/unpin'', ''handleUnpin''), (''POST'', ''/pinning/label'', ''handleLabel''),
    (''POST'', ''/device/reboot'', ''handleDeviceReboot''), (''GET'', ''/audit'', ''handleAudit''),
    (''GET'', ''/diagnostics'', ''handleDiagnostics''), (''GET'', ''/settings'', ''handleSettings''),
    (''POST'', ''/settings/save'', ''handleSettingsSave''), (''POST'', ''/settings/backup'', ''handleBackupExport''),
    (''POST'', ''/settings/restore'', ''handleSettingsRestore''), (''POST'', ''/factory/restore'', ''handleFactoryRestore''),
    (''GET'', ''/reset'', ''handleReset''), (''POST'', ''/reset/routine'', ''handleResetRoutine''),
    (''POST'', ''/reset/factory'', ''handleResetFactory''), (''POST'', ''/rogue/standdown'', ''handleStandDown''),
    (''POST'', ''/rogue/resume'', ''handleResumeDHCP''), (''POST'', ''/system/reboot'', ''handleSystemReboot''),
    (''POST'', ''/system/poweroff'', ''handleSystemPowerOff''), (''POST'', ''/update/check'', ''handleUpdateCheck''),
    (''POST'', ''/update/install'', ''handleUpdateInstall'')]"

text \<open>The mux of the Go library on the escaped path: a path with a dot or empty segment is redirected
  to its clean form; otherwise each segment is decoded and compared with the pattern's.  A GET
  pattern also serves HEAD; \<open>GET /static/{file...}\<close> and \<open>GET /\<close> take the rest.\<close>

definition segments :: "string \<Rightarrow> string list" where
  "segments p = split_on (CHR ''/'') (drop 1 p)"

definition clean_path :: "string \<Rightarrow> bool" where
  "clean_path p \<longleftrightarrow> p \<noteq> [] \<and> hd p = CHR ''/''
     \<and> list_all (\<lambda>s. s \<noteq> ''.'' \<and> s \<noteq> ''..'') (segments p) \<and> list_all (\<lambda>s. s \<noteq> []) (butlast (segments p))"

definition serves :: "string \<Rightarrow> string \<Rightarrow> bool" where
  "serves pat m \<longleftrightarrow> m = pat \<or> pat = ''GET'' \<and> m = ''HEAD''"

definition mux :: "Request \<Rightarrow> response" where
  "mux r =
    (let segs = map pct_decode (segments (rq_escaped r)) in
     if rq_method r \<noteq> ''CONNECT'' \<and> \<not> clean_path (rq_escaped r) then Cleaned
     else (case find (\<lambda>(pat, p, h). serves pat (rq_method r) \<and> segs = map Some (segments p)) routes of
         Some (_, _, h) \<Rightarrow> Handler h
       | None \<Rightarrow>
           if \<not> serves ''GET'' (rq_method r) then NotAllowed
           else if 1 < length segs \<and> hd segs = Some ''static'' then Handler ''handleStatic''
           else Handler ''handleRoot''))"

definition serve_web :: "url_parser \<Rightarrow> GateEnv \<Rightarrow> int \<Rightarrow> Request \<Rightarrow> WebDB \<Rightarrow> response \<times> WebDB" where
  "serve_web url G now r d =
    (case lifecycleMiddleware url G now r d of
       (Stop resp, d) \<Rightarrow> (resp, d) | (Next, d) \<Rightarrow> (mux r, d))"


section \<open>Log in, log out, accounts, the first administrator\<close>

datatype login_result = Throttled int | LoginFailed string | LoggedIn string

definition countdown :: "int \<Rightarrow> int" where
  "countdown retry = (let secs = go_div retry 1000000000;
     secs = (if retry mod 1000000000 \<noteq> 0 then secs + 1 else secs) in if secs < 1 then 1 else secs)"

text \<open>\<open>sid\<close> and \<open>csrf\<close> are the random tokens.\<close>

definition handleLoginSubmit :: "kdf \<Rightarrow> bool \<Rightarrow> bool \<Rightarrow> bool \<Rightarrow> string \<Rightarrow> string \<Rightarrow> int \<Rightarrow> Request \<Rightarrow> WebDB \<Rightarrow> login_result \<times> WebDB" where
  "handleLoginSubmit kdf readOK writeOK stateOK sid csrf now r d =
    (let ip = clientIP (rq_remote r) (rq_xff r); (ok, retry) = allow ip now (wd_throttle d) in
     if \<not> ok then (Throttled (countdown retry), d)
     else
       (let username = TrimSpace (FormValue r ''username''); password = FormValue r ''password'';
            stored = (case (if readOK then map_of (wd_users d) username else None) of
              Some h \<Rightarrow> h | None \<Rightarrow> dummyPasswordHash) in
        if \<not> verifyPassword kdf stored password then
          (let (n, t) = fail ip now (wd_throttle d); d = d\<lparr>wd_throttle := t\<rparr>;
               d = (if n = loginAuditAt then LogAudit username ''LOGIN_THROTTLE'' ''FAILURE'' d else d) in
           (LoginFailed ''Invalid username or password'', d))
        else
          (let d = d\<lparr>wd_throttle := succeed ip (wd_throttle d)\<rparr> in
           case createSession writeOK sid csrf now username d of
             None \<Rightarrow> (LoginFailed ''Internal server error'', d)
           | Some d \<Rightarrow> (let d = LogAudit username ''LOGIN'' ''SUCCESS'' d in (LoggedIn (postAuthRedirect stateOK d), d)))))"

definition sessionInfo :: "bool \<Rightarrow> int \<Rightarrow> Request \<Rightarrow> WebDB \<Rightarrow> string option" where
  "sessionInfo readOK now r d =
    (if rq_cookie r = [] then None else map_option fst (sessionUser readOK now (rq_cookie r) d))"

definition getActor :: "bool \<Rightarrow> int \<Rightarrow> Request \<Rightarrow> WebDB \<Rightarrow> string" where
  "getActor readOK now r d = (case sessionInfo readOK now r d of Some u \<Rightarrow> u | None \<Rightarrow> ''admin'')"

definition handleLogout :: "bool \<Rightarrow> bool \<Rightarrow> int \<Rightarrow> Request \<Rightarrow> WebDB \<Rightarrow> WebDB" where
  "handleLogout readOK writeOK now r d =
    (let d = (case sessionInfo readOK now r d of Some u \<Rightarrow> LogAudit u ''LOGOUT'' ''SUCCESS'' d | None \<Rightarrow> d) in
     if rq_cookie r \<noteq> [] \<and> writeOK
     then d\<lparr>wd_sessions := filter (\<lambda>s. sn_id s \<noteq> rq_cookie r) (wd_sessions d)\<rparr> else d)"

text \<open>The outcomes of the statements of \<open>handleAccountSave\<close>, in their order.  The session is read
  twice, by \<open>handleAccountSave\<close> and again by \<open>reauthCurrentPassword\<close>, each with a clock reading of
  its own; either read can fail, and then the actor is taken to be ''admin''.\<close>

record AccountEnv =
  ae_actor :: bool
  ae_actor2 :: bool
  ae_reauth :: bool
  ae_count :: bool
  ae_password :: bool
  ae_revoke :: bool
  ae_rename :: bool
  ae_sessions :: bool

definition reauthCurrentPassword :: "kdf \<Rightarrow> bool \<Rightarrow> bool \<Rightarrow> int \<Rightarrow> Request \<Rightarrow> WebDB \<Rightarrow> string" where
  "reauthCurrentPassword kdf sessionOK readOK now r d =
    (let actor = getActor sessionOK now r d in
     if actor = [] then ''Not signed in''
     else (case (if readOK then map_of (wd_users d) actor else None) of
         None \<Rightarrow> ''Could not load current credentials''
       | Some stored \<Rightarrow> if \<not> verifyPassword kdf stored (FormValue r ''current_password'')
           then ''Current password is incorrect'' else []))"

definition save_password :: "AccountEnv \<Rightarrow> string \<Rightarrow> string \<Rightarrow> Request \<Rightarrow> WebDB \<Rightarrow> string \<times> WebDB" where
  "save_password E actor hashed r d =
    (if hashed = [] then ([], d)
     else if \<not> ae_password E then (''Failed to update password'', d)
     else
       (let d = d\<lparr>wd_users := map (\<lambda>(u, h). (u, if u = actor then hashed else h)) (wd_users d)\<rparr>;
            d = (if rq_cookie r \<noteq> [] \<and> ae_revoke E
                 then d\<lparr>wd_sessions := filter (\<lambda>s. \<not> (sn_user s = actor \<and> sn_id s \<noteq> rq_cookie r)) (wd_sessions d)\<rparr>
                 else d) in
        ([], LogAudit actor ''CHANGE_PASSWORD'' ''SUCCESS'' d)))"

definition save_username :: "AccountEnv \<Rightarrow> string \<Rightarrow> string \<Rightarrow> WebDB \<Rightarrow> string \<times> WebDB" where
  "save_username E actor new d =
    (if \<not> ae_rename E \<or> new \<in> fst ` set (wd_users d) then (''Failed to rename administrator'', d)
     else
       (let d = d\<lparr>wd_users := map (\<lambda>(u, h). (if u = actor then new else u, h)) (wd_users d)\<rparr>;
            d = (if ae_sessions E
                 then d\<lparr>wd_sessions := map (\<lambda>s. if sn_user s = actor then s\<lparr>sn_user := new\<rparr> else s) (wd_sessions d)\<rparr>
                 else d) in
        ([], LogAudit new ''CHANGE_USERNAME'' ''SUCCESS'' d)))"

text \<open>The checks, up to the last that can refuse: an error (empty when there is nothing to change),
  or the new hash (empty when the password stays).\<close>

definition account_checks :: "kdf \<Rightarrow> AccountEnv \<Rightarrow> string \<Rightarrow> int \<Rightarrow> string \<Rightarrow> bool \<Rightarrow> Request \<Rightarrow> WebDB \<Rightarrow> string + string" where
  "account_checks kdf E salt now2 new changed r d =
    (let pw = FormValue r ''new_password''; denied = reauthCurrentPassword kdf (ae_actor2 E) (ae_reauth E) now2 r d in
     if changed \<and> (length new < 3 \<or> 32 < length new \<or> CHR '' '' \<in> set new \<or> CHR 0x09 \<in> set new)
     then Inl ''Username must be 3-32 characters with no spaces''
     else if pw \<noteq> [] \<and> pw \<noteq> FormValue r ''confirm_password'' then Inl ''New passwords do not match''
     else if pw \<noteq> [] \<and> length pw < 12 then Inl ''New password must be at least 12 characters long''
     else
       (case (if pw = [] then Some [] else hashPassword kdf salt pw) of
          None \<Rightarrow> Inl ''internal server error''
        | Some hashed \<Rightarrow>
          if \<not> changed \<and> hashed = [] then Inl []
          else if denied \<noteq> [] then Inl denied
          else if changed \<and> \<not> ae_count E then Inl ''Database error checking username''
          else if changed \<and> new \<in> fst ` set (wd_users d) then Inl ''That username is already taken''
          else Inr hashed))"

definition handleAccountSave :: "kdf \<Rightarrow> AccountEnv \<Rightarrow> string \<Rightarrow> int \<Rightarrow> int \<Rightarrow> Request \<Rightarrow> WebDB \<Rightarrow> string \<times> WebDB" where
  "handleAccountSave kdf E salt now now2 r d =
    (let actor = getActor (ae_actor E) now r d;
         new = TrimSpace (FormValue r ''username''); changed = (new \<noteq> [] \<and> new \<noteq> actor) in
     case account_checks kdf E salt now2 new changed r d of Inl err \<Rightarrow> (err, d)
     | Inr hashed \<Rightarrow>
         (let (err, d) = save_password E actor hashed r d in
          if err \<noteq> [] then (err, d)
          else if changed then save_username E actor new d else ([], d)))"

definition handleFactorySetup :: "kdf \<Rightarrow> bool \<Rightarrow> bool \<Rightarrow> bool \<Rightarrow> string \<Rightarrow> string \<Rightarrow> string \<Rightarrow> int \<Rightarrow> Request \<Rightarrow> WebDB \<Rightarrow> string \<times> WebDB" where
  "handleFactorySetup kdf stateOK initOK writeOK salt sid csrf now r d =
    (let username = TrimSpace (FormValue r ''username''); password = FormValue r ''password'' in
     if GetLifecycle stateOK d \<noteq> StateFactory then (''The appliance is already configured.'', d)
     else if username = [] then (''Username cannot be empty'', d)
     else if password \<noteq> FormValue r ''confirm_password'' then (''Passwords do not match'', d)
     else if length password < 12 then (''Password must be at least 12 characters long'', d)
     else
       (case hashPassword kdf salt password of None \<Rightarrow> (''internal server error'', d)
        | Some hashed \<Rightarrow>
          if \<not> initOK \<or> username \<in> fst ` set (wd_users d) then (''failed to initialize user'', d)
          else
            (let d = d\<lparr>wd_users := wd_users d @ [(username, hashed)], wd_state := StateOnboarding\<rparr>;
                 d = LogAudit ''SYSTEM'' ''INITIALIZE_ADMIN'' ''SUCCESS'' d in
             case createSession writeOK sid csrf now username d of
               None \<Rightarrow> (''failed to create session'', d)
             | Some d \<Rightarrow> ([], d))))"

section \<open>Who reaches a handler\<close>

lemma find_SomeD: "find P xs = Some x \<Longrightarrow> x \<in> set xs \<and> P x"
  by (induction xs) (auto split: if_splits)

lemma find_filter: "(\<And>x. P x \<Longrightarrow> Q x) \<Longrightarrow> find P (filter Q xs) = find P xs"
  by (induction xs) auto

lemma Join_Cons_slash: "Join ((c # x) # xs) ''/'' = c # Join (x # xs) ''/''"
  by (cases xs) simp_all

lemma Join_split: "Join (split_on (CHR ''/'') s) ''/'' = s"
proof (induction "CHR ''/''" s rule: split_on.induct)
  case (2 x xs)
  then show ?case by (cases "split_on (CHR ''/'') xs") (auto simp: Join_Cons_slash)
qed simp

lemma pct_decode_append: "pct_decode a = Some a' \<Longrightarrow> pct_decode (a @ b) = map_option ((@) a') (pct_decode b)"
proof (induction a arbitrary: a' rule: pct_decode.induct)
  case 1
  then show ?case by (cases "pct_decode b") simp_all
next
  case (2 c s)
  show ?case
  proof (cases "c = CHR ''%''")
    case True
    then obtain x y r where s: "s = x # y # r" "is_hex x \<and> is_hex y"
      using "2.prems" by (auto split: list.splits if_splits)
    then obtain r' where "pct_decode r = Some r'" "a' = char_of (hex_val x * 16 + hex_val y) # r'"
      using "2.prems" True by auto
    then show ?thesis using "2.IH"(1) [OF True s(1) refl s(2)] True s by (simp add: option.map_comp comp_def)
  next
    case False
    then obtain r' where "pct_decode s = Some r'" "a' = c # r'" using "2.prems" by auto
    then show ?thesis using "2.IH"(2) [OF False] False by (simp add: option.map_comp comp_def)
  qed
qed

lemma pct_decode_Join:
  "map pct_decode es = map Some ts \<Longrightarrow> pct_decode (Join es ''/'') = Some (Join ts ''/'')"
proof (induction es arbitrary: ts)
  case (Cons x es)
  note IH = Cons.IH
  from Cons.prems obtain t ts' where t: "ts = t # ts'" "pct_decode x = Some t" "map pct_decode es = map Some ts'" by auto
  show ?case
  proof (cases es)
    case Nil
    then show ?thesis using t by simp
  next
    case (Cons y ys)
    then obtain u us where "ts' = u # us" using t(3) by auto
    then show ?thesis using IH [OF t(3)] pct_decode_append [OF t(2)] t(1) Cons by simp
  qed
qed simp

lemma routes_rooted: "list_all (\<lambda>(_, p, _). p \<noteq> [] \<and> hd p = CHR ''/'') routes" by code_simp

lemma mux_path:
  assumes "mux r = Handler h" "h \<noteq> ''handleStatic''" "h \<noteq> ''handleRoot''"
  shows "\<exists>pat. (pat, rq_path r, h) \<in> set routes \<and> serves pat (rq_method r)"
proof -
  define e where "e = rq_escaped r"
  obtain pat p where f: "find (\<lambda>(pat, p, h). serves pat (rq_method r) \<and> map pct_decode (segments e) = map Some (segments p)) routes
      = Some (pat, p, h)"
    using assms by (auto simp: mux_def e_def Let_def split: if_splits option.splits)
  then have m: "(pat, p, h) \<in> set routes" "serves pat (rq_method r)" "map pct_decode (segments e) = map Some (segments p)"
    by (auto dest: find_SomeD)
  have "list_all (\<lambda>(pat, _, _). pat \<noteq> ''CONNECT'') routes" by code_simp
  with m(1,2) have "rq_method r \<noteq> ''CONNECT''" by (auto simp: serves_def list_all_iff)
  then have "clean_path e" using assms by (auto simp: mux_def e_def Let_def split: if_splits)
  then have e: "e = CHR ''/'' # drop 1 e" by (cases e) (auto simp: clean_path_def)
  have p: "p = CHR ''/'' # drop 1 p" using m(1) routes_rooted by (cases p) (auto simp: list_all_iff)
  have "pct_decode (drop 1 e) = Some (drop 1 p)"
    using pct_decode_Join [OF m(3)] by (simp only: segments_def Join_split)
  then have "pct_decode e = Some p" by (subst e, subst p) simp
  then show ?thesis using m(1,2) by (auto simp: rq_path_def e_def)
qed

text \<open>The handlers that need no session.\<close>

definition public_handlers :: "string set" where
  "public_handlers = {''handleStatic'', ''handleAPIState'', ''handleRoot''}"

definition bootstrap_handlers :: "string set" where
  "bootstrap_handlers = {''handleFactory'', ''handleFactorySetup'', ''handleFactoryRestore''}"

definition login_handlers :: "string set" where
  "login_handlers = {''handleLogin'', ''handleLoginSubmit''}"

definition setup_handlers :: "string set" where
  "setup_handlers = {''handleSetup'', ''handleSetupApply''}"

definition onboarding_handlers :: "string set" where
  "onboarding_handlers = setup_handlers \<union> {''handleWizardPoolEdit'', ''handleSettings'', ''handleSettingsSave'',
     ''handleBackupExport'', ''handleSettingsRestore'', ''handleLogout'', ''handleWifiScan'', ''handleSSELive''}"

definition signed_in :: "bool \<Rightarrow> int \<Rightarrow> Request \<Rightarrow> WebDB \<Rightarrow> (string \<times> string \<times> int) option" where
  "signed_in readOK now r d = (if rq_cookie r = [] then None else sessionUser readOK now (rq_cookie r) d)"

lemma signed_inD:
  assumes "signed_in readOK now r d = Some (user, token, ex)"
  shows "\<exists>s \<in> set (wd_sessions d). sn_id s = rq_cookie r \<and> rq_cookie r \<noteq> [] \<and> sn_user s = user \<and> user \<noteq> []
    \<and> secs now < sn_expires s \<and> (\<exists>c. sn_created s = Some c \<and> secs now < c + 12 * 3600)
    \<and> (token \<noteq> [] \<longrightarrow> sn_csrf s = Some token)"
  using assms
  by (fastforce simp: signed_in_def sessionUser_def session_live_def split: if_splits option.splits dest: find_SomeD)

text \<open>Where a request that changes state comes from, and which token it carries, by its headers.\<close>

lemma same_originD:
  assumes "sameOriginRequest url r" "isUnsafeMethod (rq_method r)"
  shows "(rq_origin r \<noteq> [] \<and> (\<exists>x. url (rq_origin r) = Some (x, rq_host r)))
    \<or> (rq_origin r = [] \<and> (\<exists>scheme host x. url (rq_referer r) = Some (scheme, host)
         \<and> url (scheme @ ''://'' @ host) = Some (x, rq_host r)))"
  using assms by (auto simp: sameOriginRequest_def Let_def split: if_splits option.splits)

lemma csrf_okD:
  "csrf_ok r token \<Longrightarrow> token \<noteq> [] \<and> (rq_csrf_header r = token \<or> rq_csrf_header r = [] \<and> map_of (rq_form r) ''csrf_token'' = Some token)"
  by (auto simp: csrf_ok_def FormValue_def Let_def split: if_splits option.splits)

lemma state_confines:
  assumes "(pat, p, h) \<in> set routes" "stateRedirectFor st p = []" "st \<noteq> StateFactory"
  shows "(st = StateActive \<longrightarrow> h \<notin> bootstrap_handlers) \<and> (st = StateConfiguring \<longrightarrow> h \<notin> bootstrap_handlers \<union> setup_handlers)
    \<and> (st \<noteq> StateActive \<and> st \<noteq> StateConfiguring \<longrightarrow> h \<in> onboarding_handlers)"
proof -
  have "list_all (\<lambda>(_, p, h). h \<notin> bootstrap_handlers \<or> has_prefix p ''/factory'') routes"
    "list_all (\<lambda>(_, p, h). h \<notin> setup_handlers \<or> p = ''/setup'' \<or> p = ''/setup/apply'') routes"
    "list_all (\<lambda>(_, p, h). h \<in> onboarding_handlers \<or>
      p \<notin> {''/setup'', ''/setup/apply'', ''/setup/pools/edit'', ''/settings'', ''/settings/save'',
         ''/settings/backup'', ''/settings/restore'', ''/logout'', ''/wifi/scan'', ''/sse/live''}) routes"
    by code_simp+
  then have "h \<notin> bootstrap_handlers \<or> has_prefix p ''/factory''" "h \<notin> setup_handlers \<or> p = ''/setup'' \<or> p = ''/setup/apply''"
    and o: "h \<in> onboarding_handlers \<or>
      p \<notin> {''/setup'', ''/setup/apply'', ''/setup/pools/edit'', ''/settings'', ''/settings/save'',
         ''/settings/backup'', ''/settings/restore'', ''/logout'', ''/wifi/scan'', ''/sse/live''}"
    using assms(1) unfolding list_all_iff by fast+
  moreover have "h \<in> onboarding_handlers" if "st \<noteq> StateActive" "st \<noteq> StateConfiguring"
  proof -
    have "stateRedirectFor st p = (if p \<in> {''/setup'', ''/setup/apply'', ''/setup/pools/edit'', ''/settings'', ''/settings/save'',
         ''/settings/backup'', ''/settings/restore'', ''/logout'', ''/wifi/scan'', ''/sse/live''} then [] else ''/setup'')"
      using that assms(3) by (simp only: stateRedirectFor_def if_False)
    with assms(2) have "p \<in> {''/setup'', ''/setup/apply'', ''/setup/pools/edit'', ''/settings'', ''/settings/save'',
         ''/settings/backup'', ''/settings/restore'', ''/logout'', ''/wifi/scan'', ''/sse/live''}"
      by (metis list.distinct(1))
    with o show ?thesis by (elim disjE) (assumption, erule notE, assumption)
  qed
  moreover have "\<not> has_prefix p ''/factory''" if "st = StateActive \<or> st = StateConfiguring"
    using that assms(2) unfolding stateRedirectFor_def by (auto simp only: list.distinct split: if_splits)
  moreover have "p \<noteq> ''/setup'' \<and> p \<noteq> ''/setup/apply''" if "st = StateConfiguring"
    using that assms(2) unfolding stateRedirectFor_def by (auto simp only: list.distinct split: if_splits)
  ultimately show ?thesis by blast
qed

lemma route_cases:
  assumes "(pat, p, h) \<in> set routes"
  shows "has_prefix p ''/static/'' = False" "p = ''/api/state'' \<Longrightarrow> h = ''handleAPIState''"
    "p = ''/login'' \<longleftrightarrow> h \<in> login_handlers"
    "p \<in> {''/factory'', ''/factory/setup'', ''/factory/restore''} \<longleftrightarrow> h \<in> bootstrap_handlers"
    "h \<noteq> ''handleStatic''" "h \<noteq> ''handleRoot''"
proof -
  have c: "list_all (\<lambda>(_, p, h). \<not> has_prefix p ''/static/'' \<and> (p = ''/api/state'' \<longrightarrow> h = ''handleAPIState'')
    \<and> (p = ''/login'' \<longleftrightarrow> h = ''handleLogin'' \<or> h = ''handleLoginSubmit'')
    \<and> (p = ''/factory'' \<or> p = ''/factory/setup'' \<or> p = ''/factory/restore''
         \<longleftrightarrow> h = ''handleFactory'' \<or> h = ''handleFactorySetup'' \<or> h = ''handleFactoryRestore'')
    \<and> h \<noteq> ''handleStatic'' \<and> h \<noteq> ''handleRoot'') routes" by code_simp
  then have "\<not> has_prefix p ''/static/'' \<and> (p = ''/api/state'' \<longrightarrow> h = ''handleAPIState'')
    \<and> (p = ''/login'' \<longleftrightarrow> h = ''handleLogin'' \<or> h = ''handleLoginSubmit'')
    \<and> (p = ''/factory'' \<or> p = ''/factory/setup'' \<or> p = ''/factory/restore''
         \<longleftrightarrow> h = ''handleFactory'' \<or> h = ''handleFactorySetup'' \<or> h = ''handleFactoryRestore'')
    \<and> h \<noteq> ''handleStatic'' \<and> h \<noteq> ''handleRoot''" using assms unfolding list_all_iff by fast
  then show "has_prefix p ''/static/'' = False" "p = ''/api/state'' \<Longrightarrow> h = ''handleAPIState''"
    "p = ''/login'' \<longleftrightarrow> h \<in> login_handlers"
    "p \<in> {''/factory'', ''/factory/setup'', ''/factory/restore''} \<longleftrightarrow> h \<in> bootstrap_handlers"
    "h \<noteq> ''handleStatic''" "h \<noteq> ''handleRoot''"
    by (simp_all add: login_handlers_def bootstrap_handlers_def)
qed

lemma gate_no_handler: "lifecycleMiddleware url G now r d \<noteq> (Stop (Handler h), d')"
  by (auto simp: lifecycleMiddleware_def Let_def split: option.splits)

text \<open>C35: No request reaches a handler past the gate, for every path with any percent-encoding: when
  the web server hands a request to a handler that is not public, then (a) the lifecycle state is FACTORY
  or missing, or its read failed, the handler is one of the three of the bootstrap, and a POST, PUT, PATCH
  or DELETE names the box's own host in its Origin (without one, in its Referer); or (b) the
  state was read, no live session is found, and the handler is the login's; or (c) the state was read, the
  cookie is the id of a stored session of a user, not expired and under 12 hours old, a changing request
  carries that session's non-empty CSRF token in header or form, and the state allows the handler: no
  bootstrap when ACTIVE, no bootstrap and no setup when CONFIGURING, only the ten handlers of onboarding in
  any other state. A failed state read thus opens the bootstrap pages of a configured box; by first_admin
  the setup form's own check then refuses.\<close>

theorem handlers_gated:
  assumes "serve_web url G now r d = (Handler h, d')" "h \<notin> public_handlers"
  shows "if \<not> ge_state G \<or> wd_state d \<in> {[], StateFactory}
    then h \<in> bootstrap_handlers \<and> (rq_method r \<in> {''POST'', ''PUT'', ''PATCH'', ''DELETE''} \<longrightarrow>
      (rq_origin r \<noteq> [] \<and> (\<exists>x. url (rq_origin r) = Some (x, rq_host r)))
      \<or> (rq_origin r = [] \<and> (\<exists>scheme host x. url (rq_referer r) = Some (scheme, host)
           \<and> url (scheme @ ''://'' @ host) = Some (x, rq_host r))))
    else if signed_in (ge_session G) now r d = None then h \<in> login_handlers
    else h \<notin> login_handlers
      \<and> (wd_state d = StateActive \<longrightarrow> h \<notin> bootstrap_handlers)
      \<and> (wd_state d = StateConfiguring \<longrightarrow> h \<notin> bootstrap_handlers \<union> setup_handlers)
      \<and> (wd_state d \<noteq> StateActive \<and> wd_state d \<noteq> StateConfiguring \<longrightarrow> h \<in> onboarding_handlers)
      \<and> (\<exists>s \<in> set (wd_sessions d). sn_id s = rq_cookie r \<and> rq_cookie r \<noteq> [] \<and> sn_user s \<noteq> []
          \<and> secs now < sn_expires s \<and> (\<exists>c. sn_created s = Some c \<and> secs now < c + 12 * 3600)
          \<and> (rq_method r \<in> {''POST'', ''PUT'', ''PATCH'', ''DELETE''} \<longrightarrow>
              (\<exists>t. sn_csrf s = Some t \<and> t \<noteq> [] \<and> (rq_csrf_header r = t
                 \<or> rq_csrf_header r = [] \<and> map_of (rq_form r) ''csrf_token'' = Some t))))"
proof -
  from assms(1) have n: "lifecycleMiddleware url G now r d = (Next, d')" "mux r = Handler h"
    using gate_no_handler by (auto simp: serve_web_def split: prod.splits gate.splits)
  have h: "h \<noteq> ''handleStatic''" "h \<noteq> ''handleRoot''" using assms(2) by (auto simp: public_handlers_def)
  obtain pat where p: "(pat, rq_path r, h) \<in> set routes" using mux_path [OF n(2) h] by blast
  note c = route_cases [OF p]
  have api: "rq_path r \<noteq> ''/api/state''" using c(2) assms(2) by (auto simp: public_handlers_def)
  have unsafe: "rq_method r \<in> {''POST'', ''PUT'', ''PATCH'', ''DELETE''} \<longleftrightarrow> isUnsafeMethod (rq_method r)"
    by (auto simp: isUnsafeMethod_def)
  show ?thesis
  proof (cases "\<not> ge_state G \<or> wd_state d \<in> {[], StateFactory}")
    case True
    then have "rq_path r \<in> {''/factory'', ''/factory/setup'', ''/factory/restore''} \<and> sameOriginRequest url r"
      using n(1) c(1) api by (auto simp: lifecycleMiddleware_def GetLifecycle_def Let_def split: if_splits)
    then show ?thesis using True c(4) same_originD [of url r] unfolding unsafe by simp
  next
    case False
    then have st: "GetLifecycle (ge_state G) d = wd_state d" "wd_state d \<noteq> []" "wd_state d \<noteq> StateFactory"
      by (auto simp: GetLifecycle_def)
    show ?thesis
    proof (cases "signed_in (ge_session G) now r d")
      case None
      then have "rq_path r = ''/login''"
        using n(1) c(1) api st by (auto simp: lifecycleMiddleware_def signed_in_def Let_def split: if_splits)
      then show ?thesis using None False c(3) by simp
    next
      case (Some ute)
      obtain user token ex where u: "ute = (user, token, ex)" by (metis surj_pair)
      have g: "isUnsafeMethod (rq_method r) \<longrightarrow> csrf_ok r token" "rq_path r \<noteq> ''/login''"
          "stateRedirectFor (wd_state d) (rq_path r) = []"
        using n(1) c(1) api st Some u
        by (simp_all add: lifecycleMiddleware_def signed_in_def Let_def split: if_splits)
      have "\<exists>s \<in> set (wd_sessions d). sn_id s = rq_cookie r \<and> rq_cookie r \<noteq> [] \<and> sn_user s \<noteq> []
          \<and> secs now < sn_expires s \<and> (\<exists>c. sn_created s = Some c \<and> secs now < c + 12 * 3600)
          \<and> (isUnsafeMethod (rq_method r) \<longrightarrow> (\<exists>t. sn_csrf s = Some t \<and> t \<noteq> [] \<and> (rq_csrf_header r = t
                 \<or> rq_csrf_header r = [] \<and> map_of (rq_form r) ''csrf_token'' = Some t)))"
        using signed_inD [OF Some [unfolded u]] g(1) csrf_okD [of r token] by blast
      then show ?thesis
        using False Some c(3) g(2) state_confines [OF p g(3) st(3)] unfolding unsafe by simp
    qed
  qed
qed

section \<open>The life of a session\<close>

definition sessions_ok :: "int \<Rightarrow> WebDB \<Rightarrow> bool" where
  "sessions_ok now d \<longleftrightarrow> distinct (map sn_id (wd_sessions d))
     \<and> (\<forall>s \<in> set (wd_sessions d). sn_expires s \<le> secs now + 3600)"

lemma find_unique:
  assumes "distinct (map sn_id ss)" "s \<in> set ss" "sn_id s = sid"
  shows "find (\<lambda>s. sn_id s = sid \<and> P s) ss = (if P s then Some s else None)"
  using assms
proof (induction ss)
  case (Cons x ss)
  show ?case
  proof (cases "x = s")
    case True
    then have "sid \<notin> sn_id ` set ss" using Cons.prems(1,3) by auto
    then have "find (\<lambda>s. sn_id s = sid \<and> P s) ss = None" unfolding find_None_iff by (metis image_eqI)
    then show ?thesis using True Cons.prems(3) by simp
  next
    case False
    then have "s \<in> set ss" using Cons.prems(2) by simp
    then have "sn_id x \<noteq> sid" using Cons.prems by force
    then show ?thesis using Cons False by simp
  qed
qed simp

lemma sessionUser_unique:
  assumes "distinct (map sn_id (wd_sessions d))" "s \<in> set (wd_sessions d)" "sn_id s = sid"
  shows "sessionUser True now sid d = (if session_live now s \<and> sn_user s \<noteq> [] then
    Some (sn_user s, (case sn_csrf s of Some t \<Rightarrow> t | None \<Rightarrow> []), sn_expires s) else None)"
  by (simp add: sessionUser_def find_unique [OF assms])

lemma secs_bound: "secs now * 1000000000 \<le> now" by (simp add: secs_def)

lemma slide_ids:
  "map sn_id (wd_sessions (slide w now sid ex d)) = map sn_id (wd_sessions d)"
  by (simp add: slide_def)

text \<open>Nothing in the gate touches the moment a session was created.\<close>

lemma gate_created:
  "map (\<lambda>s. (sn_id s, sn_created s)) (wd_sessions (snd (serve_web url G now r d)))
     = map (\<lambda>s. (sn_id s, sn_created s)) (wd_sessions d)"
proof -
  have "map (\<lambda>s. (sn_id s, sn_created s)) (wd_sessions (slide w now sid ex d)) = map (\<lambda>s. (sn_id s, sn_created s)) (wd_sessions d)"
    for w sid ex by (simp add: slide_def)
  then show ?thesis
    by (auto simp: serve_web_def lifecycleMiddleware_def Let_def split: prod.splits gate.splits option.splits)
qed

definition after_requests :: "url_parser \<Rightarrow> (GateEnv \<times> int \<times> Request) list \<Rightarrow> WebDB \<Rightarrow> WebDB" where
  "after_requests url qs d = fold (\<lambda>(G, t, r) d. snd (serve_web url G t r d)) qs d"

lemma requests_created:
  "map (\<lambda>s. (sn_id s, sn_created s)) (wd_sessions (after_requests url qs d)) = map (\<lambda>s. (sn_id s, sn_created s)) (wd_sessions d)"
  unfolding after_requests_def by (induction qs arbitrary: d) (simp_all add: gate_created split_beta)

lemma capped:
  assumes "distinct (map sn_id (wd_sessions d))" "s \<in> set (wd_sessions d)" "sn_id s = sid" "sn_created s = Some c"
    and "sessionUser True t sid (after_requests url qs d) \<noteq> None"
  shows "secs t < c + 12 * 3600"
proof -
  obtain s' where s': "s' \<in> set (wd_sessions (after_requests url qs d))" "sn_id s' = sid" "session_live t s'"
    using assms(5) by (fastforce simp: sessionUser_def split: option.splits if_splits dest: find_SomeD)
  have "(sid, sn_created s') \<in> set (map (\<lambda>s. (sn_id s, sn_created s)) (wd_sessions (after_requests url qs d)))"
    using s'(1,2) by auto
  then obtain s2 where s2: "s2 \<in> set (wd_sessions d)" "sn_id s2 = sid" "sn_created s2 = sn_created s'"
    unfolding requests_created by auto
  then have "s2 = s" using assms(1-3) by (metis distinct_map inj_onD)
  then show ?thesis using s2(3) assms(4) s'(3) by (auto simp: session_live_def split: option.splits)
qed


text \<open>The store keeps that invariant, and the sweep removes only sessions that can never
  authenticate again.\<close>

lemma sessions_ok_later: "sessions_ok now d \<Longrightarrow> now \<le> t \<Longrightarrow> sessions_ok t d"
  using zdiv_mono1 [of now t 1000000000] by (force simp: sessions_ok_def secs_def)

lemma createSession_ok:
  "sessions_ok now d \<Longrightarrow> sid \<notin> sn_id ` set (wd_sessions d) \<Longrightarrow> createSession w sid csrf now u d = Some d'
    \<Longrightarrow> sessions_ok now d'"
  by (auto simp: createSession_def sessions_ok_def split: if_splits)

lemma slide_ok: "sessions_ok now d \<Longrightarrow> sessions_ok now (slide w now sid ex d)"
  unfolding sessions_ok_def slide_ids by (auto simp: slide_def)

lemma sweep_harmless:
  assumes "now \<le> t"
  shows "sessionUser readOK t sid (sweepSessions w now d) = sessionUser readOK t sid d"
proof -
  have "secs now \<le> secs t" using assms by (simp add: secs_def zdiv_mono1)
  then have "sn_id s = sid \<and> session_live t s \<Longrightarrow> \<not> swept now s" for s
    by (auto simp: session_live_def swept_def split: option.splits)
  then have "find (\<lambda>s. sn_id s = sid \<and> session_live t s) (filter (\<lambda>s. \<not> swept now s) (wd_sessions d))
      = find (\<lambda>s. sn_id s = sid \<and> session_live t s) (wd_sessions d)" by (rule find_filter)
  then show ?thesis by (simp add: sessionUser_def sweepSessions_def)
qed

section \<open>Credentials\<close>

lemma hex_encode_decode: "hex_decode (hex_encode b) = Some b"
proof (induction b)
  case (Cons c cs)
  obtain x y where "hex2 c = [x, y]" "is_hex x" "is_hex y" "char_of (hex_val x * 16 + hex_val y) = c"
    by (rule hex2_shape)
  then show ?case using Cons.IH by (simp add: hex_encode_def)
qed (simp add: hex_encode_def)

lemma hex_encode_chars: "CHR ''$'' \<notin> set (hex_encode b)" "length (hex_encode b) = 2 * length b"
proof -
  have "\<not> is_hex (CHR ''$'')" by code_simp
  then show "CHR ''$'' \<notin> set (hex_encode b)"
    unfolding hex_encode_def
  proof (induction b)
    case (Cons c cs)
    obtain x y where "hex2 c = [x, y]" "is_hex x" "is_hex y" by (rule hex2_shape)
    then show ?case using Cons \<open>\<not> is_hex (CHR ''$'')\<close> by auto
  qed simp
  show "length (hex_encode b) = 2 * length b"
    unfolding hex_encode_def by (induction b) (auto simp: hex2_def Let_def)
qed

text \<open>A stored password verifies, and only a password with the same derived key does.\<close>

lemma password_round_trip:
  assumes "hashPassword kdf salt pw = Some stored" "length salt = pbkdf2SaltLen"
    "kdf pw salt pbkdf2Iter 32 = Some dk" "length dk = 32"
  shows "verifyPassword kdf stored pw' \<longleftrightarrow> kdf pw' salt pbkdf2Iter 32 = Some dk"
proof -
  have it: "Itoa pbkdf2Iter = ''600000''" "Atoi ''600000'' = Some 600000" by code_simp+
  have "stored = ''pbkdf2'' @ CHR ''$'' # (''600000'' @ CHR ''$'' # (hex_encode salt @ CHR ''$'' # hex_encode dk))"
    using assms(1,3) it by (simp add: hashPassword_def)
  then have "split_on (CHR ''$'') stored = [''pbkdf2'', ''600000'', hex_encode salt, hex_encode dk]"
    using hex_encode_chars(1) by (simp add: split_on_append_no_sep split_on_no_sep del: append.simps)
  then show ?thesis
    using assms(2,4) it by (simp add: verifyPassword_def pbkdf2Iter_def hex_encode_chars(2) hex_encode_decode)
qed

text \<open>A login opens a session only for a known user whose stored password verifies, from an
  address that is not waiting; otherwise the sessions stay as they are.\<close>

lemma login_sound:
  assumes "handleLoginSubmit kdf readOK writeOK stateOK sid csrf now r d = (res, d')"
    "\<not> verifyPassword kdf dummyPasswordHash (FormValue r ''password'')"
  shows "wd_users d' = wd_users d \<and> (wd_sessions d' = wd_sessions d
    \<or> (\<exists>stored. map_of (wd_users d) (TrimSpace (FormValue r ''username'')) = Some stored
        \<and> verifyPassword kdf stored (FormValue r ''password'')
        \<and> fst (allow (clientIP (rq_remote r) (rq_xff r)) now (wd_throttle d))
        \<and> wd_sessions d' = wd_sessions d @ [\<lparr>sn_id = sid, sn_user = TrimSpace (FormValue r ''username''),
            sn_csrf = Some csrf, sn_created = Some (secs now), sn_expires = secs now + 3600\<rparr>]))"
  using assms
  by (auto simp: handleLoginSubmit_def createSession_def LogAudit_def Let_def split: prod.splits if_splits option.splits)

text \<open>The first administrator: only on a box in FACTORY, together with the step to ONBOARDING,
  and with a password of at least 12 characters.\<close>

lemma first_admin:
  assumes "handleFactorySetup kdf stateOK initOK writeOK salt sid csrf now r d = (err, d')"
  shows "wd_users d' = wd_users d \<and> wd_state d' = wd_state d
    \<or> wd_state d = StateFactory \<and> wd_state d' = StateOnboarding \<and> 12 \<le> length (FormValue r ''password'')
      \<and> (\<exists>h. hashPassword kdf salt (FormValue r ''password'') = Some h
          \<and> wd_users d' = wd_users d @ [(TrimSpace (FormValue r ''username''), h)])"
  using assms
  by (auto simp: handleFactorySetup_def GetLifecycle_def StateFactory_def createSession_def LogAudit_def Let_def split: if_splits option.splits)

lemma account_checks_Inr:
  assumes "account_checks kdf E salt now2 new changed r d = Inr hashed"
  shows "(\<exists>stored. map_of (wd_users d) (getActor (ae_actor2 E) now2 r d) = Some stored
      \<and> verifyPassword kdf stored (FormValue r ''current_password''))
    \<and> (FormValue r ''new_password'' \<noteq> [] \<longleftrightarrow> hashed \<noteq> [])
    \<and> (hashed \<noteq> [] \<longrightarrow> hashPassword kdf salt (FormValue r ''new_password'') = Some hashed)
    \<and> (changed \<longrightarrow> new \<notin> fst ` set (wd_users d))"
proof -
  have h: "reauthCurrentPassword kdf (ae_actor2 E) (ae_reauth E) now2 r d = []"
    "(if FormValue r ''new_password'' = [] then Some [] else hashPassword kdf salt (FormValue r ''new_password'')) = Some hashed"
    "changed \<longrightarrow> new \<notin> fst ` set (wd_users d)"
    using assms by (simp_all add: account_checks_def Let_def split: if_splits option.splits)
  then show ?thesis
    by (auto simp: reauthCurrentPassword_def hashPassword_def Let_def split: if_splits option.splits)
qed

text \<open>One user's entry, with the name or the hash replaced.\<close>

definition replace_entry :: "string \<Rightarrow> string \<Rightarrow> string \<Rightarrow> (string \<times> string) list \<Rightarrow> (string \<times> string) list" where
  "replace_entry actor name hashed us = map (\<lambda>(u, h). if u = actor then (name, if hashed = [] then h else hashed) else (u, h)) us"

lemma replace_nothing [simp]: "replace_entry actor actor [] us = us"
  by (induction us) (auto simp: replace_entry_def)

lemma replace_twice: "replace_entry a b [] (replace_entry a a h us) = replace_entry a b h us"
  by (induction us) (auto simp: replace_entry_def)

lemma save_password_effect:
  assumes "save_password E actor hashed r d = (err, d')"
  shows "(err \<noteq> [] \<longrightarrow> d' = d) \<and> (err = [] \<longrightarrow> wd_users d' = replace_entry actor actor hashed (wd_users d))
    \<and> (err = [] \<and> hashed \<noteq> [] \<and> ae_revoke E \<and> rq_cookie r \<noteq> [] \<longrightarrow>
        sn_id ` set (wd_sessions d') \<subseteq> insert (rq_cookie r) (sn_id ` {s \<in> set (wd_sessions d). sn_user s \<noteq> actor}))"
proof -
  have "map (\<lambda>(u, h). (u, if u = actor then hashed else h)) us = replace_entry actor actor hashed us" if "hashed \<noteq> []" for us
    using that by (auto simp: replace_entry_def)
  then show ?thesis
    using assms by (auto simp: save_password_def LogAudit_def Let_def split: if_splits)
qed

lemma save_username_effect:
  assumes "save_username E actor new d = (err, d')"
  shows "wd_users d' \<in> {wd_users d, replace_entry actor new [] (wd_users d)}
    \<and> sn_id ` set (wd_sessions d') = sn_id ` set (wd_sessions d)"
proof -
  have users: "map (\<lambda>(u, h). (if u = actor then new else u, h)) us = replace_entry actor new [] us" for us
    by (auto simp: replace_entry_def)
  have ids: "sn_id ` set (map (\<lambda>s. if sn_user s = actor then s\<lparr>sn_user := new\<rparr> else s) ss) = sn_id ` set ss" for ss
    unfolding set_map image_image by (rule image_cong) auto
  show ?thesis
  proof (cases "\<not> ae_rename E \<or> new \<in> fst ` set (wd_users d)")
    case True
    then show ?thesis using assms by (simp add: save_username_def)
  next
    case False
    then have "d' = snd (save_username E actor new d)" using assms by simp
    then show ?thesis
      using False by (cases "ae_sessions E") (simp_all del: set_map add: save_username_def LogAudit_def Let_def users ids)
  qed
qed

lemma getActor_cases:
  "getActor ok now r d \<in> insert ''admin'' (sn_user ` {s \<in> set (wd_sessions d). sn_id s = rq_cookie r})"
  by (fastforce simp: getActor_def sessionInfo_def sessionUser_def split: option.splits if_splits dest: find_SomeD)

text \<open>C37: Credentials change only with a current password: when a request to change the account changes
  a user or a session, the current password it carries verifies against the stored hash of the actor that
  the second read of the session gives, and the users are the old ones with at most the entry of the actor
  of the first read changed: its name to the form's, which no user had, and its hash to that of the
  form's new password. When a new password was stored and the sessions could be revoked, every session left
  belongs to another user or is the one of the request. Each read gives the user of the request's session
  or, when it fails or the session has just expired, admin; when both find the session the two actors
  are its user. When one fails they can differ, and the password of one user then changes the entry of
  another (account_reads_disagree).\<close>

theorem account_change:
  assumes "handleAccountSave kdf E salt now now2 r d = (err, d')"
    and "wd_users d' \<noteq> wd_users d \<or> wd_sessions d' \<noteq> wd_sessions d"
    and "actor = getActor (ae_actor E) now r d" "actor2 = getActor (ae_actor2 E) now2 r d"
  shows "(\<exists>stored. map_of (wd_users d) actor2 = Some stored \<and> verifyPassword kdf stored (FormValue r ''current_password''))
    \<and> (\<exists>name hashed. wd_users d' = map (\<lambda>(u, h). if u = actor then (name, if hashed = [] then h else hashed) else (u, h)) (wd_users d)
        \<and> (name = actor \<or> name = TrimSpace (FormValue r ''username'') \<and> name \<notin> fst ` set (wd_users d))
        \<and> (hashed = [] \<or> hashPassword kdf salt (FormValue r ''new_password'') = Some hashed))
    \<and> (FormValue r ''new_password'' \<noteq> [] \<and> ae_revoke E \<and> rq_cookie r \<noteq> [] \<longrightarrow>
        sn_id ` set (wd_sessions d') \<subseteq> insert (rq_cookie r) (sn_id ` {s \<in> set (wd_sessions d). sn_user s \<noteq> actor}))
    \<and> {actor, actor2} \<subseteq> insert ''admin'' (sn_user ` {s \<in> set (wd_sessions d). sn_id s = rq_cookie r})
    \<and> (\<forall>u. ae_actor E \<and> ae_actor2 E \<and> sessionInfo True now r d = Some u \<and> sessionInfo True now2 r d = Some u
        \<longrightarrow> actor = u \<and> actor2 = u)"
proof -
  let ?new = "TrimSpace (FormValue r ''username'')"
  let ?changed = "?new \<noteq> [] \<and> ?new \<noteq> actor"
  obtain hashed where c: "account_checks kdf E salt now2 ?new ?changed r d = Inr hashed"
    using assms by (cases "account_checks kdf E salt now2 ?new ?changed r d")
      (auto simp: handleAccountSave_def Let_def)
  note k = account_checks_Inr [OF c, folded assms(4)]
  obtain e1 d1 where p: "save_password E actor hashed r d = (e1, d1)" by (metis surj_pair)
  note q = save_password_effect [OF p]
  have w: "(if e1 \<noteq> [] then (e1, d1) else if ?changed then save_username E actor ?new d1 else ([], d1)) = (err, d')"
    using assms(1) unfolding handleAccountSave_def Let_def assms(3) [symmetric] c p sum.case prod.case .
  then have e1: "e1 = []" using q assms(2) by (auto split: if_splits)
  then have u1: "wd_users d1 = replace_entry actor actor hashed (wd_users d)" using q by simp
  have w2: "(if ?changed then save_username E actor ?new d1 else ([], d1)) = (err, d')" using w e1 by simp
  have d': "wd_users d' = replace_entry actor actor hashed (wd_users d) \<or> ?changed \<and> wd_users d' = replace_entry actor ?new hashed (wd_users d)"
    "sn_id ` set (wd_sessions d') = sn_id ` set (wd_sessions d1)"
    using save_username_effect [of E actor ?new d1 err d'] w2 u1 by (cases ?changed; auto simp: replace_twice)+
  have "\<exists>name hashed. wd_users d' = replace_entry actor name hashed (wd_users d)
        \<and> (name = actor \<or> name = ?new \<and> name \<notin> fst ` set (wd_users d))
        \<and> (hashed = [] \<or> hashPassword kdf salt (FormValue r ''new_password'') = Some hashed)"
    using d'(1) k by (metis (no_types, lifting))
  moreover have "FormValue r ''new_password'' \<noteq> [] \<and> ae_revoke E \<and> rq_cookie r \<noteq> [] \<longrightarrow>
        sn_id ` set (wd_sessions d') \<subseteq> insert (rq_cookie r) (sn_id ` {s \<in> set (wd_sessions d). sn_user s \<noteq> actor})"
    using q k e1 d'(2) by simp
  moreover have "{actor, actor2} \<subseteq> insert ''admin'' (sn_user ` {s \<in> set (wd_sessions d). sn_id s = rq_cookie r})"
    using getActor_cases unfolding assms(3,4) by (metis (no_types, lifting) empty_subsetI insert_subset)
  moreover have "\<forall>u. ae_actor E \<and> ae_actor2 E \<and> sessionInfo True now r d = Some u \<and> sessionInfo True now2 r d = Some u
        \<longrightarrow> actor = u \<and> actor2 = u"
    by (simp add: assms(3,4) getActor_def)
  ultimately show ?thesis using k unfolding replace_entry_def by blast
qed

text \<open>A rename that fails after the password was stored leaves the account half changed.\<close>

definition ex_kdf :: kdf where
  "ex_kdf pw salt iter n = Some (take 32 (pw @ replicate 32 (CHR 0x00)))"

definition ex_request :: Request where
  "ex_request = \<lparr>rq_method = ''POST'', rq_escaped = ''/account%2Fsave'', rq_host = ''box'', rq_origin = ''http://box'',
     rq_referer = [], rq_cookie = ''s1'', rq_csrf_header = ''tok'',
     rq_form = [(''username'', ''root''), (''new_password'', ''correct horse''), (''confirm_password'', ''correct horse''),
       (''current_password'', ''old password'')],
     rq_too_large = False, rq_remote = ''127.0.0.1:4000'', rq_xff = ''10.0.0.7''\<rparr>"

definition ex_session :: "string \<Rightarrow> Session" where
  "ex_session i = \<lparr>sn_id = i, sn_user = ''admin'', sn_csrf = Some ''tok'', sn_created = Some 100, sn_expires = 3700\<rparr>"

definition ex_db :: WebDB where
  "ex_db = \<lparr>wd_users = [(''admin'', the (hashPassword ex_kdf (replicate 16 (CHR ''x'')) ''old password''))],
     wd_sessions = [ex_session ''s1'', ex_session ''s2''], wd_state = StateActive, wd_audit = [], wd_throttle = []\<rparr>"

definition ex_env :: "bool \<Rightarrow> AccountEnv" where
  "ex_env rename = \<lparr>ae_actor = True, ae_actor2 = True, ae_reauth = True, ae_count = True, ae_password = True, ae_revoke = True,
     ae_rename = rename, ae_sessions = True\<rparr>"

definition ex_gate :: GateEnv where
  "ex_gate = \<lparr>ge_state = True, ge_session = True, ge_slide = True, ge_landing = True\<rparr>"

definition ex_save :: "AccountEnv \<Rightarrow> WebDB \<Rightarrow> string \<times> WebDB" where
  "ex_save E = handleAccountSave ex_kdf E (replicate 16 (CHR ''y'')) 200000000000 200000000000 ex_request"

lemma half_changed_account:
  "fst (ex_save (ex_env False) ex_db) = ''Failed to rename administrator''
    \<and> map fst (wd_users (snd (ex_save (ex_env False) ex_db))) = [''admin'']
    \<and> wd_users (snd (ex_save (ex_env False) ex_db)) \<noteq> wd_users ex_db"
  by code_simp

text \<open>The first read of the session fails and the second succeeds: a request of bob, with bob's
  password, renames admin and replaces admin's password.\<close>

definition ex_two_users :: WebDB where
  "ex_two_users = ex_db\<lparr>wd_users := [(''admin'', ''pbkdf2$''), (''bob'', snd (hd (wd_users ex_db)))],
     wd_sessions := [(ex_session ''s1'')\<lparr>sn_user := ''bob''\<rparr>]\<rparr>"

lemma account_reads_disagree:
  "fst (ex_save ((ex_env True)\<lparr>ae_actor := False\<rparr>) ex_two_users) = []
    \<and> map fst (wd_users (snd (ex_save ((ex_env True)\<lparr>ae_actor := False\<rparr>) ex_two_users))) = [''root'', ''bob'']
    \<and> snd (hd (wd_users (snd (ex_save ((ex_env True)\<lparr>ae_actor := False\<rparr>) ex_two_users)))) \<noteq> ''pbkdf2$''"
  by code_simp

text \<open>A state read that fails on an ACTIVE box with an administrator opens the bootstrap pages to a
  request without a session; the setup form then refuses by its own read, whatever that gives.\<close>

lemma failed_state_read_opens_bootstrap:
  "fst (serve_web (\<lambda>_. Some (''http'', ''box'')) (ex_gate\<lparr>ge_state := False\<rparr>) 200000000000
      (ex_request\<lparr>rq_escaped := ''/factory/restore'', rq_cookie := []\<rparr>) ex_db) = Handler ''handleFactoryRestore''
    \<and> wd_state ex_db = StateActive \<and> wd_users ex_db \<noteq> []"
  by code_simp

lemma account_change_witness:
  "wd_users (snd (ex_save (ex_env True) ex_db)) \<noteq> wd_users ex_db
    \<and> (\<exists>stored. map_of (wd_users ex_db) ''admin'' = Some stored \<and> verifyPassword ex_kdf stored ''old password'')
    \<and> sn_id ` set (wd_sessions (snd (ex_save (ex_env True) ex_db))) \<subseteq> {''s1''}"
proof -
  let ?r = "ex_save (ex_env True) ex_db"
  have u: "wd_users (snd ?r) \<noteq> wd_users ex_db" by code_simp
  have a: "getActor (ae_actor (ex_env True)) 200000000000 ex_request ex_db = ''admin''"
    "getActor (ae_actor2 (ex_env True)) 200000000000 ex_request ex_db = ''admin''" by code_simp+
  have f: "FormValue ex_request ''new_password'' \<noteq> []" "ae_revoke (ex_env True)" "rq_cookie ex_request = ''s1''"
    "FormValue ex_request ''current_password'' = ''old password''" by code_simp+
  have e: "{s \<in> set (wd_sessions ex_db). sn_user s \<noteq> ''admin''} = {}" by (auto simp: ex_db_def ex_session_def)
  have h: "handleAccountSave ex_kdf (ex_env True) (replicate 16 (CHR ''y'')) 200000000000 200000000000 ex_request ex_db = (fst ?r, snd ?r)"
    by (simp add: ex_save_def)
  note t = account_change [OF h disjI1 [OF u] refl refl, unfolded a f e]
  then show ?thesis using u f(1,2) by auto
qed

lemma handlers_gated_witness:
  "fst (serve_web (\<lambda>_. None) ex_gate 200000000000 (ex_request\<lparr>rq_escaped := ''/%61ccount/save''\<rparr>) ex_db) = Handler ''handleAccountSave''
    \<and> (\<exists>s \<in> set (wd_sessions ex_db). sn_id s = ''s1'' \<and> sn_csrf s = Some (rq_csrf_header ex_request))
    \<and> fst (serve_web (\<lambda>_. None) ex_gate 200000000000 (ex_request\<lparr>rq_escaped := ''/static%2F..%2Faccount/save''\<rparr>) ex_db) = NotAllowed"
proof -
  let ?q = "ex_request\<lparr>rq_escaped := ''/%61ccount/save''\<rparr>"
  let ?s = "serve_web (\<lambda>_. None) ex_gate 200000000000 ?q ex_db"
  have v: "fst ?s = Handler ''handleAccountSave''"
    "fst (serve_web (\<lambda>_. None) ex_gate 200000000000 (ex_request\<lparr>rq_escaped := ''/static%2F..%2Faccount/save''\<rparr>) ex_db) = NotAllowed"
    by code_simp+
  then have s: "?s = (Handler ''handleAccountSave'', snd ?s)" by (metis prod.collapse)
  have i: "signed_in True 200000000000 ?q ex_db \<noteq> None" "wd_state ex_db \<notin> {[], StateFactory}" by code_simp+
  have q: "rq_method ?q = ''POST''" "rq_cookie ?q = ''s1''" "rq_csrf_header ?q = ''tok''" "rq_csrf_header ex_request = ''tok''"
    by (simp_all add: ex_request_def)
  have "''handleAccountSave'' \<notin> public_handlers" by (simp add: public_handlers_def)
  note g = handlers_gated [OF s this]
  have "ge_session ex_gate = True" "ge_state ex_gate" by (simp_all add: ex_gate_def)
  with i have c: "\<not> (\<not> ge_state ex_gate \<or> wd_state ex_db \<in> {[], StateFactory})"
    "signed_in (ge_session ex_gate) 200000000000 ?q ex_db \<noteq> None" by simp_all
  have "\<exists>s \<in> set (wd_sessions ex_db). sn_id s = ''s1'' \<and> sn_csrf s = Some ''tok''"
    using g unfolding if_not_P [OF c(1)] if_not_P [OF c(2)] q by auto
  with v q(4) show ?thesis by simp
qed


end
