(* ===== verification/ArpScan.thy ===== *)
theory ArpScan
  imports Presence KeaAddr
begin

text \<open>
  \<open>src/internal/arpscan\<close>: the ARP presence prober.  \<open>arp.go\<close>: the who-has frame, the
  parser of received frames and the capped reach tracker; \<open>prober.go\<close>: the probe cycle with its
  rotating pool sweep, the receive loop, the on-demand probe and the prober's start and stop.  Addresses and
  frames are byte lists, times nanoseconds; what the socket receives, and whether it opens, are
  arguments.
\<close>

section \<open>Frames\<close>

definition arpOpRequest :: byte where "arpOpRequest = 1"

definition buildARPRequest :: "byte list \<Rightarrow> byte list \<Rightarrow> byte list \<Rightarrow> byte list" where
  "buildARPRequest smac sip tip =
    replicate 6 0xff @ smac @ [0x08, 0x06] @ [0, 1] @ [0x08, 0] @ [6, 4] @ [0, arpOpRequest]
    @ smac @ sip @ replicate 6 0 @ tip"

text \<open>\<open>parseARPSender\<close>: the sender's protocol and hardware address.\<close>

definition arp_payload :: "byte list \<Rightarrow> (byte list \<times> byte list) option" where
  "arp_payload arp =
    (if length arp < 28 then None
     else if arp ! 0 \<noteq> 0 \<or> arp ! 1 \<noteq> 1 \<or> arp ! 2 \<noteq> 0x08 \<or> arp ! 3 \<noteq> 0 \<or> arp ! 4 \<noteq> 6 \<or> arp ! 5 \<noteq> 4 then None
     else if be16 arp 6 \<noteq> 1 \<and> be16 arp 6 \<noteq> 2 then None
     else Some (take 4 (drop 14 arp), take 6 (drop 8 arp)))"

definition parseARPSender :: "byte list \<Rightarrow> (byte list \<times> byte list) option" where
  "parseARPSender f =
    (if length f < 14 then None
     else if be16 f 12 = etherTypeVLAN then
       (if length f < 18 then None
        else if be16 f 16 \<noteq> etherTypeARP then None else arp_payload (drop 18 f))
     else if be16 f 12 \<noteq> etherTypeARP then None
     else arp_payload (drop 14 f))"

section \<open>The reach tracker\<close>

definition maxReachEntries :: nat where "maxReachEntries = 1024"
definition reachWindow :: int where "reachWindow = 30 * 1000000000"

type_synonym reachTracker = "(byte list \<times> int) list"

definition record_seen :: "byte list \<Rightarrow> int \<Rightarrow> reachTracker \<Rightarrow> reachTracker" where
  "record_seen ip now m = touch maxReachEntries (\<lambda>t. t) now (\<lambda>_. now) ip m"

definition reach_within :: "int \<Rightarrow> reachTracker \<Rightarrow> string list \<times> reachTracker" where
  "reach_within now m = (let kept = filter (\<lambda>(ip, ts). \<not> ts < now - reachWindow) m in
     (map (\<lambda>(ip, _). ip_String ip) kept, kept))"

section \<open>The probe cycle\<close>

definition sweepChunk :: int where "sweepChunk = 32"

record SweepRange =
  sw_Lo :: u32
  sw_Hi :: u32

definition range_size :: "SweepRange \<Rightarrow> int" where
  "range_size sr = (if sw_Lo sr \<le> sw_Hi sr then uint (sw_Hi sr - sw_Lo sr) + 1 else 0)"

definition sweep_total :: "SweepRange list \<Rightarrow> int" where
  "sweep_total ranges = sum_list (map range_size ranges)"

fun sweepIPAt :: "SweepRange list \<Rightarrow> int \<Rightarrow> byte list" where
  "sweepIPAt [] off = [0, 0, 0, 0]"
| "sweepIPAt (sr # rs) off =
    (if sw_Hi sr < sw_Lo sr then sweepIPAt rs off
     else (let size = uint (sw_Hi sr - sw_Lo sr) + 1 in
       if off < size then put_u32 (sw_Lo sr + word_of_int off) else sweepIPAt rs (off - size)))"

definition ipv4Bytes :: "string \<Rightarrow> byte list option" where
  "ipv4Bytes s = (let ip = To4 (ParseIP s) in if ip = [] then None else Some ip)"

definition lease_targets :: "string list \<Rightarrow> byte list list" where
  "lease_targets leases = List.map_filter ipv4Bytes leases"

text \<open>\<open>probeOnce\<close>: the addresses asked for, in order, and the new cursor.\<close>

definition probeOnce :: "SweepRange list \<Rightarrow> string list \<Rightarrow> int \<Rightarrow> byte list list \<times> int" where
  "probeOnce ranges leases cursor =
    (let probed = lease_targets leases; tot = sweep_total ranges in
     if tot = 0 then (probed, cursor)
     else
       (let n = min sweepChunk tot;
            swept = map (\<lambda>i. sweepIPAt ranges ((cursor + i) mod tot)) [0 .. n - 1] in
        (probed @ filter (\<lambda>ip. ip \<notin> set probed) swept, (cursor + n) mod tot)))"

fun probe_cycles :: "SweepRange list \<Rightarrow> string list list \<Rightarrow> int \<Rightarrow> byte list list" where
  "probe_cycles ranges [] cursor = []"
| "probe_cycles ranges (ls # lss) cursor =
    (let (ips, c) = probeOnce ranges ls cursor in ips @ probe_cycles ranges lss c)"

definition in_range :: "u32 \<Rightarrow> SweepRange \<Rightarrow> bool" where
  "in_range a sr \<longleftrightarrow> sw_Lo sr \<le> a \<and> a \<le> sw_Hi sr"

lemma range_size_nonneg [simp]: "0 \<le> range_size sr" by (simp add: range_size_def)

lemma sweep_total_nonneg [simp]: "0 \<le> sweep_total ranges"
  unfolding sweep_total_def by (induction ranges) simp_all

text \<open>Every address of the ranges has an offset.\<close>

lemma sweep_offset:
  assumes "list_ex (in_range a) ranges"
  shows "\<exists>off. 0 \<le> off \<and> off < sweep_total ranges \<and> sweepIPAt ranges off = put_u32 a"
  using assms
proof (induction ranges)
  case (Cons sr rs)
  show ?case
  proof (cases "in_range a sr")
    case True
    then have l: "sw_Lo sr \<le> a" "a \<le> sw_Hi sr" "sw_Lo sr \<le> sw_Hi sr" by (auto simp: in_range_def)
    then have u: "uint (a - sw_Lo sr) = uint a - uint (sw_Lo sr)" "uint (sw_Hi sr - sw_Lo sr) = uint (sw_Hi sr) - uint (sw_Lo sr)"
      by (simp_all add: uint_minus_simple_alt word_le_def)
    have "0 \<le> sweep_total rs" by simp
    then have t: "uint (a - sw_Lo sr) < sweep_total (sr # rs)"
      using l u by (simp add: sweep_total_def range_size_def word_le_def)
    have "sweepIPAt (sr # rs) (uint (a - sw_Lo sr)) = put_u32 a"
      using l u leD [OF l(3)] by (simp add: word_le_def)
    then show ?thesis using t by (intro exI [of _ "uint (a - sw_Lo sr)"]) simp
  next
    case False
    then obtain off where o: "0 \<le> off" "off < sweep_total rs" "sweepIPAt rs off = put_u32 a"
      using Cons by auto
    then show ?thesis
    proof (cases "sw_Hi sr < sw_Lo sr")
      case True
      then have "\<not> sw_Lo sr \<le> sw_Hi sr" by (metis not_le)
      then have "range_size sr = 0" by (simp add: range_size_def)
      then show ?thesis using o True by (intro exI [of _ off]) (simp add: sweep_total_def)
    next
      case False
      then have "range_size sr = uint (sw_Hi sr - sw_Lo sr) + 1" by (simp add: range_size_def not_less)
      then show ?thesis using o False
        by (intro exI [of _ "off + range_size sr"]) (simp add: sweep_total_def)
    qed
  qed
qed simp

lemma probeOnce_covers:
  assumes "0 < sweep_total ranges" "0 \<le> i" "i < min sweepChunk (sweep_total ranges)"
  shows "sweepIPAt ranges ((cursor + i) mod sweep_total ranges) \<in> set (fst (probeOnce ranges leases cursor))"
  using assms by (auto simp: probeOnce_def Let_def)

lemma probeOnce_cursor:
  "0 < sweep_total ranges \<Longrightarrow> snd (probeOnce ranges leases cursor) = (cursor + min sweepChunk (sweep_total ranges)) mod sweep_total ranges"
  by (simp add: probeOnce_def Let_def)

lemma probe_cycles_cover:
  assumes "0 < sweep_total ranges" "0 \<le> i" "i < int (length lss) * min sweepChunk (sweep_total ranges)"
  shows "sweepIPAt ranges ((cursor + i) mod sweep_total ranges) \<in> set (probe_cycles ranges lss cursor)"
  using assms(2,3)
proof (induction lss arbitrary: cursor i)
  case (Cons ls lss)
  let ?t = "sweep_total ranges" and ?n = "min sweepChunk (sweep_total ranges)"
  obtain ips c where p: "probeOnce ranges ls cursor = (ips, c)" by fastforce
  show ?case
  proof (cases "i < ?n")
    case True
    then show ?thesis using probeOnce_covers [OF assms(1) Cons.prems(1) True, of cursor ls] p by simp
  next
    case False
    have "(c + (i - ?n)) mod ?t = (cursor + i) mod ?t"
      using probeOnce_cursor [OF assms(1), of ls cursor] p by (simp add: mod_simps)
    moreover have "i - ?n < int (length lss) * ?n" using Cons.prems(2) by (simp add: algebra_simps)
    ultimately show ?thesis using Cons.IH [of "i - ?n" c] False p by simp
  qed
qed simp

text \<open>C39: The sweep finds silent devices: whatever leases come and go, any run of consecutive
  probe cycles with 32 addresses each that add up to the size of the pools asks for every
  address of every pool range (hands a who-has for it to the socket), wherever the rotation stood when the run started.\<close>

theorem sweep_covers_pools:
  assumes "list_ex (in_range a) ranges" "sweep_total ranges \<le> 32 * int (length lss)"
  shows "put_u32 a \<in> set (probe_cycles ranges lss cursor)"
proof -
  let ?t = "sweep_total ranges"
  obtain off where o: "0 \<le> off" "off < ?t" "sweepIPAt ranges off = put_u32 a"
    using sweep_offset [OF assms(1)] by blast
  define i where "i = (off - cursor) mod ?t"
  have i: "0 \<le> i" "i < ?t" using o by (simp_all add: i_def)
  have "(cursor + i) mod ?t = off" using o by (simp add: i_def mod_simps)
  moreover have "i < int (length lss) * min sweepChunk ?t"
  proof (cases "?t \<le> 32")
    case True
    have "1 \<le> int (length lss)" using assms(2) o by (cases lss) auto
    then have "1 * ?t \<le> int (length lss) * ?t" by (rule mult_right_mono) simp
    then have "i < int (length lss) * ?t" using i(2) by linarith
    then show ?thesis using True by (simp add: sweepChunk_def)
  next
    case False
    then show ?thesis using assms(2) i by (simp add: sweepChunk_def)
  qed
  ultimately show ?thesis using probe_cycles_cover [of ranges i lss cursor] o i by simp
qed

lemma sweep_covers_pools_witness:
  "put_u32 0x0A000040 \<in> set (probe_cycles [\<lparr>sw_Lo = 0x0A000010, sw_Hi = 0x0A000050\<rparr>] [[''10.0.0.9''], [], [''x'']] 50)"
  by (rule sweep_covers_pools) (simp_all add: in_range_def sweep_total_def range_size_def)


section \<open>Round trip of the frames\<close>

lemma list_4: "length xs = 4 \<Longrightarrow> \<exists>a b c d. xs = [a, b, c, d]"
  by (auto simp: numeral_eq_Suc length_Suc_conv)

lemma list_6: "length xs = 6 \<Longrightarrow> \<exists>a b c d e f. xs = [a, b, c, d, e, f]"
  by (auto simp: numeral_eq_Suc length_Suc_conv)

lemma replicate_6: "replicate 6 x = [x, x, x, x, x, x]" by (simp add: numeral_eq_Suc)

text \<open>The parser reads the sender back from a request, with or without an 802.1Q tag.\<close>

lemma parse_build:
  assumes "length smac = 6" "length sip = 4" "length tip = 4"
  shows "parseARPSender (buildARPRequest smac sip tip) = Some (sip, smac)
    \<and> parseARPSender (take 12 (buildARPRequest smac sip tip) @ [0x81, 0, v1, v2] @ drop 12 (buildARPRequest smac sip tip))
        = Some (sip, smac)
    \<and> length (buildARPRequest smac sip tip) = 42"
proof -
  obtain a b c d e f where m: "smac = [a, b, c, d, e, f]" using list_6 [OF assms(1)] by blast
  obtain p q r s where i: "sip = [p, q, r, s]" using list_4 [OF assms(2)] by blast
  obtain w x y z where t: "tip = [w, x, y, z]" using list_4 [OF assms(3)] by blast
  show ?thesis
    by (simp add: m i t buildARPRequest_def parseARPSender_def arp_payload_def be16_def frame_consts arpOpRequest_def
      replicate_6 be_values)
qed

section \<open>What is reported online\<close>

datatype arp_event = Frame "byte list" | Look

text \<open>What counts as hearing an address, by the bytes of the frame alone: the EtherType 08 06 at
  offset 12, or behind the four bytes of an 802.1Q tag; hardware type 1, protocol 08 00, lengths 6 and 4; an
  operation of 1 or 2; and the address in the four bytes after the sender's hardware address.\<close>

definition arp_sent_by :: "byte list \<Rightarrow> byte list \<Rightarrow> bool" where
  "arp_sent_by ip f \<longleftrightarrow> (\<exists>off \<in> {12, 16}. (off = 16 \<longrightarrow> take 2 (drop 12 f) = [0x81, 0x00])
     \<and> (\<exists>op \<in> {1, 2}. take 10 (drop off f) = [0x08, 0x06, 0x00, 0x01, 0x08, 0x00, 6, 4, 0x00, op])
     \<and> off + 30 \<le> length f \<and> take 4 (drop (off + 16) f) = ip)"

lemma arp_payload_bytes:
  assumes "off + 2 \<le> length f"
  shows "be16 f off = etherTypeARP \<and> map_option fst (arp_payload (drop (off + 2) f)) = Some ip \<longleftrightarrow>
    (\<exists>op \<in> {1, 2}. take 10 (drop off f) = [0x08, 0x06, 0x00, 0x01, 0x08, 0x00, 6, 4, 0x00, op])
     \<and> off + 30 \<le> length f \<and> take 4 (drop (off + 16) f) = ip"
proof (cases "off + 30 \<le> length f")
  case True
  define P where "P \<longleftrightarrow> f ! (off + 2) = 0 \<and> f ! (off + 3) = 1 \<and> f ! (off + 4) = 8 \<and> f ! (off + 5) = 0
    \<and> f ! (off + 6) = 6 \<and> f ! (off + 7) = 4 \<and> f ! (off + 8) = 0"
  define Q where "Q \<longleftrightarrow> f ! (off + 9) = 1 \<or> f ! (off + 9) = 2"
  have n: "drop (off + 2) f ! i = f ! (off + (2 + i))" for i using True by (simp add: nth_drop ac_simps)
  have E: "be16 f off = etherTypeARP \<longleftrightarrow> f ! off = 8 \<and> f ! (off + 1) = 6"
    using be16_bytes [of f off 8 6] by (simp add: be_values frame_consts)
  have o: "be16 (drop (off + 2) f) 6 = 1 \<longleftrightarrow> f ! (off + 8) = 0 \<and> f ! (off + 9) = 1"
    "be16 (drop (off + 2) f) 6 = 2 \<longleftrightarrow> f ! (off + 8) = 0 \<and> f ! (off + 9) = 2"
    using be16_bytes [of "drop (off + 2) f" 6 0 1] be16_bytes [of "drop (off + 2) f" 6 0 2]
    unfolding n be_values by simp_all
  have "length (drop (off + 2) f) \<ge> 28" "drop 14 (drop (off + 2) f) = drop (off + 16) f" using True by (simp_all add: add.commute)
  then have A: "map_option fst (arp_payload (drop (off + 2) f)) = (if P \<and> Q then Some (take 4 (drop (off + 16) f)) else None)"
    unfolding arp_payload_def n o P_def Q_def by (simp del: drop_drop)
  have t: "take 10 (drop off f) = [f ! off, f ! (off + 1), f ! (off + 2), f ! (off + 3), f ! (off + 4),
      f ! (off + 5), f ! (off + 6), f ! (off + 7), f ! (off + 8), f ! (off + 9)]"
    using True by (simp add: take_nth numeral_eq_Suc)
  have B: "(\<exists>op \<in> {1, 2}. take 10 (drop off f) = [0x08, 0x06, 0x00, 0x01, 0x08, 0x00, 6, 4, 0x00, op])
      \<longleftrightarrow> (f ! off = 8 \<and> f ! (off + 1) = 6) \<and> P \<and> Q"
    unfolding t P_def Q_def by (simp only: list.inject bex_simps bex_empty simp_thms) blast
  show ?thesis unfolding E A B using True by auto
qed (auto simp: arp_payload_def)

lemma parse_bytes: "map_option fst (parseARPSender f) = Some ip \<longleftrightarrow> arp_sent_by ip f"
proof -
  note u = arp_payload_bytes [of 12 f ip] and t = arp_payload_bytes [of 16 f ip]
  have v: "be16 f 12 = etherTypeVLAN \<longleftrightarrow> f ! 12 = 0x81 \<and> f ! 13 = 0x00"
    using be16_bytes [of f 12 129 0] by (simp add: be_values frame_consts)
  have n: "etherTypeVLAN \<noteq> etherTypeARP" by (simp add: frame_consts)
  show ?thesis
  proof (cases "18 \<le> length f")
    case True
    have d: "take 2 (drop 12 f) = [f ! 12, f ! 13]" using True by (simp add: take_nth numeral_eq_Suc)
    show ?thesis
      using True u t v n d by (auto simp: parseARPSender_def arp_sent_by_def)
  next
    case False
    then show ?thesis by (auto simp: parseARPSender_def arp_sent_by_def arp_payload_def)
  qed
qed

definition sender_of :: "arp_event \<Rightarrow> byte list option" where
  "sender_of e = (case e of Frame f \<Rightarrow> map_option fst (parseARPSender f) | Look \<Rightarrow> None)"

text \<open>\<open>recvLoop\<close> records each parsed frame; \<open>Snapshot\<close> prunes the tracker.\<close>

fun arp_step :: "reachTracker \<Rightarrow> int \<times> arp_event \<Rightarrow> reachTracker" where
  "arp_step m (now, Frame f) = (case parseARPSender f of Some (ip, mac) \<Rightarrow> record_seen ip now m | None \<Rightarrow> m)"
| "arp_step m (now, Look) = snd (reach_within now m)"

definition tracker :: "(int \<times> arp_event) list \<Rightarrow> reachTracker" where
  "tracker hist = foldl arp_step [] hist"

definition heard :: "byte list \<Rightarrow> (int \<times> arp_event) list \<Rightarrow> int list" where
  "heard ip hist = map fst (filter (\<lambda>(_, e). sender_of e = Some ip) hist)"

definition others_since :: "int \<Rightarrow> byte list \<Rightarrow> (int \<times> arp_event) list \<Rightarrow> byte list set" where
  "others_since t ip hist = {k. k \<noteq> ip \<and> (\<exists>(t', e) \<in> set hist. t \<le> t' \<and> sender_of e = Some k)}"

lemma finite_others [simp]: "finite (others_since t ip hist)"
proof (rule finite_subset)
  show "others_since t ip hist \<subseteq> the ` sender_of ` snd ` set hist"
    by (force simp: others_since_def)
qed simp

lemma others_mono: "card (others_since t ip hist) \<le> card (others_since t ip (hist @ es))"
  by (rule card_mono [OF finite_others]) (auto simp: others_since_def)

text \<open>The entry of an address: its last sighting, unless that is out of the window, or so many others
  were heard since that it was evicted.\<close>

definition entry_ok :: "int \<Rightarrow> (int \<times> arp_event) list \<Rightarrow> reachTracker \<Rightarrow> byte list \<Rightarrow> bool" where
  "entry_ok now hist m ip \<longleftrightarrow>
    (case map_of m ip of
       Some t \<Rightarrow> heard ip hist \<noteq> [] \<and> t = last (heard ip hist)
     | None \<Rightarrow> heard ip hist = [] \<or> last (heard ip hist) < now - reachWindow
         \<or> maxReachEntries \<le> card (others_since (last (heard ip hist)) ip hist))"

lemma heard_snoc: "heard ip (hist @ [(t, e)]) = heard ip hist @ (if sender_of e = Some ip then [t] else [])"
  by (simp add: heard_def)

lemma evicted_stalest:
  assumes "distinct (map fst m)" "map_of m ip = Some t" "map_of (evictStalest (\<lambda>t. t) m) ip = None"
  shows "\<forall>(k, v) \<in> set m. t \<le> v"
proof -
  have "m \<noteq> []" using assms(2) by auto
  then obtain k t' where k: "stalest (\<lambda>t. t) m None = Some (k, t')" "(k, t') \<in> set m" "\<forall>(k', v) \<in> set m. t' \<le> v"
    using stalest_Some [OF refl, where m = m and at = "\<lambda>t. t" and acc = None] by fastforce
  have "k = ip" using assms(2,3) by (auto simp: evictStalest_def k(1) delete_conv' split: if_splits)
  then have "t' = t" using k(2) assms(1,2) by simp
  then show ?thesis using k(3) by simp
qed

lemma entry_ok_later:
  assumes "entry_ok T hist m ip" "T \<le> now" "sender_of e \<noteq> Some ip"
  shows "entry_ok now (hist @ [(now, e)]) m ip"
  using assms others_mono [of "last (heard ip hist)" ip hist "[(now, e)]"]
  by (auto simp: entry_ok_def heard_snoc split: option.splits)

lemma record_seen_other:
  assumes "table_ok maxReachEntries m" "k \<noteq> ip" "\<And>x. entry_ok T hist m x" "T \<le> now" "sender_of e = Some k" "\<forall>x \<in> set hist. fst x \<le> T"
  shows "entry_ok now (hist @ [(now, e)]) (record_seen k now m) ip"
proof (cases "map_of m k = None \<and> maxReachEntries \<le> length m \<and> map_of (evictStalest (\<lambda>t. t) m) ip = None
    \<and> map_of m ip \<noteq> None")
  case False
  then have "map_of (record_seen k now m) ip = map_of m ip"
    using evict_map_of [of "\<lambda>t. t" m ip] assms(2)
    by (cases "map_of (evictStalest (\<lambda>t. t) m) ip") (auto simp: record_seen_def touch_def update_conv' split: option.splits)
  moreover have "entry_ok now (hist @ [(now, e)]) m ip"
    using entry_ok_later [OF assms(3) assms(4)] assms(2,5) by simp
  ultimately show ?thesis by (simp add: entry_ok_def)
next
  case True
  then obtain t where t: "map_of m ip = Some t" by auto
  have dist: "distinct (map fst m)" using assms(1) by (simp add: table_ok_def)
  have old: "\<forall>(x, v) \<in> set m. t \<le> v" by (rule evicted_stalest [OF dist t]) (use True in simp)
  have h: "heard ip hist \<noteq> []" "t = last (heard ip hist)" using assms(3) [of ip] t by (simp_all add: entry_ok_def)
  have "t \<in> set (heard ip hist)" using h by simp
  have sub: "insert k (fst ` set m - {ip}) \<subseteq> others_since t ip (hist @ [(now, e)])"
  proof
    fix x assume "x \<in> insert k (fst ` set m - {ip})"
    then consider "x = k" | v where "(x, v) \<in> set m" "x \<noteq> ip" by auto
    then show "x \<in> others_since t ip (hist @ [(now, e)])"
    proof cases
      case 1
      have "t \<le> now" using \<open>t \<in> set (heard ip hist)\<close> assms(4,6) by (auto simp: heard_def)
      then show ?thesis using 1 assms(2,5) by (auto simp: others_since_def)
    next
      case 2
      then have "map_of m x = Some v" using dist by simp
      then have "heard x hist \<noteq> []" "v = last (heard x hist)" using assms(3) [of x] by (simp_all add: entry_ok_def)
      then have "v \<in> set (heard x hist)" by simp
      then obtain e' where "(v, e') \<in> set hist" "sender_of e' = Some x" by (auto simp: heard_def)
      moreover have "t \<le> v" using 2(1) old by blast
      ultimately show ?thesis using 2(2) unfolding others_since_def by fastforce
    qed
  qed
  have "k \<notin> fst ` set m" using True by (simp add: map_of_eq_None_iff)
  moreover have "ip \<in> fst ` set m" using t by (metis map_of_eq_None_iff option.distinct(1))
  ultimately have "card (insert k (fst ` set m - {ip})) = card (fst ` set m)"
    using card_gt_0_iff [of "fst ` set m"] by (auto simp: card_Diff_singleton)
  also have "\<dots> = length m" using dist by (metis distinct_card length_map set_map)
  finally have "maxReachEntries \<le> card (others_since t ip (hist @ [(now, e)]))"
    using True card_mono [OF finite_others sub] by simp
  then show ?thesis
    using h True assms(2,5) by (auto simp: entry_ok_def heard_snoc record_seen_def touch_def update_conv' split: option.splits)
qed

lemma map_of_within:
  "distinct (map fst m) \<Longrightarrow> map_of (snd (reach_within now m)) k
    = (case map_of m k of Some t \<Rightarrow> if t < now - reachWindow then None else Some t | None \<Rightarrow> None)"
proof -
  have "snd (reach_within now m) = filter (\<lambda>(_, t). \<not> t < now - reachWindow) m" by (simp add: reach_within_def Let_def)
  then show "distinct (map fst m) \<Longrightarrow> ?thesis"
    using map_of_filter_value [of m "\<lambda>t. \<not> t < now - reachWindow" k]
    by (simp del: map_of_eq_Some_iff split: option.splits)
qed

lemma within_table_ok: "table_ok n m \<Longrightarrow> table_ok n (snd (reach_within now m))"
  unfolding table_ok_def reach_within_def Let_def snd_conv
  by (auto intro: distinct_map_filter order_trans [OF length_filter_le])

lemma entry_ok_mono: "entry_ok T hist m ip \<Longrightarrow> T \<le> now \<Longrightarrow> entry_ok now hist m ip"
  by (auto simp: entry_ok_def split: option.splits)

lemma reach_step:
  assumes "table_ok maxReachEntries m" "T \<le> now" "\<And>k. entry_ok T hist m k" "\<forall>x \<in> set hist. fst x \<le> T"
  shows "table_ok maxReachEntries (arp_step m (now, e)) \<and> entry_ok now (hist @ [(now, e)]) (arp_step m (now, e)) ip"
proof (cases "sender_of e")
  case None
  note later = entry_ok_later [OF assms(3,2), of e ip]
  show ?thesis
  proof (cases e)
    case (Frame f)
    then show ?thesis using None later assms(1) by (simp add: sender_of_def)
  next
    case Look
    have "distinct (map fst m)" using assms(1) by (simp add: table_ok_def)
    from map_of_within [OF this, of now ip] show ?thesis
      using later None Look assms(1)
      by (auto simp: entry_ok_def within_table_ok heard_snoc split: option.splits if_splits)
  qed
next
  case (Some k)
  then obtain f mac where f: "e = Frame f" "parseARPSender f = Some (k, mac)"
    by (auto simp: sender_of_def split: arp_event.splits)
  then have s: "arp_step m (now, e) = record_seen k now m" by simp
  have "table_ok maxReachEntries (record_seen k now m)"
    unfolding record_seen_def using assms(1) by (rule touch_table_ok) (simp add: maxReachEntries_def)
  moreover have "entry_ok now (hist @ [(now, e)]) (record_seen k now m) ip"
  proof (cases "k = ip")
    case True
    then show ?thesis
      using touch_key [of maxReachEntries "\<lambda>t. t" now "\<lambda>_. now" ip m] Some
      by (simp add: entry_ok_def record_seen_def heard_snoc)
  next
    case False
    then show ?thesis using record_seen_other [OF assms(1) _ assms(3,2) Some assms(4)] by blast
  qed
  ultimately show ?thesis unfolding s by blast
qed

lemma tracker_ok:
  "sorted (map fst hist) \<Longrightarrow> \<forall>x \<in> set hist. fst x \<le> now
    \<Longrightarrow> table_ok maxReachEntries (tracker hist) \<and> entry_ok now hist (tracker hist) ip"
proof (induction hist arbitrary: now ip rule: rev_induct)
  case Nil
  then show ?case by (simp add: tracker_def table_ok_def entry_ok_def heard_def)
next
  case (snoc x hist)
  obtain T e where x: "x = (T, e)" by fastforce
  have h: "sorted (map fst hist)" "\<forall>y \<in> set hist. fst y \<le> T" using snoc.prems(1) x by (auto simp: sorted_append)
  have st: "tracker (hist @ [(T, e)]) = arp_step (tracker hist) (T, e)" by (simp add: tracker_def)
  have "table_ok maxReachEntries (arp_step (tracker hist) (T, e)) \<and> entry_ok T (hist @ [(T, e)]) (arp_step (tracker hist) (T, e)) ip"
  proof (rule reach_step)
    show "table_ok maxReachEntries (tracker hist)" using snoc.IH [OF h] by blast
    show "entry_ok T hist (tracker hist) k" for k using snoc.IH [OF h] by blast
  qed (use h(2) in simp_all)
  moreover have "T \<le> now" using snoc.prems(2) x by simp
  ultimately show ?case
    using entry_ok_mono [of T "hist @ [(T, e)]" "arp_step (tracker hist) (T, e)" ip now]
    unfolding x st by blast
qed

text \<open>A frame sent by an address, among the events of a history.\<close>

lemma sender_iff: "sender_of e = Some ip \<longleftrightarrow> (\<exists>f. e = Frame f \<and> arp_sent_by ip f)"
  using parse_bytes by (auto simp: sender_of_def split: arp_event.splits)

lemma heard_iff: "t \<in> set (heard ip hist) \<longleftrightarrow> (\<exists>f. (t, Frame f) \<in> set hist \<and> arp_sent_by ip f)"
  by (force simp: heard_def sender_iff)

lemma heard_last:
  assumes "sorted (map fst hist)" "t \<in> set (heard ip hist)"
  shows "heard ip hist \<noteq> [] \<and> t \<le> last (heard ip hist)"
proof -
  have "sorted (heard ip hist)" unfolding heard_def using assms(1) by (rule sorted_filter)
  then show ?thesis using assms(2) by (cases "heard ip hist" rule: rev_cases) (auto simp: sorted_append)
qed

text \<open>C40: The online dots are sound and a flood cannot put them out: an address is reported
  online only when some received frame of the last 30 seconds is an ARP request or reply with that
  address as its sender, by the frame's bytes; an address such a frame came from is reported unless at
  least 1024 other sender addresses have been heard since then; and the tracker never holds more than
  1024 entries, whatever arrives.\<close>

theorem online_sound:
  assumes "sorted (map fst hist)" "\<forall>x \<in> set hist. fst x \<le> now"
  shows "list_all (\<lambda>s. \<exists>ip t f. s = ip_String ip \<and> (t, Frame f) \<in> set hist \<and> arp_sent_by ip f \<and> now - 30 * 1000000000 \<le> t)
      (fst (reach_within now (tracker hist)))
    \<and> (\<forall>t f. (t, Frame f) \<in> set hist \<and> arp_sent_by ip f \<and> now - 30 * 1000000000 \<le> t
        \<and> card {k. k \<noteq> ip \<and> (\<exists>t' f'. (t', Frame f') \<in> set hist \<and> t \<le> t' \<and> arp_sent_by k f')} < 1024
        \<longrightarrow> ip_String ip \<in> set (fst (reach_within now (tracker hist))))
    \<and> length (tracker hist) \<le> 1024"
proof -
  have t: "table_ok maxReachEntries (tracker hist)" "entry_ok now hist (tracker hist) k" for k
    using tracker_ok [OF assms] by blast+
  then have d: "distinct (map fst (tracker hist))" by (simp add: table_ok_def)
  have "\<exists>ip t f. s = ip_String ip \<and> (t, Frame f) \<in> set hist \<and> arp_sent_by ip f \<and> now - 30 * 1000000000 \<le> t"
    if s: "s \<in> set (fst (reach_within now (tracker hist)))" for s
  proof -
    obtain k ts where k: "(k, ts) \<in> set (tracker hist)" "\<not> ts < now - reachWindow" "s = ip_String k"
      using s by (auto simp: reach_within_def Let_def)
    then have "map_of (tracker hist) k = Some ts" using d by simp
    then have "ts \<in> set (heard k hist)" using t(2) [of k] by (auto simp: entry_ok_def)
    then obtain f where "(ts, Frame f) \<in> set hist" "arp_sent_by k f" by (auto simp: heard_iff)
    then show ?thesis using k(2,3) unfolding reachWindow_def by (intro exI [of _ k] exI [of _ ts] exI [of _ f]) simp
  qed
  moreover have "ip_String ip \<in> set (fst (reach_within now (tracker hist)))"
    if h: "(t0, Frame f) \<in> set hist" "arp_sent_by ip f" "now - 30 * 1000000000 \<le> t0"
      "card {k. k \<noteq> ip \<and> (\<exists>t' f'. (t', Frame f') \<in> set hist \<and> t0 \<le> t' \<and> arp_sent_by k f')} < 1024" for t0 f
  proof -
    have m: "t0 \<in> set (heard ip hist)" using h by (auto simp: heard_iff)
    then have l: "heard ip hist \<noteq> []" "t0 \<le> last (heard ip hist)" using heard_last [OF assms(1) m] by auto
    have o: "others_since t0 ip hist = {k. k \<noteq> ip \<and> (\<exists>t' f'. (t', Frame f') \<in> set hist \<and> t0 \<le> t' \<and> arp_sent_by k f')}"
      by (force simp: others_since_def sender_iff)
    have "card (others_since (last (heard ip hist)) ip hist) \<le> card (others_since t0 ip hist)"
      by (rule card_mono [OF finite_others]) (use l(2) in \<open>auto simp: others_since_def intro: order_trans [OF l(2)]\<close>)
    then have "card (others_since (last (heard ip hist)) ip hist) < 1024" using h(4) o by simp
    then have "map_of (tracker hist) ip = Some (last (heard ip hist))"
      using t(2) [of ip] l h(3) by (auto simp: entry_ok_def maxReachEntries_def reachWindow_def split: option.splits)
    then have "(ip, last (heard ip hist)) \<in> set (tracker hist)" by (rule map_of_SomeD)
    then show ?thesis using h(3) l(2) by (force simp: reach_within_def reachWindow_def Let_def)
  qed
  ultimately show ?thesis using t(1) by (auto simp: list_all_iff table_ok_def maxReachEntries_def)
qed

definition ex_hist :: "(int \<times> arp_event) list" where
  "ex_hist = [(1, Frame (buildARPRequest [2, 0, 0, 0, 0, 1] [10, 0, 0, 5] [10, 0, 0, 1])),
     (20000000000, Frame (buildARPRequest [2, 0, 0, 0, 0, 2] [10, 0, 0, 6] [10, 0, 0, 1])),
     (20000000001, Frame [1, 2, 3])]"

lemma online_sound_witness:
  "''10.0.0.6'' \<in> set (fst (reach_within 40000000000 (tracker ex_hist)))
    \<and> ''10.0.0.5'' \<notin> set (fst (reach_within 40000000000 (tracker ex_hist)))"
proof -
  let ?f = "buildARPRequest [2, 0, 0, 0, 0, 2] [10, 0, 0, 6] [10, 0, 0, 1]"
  have h: "sorted (map fst ex_hist)" "list_all (\<lambda>x. fst x \<le> 40000000000) ex_hist" "ip_String [10, 0, 0, 6] = ''10.0.0.6''"
    "fst (reach_within 40000000000 (tracker ex_hist)) = [''10.0.0.6'']" by code_simp+
  have "map_option fst (parseARPSender ?f) = Some [10, 0, 0, 6]" by code_simp
  then have s: "arp_sent_by k ?f \<longleftrightarrow> k = [10, 0, 0, 6]" for k using parse_bytes [of ?f k] by auto
  have "parseARPSender [1, 2, 3] = None" by code_simp
  then have n: "\<not> arp_sent_by k [1, 2, 3]" for k using parse_bytes [of "[1, 2, 3]" k] by simp
  have m: "(20000000000, Frame ?f) \<in> set ex_hist" by (simp add: ex_hist_def)
  have "\<forall>x \<in> set ex_hist. fst x \<le> 40000000000" using h(2) by (simp add: list_all_iff)
  note online_sound [OF h(1) this, of "[10, 0, 0, 6]", THEN conjunct2, THEN conjunct1, THEN spec, THEN spec, of 20000000000 ?f]
  moreover have "{k. k \<noteq> [10, 0, 0, 6] \<and> (\<exists>t' f'. (t', Frame f') \<in> set ex_hist \<and> 20000000000 \<le> t' \<and> arp_sent_by k f')} = {}"
    using s n by (auto simp: ex_hist_def)
  ultimately have "''10.0.0.6'' \<in> set (fst (reach_within 40000000000 (tracker ex_hist)))"
    using m s h(3) by simp
  then show ?thesis using h(4) by simp
qed

section \<open>The on-demand probe\<close>

text \<open>\<open>probeWaiters\<close>: the waiting channel of each target address; a channel is a number, its
  one-place buffer the address delivered.\<close>

record probeWaiters =
  pw_m :: "(byte list \<times> nat) list"
  pw_next :: nat
  pw_box :: "(nat \<times> byte list) list"

definition register :: "byte list \<Rightarrow> probeWaiters \<Rightarrow> nat \<times> probeWaiters" where
  "register ip p = (pw_next p, p\<lparr>pw_m := AList.update ip (pw_next p) (pw_m p), pw_next := Suc (pw_next p)\<rparr>)"

definition unregister :: "byte list \<Rightarrow> nat \<Rightarrow> probeWaiters \<Rightarrow> probeWaiters" where
  "unregister ip ch p = (if map_of (pw_m p) ip = Some ch then p\<lparr>pw_m := AList.delete ip (pw_m p)\<rparr> else p)"

definition deliver :: "byte list \<Rightarrow> byte list \<Rightarrow> probeWaiters \<Rightarrow> probeWaiters" where
  "deliver ip mac p =
    (case map_of (pw_m p) ip of None \<Rightarrow> p
     | Some ch \<Rightarrow> (let p = p\<lparr>pw_m := AList.delete ip (pw_m p)\<rparr> in
         if map_of (pw_box p) ch = None then p\<lparr>pw_box := AList.update ch mac (pw_box p)\<rparr> else p))"

definition receive :: "probeWaiters \<Rightarrow> byte list \<Rightarrow> probeWaiters" where
  "receive p f = (case parseARPSender f of Some (ip, mac) \<Rightarrow> deliver ip mac p | None \<Rightarrow> p)"

text \<open>\<open>ProbeHost\<close>: \<open>frames\<close> are those received between the request and the timeout.\<close>

definition probeHost :: "bool \<Rightarrow> nat \<Rightarrow> string \<Rightarrow> byte list list \<Rightarrow> probeWaiters \<Rightarrow> byte list option \<times> probeWaiters" where
  "probeHost available runners ipStr frames p =
    (case ipv4Bytes ipStr of None \<Rightarrow> (None, p)
     | Some ip \<Rightarrow>
         if \<not> available \<or> runners = 0 then (None, p)
         else (let (ch, p) = register ip p; p = foldl receive p frames in
           (map_of (pw_box p) ch, unregister ip ch p)))"

definition pw_ok :: "probeWaiters \<Rightarrow> bool" where
  "pw_ok p \<longleftrightarrow> (\<forall>k c. map_of (pw_m p) k = Some c \<longrightarrow> c < pw_next p) \<and> (\<forall>c. pw_next p \<le> c \<longrightarrow> map_of (pw_box p) c = None)"

text \<open>A channel nobody waits on any more keeps what it holds; while only \<open>ip\<close> waits on an empty
  channel, it takes the first frame of \<open>ip\<close>.\<close>

lemma deliver_done:
  "\<forall>k. map_of (pw_m p) k \<noteq> Some ch
    \<Longrightarrow> map_of (pw_box (deliver k' mac p)) ch = map_of (pw_box p) ch \<and> (\<forall>k. map_of (pw_m (deliver k' mac p)) k \<noteq> Some ch)"
  by (auto simp: deliver_def Let_def update_conv' delete_conv' split: option.splits)

lemma receive_done:
  "\<forall>k. map_of (pw_m p) k \<noteq> Some ch \<Longrightarrow> map_of (pw_box (foldl receive p fs)) ch = map_of (pw_box p) ch"
proof (induction fs arbitrary: p)
  case (Cons f fs)
  have "map_of (pw_box (receive p f)) ch = map_of (pw_box p) ch \<and> (\<forall>k. map_of (pw_m (receive p f)) k \<noteq> Some ch)"
    using deliver_done [OF Cons.prems] Cons.prems by (auto simp: receive_def split: option.splits)
  then show ?case using Cons.IH [of "receive p f"] by simp
qed simp

definition first_from :: "byte list \<Rightarrow> byte list list \<Rightarrow> byte list option" where
  "first_from ip fs = map_option snd (find (\<lambda>s. fst s = ip) (List.map_filter parseARPSender fs))"

lemma receive_waiting:
  assumes "map_of (pw_m p) ip = Some ch" "\<forall>k. k \<noteq> ip \<longrightarrow> map_of (pw_m p) k \<noteq> Some ch" "map_of (pw_box p) ch = None"
  shows "map_of (pw_box (foldl receive p fs)) ch = first_from ip fs"
  using assms
proof (induction fs arbitrary: p)
  case (Cons f fs)
  show ?case
  proof (cases "parseARPSender f")
    case None
    then show ?thesis using Cons by (simp add: receive_def first_from_def map_filter_simps)
  next
    case (Some s)
    obtain k mac where s: "s = (k, mac)" by fastforce
    show ?thesis
    proof (cases "k = ip")
      case True
      have "\<forall>k. map_of (pw_m (receive p f)) k \<noteq> Some ch" "map_of (pw_box (receive p f)) ch = Some mac"
        using Cons.prems Some s True by (auto simp: receive_def deliver_def Let_def update_conv' delete_conv')
      then show ?thesis
        using receive_done [of "receive p f" ch fs] Some s True by (simp add: first_from_def map_filter_simps)
    next
      case False
      have "map_of (pw_m (receive p f)) ip = Some ch" "\<forall>k. k \<noteq> ip \<longrightarrow> map_of (pw_m (receive p f)) k \<noteq> Some ch"
        "map_of (pw_box (receive p f)) ch = None"
        using Cons.prems Some s False
        by (auto simp: receive_def deliver_def Let_def update_conv' delete_conv' split: option.splits)
      then show ?thesis
        using Cons.IH [of "receive p f"] Some s False by (simp add: first_from_def map_filter_simps)
    qed
  qed
qed (simp add: first_from_def map_filter_simps)

text \<open>An on-demand probe answers with the hardware address of the first frame its target sends, and
  with nothing when the target is silent; without a socket it does not answer.\<close>

lemma probeHost_answer:
  assumes "pw_ok p"
  shows "fst (probeHost available runners s frames p) =
    (case ipv4Bytes s of None \<Rightarrow> None | Some ip \<Rightarrow> if available \<and> runners \<noteq> 0 then first_from ip frames else None)"
proof (cases "ipv4Bytes s")
  case (Some ip)
  have "map_of (pw_box (foldl receive (snd (register ip p)) frames)) (pw_next p) = first_from ip frames"
    by (rule receive_waiting) (use assms in \<open>auto simp: register_def pw_ok_def update_conv'\<close>)
  then show ?thesis using Some by (simp add: probeHost_def Let_def register_def)
qed (simp add: probeHost_def)

section \<open>The prober\<close>

record ARPSpec =
  as_Iface :: string
  as_SrcIP :: "byte list"
  as_SrcMAC :: "byte list"
  as_Sweep :: "SweepRange list"

record Prober =
  pb_running :: "ARPSpec list"
  pb_available :: bool
  pb_tracker :: reachTracker

definition prober_Stop :: "Prober \<Rightarrow> Prober" where
  "prober_Stop p = p\<lparr>pb_running := [], pb_available := False\<rparr>"

text \<open>\<open>opens\<close>: the socket of a spec opens.\<close>

definition start_spec :: "(ARPSpec \<Rightarrow> bool) \<Rightarrow> Prober \<Rightarrow> ARPSpec \<Rightarrow> Prober" where
  "start_spec opens p sp =
    (if as_Iface sp = ''wlan0'' then p
     else if \<not> opens sp then p
     else p\<lparr>pb_running := pb_running p @ [sp], pb_available := True\<rparr>)"

definition prober_Start :: "(ARPSpec \<Rightarrow> bool) \<Rightarrow> ARPSpec list \<Rightarrow> Prober \<Rightarrow> Prober" where
  "prober_Start opens specs p = foldl (start_spec opens) (prober_Stop p) specs"

definition prober_Snapshot :: "int \<Rightarrow> Prober \<Rightarrow> (string list \<times> bool) \<times> Prober" where
  "prober_Snapshot now p = (let (ips, m) = reach_within now (pb_tracker p) in ((ips, pb_available p), p\<lparr>pb_tracker := m\<rparr>))"

text \<open>A start replaces the running set, never probes the uplink, and claims to be available only when
  it probes something.\<close>

lemma prober_Start_running:
  "pb_running (prober_Start opens specs p) = filter (\<lambda>sp. as_Iface sp \<noteq> ''wlan0'' \<and> opens sp) specs
    \<and> (pb_available (prober_Start opens specs p) \<longleftrightarrow> pb_running (prober_Start opens specs p) \<noteq> [])"
proof -
  have "pb_running (foldl (start_spec opens) q specs) = pb_running q @ filter (\<lambda>sp. as_Iface sp \<noteq> ''wlan0'' \<and> opens sp) specs
    \<and> (pb_available (foldl (start_spec opens) q specs) \<longleftrightarrow>
        pb_available q \<or> filter (\<lambda>sp. as_Iface sp \<noteq> ''wlan0'' \<and> opens sp) specs \<noteq> [])" for q
    by (induction specs arbitrary: q) (auto simp: start_spec_def)
  then show ?thesis by (simp add: prober_Start_def prober_Stop_def)
qed

end
