(* ===== verification/Spec2Isabelle.thy ===== *)
theory Spec2Isabelle
  imports DevicePools MonitorSafety Guard Hostnames WebGate ArpScan
begin

text \<open>
  Verification development of ggo-kea-dhcp, the appliance that runs a Kea DHCP server, a DNS
  server and a passive network monitor for a Green-GO intercom network.

  \<^bold>\<open>The program.\<close>  The control plane is a SQLite store (profiles, scopes, the
  \<open>app_state\<close> table) behind a web server.  \<open>internal/web\<close> handlers take a
  process-wide guard, write the store, and start a background job;
  \<open>internal/appliance/reconciler.go\<close> turns the store into network interfaces and a
  Kea configuration and owns the lifecycle state (FACTORY, ONBOARDING, CONFIGURING, ACTIVE).
  \<open>internal/kea\<close> lays out the address pools of a scope and renders the configuration.
  \<open>internal/dns\<close> serves the device names and forwards the rest.
  \<open>internal/netmon\<close> watches the wire through a BPF filter and a set of detectors; what
  they find is shown to the operator, who may stand the DHCP server down.

  \<^bold>\<open>Theories and sources.\<close>
  \<^item> Prelude, GoNet: Go's \<open>int\<close>, big-endian words, and the parts of the standard
    library the code rests on (\<open>strings\<close>, \<open>strconv\<close>, \<open>net.ParseIP\<close>,
    \<open>net.ParseCIDR\<close>) on byte strings.
  \<^item> KeaAddr, KeaLayout (\<open>kea/addr.go\<close>, \<open>kea/layout.go\<close>): the pool allocator.
    \<open>LayoutPools\<close> is the composition of the code's passes (pinned pools, gaps, sizes,
    placement); addresses are 32-bit words, sizes the 64-bit \<open>int\<close> with its wrap-around.
  \<^item> KeaClasses (\<open>kea/classes.go\<close>, \<open>kea/vendors.go\<close>): device classes, the texts of
    their Kea tests and an evaluator for them.
  \<^item> KeaRender, KeaProfile, KeaModes (\<open>kea/renderer.go\<close>, \<open>kea/profile.go\<close>): the
    rendered configuration of the active profile, of onboarding, of the fallback and of a stand-down.
  \<^item> ScopePlan, Identity, Rebalance, Remap (\<open>appliance/scope.go\<close>, \<open>identity.go\<close>,
    \<open>pinning.go\<close>, \<open>rebalance.go\<close>, \<open>remap.go\<close>, \<open>db/mariadb.go\<close>): what a
    scope stores, the identity of a switch port, leases to release, reservations to move.
    DevicePools composes the seed plan, the allocator, the renderer and the class tests.
  \<^item> Appliance, Reconciler (\<open>appliance/reconciler.go\<close>, \<open>standdown.go\<close>,
    \<open>recover.go\<close>, \<open>monitor.go\<close>, \<open>settings.go\<close>, \<open>db/sqlite.go\<close>): the record
    \<open>Box\<close> holds the store, the flags and the trace of calls; every call of the outside
    (a subprocess, a socket, a file, a statement) is a \<open>call\<close> whose outcome the
    environment \<open>Env\<close> decides from the trace, so a theorem over all environments covers every
    combination of failures.  The passes are programs of the library's state monad.
  \<^item> Lifecycle: what those passes promise.  ProfileApply, ApplySafety
    (\<open>web/profile_apply.go\<close>, \<open>profile_switch.go\<close>): an apply, its roll-back, its errors.
    StandDown (\<open>web/standdown.go\<close>, \<open>netmon/snapshot.go\<close>): the stand-down handlers and
    their jobs.  Guard: requests and jobs interleaved in any order as an inductive step relation.
  \<^item> DnsMessage, DnsZone, DnsServer (\<open>dns/message.go\<close>, \<open>zone.go\<close>, \<open>dns.go\<close>,
    \<open>resolv.go\<close>): the wire format on byte lists, the zone, the query handler, the
    forwarder's limits and checks, TCP framing, the set of listeners.
  \<^item> NetFrame, Bpf (\<open>netmon/frame.go\<close>, \<open>bpf.go\<close>): frame accessors, the filter
    assembler and a BPF machine that runs the assembled program.
  \<^item> Presence, DhcpDetectors, StaticPool, LinkDetectors (\<open>netmon/detector.go\<close>,
    \<open>event.go\<close> and the \<open>detect_*.go\<close> files): the detectors as explicit state with
    \<open>Consume\<close>, \<open>Tick\<close> and \<open>Snapshot\<close>.
  \<^item> GreenGoConfig, GreenGoCensus (\<open>netmon/detect_greengo_h.go\<close>,
    \<open>detect_greengo.go\<close>): the Green-GO announcement and its decoder, the watch over the
    configurations on the wire, the census of the devices and the card it shows.
  \<^item> Monitor, FrameClock, MonitorSafety (\<open>netmon/monitor.go\<close>): the worker's
    dispatch with its recovered panics, the offset of the frame clock, the capture loop, its
    restarts with back-off, and which interfaces are watched.
  \<^item> Hostnames (\<open>web/hostnames.go\<close>, \<open>ggohealth.go\<close>, \<open>dnszone.go\<close>): the funnel
    that turns device names into DNS labels, the zone built from the scan, the leases and the
    reservations, and the gate that orders the installs of zones.
  \<^item> LoginThrottle, WebGate (\<open>web/loginthrottle.go\<close>, \<open>auth.go\<close>, \<open>middleware.go\<close>,
    \<open>account.go\<close>, \<open>routes.go\<close>, \<open>handleFactorySetup\<close> of \<open>wizard.go\<close>): the back-off on failed
    logins, the gate and the routing in front of every handler, sessions, accounts and the first administrator.
    PBKDF2 and \<open>url.Parse\<close> are arguments; each database statement has an outcome of its own.
  \<^item> ArpScan (\<open>arpscan/arp.go\<close>, \<open>prober.go\<close>): the who-has frame, the parser and the capped
    tracker behind the online dots, the probe cycle with its rotating sweep, the on-demand probe.

  \<^bold>\<open>Interfaces.\<close>  Locales state the contracts that several operations share, and
  each is interpreted on the code's own definitions: an edge-triggered alarm and its alternation
  (\<open>edge_trigger\<close>, \<open>alarm\<close>), a window limit (the DNS rate limits), the preserved facts
  of the stand-down and of the guard (\<open>still\<close>, \<open>held\<close>), among others.

  \<^bold>\<open>What the lemmas show.\<close>  The allocator never overlaps pools or leaves the subnet;
  the dashboard and Kea agree on every MAC; a topology that passes validation has disjoint scopes;
  an apply is all or nothing and gives the guard back; an interrupted apply ends; a stood-down box
  serves nothing and its flag is the truth unless a write of the flag itself failed; at most one job
  holds the guard; no configuration goes live untested; the DNS server answers only well-formed
  messages and leaks no private zone; the filter passes exactly what the detectors want; alerts
  alternate with their clearance and are justified by what was seen; an announcement decodes to
  what was encoded; the census card and the event log agree; an interval in which the monitor was
  blind does not age what was heard before it; a detector that panics leaves the others as they would be
  without it; the restart loop of a failing capture ends and says so; only a served interface is ever
  watched. Device labels are unique and a leased device's label resolves to its lease; no request
  reaches a handler without the session, token or origin its state asks for, unless the read of that state
  failed; a session ends twelve hours after its login; the throttle makes each source wait as its own
  failures deserve; an address is shown online only after an ARP frame of its own, and the sweep asks for
  every address of the pools. Where the code falls short of its comments, a lemma exhibits the case and
  the manifest lists it as a finding.

  \<^bold>\<open>Bounds and fuel.\<close>  Fuel occurs only where the code loops over data that shrinks or
  under a fixed limit: the trimming of white space (its length), the name decoder (a lexicographic
  measure of its jump and length limits, no fuel; \<open>decode_rounds\<close> counts its iterations and 144 are enough), the
  numbering of colliding labels (it ends because each candidate is new, bounded by the number of names),
  the fixpoint of the remap planner (the number of
  movers, each round removing one).  The allocator's \<open>fit_loop\<close> runs through the 31 prefix
  lengths at most.  The monitor gives up on an interface after the code's own five faults, with
  pauses from 0.5 to 4 seconds, so its restart loop needs no other fuel.  Time is the clock of the frame or tick that is processed, an \<open>int\<close> of
  nanoseconds or seconds as in the code.

  \<^bold>\<open>Not modelled.\<close>  Sockets, subprocesses, SQL and goroutine scheduling appear as
  outcomes and as interleaved steps only.  The opening of
  the capture socket and the decoding layers of gopacket, the rogue, trunk and Green-GO active probes,
  the page models and templates, the CSV import, backup and
  update tools are not modelled: they are I/O, presentation, or rest on third-party packages
  (templ, gopacket); the manifest lists each with its reason.  A failed reload of Kea is taken to leave its
  running configuration as it was, and a write of its file to be whole or not done.  Map iteration is the order of
  an association list, and the theorems hold for every such order.
\<close>

end
